(* ===== verification/Prelude.thy ===== *)
theory Prelude
  imports Main "HOL-Library.Word"
begin

text \<open>
  Shared ground of the development: the machine types of the C code, the outcome type of
  operations that can fault, loops in that outcome type, and the bit-mask vocabulary on which
  the packet-burst code of librte_pipeline, librte_table and librte_port rests (population
  count, count of trailing and leading zeros, the positions of the set bits of a 64-bit mask,
  and the contiguous-mask test \<open>mask & (mask + 1) == 0\<close>).
\<close>

unbundle bit_operations_syntax

named_theorems res_simps \<open>equations that run the outcome type\<close>
named_theorems mask_simps \<open>positions of the set bits of a mask\<close>

section \<open>Machine types and error numbers\<close>

type_synonym u8 = "8 word"
type_synonym u16 = "16 word"
type_synonym u32 = "32 word"
type_synonym u64 = "64 word"

abbreviation (input) EINVAL :: int where "EINVAL \<equiv> 22"
abbreviation (input) ENOMEM :: int where "ENOMEM \<equiv> 12"
abbreviation (input) ENOSPC :: int where "ENOSPC \<equiv> 28"
abbreviation (input) ERANGE :: int where "ERANGE \<equiv> 34"
abbreviation (input) ENOENT :: int where "ENOENT \<equiv> 2"
abbreviation (input) E2BIG :: int where "E2BIG \<equiv> 7"
abbreviation (input) ENOBUFS :: int where "ENOBUFS \<equiv> 105"

text \<open>The largest burst, which is the size of the arrays that hold one.\<close>

abbreviation (input) RTE_PORT_IN_BURST_SIZE_MAX :: nat where "RTE_PORT_IN_BURST_SIZE_MAX \<equiv> 64"

section \<open>Outcomes: values or faults\<close>

text \<open>
  A C operation that is used outside its contract does not return a value. The model records
  which way it goes wrong: a call through, or a read of, a NULL pointer; an array index out of
  range; freeing a pointer that was never set, or not allocated; \<open>rte_panic\<close>; the overflow of a
  signed integer; and, for a loop whose end is not
  evident from the code, that the number of iterations allowed to the model ran out.
\<close>

datatype fault = NullDeref | OutOfBounds | BadFree | Panic | Overflow | OutOfFuel

type_synonym 'a res = "fault + 'a"

definition rbind :: "'a res \<Rightarrow> ('a \<Rightarrow> 'b res) \<Rightarrow> 'b res" where
  "rbind m f = (case m of Inl e \<Rightarrow> Inl e | Inr x \<Rightarrow> f x)"

lemma rbind_Inl [simp, res_simps]: "rbind (Inl e) f = Inl e"
  by (simp add: rbind_def)

lemma rbind_Inr [simp, res_simps]: "rbind (Inr x) f = f x"
  by (simp add: rbind_def)

lemma rbind_Inr_right [simp]: "rbind m Inr = m"
  by (cases m) simp_all

lemma rbind_assoc: "rbind (rbind m f) g = rbind m (\<lambda>x. rbind (f x) g)"
  by (cases m) simp_all

lemma rbind_eq_InrE:
  assumes "rbind m f = Inr y"
  obtains x where "m = Inr x" and "f x = Inr y"
  using assms by (cases m) auto

lemma rbind_cong [fundef_cong]:
  "m = m' \<Longrightarrow> (\<And>x. m' = Inr x \<Longrightarrow> f x = f' x) \<Longrightarrow> rbind m f = rbind m' f'"
  by (cases m') auto

text \<open>A C \<open>for\<close> loop over a list of indices, stopped by the first fault.\<close>

primrec rfold :: "('i \<Rightarrow> 's \<Rightarrow> 's res) \<Rightarrow> 'i list \<Rightarrow> 's \<Rightarrow> 's res" where
  "rfold f [] s = Inr s"
| "rfold f (i # is) s = rbind (f i s) (rfold f is)"

lemma rfold_append: "rfold f (xs @ ys) s = rbind (rfold f xs s) (rfold f ys)"
  by (induction xs arbitrary: s) (auto simp: rbind_def split: sum.split)

lemma rfold_cong [fundef_cong]:
  assumes "xs = ys" and "s = t" and "\<And>i s. i \<in> set ys \<Longrightarrow> f i s = g i s"
  shows "rfold f xs s = rfold g ys t"
  unfolding assms(1,2) using assms(3)
proof (induction ys arbitrary: t)
  case Nil
  then show ?case by simp
next
  case (Cons y ys)
  then show ?case by (auto intro: rbind_cong)
qed

text \<open>A loop body that does nothing for some indices is a loop over the other indices.\<close>

lemma rfold_guard:
  "rfold (\<lambda>i s. if P i then f i s else Inr s) xs s = rfold f (filter P xs) s"
  by (induction xs arbitrary: s) (auto simp: rbind_def split: sum.split)

text \<open>An invariant of the state that every iteration keeps.\<close>

lemma rfold_inv:
  assumes "rfold f xs s = Inr t" and "I s"
    and "\<And>i s t. i \<in> set xs \<Longrightarrow> I s \<Longrightarrow> f i s = Inr t \<Longrightarrow> I t"
  shows "I t"
  using assms
proof (induction xs arbitrary: s)
  case Nil
  then show ?case by simp
next
  case (Cons x xs)
  from Cons.prems(1) obtain u where u: "f x s = Inr u" and r: "rfold f xs u = Inr t"
    by (auto elim: rbind_eq_InrE)
  have "I u" using Cons.prems(2,3) u by (meson list.set_intros(1))
  with r show ?case using Cons.prems(3) by (intro Cons.IH) auto
qed

text \<open>A loop none of whose iterations faults does not fault.\<close>

lemma rfold_total:
  assumes "I s" and "\<And>i s. i \<in> set xs \<Longrightarrow> I s \<Longrightarrow> \<exists>t. f i s = Inr t \<and> I t"
  shows "\<exists>t. rfold f xs s = Inr t \<and> I t"
  using assms
proof (induction xs arbitrary: s)
  case Nil
  then show ?case by simp
next
  case (Cons x xs)
  then obtain t where "f x s = Inr t" "I t" by (meson list.set_intros(1))
  with Cons.IH [of t] Cons.prems(2) show ?case by auto
qed

text \<open>A total loop body makes the loop an ordinary fold.\<close>

lemma rfold_Inr_fold: "rfold (\<lambda>i s. Inr (f i s)) xs s = Inr (fold f xs s)"
  by (induction xs arbitrary: s) simp_all

text \<open>Reading a C array.\<close>

definition arr_at :: "'a list \<Rightarrow> nat \<Rightarrow> 'a res" where
  "arr_at xs i = (if i < length xs then Inr (xs ! i) else Inl OutOfBounds)"

lemma arr_at_Inr [simp]: "i < length xs \<Longrightarrow> arr_at xs i = Inr (xs ! i)"
  by (simp add: arr_at_def)

section \<open>Bit masks\<close>

text \<open>
  The positions of the set bits of a 64-bit mask, lowest first, and the GCC built-ins that the
  burst code uses. \<open>__builtin_ctzll(0)\<close> and \<open>__builtin_clzll(0)\<close> are undefined in C; the
  callers of the model only use the two functions on masks that are not zero.
\<close>

definition bits_of :: "u64 \<Rightarrow> nat list" where
  "bits_of w = filter (bit w) [0..<64]"

definition popcount :: "u64 \<Rightarrow> nat" where
  "popcount w = length (bits_of w)"

definition ctz :: "u64 \<Rightarrow> nat" where
  "ctz w = length (takeWhile (\<lambda>i. \<not> bit w i) [0..<64])"

definition clz :: "u64 \<Rightarrow> nat" where
  "clz w = length (takeWhile (\<lambda>i. \<not> bit w (63 - i)) [0..<64])"

text \<open>\<open>RTE_LEN2MASK(ln, uint64_t)\<close> of rte_common.h, for lengths 1 to 64.\<close>

definition RTE_LEN2MASK :: "nat \<Rightarrow> u64" where
  "RTE_LEN2MASK n = drop_bit (64 - n) (- 1)"

definition bit1 :: "nat \<Rightarrow> u64" where
  "bit1 i = push_bit i 1"

lemma bit_bit1 [simp, mask_simps]: "bit (bit1 i) j \<longleftrightarrow> i = j \<and> j < 64"
  by (auto simp: bit1_def bit_simps)

lemma bit_u64_le: "bit (w::u64) i \<Longrightarrow> i < 64"
  using bit_imp_le_length [of w i] by simp

lemma set_bits_of [simp]: "set (bits_of w) = {i. bit w i}"
  by (auto simp: bits_of_def dest: bit_u64_le)

lemma sorted_bits_of [simp]: "sorted (bits_of w)"
  by (simp add: bits_of_def sorted_wrt_filter)

lemma distinct_bits_of [simp]: "distinct (bits_of w)"
  by (simp add: bits_of_def)

lemma bits_of_eq_Nil_iff [simp]: "bits_of w = [] \<longleftrightarrow> w = 0"
proof
  assume "bits_of w = []"
  then have "\<not> bit w i" for i using set_bits_of [of w] by auto
  then show "w = 0" by (auto intro: bit_word_eqI)
qed (simp add: bits_of_def)

lemma bits_of_0 [simp]: "bits_of 0 = []"
  by (simp only: bits_of_eq_Nil_iff)

lemma u64_nonzeroE:
  assumes "(w::u64) \<noteq> 0"
  obtains i where "bit w i"
  using assms bits_of_eq_Nil_iff [of w] set_bits_of [of w] by (cases "bits_of w") auto

lemma bits_of_eqI: "(\<And>i. i < 64 \<Longrightarrow> bit v i = bit w i) \<Longrightarrow> bits_of v = bits_of w"
  unfolding bits_of_def by (rule filter_cong) auto

lemma and_bit1_eq_0_iff: "bit1 i AND w = 0 \<longleftrightarrow> \<not> bit w i"
proof -
  have "bit (bit1 i AND w) j \<longleftrightarrow> i = j \<and> bit w i" for j
    using bit_u64_le [of w j] by (auto simp: bit_and_iff)
  then show ?thesis by (metis bit_0_eq bit_eqI bot_apply bot_bool_def)
qed

lemma bit_RTE_LEN2MASK [mask_simps]: "bit (RTE_LEN2MASK n) i \<longleftrightarrow> i < n \<and> i < 64"
  by (auto simp: RTE_LEN2MASK_def bit_simps)

lemma bits_of_RTE_LEN2MASK: "n \<le> 64 \<Longrightarrow> bits_of (RTE_LEN2MASK n) = [0..<n]"
proof -
  assume n: "n \<le> 64"
  have "bits_of (RTE_LEN2MASK n) = filter (\<lambda>i. i < n) [0..<64]"
    unfolding bits_of_def by (rule filter_cong) (auto simp: bit_RTE_LEN2MASK)
  also have "\<dots> = filter (\<lambda>i. i < n) ([0..<n] @ [n..<64])"
    using n upt_add_eq_append [of 0 n "64 - n"] by (simp del: upt.simps)
  also have "\<dots> = [0..<n]" by simp
  finally show ?thesis .
qed

subsection \<open>The contiguous-mask test\<close>

lemma nat_and_Suc_eq_0:
  "n AND Suc n = 0 \<Longrightarrow> \<exists>k. n = 2 ^ k - (1::nat)"
proof (induction n rule: less_induct)
  case (less n)
  show ?case
  proof (cases "even n")
    case True
    then have "n AND Suc n = 2 * ((n div 2) AND (n div 2))"
      by (subst and_nat_rec) simp
    with less.prems True show ?thesis by (auto intro: exI [of _ 0])
  next
    case False
    then obtain m where m: "n = 2 * m + 1" by (auto elim: oddE)
    then have "n AND Suc n = 2 * (m AND Suc m)"
      by (subst and_nat_rec) simp
    with less.prems have "m AND Suc m = 0" by simp
    moreover have "m < n" using m by simp
    ultimately obtain k where "m = 2 ^ k - 1" using less.IH by blast
    then have "Suc m = 2 ^ k" by simp
    then have "Suc n = 2 * 2 ^ k" using m by linarith
    then have "n = 2 ^ Suc k - 1" by simp
    then show ?thesis by blast
  qed
qed

lemma contiguous_mask:
  fixes w :: u64
  assumes "w AND (w + 1) = 0"
  shows "\<exists>k\<le>64. w = mask k"
proof (cases "w = - 1")
  case True
  then show ?thesis by (auto intro!: exI [of _ 64] simp: bit_eq_iff bit_simps)
next
  case False
  have lt: "unat w < 2 ^ 64" using unsigned_less [of w, where ?'a = nat] by simp
  have "unat w \<noteq> 2 ^ 64 - 1"
  proof
    assume "unat w = 2 ^ 64 - 1"
    then have "w = of_nat (2 ^ 64 - 1)" by (metis of_nat_unat ucast_id)
    with False show False by simp
  qed
  with lt have suc: "Suc (unat w) < 2 ^ 64" by simp
  then have "unat (w + 1) = Suc (unat w)" by (simp add: unat_word_ariths)
  then have "unat w AND Suc (unat w) = 0"
    using assms by (metis unsigned_0 unsigned_and_eq)
  then obtain k where k: "unat w = 2 ^ k - 1" using nat_and_Suc_eq_0 by blast
  with suc have "(2::nat) ^ k < 2 ^ 64" by simp
  then have "k < 64" using power_less_imp_less_exp [of "2::nat" k 64] by linarith
  moreover have "w = mask k"
    using k by (metis mask_nat_def of_nat_mask_eq of_nat_unat ucast_id)
  ultimately show ?thesis by (auto intro!: exI [of _ k])
qed

lemma bits_of_mask: "k \<le> 64 \<Longrightarrow> bits_of (mask k) = [0..<k]"
proof -
  assume k: "k \<le> 64"
  have "mask k = RTE_LEN2MASK k"
    using k by (auto simp: bit_eq_iff bit_RTE_LEN2MASK bit_simps)
  with k show ?thesis by (simp add: bits_of_RTE_LEN2MASK)
qed

text \<open>
  On a contiguous mask the set bits are the first \<open>popcount\<close> positions: this is what makes
  the fast path of every burst loop equal to its slow path.
\<close>

lemma contiguous_bits_of: "w AND (w + 1) = 0 \<Longrightarrow> bits_of w = [0..<popcount w]"
  using contiguous_mask [of w] by (auto simp: bits_of_mask popcount_def)

subsection \<open>Trailing and leading zeros\<close>

lemma ctz_less:
  assumes "w \<noteq> 0"
  shows "ctz w < 64" and "bit w (ctz w)" and "\<And>i. i < ctz w \<Longrightarrow> \<not> bit w i"
proof -
  let ?P = "\<lambda>i. \<not> bit w i"
  obtain j where j: "bit w j" "j < 64"
    using assms bit_u64_le by (metis bit_eqI bit_0_eq bot_apply bot_bool_def)
  have "takeWhile ?P [0..<64] \<noteq> [0..<64]"
    using j by (metis (full_types) atLeastLessThan_iff set_takeWhileD set_upt zero_le)
  then have len: "length (takeWhile ?P [0..<64]) < length [0..<64]"
    using length_takeWhile_le [of ?P "[0..<64]"] takeWhile_eq_take [of ?P "[0..<64]"]
    by (metis le_neq_implies_less take_all_iff)
  then show lt: "ctz w < 64" by (simp add: ctz_def)
  show "bit w (ctz w)"
    using nth_length_takeWhile [OF len] lt by (simp add: ctz_def)
  show "\<not> bit w i" if "i < ctz w" for i
    using that nth_mem [of i "takeWhile ?P [0..<64]"] takeWhile_nth [of i ?P "[0..<64]"] lt
      set_takeWhileD [of _ ?P "[0..<64]"]
    by (metis add.left_neutral ctz_def diff_zero length_upt less_trans nth_upt)
qed

lemma clz_less:
  assumes "w \<noteq> 0"
  shows "clz w < 64" and "bit w (63 - clz w)" and "\<And>i. 63 - clz w < i \<Longrightarrow> \<not> bit w i"
proof -
  let ?P = "\<lambda>i. \<not> bit w (63 - i)"
  obtain j where j: "bit w j" "j < 64"
    using assms bit_u64_le by (metis bit_eqI bit_0_eq bot_apply bot_bool_def)
  then have "63 - j \<in> set [0..<64]" "\<not> ?P (63 - j)" by simp_all
  then have "takeWhile ?P [0..<64] \<noteq> [0..<64]"
    by (metis (no_types, lifting) set_takeWhileD)
  then have len: "length (takeWhile ?P [0..<64]) < length [0..<64]"
    using length_takeWhile_le [of ?P "[0..<64]"] takeWhile_eq_take [of ?P "[0..<64]"]
    by (metis le_neq_implies_less take_all_iff)
  then show lt: "clz w < 64" by (simp add: clz_def)
  show "bit w (63 - clz w)"
    using nth_length_takeWhile [OF len] lt by (simp add: clz_def)
  show "\<not> bit w i" if "63 - clz w < i" for i
  proof (cases "i < 64")
    case True
    then have "63 - i < clz w" using that lt by simp
    then have "\<not> bit w (63 - (63 - i))"
      using nth_mem [of "63 - i" "takeWhile ?P [0..<64]"]
        takeWhile_nth [of "63 - i" ?P "[0..<64]"] lt
        set_takeWhileD [of _ ?P "[0..<64]"]
      by (metis add.left_neutral clz_def diff_zero length_upt less_trans nth_upt)
    with True show ?thesis by simp
  next
    case False
    then show ?thesis using bit_u64_le by blast
  qed
qed

lemma bits_of_Cons_ctz:
  assumes "w \<noteq> 0"
  shows "bits_of w = ctz w # bits_of (w AND NOT (bit1 (ctz w)))"
proof (rule sorted_distinct_set_unique)
  let ?v = "w AND NOT (bit1 (ctz w))"
  note c = ctz_less [OF assms]
  have v: "bit ?v i \<longleftrightarrow> bit w i \<and> i \<noteq> ctz w" for i
    using c(1) bit_u64_le [of w i] by (auto simp: bit_and_iff bit_not_iff)
  show "set (bits_of w) = set (ctz w # bits_of ?v)" using c(2) by (auto simp: v)
  have "ctz w \<le> i" if "bit ?v i" for i
    using that c(3) [of i] by (auto simp: v not_less [symmetric])
  then show "sorted (ctz w # bits_of ?v)" by simp
  show "distinct (ctz w # bits_of ?v)" by (simp add: v)
qed simp_all

section \<open>Lists\<close>

lemma list_all_list_update: "list_all P xs \<Longrightarrow> P x \<Longrightarrow> list_all P (xs[i := x])"
  by (cases "i < length xs") (auto simp: list_all_length nth_list_update)

lemma filter_upt_mono: "filter P [0..<n] = sorted_list_of_set {i. i < n \<and> P i}"
proof (rule sorted_distinct_set_unique)
  show "set (filter P [0..<n]) = set (sorted_list_of_set {i. i < n \<and> P i})" by auto
qed (simp_all add: sorted_wrt_filter)

end
