(* ===== verification/Malloc.thy ===== *)
theory Malloc
  imports Prelude
begin

text \<open>
  The enclave's memory allocation front end, src/Enclave/dpdk/librte_eal/rte_malloc.c. The C
  library's \<open>malloc\<close> and \<open>memalign\<close> are parameters: given a sz (and an alignment) they deliver
  None for NULL or Some of the block's bytes as the heap left them.
\<close>

type_synonym heap_malloc = "nat \<Rightarrow> u8 list option"
type_synonym heap_memalign = "nat \<Rightarrow> nat \<Rightarrow> u8 list option"

definition rte_is_power_of_2 :: "u32 \<Rightarrow> bool" where
  "rte_is_power_of_2 n = (n \<noteq> 0 \<and> n AND (n - 1) = 0)"

definition rte_malloc_socket ::
  "heap_malloc \<Rightarrow> heap_memalign \<Rightarrow> nat \<Rightarrow> u32 \<Rightarrow> u8 list option" where
  "rte_malloc_socket malloc memalign sz align =
     (if sz = 0 \<or> (align \<noteq> 0 \<and> \<not> rte_is_power_of_2 align) then None
      else if align = 0 then malloc sz
      else memalign (unat align) sz)"

definition rte_malloc :: "heap_malloc \<Rightarrow> heap_memalign \<Rightarrow> nat \<Rightarrow> u32 \<Rightarrow> u8 list option" where
  "rte_malloc malloc memalign sz align = rte_malloc_socket malloc memalign sz align"

definition rte_zmalloc_socket ::
  "heap_malloc \<Rightarrow> heap_memalign \<Rightarrow> nat \<Rightarrow> u32 \<Rightarrow> u8 list option" where
  "rte_zmalloc_socket malloc memalign sz align = rte_malloc_socket malloc memalign sz align"

definition rte_zmalloc :: "heap_malloc \<Rightarrow> heap_memalign \<Rightarrow> nat \<Rightarrow> u32 \<Rightarrow> u8 list option" where
  "rte_zmalloc malloc memalign sz align = rte_zmalloc_socket malloc memalign sz align"

definition rte_calloc_socket ::
  "heap_malloc \<Rightarrow> heap_memalign \<Rightarrow> nat \<Rightarrow> nat \<Rightarrow> u32 \<Rightarrow> u8 list option" where
  "rte_calloc_socket malloc memalign num sz align =
     rte_zmalloc_socket malloc memalign ((num * sz) mod 2 ^ 64) align"

definition rte_calloc ::
  "heap_malloc \<Rightarrow> heap_memalign \<Rightarrow> nat \<Rightarrow> nat \<Rightarrow> u32 \<Rightarrow> u8 list option" where
  "rte_calloc malloc memalign num sz align =
     rte_zmalloc malloc memalign ((num * sz) mod 2 ^ 64) align"

text \<open>
  The enclave's \<open>rte_zmalloc\<close> does not clear memory: for every sz and power-of-two alignment
  it hands out the block exactly as the heap left it, so a recycled block with a non-zero byte
  reaches the caller with that byte. Objects allocated with it start from whatever the block held.
\<close>

theorem rte_zmalloc_returns_recycled_bytes:
  assumes "0 < sz" and "rte_is_power_of_2 align"
    and "memalign (unat align) sz = Some block" and "i < length block" and "block ! i \<noteq> 0"
  shows "\<exists>b. rte_zmalloc malloc memalign sz align = Some b \<and> b ! i = block ! i \<and>
           b \<noteq> replicate sz 0"
proof -
  have "rte_zmalloc malloc memalign sz align = Some block"
    using assms(1-3)
    by (auto simp: rte_zmalloc_def rte_zmalloc_socket_def rte_malloc_socket_def rte_is_power_of_2_def)
  moreover have "block \<noteq> replicate sz 0"
    using assms(4,5) by auto
  ultimately show ?thesis by blast
qed

theorem rte_zmalloc_returns_recycled_bytes_witness:
  "\<exists>b. rte_zmalloc (\<lambda>_. None) (\<lambda>_ n. Some (replicate n 0xFF)) 8 64 = Some b \<and> b ! 3 = 0xFF \<and>
     b \<noteq> replicate 8 0"
  using rte_zmalloc_returns_recycled_bytes
    [of 8 64 "\<lambda>_ n. Some (replicate n 0xFF)" "replicate 8 0xFF" 3 "\<lambda>_. None"]
  by (simp add: rte_is_power_of_2_def)

end
