(* ===== verification/Sketch.thy ===== *)
theory Sketch
  imports Prelude
begin

text \<open>
  The enclave's traffic accounting: the packet-header cache of
  src/Enclave/ip_pipeline/header_copy.h, the count-min sketch of count_min_sketch.c and the
  16-byte CRC hash of hash_func.h. The sketch's counter matrix is a function of row and column,
  its coefficients functions of the row; every arithmetic step is at the width of the C code.
\<close>

section \<open>Packets and the header cache\<close>

text \<open>
  Of an mbuf the enclave code reads the bytes from the start of the frame
  (\<open>rte_pktmbuf_mtod\<close>) and the packet length. The bytes are a function, because the code reads
  at fixed offsets without looking at the length: behind a short frame it sees the rest of the
  buffer.
\<close>

record rte_mbuf =
  mtod :: "nat \<Rightarrow> u8"
  pkt_len :: u32

record header_cache =
  src_ip :: u32
  dst_ip :: u32
  src_port :: u16
  dst_port :: u16
  proto :: u8
  dummy :: u8
  hc_pkt_len :: u16

text \<open>\<open>rte_be_to_cpu_16\<close> and \<open>rte_be_to_cpu_32\<close> of the bytes at an offset.\<close>

definition be16 :: "(nat \<Rightarrow> u8) \<Rightarrow> nat \<Rightarrow> u16" where
  "be16 m k = push_bit 8 (ucast (m k)) OR ucast (m (k + 1))"

definition be32 :: "(nat \<Rightarrow> u8) \<Rightarrow> nat \<Rightarrow> u32" where
  "be32 m k = push_bit 24 (ucast (m k)) OR push_bit 16 (ucast (m (k + 1)))
     OR push_bit 8 (ucast (m (k + 2))) OR ucast (m (k + 3))"

text \<open>
  Offsets: the Ethernet header has 14 bytes with the type at 12; in the IPv4 header the protocol
  is at 9, the addresses at 12 and 16; the TCP header follows a 20-byte IPv4 header.
\<close>

definition ETHER_TYPE_IPv4 :: u16 where
  "ETHER_TYPE_IPv4 = 0x0800"

text \<open>
  \<open>header_cache_clone\<close>: \<open>asserts\<close> says whether the build enables \<open>RTE_ASSERT\<close>. The returned length
  is the mbuf's 32-bit length stored through a \<open>uint16_t *\<close>.
\<close>

definition header_cache_clone :: "bool \<Rightarrow> rte_mbuf \<Rightarrow> (header_cache \<times> u16) res" where
  "header_cache_clone asserts m =
     (if asserts \<and> be16 (mtod m) 12 \<noteq> ETHER_TYPE_IPv4 then Inl Panic
      else Inr (\<lparr>src_ip = be32 (mtod m) 26, dst_ip = be32 (mtod m) 30,
                 src_port = be16 (mtod m) 34, dst_port = be16 (mtod m) 36,
                 proto = mtod m 23, dummy = 0, hc_pkt_len = 0\<rparr>,
               ucast (pkt_len m)))"

section \<open>The CRC hash of a 16-byte key\<close>

text \<open>
  \<open>_mm_crc32_u64\<close>, the SSE4.2 instruction: the CRC-32C of 64 data bits, lowest first, from the
  low half of the first operand, zero-extended.
\<close>

definition crc32c_bit :: "u64 \<Rightarrow> nat \<Rightarrow> u32 \<Rightarrow> u32" where
  "crc32c_bit d i c =
     (if bit c 0 \<noteq> bit d i then drop_bit 1 c XOR 0x82F63B78 else drop_bit 1 c)"

definition mm_crc32_u64 :: "u64 \<Rightarrow> u64 \<Rightarrow> u64" where
  "mm_crc32_u64 crc d = ucast (fold (crc32c_bit d) [0..<64] (ucast crc))"

definition hash_crc_key16 :: "u64 \<Rightarrow> u64 \<Rightarrow> u64 \<Rightarrow> u64" where
  "hash_crc_key16 k0 k1 seed =
     (let crc0 = mm_crc32_u64 k0 seed; crc1 = mm_crc32_u64 (drop_bit 32 k0) k1
      in crc0 XOR crc1)"

text \<open>The two 64-bit words that the 16 bytes of a \<open>header_cache\<close> are on a little-endian machine.\<close>

definition hc_word0 :: "header_cache \<Rightarrow> u64" where
  "hc_word0 hc = ucast (src_ip hc) OR push_bit 32 (ucast (dst_ip hc))"

definition hc_word1 :: "header_cache \<Rightarrow> u64" where
  "hc_word1 hc = ucast (src_port hc) OR push_bit 16 (ucast (dst_port hc))
     OR push_bit 32 (ucast (proto hc)) OR push_bit 40 (ucast (dummy hc))
     OR push_bit 48 (ucast (hc_pkt_len hc))"

definition hc_hash :: "header_cache \<Rightarrow> u64" where
  "hc_hash hc = hash_crc_key16 (hc_word0 hc) (hc_word1 hc) 0"

section \<open>The count-min sketch\<close>

definition CM_WIDTH :: u64 where "CM_WIDTH = 65536"
definition CM_DEPTH :: nat where "CM_DEPTH = 2"
definition CM_PRIME :: u32 where "CM_PRIME = 4294967231"

record count_min_t =
  counters :: "nat \<Rightarrow> u64 \<Rightarrow> u64"
  cm_a :: "nat \<Rightarrow> u32"
  cm_b :: "nat \<Rightarrow> u32"

text \<open>
  \<open>cm_init\<close>: \<open>ra\<close> and \<open>rb\<close> are what the calls of \<open>sgx_read_rand\<close> (SGX SDK) delivered. \<open>memset\<close>
  has zeroed everything else.
\<close>

definition cm_init :: "(nat \<Rightarrow> u32) \<Rightarrow> (nat \<Rightarrow> u32) \<Rightarrow> count_min_t" where
  "cm_init ra rb =
     fold (\<lambda>i cm. cm\<lparr>cm_a := (cm_a cm)(i := ra i mod CM_PRIME),
                     cm_b := (cm_b cm)(i := rb i mod CM_PRIME)\<rparr>)
       [0..<CM_DEPTH] \<lparr>counters = (\<lambda>_ _. 0), cm_a = (\<lambda>_. 0), cm_b = (\<lambda>_. 0)\<rparr>"

text \<open>The column of a hash value in a row: \<open>(a[i] * h + b[i]) & (CM_WIDTH - 1)\<close> in 64 bits.\<close>

definition cm_column :: "count_min_t \<Rightarrow> nat \<Rightarrow> u64 \<Rightarrow> u64" where
  "cm_column cm i h = (ucast (cm_a cm i) * h + ucast (cm_b cm i)) AND (CM_WIDTH - 1)"

definition cm_bump :: "nat \<Rightarrow> u64 \<Rightarrow> u64 \<Rightarrow> count_min_t \<Rightarrow> count_min_t" where
  "cm_bump i j d cm =
     cm\<lparr>counters := (counters cm)(i := (counters cm i)(j := counters cm i j + d))\<rparr>"

definition cm_update :: "count_min_t \<Rightarrow> header_cache \<Rightarrow> u64 \<Rightarrow> count_min_t" where
  "cm_update cm hc d =
     (let h = hc_hash hc
      in fold (\<lambda>i cm. cm_bump i (cm_column cm i h) d cm) [0..<CM_DEPTH] cm)"

text \<open>
  The three passes of the bulk updates: the keys, the columns of all packets in all rows in the
  static array \<open>j\<close> at \<open>p_i * CM_DEPTH + i\<close>, and the increments. The static arrays have room for a burst, so a
  larger number of packets writes behind them.
\<close>

definition cm_bulk_columns :: "count_min_t \<Rightarrow> (nat \<Rightarrow> u64) \<Rightarrow> nat \<Rightarrow> (nat \<Rightarrow> u64)" where
  "cm_bulk_columns cm h n =
     fold (\<lambda>p_i j. fold (\<lambda>i j. j(p_i * CM_DEPTH + i := cm_column cm i (h p_i))) [0..<CM_DEPTH] j)
       [0..<n] (\<lambda>_. 0)"

definition cm_bulk_add :: "count_min_t \<Rightarrow> (nat \<Rightarrow> u64) \<Rightarrow> (nat \<Rightarrow> u64) \<Rightarrow> nat \<Rightarrow> count_min_t" where
  "cm_bulk_add cm j l n =
     fold (\<lambda>p_i cm. fold (\<lambda>i cm. cm_bump i (j (p_i * CM_DEPTH + i)) (l p_i) cm) [0..<CM_DEPTH] cm)
       [0..<n] cm"

definition cm_update_bulk_hc ::
  "count_min_t \<Rightarrow> (nat \<Rightarrow> header_cache) \<Rightarrow> (nat \<Rightarrow> u16) \<Rightarrow> nat \<Rightarrow> count_min_t res" where
  "cm_update_bulk_hc cm hc lens n =
     (if n > RTE_PORT_IN_BURST_SIZE_MAX then Inl OutOfBounds
      else let h = (\<lambda>i. ucast (src_ip (hc i))); j = cm_bulk_columns cm h n
      in Inr (cm_bulk_add cm j (\<lambda>i. ucast (lens i)) n))"

definition cm_update_bulk_mbuf :: "count_min_t \<Rightarrow> (nat \<Rightarrow> rte_mbuf) \<Rightarrow> nat \<Rightarrow> count_min_t res" where
  "cm_update_bulk_mbuf cm mbufs n =
     (if n > RTE_PORT_IN_BURST_SIZE_MAX then Inl OutOfBounds
      else let h = (\<lambda>i. ucast (be32 (mtod (mbufs i)) 26)); l = (\<lambda>i. ucast (pkt_len (mbufs i)));
          j = cm_bulk_columns cm h n
      in Inr (cm_bulk_add cm j l n))"

definition cm_estimate :: "count_min_t \<Rightarrow> header_cache \<Rightarrow> u64" where
  "cm_estimate cm hc =
     (let h = hc_hash hc
      in fold (\<lambda>i result. let c = counters cm i (cm_column cm i h)
                          in if c < result then c else result) [0..<CM_DEPTH] (- 1))"

text \<open>
  The input-port action of the near-zero-copy build: clone the headers of the burst, account
  them, and only then store the lengths in the cache. \<open>headers\<close> is the static array, which like \<open>pkt_lens\<close> holds
  one burst.
\<close>

definition input_port_make_header_copy ::
  "bool \<Rightarrow> bool \<Rightarrow> (nat \<Rightarrow> rte_mbuf) \<Rightarrow> nat \<Rightarrow> (nat \<Rightarrow> header_cache) \<times> count_min_t \<Rightarrow>
   ((nat \<Rightarrow> header_cache) \<times> count_min_t) res" where
  "input_port_make_header_copy asserts sketch pkts n st =
     rbind (rfold (\<lambda>i (hs, ls). if i \<ge> RTE_PORT_IN_BURST_SIZE_MAX then Inl OutOfBounds
                    else rbind (header_cache_clone asserts (pkts i))
                    (\<lambda>(hc, l). Inr (hs(i := hc), ls(i := l)))) [0..<n] (fst st, \<lambda>_. 0))
       (\<lambda>(hs, ls).
          rbind (if sketch then cm_update_bulk_hc (snd st) hs ls n else Inr (snd st)) (\<lambda>cm.
          let hs' = fold (\<lambda>i hs. hs(i := (hs i)\<lparr>hc_pkt_len := ls i\<rparr>)) [0..<n] hs
          in Inr (hs', cm)))"

section \<open>One update by key\<close>

text \<open>
  The reference behaviour: add \<open>d\<close> in every row at the column of one key. Both ways of updating
  are this, with the CRC of the header as the key for \<open>cm_update\<close> and the source address for
  the bulk updates.
\<close>

definition cm_add :: "u64 \<Rightarrow> u64 \<Rightarrow> count_min_t \<Rightarrow> count_min_t" where
  "cm_add h d cm = fold (\<lambda>i cm. cm_bump i (cm_column cm i h) d cm) [0..<CM_DEPTH] cm"

definition cm_query :: "count_min_t \<Rightarrow> u64 \<Rightarrow> u64" where
  "cm_query cm h =
     fold (\<lambda>i result. let c = counters cm i (cm_column cm i h)
                      in if c < result then c else result) [0..<CM_DEPTH] (- 1)"

lemma upt_CM_DEPTH: "[0..<CM_DEPTH] = [0, 1]"
  by (simp add: CM_DEPTH_def upt_rec)

lemma cm_bump_frame [simp]:
  "cm_a (cm_bump i j d cm) = cm_a cm" "cm_b (cm_bump i j d cm) = cm_b cm"
  by (simp_all add: cm_bump_def)

lemma cm_column_bump [simp]: "cm_column (cm_bump i j d cm) = cm_column cm"
  by (simp add: cm_column_def fun_eq_iff)

lemma cm_column_add [simp]: "cm_column (cm_add h d cm) = cm_column cm"
  by (simp add: cm_add_def upt_CM_DEPTH)

lemma counters_cm_add:
  "counters (cm_add h d cm) i j =
     counters cm i j + (if i < 2 \<and> j = cm_column cm i h then d else 0)"
  by (auto simp: cm_add_def upt_CM_DEPTH cm_bump_def cm_column_def less_2_cases_iff)

lemma cm_update_eq_add: "cm_update cm hc d = cm_add (hc_hash hc) d cm"
  by (simp add: cm_update_def cm_add_def Let_def)

lemma cm_estimate_eq_query: "cm_estimate cm hc = cm_query cm (hc_hash hc)"
  by (simp add: cm_estimate_def cm_query_def Let_def)

section \<open>Bulk updates are sequences of single updates\<close>

lemma cm_bulk_columns_Suc:
  "cm_bulk_columns cm h (Suc n) =
     (cm_bulk_columns cm h n)(n * 2 := cm_column cm 0 (h n), n * 2 + 1 := cm_column cm 1 (h n))"
  unfolding cm_bulk_columns_def upt_CM_DEPTH by (simp add: CM_DEPTH_def)

lemma cm_bulk_columns_nth:
  "p < n \<Longrightarrow> i < CM_DEPTH \<Longrightarrow> cm_bulk_columns cm h n (p * CM_DEPTH + i) = cm_column cm i (h p)"
proof (induction n)
  case 0
  then show ?case by simp
next
  case (Suc n)
  have i: "i = 0 \<or> i = 1" using Suc.prems(2) by (auto simp: CM_DEPTH_def)
  show ?case
  proof (cases "p = n")
    case True
    with i show ?thesis by (auto simp: cm_bulk_columns_Suc CM_DEPTH_def)
  next
    case False
    with Suc.prems have "p * 2 + i \<noteq> n * 2" "p * 2 + i \<noteq> n * 2 + 1" using i by presburger+
    with False Suc show ?thesis by (simp add: cm_bulk_columns_Suc CM_DEPTH_def)
  qed
qed

lemma cm_bulk_add_eq_fold:
  assumes "\<And>p i. p < n \<Longrightarrow> i < CM_DEPTH \<Longrightarrow> j (p * CM_DEPTH + i) = cm_column cm i (h p)"
  shows "cm_bulk_add cm j l n = fold (\<lambda>p. cm_add (h p) (l p)) [0..<n] cm \<and>
         cm_column (cm_bulk_add cm j l n) = cm_column cm"
  using assms
proof (induction n)
  case 0
  then show ?case by (simp add: cm_bulk_add_def)
next
  case (Suc n)
  let ?c = "cm_bulk_add cm j l n"
  have IH: "?c = fold (\<lambda>p. cm_add (h p) (l p)) [0..<n] cm" "cm_column ?c = cm_column cm"
    using Suc.IH Suc.prems by auto
  have "j (n * CM_DEPTH + 0) = cm_column ?c 0 (h n)" "j (n * CM_DEPTH + 1) = cm_column ?c 1 (h n)"
    using Suc.prems [of n 0] Suc.prems [of n 1] IH(2) by (simp_all add: CM_DEPTH_def)
  then have step: "cm_bulk_add cm j l (Suc n) = cm_add (h n) (l n) ?c"
    by (simp add: cm_bulk_add_def cm_add_def upt_CM_DEPTH)
  show ?case unfolding step using IH by simp
qed

lemma cm_bulk_eq_fold:
  "cm_bulk_add cm (cm_bulk_columns cm h n) l n = fold (\<lambda>p. cm_add (h p) (l p)) [0..<n] cm"
  using cm_bulk_add_eq_fold [of n "cm_bulk_columns cm h n" cm h l] by (simp add: cm_bulk_columns_nth)

section \<open>What a sketch holds after a stream of updates\<close>

definition cm_run :: "(u64 \<times> u64) list \<Rightarrow> count_min_t \<Rightarrow> count_min_t" where
  "cm_run us = fold (\<lambda>(h, d). cm_add h d) us"

definition total :: "(u64 \<times> u64) list \<Rightarrow> nat" where
  "total us = (\<Sum>(h, d)\<leftarrow>us. unat d)"

definition total_of :: "(u64 \<Rightarrow> bool) \<Rightarrow> (u64 \<times> u64) list \<Rightarrow> nat" where
  "total_of P us = (\<Sum>(h, d)\<leftarrow>us. if P h then unat d else 0)"

lemma total_of_simps [simp]:
  "total_of P [] = 0" "total_of P ((h, d) # us) = (if P h then unat d else 0) + total_of P us"
  by (simp_all add: total_of_def)

lemma total_of_le_total: "total_of P us \<le> total us"
  by (induction us) (auto simp: total_def)

lemma total_of_mono: "(\<And>h. P h \<Longrightarrow> Q h) \<Longrightarrow> total_of P us \<le> total_of Q us"
  by (induction us) (auto intro: add_mono trans_le_add2)

lemma cm_column_run [simp]: "cm_column (cm_run us cm) = cm_column cm"
  by (induction us arbitrary: cm) (auto simp: cm_run_def)

text \<open>Each counter is exactly the sum of the updates that fell into its column.\<close>

lemma counters_cm_run:
  assumes "i < 2" and "unat (counters cm i j) + total us < 2 ^ 64"
  shows "unat (counters (cm_run us cm) i j) =
           unat (counters cm i j) + total_of (\<lambda>h. cm_column cm i h = j) us"
  using assms(2)
proof (induction us arbitrary: cm)
  case Nil
  then show ?case by (simp add: cm_run_def)
next
  case (Cons u us)
  obtain h d where u: "u = (h, d)" by (cases u)
  let ?c = "cm_add h d cm"
  have tot: "total (u # us) = unat d + total us" by (simp add: total_def u)
  have c: "unat (counters ?c i j) =
      unat (counters cm i j) + (if cm_column cm i h = j then unat d else 0)"
    using Cons.prems assms(1) tot by (auto simp: counters_cm_add unat_word_ariths)
  then have "unat (counters ?c i j) + total us < 2 ^ 64"
    using Cons.prems tot by (auto split: if_splits)
  from Cons.IH [OF this] c show ?case by (simp add: cm_run_def u)
qed

lemma cm_query_ge:
  assumes "\<And>i. i < 2 \<Longrightarrow> n \<le> unat (counters cm i (cm_column cm i h))"
  shows "n \<le> unat (cm_query cm h)"
  using assms [of 0] assms [of 1] word_n1_ge [of "counters cm 0 (cm_column cm 0 h)"]
  by (auto simp: word_le_nat_alt cm_query_def upt_CM_DEPTH Let_def word_less_nat_alt not_less)

lemma cm_query_le:
  "i < 2 \<Longrightarrow> unat (cm_query cm h) \<le> unat (counters cm i (cm_column cm i h))"
  by (auto simp: cm_query_def upt_CM_DEPTH Let_def word_less_nat_alt not_less less_2_cases_iff)

section \<open>Properties\<close>

lemma header_copy_clone_loop:
  "n \<le> RTE_PORT_IN_BURST_SIZE_MAX \<Longrightarrow>
   rfold (\<lambda>i (hs, ls). if i \<ge> RTE_PORT_IN_BURST_SIZE_MAX then Inl OutOfBounds else rbind (header_cache_clone False (pkts i))
            (\<lambda>(hc, l). Inr (hs(i := hc), ls(i := l)))) [0..<n] (hs, ls) =
   Inr (\<lambda>i. if i < n then fst (projr (header_cache_clone False (pkts i))) else hs i,
        \<lambda>i. if i < n then snd (projr (header_cache_clone False (pkts i))) else ls i)"
proof (induction n)
  case 0
  then show ?case by simp
next
  case (Suc n)
  then show ?case by (auto simp: rfold_append header_cache_clone_def fun_eq_iff less_Suc_eq)
qed

lemma header_copy_len_loop:
  "fold (\<lambda>i hs. hs(i := (hs i)\<lparr>hc_pkt_len := ls i\<rparr>)) [0..<n] hs =
   (\<lambda>i. if i < n then (hs i)\<lparr>hc_pkt_len := ls i\<rparr> else hs i)"
  by (induction n) (auto simp: fun_eq_iff less_Suc_eq)

text \<open>C38. The three-pass bulk update of the sketch (keys, all columns into a static array, then the
  increments) has the effect of adding the packets one after the other, each under its source
  address with its length, for every burst that the arrays can hold; a larger one writes behind them.\<close>

theorem cm_update_bulk_hc_sequential:
  "cm_update_bulk_hc cm hc lens n =
     (if n \<le> RTE_PORT_IN_BURST_SIZE_MAX
      then Inr (fold (\<lambda>p. cm_add (ucast (src_ip (hc p))) (ucast (lens p))) [0..<n] cm) else Inl OutOfBounds)"
  by (simp add: cm_update_bulk_hc_def Let_def cm_bulk_eq_fold)

text \<open>C39. Count-min guarantee of \<open>cm_update\<close> and \<open>cm_estimate\<close>: after any sequence of updates of a
  freshly initialised sketch, whatever coefficients were drawn, the estimate for a header is at
  least what was added for that header and at most everything that was added, as long as the sum of
  all additions fits 64 bits.\<close>

theorem cm_estimate_bounds:
  assumes "(\<Sum>(y, d)\<leftarrow>xs. unat d) < 2 ^ 64"
  shows "(\<Sum>(y, d)\<leftarrow>xs. if y = x then unat d else 0)
           \<le> unat (cm_estimate (fold (\<lambda>(y, d) cm. cm_update cm y d) xs (cm_init ra rb)) x) \<and>
         unat (cm_estimate (fold (\<lambda>(y, d) cm. cm_update cm y d) xs (cm_init ra rb)) x)
           \<le> (\<Sum>(y, d)\<leftarrow>xs. unat d)"
proof -
  define us where "us = map (\<lambda>(y, d). (hc_hash y, d)) xs"
  define cm where "cm = cm_init ra rb"
  have zero: "counters cm i j = 0" for i j
    by (simp add: cm_def cm_init_def upt_CM_DEPTH)
  have run: "fold (\<lambda>(y, d) cm. cm_update cm y d) xs c = cm_run us c" for c
    unfolding us_def cm_run_def
    by (induction xs arbitrary: c) (auto simp: cm_update_eq_add)
  have tot: "total us = (\<Sum>(y, d)\<leftarrow>xs. unat d)"
    unfolding us_def total_def by (induction xs) auto
  have row: "unat (counters (cm_run us cm) i (cm_column cm i h)) =
      total_of (\<lambda>k. cm_column cm i k = cm_column cm i h) us" if "i < 2" for i h
    using counters_cm_run [OF that, of cm "cm_column cm i h" us] assms by (simp add: zero tot)
  have "(\<Sum>(y, d)\<leftarrow>xs. if y = x then unat d else 0) \<le> total_of (\<lambda>k. k = hc_hash x) us"
    unfolding us_def by (induction xs) auto
  also have "\<dots> \<le> unat (cm_query (cm_run us cm) (hc_hash x))"
    by (rule cm_query_ge) (auto simp: row intro: total_of_mono)
  finally have lower: "(\<Sum>(y, d)\<leftarrow>xs. if y = x then unat d else 0)
      \<le> unat (cm_query (cm_run us cm) (hc_hash x))" .
  have "unat (cm_query (cm_run us cm) (hc_hash x)) \<le> total us"
    using cm_query_le [of 0 "cm_run us cm"] row [of 0] total_of_le_total
    by (metis cm_column_run le_trans zero_less_numeral)
  with lower show ?thesis by (simp add: run cm_estimate_eq_query tot flip: cm_def)
qed

definition sample_header :: header_cache where
  "sample_header = \<lparr>src_ip = 1, dst_ip = 0, src_port = 0, dst_port = 0, proto = 6, dummy = 0,
     hc_pkt_len = 60\<rparr>"

theorem cm_estimate_bounds_witness:
  "(60::nat) < 2 ^ 64 \<and>
   60 \<le> unat (cm_estimate (cm_update (cm_init (\<lambda>_. 1) (\<lambda>_. 0)) sample_header 60) sample_header)"
  using cm_estimate_bounds [of "[(sample_header, 60)]" sample_header "\<lambda>_. 1" "\<lambda>_. 0"] by simp

text \<open>C40. The bulk update of the input port keys the sketch by source address while
  \<open>cm_estimate\<close> looks under the CRC of the header: if the two keys fall into different columns in
  both rows, the estimate for a packet that has just been accounted in a fresh sketch is 0,
  whatever its length. The lower bound of the sketch does not hold for the traffic the enclave
  accounts.\<close>

theorem bulk_update_not_estimated:
  assumes "\<And>i. i < 2 \<Longrightarrow>
      cm_column (cm_init ra rb) i (hc_hash hc) \<noteq> cm_column (cm_init ra rb) i (ucast (src_ip hc))"
  shows "\<exists>cm. cm_update_bulk_hc (cm_init ra rb) (\<lambda>_. hc) (\<lambda>_. len) 1 = Inr cm \<and> cm_estimate cm hc = 0"
proof -
  let ?cm = "cm_init ra rb"
  have zero: "counters ?cm i j = 0" for i j by (simp add: cm_init_def upt_CM_DEPTH)
  have bulk: "cm_update_bulk_hc ?cm (\<lambda>_. hc) (\<lambda>_. len) 1 = Inr (cm_add (ucast (src_ip hc)) (ucast len) ?cm)"
    by (simp add: cm_update_bulk_hc_def cm_bulk_eq_fold)
  show ?thesis unfolding bulk using assms [of 0] assms [of 1]
    by (simp add: cm_estimate_eq_query cm_query_def upt_CM_DEPTH Let_def counters_cm_add zero
        word_gt_0)
qed

theorem bulk_update_not_estimated_witness:
  "\<exists>cm. cm_update_bulk_hc (cm_init (\<lambda>_. 1) (\<lambda>_. 0)) (\<lambda>_. sample_header) (\<lambda>_. 60) 1 = Inr cm \<and>
     cm_estimate cm sample_header = 0"
proof (rule bulk_update_not_estimated)
  have "hc_hash sample_header AND 65535 \<noteq> 1" by code_simp
  then show "cm_column (cm_init (\<lambda>_. 1) (\<lambda>_. 0)) i (hc_hash sample_header) \<noteq>
      cm_column (cm_init (\<lambda>_. 1) (\<lambda>_. 0)) i (ucast (src_ip sample_header))" if "i < 2" for i
    using that by (auto simp: cm_column_def cm_init_def upt_CM_DEPTH CM_WIDTH_def CM_PRIME_def
        sample_header_def less_2_cases_iff)
qed

text \<open>With assertions compiled out the header-copy action of a burst never faults; it fills the first \<open>n\<close>
  cache lines with the parsed 5-tuples and the packet lengths cut to 16 bits, leaves the other
  lines alone, and accounts every packet of the burst in the sketch under its source address.\<close>

theorem input_port_make_header_copy_ok:
  assumes "n \<le> RTE_PORT_IN_BURST_SIZE_MAX"
  shows "input_port_make_header_copy False sketch pkts n (hs, cm) =
     Inr (\<lambda>i. if i < n then \<lparr>src_ip = be32 (mtod (pkts i)) 26, dst_ip = be32 (mtod (pkts i)) 30,
                 src_port = be16 (mtod (pkts i)) 34, dst_port = be16 (mtod (pkts i)) 36,
                 proto = mtod (pkts i) 23, dummy = 0, hc_pkt_len = ucast (pkt_len (pkts i))\<rparr>
              else hs i,
          if sketch
          then fold (\<lambda>p. cm_add (ucast (be32 (mtod (pkts p)) 26)) (ucast (ucast (pkt_len (pkts p)) :: u16)))
                 [0..<n] cm
          else cm)"
proof -
  have "fold (\<lambda>p. cm_add (ucast (src_ip (if p < n then fst (projr (header_cache_clone False (pkts p)))
            else hs p))) (ucast (if p < n then snd (projr (header_cache_clone False (pkts p))) else 0)))
          [0..<n] cm =
        fold (\<lambda>p. cm_add (ucast (be32 (mtod (pkts p)) 26)) (ucast (ucast (pkt_len (pkts p)) :: u16)))
          [0..<n] cm"
    by (rule fold_cong) (auto simp: header_cache_clone_def)
  then show ?thesis
    using assms unfolding input_port_make_header_copy_def fst_conv snd_conv header_copy_clone_loop [OF assms] rbind_Inr
      header_copy_len_loop Let_def cm_update_bulk_hc_def cm_bulk_eq_fold prod.case
    by (auto simp: header_cache_clone_def fun_eq_iff)
qed

end
