(* ===== verification/Pipeline.thy ===== *)
theory Pipeline
  imports Prelude
begin

text \<open>
  The packet framework's pipeline, src/Enclave/dpdk/librte_pipeline/rte_pipeline.c.

  Low-level ports and tables are reached through tables of function pointers. All memory behind
  their handles is one machine state of type \<open>'g\<close> that the operations transform; \<open>'h\<close> is the type
  of handles, \<open>'a\<close> and \<open>'t\<close> of creation arguments, \<open>'k\<close> of table keys and \<open>'m\<close> of mbuf pointers. A
  function pointer that may be NULL is an option. The arrays \<open>ports_in\<close>, \<open>ports_out\<close> and \<open>tables\<close>
  of the C structure are lists of their occupied prefix, so that \<open>num_ports_in\<close> and its kin are
  lengths; a pointer to an input port is its index. Action handlers may change the run structures
  of the pipeline (through \<open>rte_pipeline_ah_packet_drop\<close> and \<open>_hijack\<close>) and the machine state. The
  statistics macros expand to nothing (rte_config.h leaves \<open>RTE_PIPELINE_STATS_COLLECT\<close> undefined).
\<close>

section \<open>Data\<close>

datatype rte_pipeline_action = ACTION_DROP | ACTION_PORT | ACTION_PORT_META | ACTION_TABLE

text \<open>The union of \<open>port_id\<close> and \<open>table_id\<close> is the one field \<open>pte_id\<close>.\<close>

record rte_pipeline_table_entry =
  pte_action :: rte_pipeline_action
  pte_id :: nat
  pte_data :: "u8 list"

definition zero_entry :: rte_pipeline_table_entry where
  "zero_entry = \<lparr>pte_action = ACTION_DROP, pte_id = 0, pte_data = []\<rparr>"

abbreviation (input) RTE_PIPELINE_PORT_IN_MAX :: nat where "RTE_PIPELINE_PORT_IN_MAX \<equiv> 64"
abbreviation (input) RTE_PIPELINE_PORT_OUT_MAX :: nat where "RTE_PIPELINE_PORT_OUT_MAX \<equiv> 64"
abbreviation (input) RTE_PIPELINE_TABLE_MAX :: nat where "RTE_PIPELINE_TABLE_MAX \<equiv> 64"
abbreviation (input) RTE_MAX_NUMA_NODES :: int where "RTE_MAX_NUMA_NODES \<equiv> 8"
abbreviation (input) RTE_TABLE_INVALID :: nat where "RTE_TABLE_INVALID \<equiv> 4294967295"

record 'm rte_run =
  pkts :: "nat \<Rightarrow> 'm"
  entries :: "nat \<Rightarrow> rte_pipeline_table_entry option"
  action_mask0 :: "rte_pipeline_action \<Rightarrow> u64"
  action_mask1 :: "rte_pipeline_action \<Rightarrow> u64"
  pkts_mask :: u64

record ('g, 'a, 'h, 'm) rte_port_in_ops =
  pi_create :: "('a \<Rightarrow> int \<Rightarrow> 'g \<Rightarrow> ('h option \<times> 'g) res) option"
  pi_free :: "('h \<Rightarrow> 'g \<Rightarrow> 'g res) option"
  pi_rx :: "('h \<Rightarrow> nat \<Rightarrow> 'g \<Rightarrow> ('m list \<times> 'g) res) option"
  pi_stats :: "('h \<Rightarrow> bool \<Rightarrow> 'g \<Rightarrow> (int \<times> (u64 \<times> u64) \<times> 'g) res) option"

record ('g, 'a, 'h, 'm) rte_port_out_ops =
  po_create :: "('a \<Rightarrow> int \<Rightarrow> 'g \<Rightarrow> ('h option \<times> 'g) res) option"
  po_free :: "('h \<Rightarrow> 'g \<Rightarrow> 'g res) option"
  po_tx :: "('h \<Rightarrow> 'm \<Rightarrow> 'g \<Rightarrow> 'g res) option"
  po_tx_bulk :: "('h \<Rightarrow> (nat \<Rightarrow> 'm) \<Rightarrow> u64 \<Rightarrow> 'g \<Rightarrow> 'g res) option"
  po_flush :: "('h \<Rightarrow> 'g \<Rightarrow> 'g res) option"
  po_stats :: "('h \<Rightarrow> bool \<Rightarrow> 'g \<Rightarrow> (int \<times> (u64 \<times> u64) \<times> 'g) res) option"

text \<open>
  Table operations. \<open>t_add\<close> returns its status and, where it stored through its output pointers,
  whether the key was there and the position of the entry; \<open>t_delete\<close> likewise with the removed
  entry; the bulk forms return the lists of found flags and of entry positions they leave behind.
\<close>

record ('g, 't, 'h, 'k, 'm) rte_table_ops =
  t_create :: "('t \<Rightarrow> int \<Rightarrow> nat \<Rightarrow> 'g \<Rightarrow> ('h option \<times> 'g) res) option"
  t_free :: "('h \<Rightarrow> 'g \<Rightarrow> 'g res) option"
  t_add :: "('h \<Rightarrow> 'k \<Rightarrow> rte_pipeline_table_entry \<Rightarrow> 'g \<Rightarrow> (int \<times> (bool \<times> nat) option \<times> 'g) res) option"
  t_delete :: "('h \<Rightarrow> 'k \<Rightarrow> 'g \<Rightarrow> (int \<times> (bool \<times> rte_pipeline_table_entry option) option \<times> 'g) res) option"
  t_add_bulk :: "('h \<Rightarrow> 'k option list \<Rightarrow> rte_pipeline_table_entry option list \<Rightarrow> bool list \<Rightarrow>
       nat option list \<Rightarrow> 'g \<Rightarrow> (int \<times> bool list \<times> nat option list \<times> 'g) res) option"
  t_delete_bulk :: "('h \<Rightarrow> 'k option list \<Rightarrow> bool list \<Rightarrow> 'g \<Rightarrow> (int \<times> bool list \<times> 'g) res) option"
  t_lookup :: "('h \<Rightarrow> (nat \<Rightarrow> 'm) \<Rightarrow> u64 \<Rightarrow> (nat \<Rightarrow> rte_pipeline_table_entry option) \<Rightarrow> 'g \<Rightarrow>
       (u64 \<times> (nat \<Rightarrow> rte_pipeline_table_entry option) \<times> 'g) res) option"
  t_stats :: "('h \<Rightarrow> bool \<Rightarrow> 'g \<Rightarrow> (int \<times> (u64 \<times> u64) \<times> 'g) res) option"

record ('g, 'a, 'h, 'm) rte_port_in =
  pin_ops :: "('g, 'a, 'h, 'm) rte_port_in_ops"
  pin_action :: "(nat \<Rightarrow> 'm rte_run \<Rightarrow> 'g \<Rightarrow> ('m rte_run \<times> 'g) res) option"
  pin_burst_size :: nat
  pin_table_id :: nat
  pin_h :: 'h
  pin_next :: "nat option"
  pin_n_pkts_dropped_by_ah :: u64

record ('g, 'a, 'h, 'm) rte_port_out =
  pout_ops :: "('g, 'a, 'h, 'm) rte_port_out_ops"
  pout_action :: "(u64 \<Rightarrow> 'm rte_run \<Rightarrow> 'g \<Rightarrow> ('m rte_run \<times> 'g) res) option"
  pout_h :: 'h
  pout_n_pkts_dropped_by_ah :: u64

record ('g, 't, 'h, 'k, 'm) rte_table =
  tbl_ops :: "('g, 't, 'h, 'k, 'm) rte_table_ops"
  tbl_action_hit :: "(u64 \<Rightarrow> 'm rte_run \<Rightarrow> 'g \<Rightarrow> ('m rte_run \<times> 'g) res) option"
  tbl_action_miss :: "(u64 \<Rightarrow> rte_pipeline_table_entry \<Rightarrow> 'm rte_run \<Rightarrow> 'g \<Rightarrow> ('m rte_run \<times> 'g) res) option"
  default_entry :: rte_pipeline_table_entry
  tbl_entry_size :: nat
  table_next_id :: nat
  table_next_id_valid :: bool
  h_table :: 'h
  n_pkts_dropped_by_lkp_hit_ah :: u64
  n_pkts_dropped_by_lkp_miss_ah :: u64
  n_pkts_dropped_lkp_hit :: u64
  n_pkts_dropped_lkp_miss :: u64

record ('g, 'a, 't, 'h, 'k, 'm) rte_pipeline =
  pl_name :: string
  pl_socket_id :: int
  offset_port_id :: nat
  ports_in :: "('g, 'a, 'h, 'm) rte_port_in list"
  ports_out :: "('g, 'a, 'h, 'm) rte_port_out list"
  tables :: "('g, 't, 'h, 'k, 'm) rte_table list"
  enabled_port_in_mask :: u64
  port_in_next :: "nat option"
  prun :: "'m rte_run"

record rte_pipeline_params =
  pp_name :: "string option"
  pp_socket_id :: int
  pp_offset_port_id :: nat

record ('g, 'a, 'h, 'm) rte_pipeline_port_in_params =
  pip_ops :: "('g, 'a, 'h, 'm) rte_port_in_ops option"
  pip_arg_create :: 'a
  pip_action :: "(nat \<Rightarrow> 'm rte_run \<Rightarrow> 'g \<Rightarrow> ('m rte_run \<times> 'g) res) option"
  pip_burst_size :: nat

record ('g, 'a, 'h, 'm) rte_pipeline_port_out_params =
  pop_ops :: "('g, 'a, 'h, 'm) rte_port_out_ops option"
  pop_arg_create :: 'a
  pop_action :: "(u64 \<Rightarrow> 'm rte_run \<Rightarrow> 'g \<Rightarrow> ('m rte_run \<times> 'g) res) option"

record ('g, 't, 'h, 'k, 'm) rte_pipeline_table_params =
  ptp_ops :: "('g, 't, 'h, 'k, 'm) rte_table_ops option"
  ptp_arg_create :: 't
  ptp_action_hit :: "(u64 \<Rightarrow> 'm rte_run \<Rightarrow> 'g \<Rightarrow> ('m rte_run \<times> 'g) res) option"
  ptp_action_miss :: "(u64 \<Rightarrow> rte_pipeline_table_entry \<Rightarrow> 'm rte_run \<Rightarrow> 'g \<Rightarrow> ('m rte_run \<times> 'g) res) option"
  ptp_action_data_size :: nat

text \<open>
  What the run-time code does with an mbuf: free it (\<open>rte_pktmbuf_free\<close>, an OCALL for memory outside
  the enclave) and read a 32-bit word of its meta-data (\<open>RTE_MBUF_METADATA_UINT32\<close>).
\<close>

record ('g, 'm) mbuf_ops =
  mb_free :: "'m \<Rightarrow> 'g \<Rightarrow> 'g res"
  mb_meta32 :: "'m \<Rightarrow> nat \<Rightarrow> 'g \<Rightarrow> nat"

section \<open>Masks of enabled ports\<close>

definition rte_mask_get_next :: "u64 \<Rightarrow> u32 \<Rightarrow> u32" where
  "rte_mask_get_next msk pos =
     (let mask_rot = push_bit (unat ((63 - pos) AND 0x3F)) msk OR
                     drop_bit (unat ((pos + 1) AND 0x3F)) msk
      in (of_nat (ctz mask_rot) - (63 - pos)) AND 0x3F)"

definition rte_mask_get_prev :: "u64 \<Rightarrow> u32 \<Rightarrow> u32" where
  "rte_mask_get_prev msk pos =
     (let mask_rot = drop_bit (unat (pos AND 0x3F)) msk OR
                     push_bit (unat ((64 - pos) AND 0x3F)) msk
      in (of_nat (63 - clz mask_rot) + pos) AND 0x3F)"

section \<open>Pipeline\<close>

definition rte_pipeline_check_params :: "rte_pipeline_params option \<Rightarrow> int" where
  "rte_pipeline_check_params params =
     (case params of None \<Rightarrow> - EINVAL
      | Some pr \<Rightarrow>
          if pp_name pr = None then - EINVAL
          else if pp_socket_id pr < 0 \<or> pp_socket_id pr \<ge> RTE_MAX_NUMA_NODES then - EINVAL
          else 0)"

text \<open>
  \<open>rte_pipeline_create\<close>: \<open>alloc\<close> is the block \<open>rte_zmalloc_socket\<close> delivered, with whatever the
  fields the function does not store hold; None is NULL. \<open>snprintf\<close> keeps 123 characters.
\<close>

definition rte_pipeline_create ::
  "rte_pipeline_params option \<Rightarrow> 'm rte_run option \<Rightarrow> ('g, 'a, 't, 'h, 'k, 'm) rte_pipeline option" where
  "rte_pipeline_create params alloc =
     (if rte_pipeline_check_params params \<noteq> 0 then None
      else case alloc of None \<Rightarrow> None
      | Some run0 \<Rightarrow>
          Some \<lparr>pl_name = take 123 (the (pp_name (the params))),
            pl_socket_id = pp_socket_id (the params), offset_port_id = pp_offset_port_id (the params),
            ports_in = [], ports_out = [], tables = [], enabled_port_in_mask = 0,
            port_in_next = None, prun = run0\<lparr>pkts_mask := 0\<rparr>\<rparr>)"

definition opt_call :: "('h \<Rightarrow> 'g \<Rightarrow> 'g res) option \<Rightarrow> 'h \<Rightarrow> 'g \<Rightarrow> 'g res" where
  "opt_call f h g = (case f of None \<Rightarrow> Inr g | Some f \<Rightarrow> f h g)"

definition rte_pipeline_table_free :: "('g, 't, 'h, 'k, 'm) rte_table \<Rightarrow> 'g \<Rightarrow> 'g res" where
  "rte_pipeline_table_free table g = opt_call (t_free (tbl_ops table)) (h_table table) g"

definition rte_pipeline_port_in_free :: "('g, 'a, 'h, 'm) rte_port_in \<Rightarrow> 'g \<Rightarrow> 'g res" where
  "rte_pipeline_port_in_free port g = opt_call (pi_free (pin_ops port)) (pin_h port) g"

definition rte_pipeline_port_out_free :: "('g, 'a, 'h, 'm) rte_port_out \<Rightarrow> 'g \<Rightarrow> 'g res" where
  "rte_pipeline_port_out_free port g = opt_call (po_free (pout_ops port)) (pout_h port) g"

definition rte_pipeline_free ::
  "('g, 'a, 't, 'h, 'k, 'm) rte_pipeline option \<Rightarrow> 'g \<Rightarrow> (int \<times> 'g) res" where
  "rte_pipeline_free p g =
     (case p of None \<Rightarrow> Inr (- EINVAL, g)
      | Some p \<Rightarrow>
          rbind (rfold rte_pipeline_port_in_free (ports_in p) g) (\<lambda>g.
          rbind (rfold rte_pipeline_table_free (tables p) g) (\<lambda>g.
          rbind (rfold rte_pipeline_port_out_free (ports_out p) g) (\<lambda>g.
          Inr (0, g)))))"

section \<open>Tables\<close>

definition rte_table_check_params ::
  "('g, 'a, 't, 'h, 'k, 'm) rte_pipeline option \<Rightarrow> ('g, 't, 'h, 'k, 'm) rte_pipeline_table_params option \<Rightarrow>
   bool \<Rightarrow> int" where
  "rte_table_check_params p params table_id_ptr =
     (case p of None \<Rightarrow> - EINVAL
      | Some p \<Rightarrow> (case params of None \<Rightarrow> - EINVAL
      | Some params \<Rightarrow>
          if \<not> table_id_ptr then - EINVAL
          else case ptp_ops params of None \<Rightarrow> - EINVAL
          | Some ops \<Rightarrow>
              if Option.is_none (t_create ops) then - EINVAL
              else if Option.is_none (t_lookup ops) then - EINVAL
              else if length (tables p) = RTE_PIPELINE_TABLE_MAX then - EINVAL
              else 0))"

text \<open>
  \<open>rte_pipeline_table_create\<close>. \<open>alloc\<close> is the block for the default entry (8 bytes of head and the
  action data): its action is set to DROP, the rest stays as allocated. \<open>stats0\<close> is what the unused
  slot of the table array held in its four counters.
\<close>

definition rte_pipeline_table_create ::
  "('g, 'a, 't, 'h, 'k, 'm) rte_pipeline option \<Rightarrow> ('g, 't, 'h, 'k, 'm) rte_pipeline_table_params option \<Rightarrow>
   bool \<Rightarrow> rte_pipeline_table_entry option \<Rightarrow> u64 \<Rightarrow> 'g \<Rightarrow>
   (int \<times> nat option \<times> ('g, 'a, 't, 'h, 'k, 'm) rte_pipeline option \<times> 'g) res" where
  "rte_pipeline_table_create po params table_id_ptr alloc stats0 g =
     (let status = rte_table_check_params po params table_id_ptr in
      if status \<noteq> 0 then Inr (status, None, po, g)
      else let p = the po; pr = the params; ops = the (ptp_ops pr); id = length (tables p);
               sz = 8 + ptp_action_data_size pr
           in case alloc of None \<Rightarrow> Inr (- EINVAL, None, po, g)
              | Some e0 \<Rightarrow>
                  rbind ((the (t_create ops)) (ptp_arg_create pr) (pl_socket_id p) sz g) (\<lambda>(h, g).
                  case h of None \<Rightarrow> Inr (- EINVAL, None, po, g)
                  | Some h \<Rightarrow>
                      Inr (0, Some id,
                        Some (p\<lparr>tables := tables p @ [\<lparr>tbl_ops = ops, tbl_action_hit = ptp_action_hit pr,
                          tbl_action_miss = ptp_action_miss pr,
                          default_entry = e0\<lparr>pte_action := ACTION_DROP\<rparr>, tbl_entry_size = sz,
                          table_next_id = 0, table_next_id_valid = False, h_table = h,
                          n_pkts_dropped_by_lkp_hit_ah = stats0, n_pkts_dropped_by_lkp_miss_ah = stats0,
                          n_pkts_dropped_lkp_hit = stats0, n_pkts_dropped_lkp_miss = stats0\<rparr>]\<rparr>), g)))"

text \<open>The topology check and the registration of the next table, shared by the adding functions.\<close>

definition tree_like :: "('g, 't, 'h, 'k, 'm) rte_table \<Rightarrow> rte_pipeline_table_entry \<Rightarrow> bool" where
  "tree_like table e = (pte_action e = ACTION_TABLE \<and> table_next_id_valid table \<and>
     pte_id e \<noteq> table_next_id table)"

definition set_next :: "rte_pipeline_table_entry \<Rightarrow> ('g, 't, 'h, 'k, 'm) rte_table \<Rightarrow> ('g, 't, 'h, 'k, 'm) rte_table" where
  "set_next e table = (if pte_action e = ACTION_TABLE \<and> \<not> table_next_id_valid table
     then table\<lparr>table_next_id := pte_id e, table_next_id_valid := True\<rparr> else table)"

definition rte_pipeline_table_default_entry_add ::
  "('g, 'a, 't, 'h, 'k, 'm) rte_pipeline option \<Rightarrow> nat \<Rightarrow> rte_pipeline_table_entry option \<Rightarrow>
   int \<times> ('g, 'a, 't, 'h, 'k, 'm) rte_pipeline option" where
  "rte_pipeline_table_default_entry_add po table_id de =
     (case po of None \<Rightarrow> (- EINVAL, po)
      | Some p \<Rightarrow> (case de of None \<Rightarrow> (- EINVAL, po)
      | Some e \<Rightarrow>
          if table_id \<ge> length (tables p) then (- EINVAL, po)
          else let table = tables p ! table_id
               in if tree_like table e then (- EINVAL, po)
                  else (0, Some (p\<lparr>tables := (tables p)[table_id :=
                         (set_next e table)\<lparr>default_entry := e\<rparr>]\<rparr>))))"

definition rte_pipeline_table_default_entry_delete ::
  "('g, 'a, 't, 'h, 'k, 'm) rte_pipeline option \<Rightarrow> nat \<Rightarrow>
   int \<times> rte_pipeline_table_entry option \<times> ('g, 'a, 't, 'h, 'k, 'm) rte_pipeline option" where
  "rte_pipeline_table_default_entry_delete po table_id =
     (case po of None \<Rightarrow> (- EINVAL, None, po)
      | Some p \<Rightarrow>
          if table_id \<ge> length (tables p) then (- EINVAL, None, po)
          else let table = tables p ! table_id
               in (0, Some (default_entry table),
                   Some (p\<lparr>tables := (tables p)[table_id := table\<lparr>default_entry :=
                     \<lparr>pte_action = ACTION_DROP, pte_id = 0,
                      pte_data = replicate (length (pte_data (default_entry table))) 0\<rparr>\<rparr>]\<rparr>)))"

definition rte_pipeline_table_entry_add ::
  "('g, 'a, 't, 'h, 'k, 'm) rte_pipeline option \<Rightarrow> nat \<Rightarrow> 'k option \<Rightarrow> rte_pipeline_table_entry option \<Rightarrow> 'g \<Rightarrow>
   (int \<times> (bool \<times> nat) option \<times> ('g, 'a, 't, 'h, 'k, 'm) rte_pipeline option \<times> 'g) res" where
  "rte_pipeline_table_entry_add po table_id key entry g =
     (case po of None \<Rightarrow> Inr (- EINVAL, None, po, g)
      | Some p \<Rightarrow> (case key of None \<Rightarrow> Inr (- EINVAL, None, po, g)
      | Some k \<Rightarrow> (case entry of None \<Rightarrow> Inr (- EINVAL, None, po, g)
      | Some e \<Rightarrow>
          if table_id \<ge> length (tables p) then Inr (- EINVAL, None, po, g)
          else let table = tables p ! table_id
               in case t_add (tbl_ops table) of None \<Rightarrow> Inr (- EINVAL, None, po, g)
                  | Some add \<Rightarrow>
                      if tree_like table e then Inr (- EINVAL, None, po, g)
                      else rbind (add (h_table table) k e g) (\<lambda>(st, out, g).
                        Inr (st, out, Some (p\<lparr>tables := (tables p)[table_id := set_next e table]\<rparr>), g)))))"

definition rte_pipeline_table_entry_delete ::
  "('g, 'a, 't, 'h, 'k, 'm) rte_pipeline option \<Rightarrow> nat \<Rightarrow> 'k option \<Rightarrow> 'g \<Rightarrow>
   (int \<times> (bool \<times> rte_pipeline_table_entry option) option \<times> 'g) res" where
  "rte_pipeline_table_entry_delete po table_id key g =
     (case po of None \<Rightarrow> Inr (- EINVAL, None, g)
      | Some p \<Rightarrow> (case key of None \<Rightarrow> Inr (- EINVAL, None, g)
      | Some k \<Rightarrow>
          if table_id \<ge> length (tables p) then Inr (- EINVAL, None, g)
          else let table = tables p ! table_id
               in case t_delete (tbl_ops table) of None \<Rightarrow> Inr (- EINVAL, None, g)
                  | Some del \<Rightarrow> del (h_table table) k g))"

text \<open>
  The bulk add dereferences \<open>entries[i]\<close> before the table has looked for NULL pointers, once to check
  the topology and once to register the next table.
\<close>

definition rte_pipeline_table_entry_add_bulk ::
  "('g, 'a, 't, 'h, 'k, 'm) rte_pipeline option \<Rightarrow> nat \<Rightarrow> 'k option list option \<Rightarrow>
   rte_pipeline_table_entry option list option \<Rightarrow> bool list \<Rightarrow> nat option list \<Rightarrow> 'g \<Rightarrow>
   (int \<times> bool list \<times> nat option list \<times> ('g, 'a, 't, 'h, 'k, 'm) rte_pipeline option \<times> 'g) res" where
  "rte_pipeline_table_entry_add_bulk po table_id keys ents key_found ptrs g =
     (case po of None \<Rightarrow> Inr (- EINVAL, key_found, ptrs, po, g)
      | Some p \<Rightarrow> (case keys of None \<Rightarrow> Inr (- EINVAL, key_found, ptrs, po, g)
      | Some ks \<Rightarrow> (case ents of None \<Rightarrow> Inr (- EINVAL, key_found, ptrs, po, g)
      | Some es \<Rightarrow>
          if table_id \<ge> length (tables p) then Inr (- EINVAL, key_found, ptrs, po, g)
          else let table = tables p ! table_id
               in case t_add_bulk (tbl_ops table) of None \<Rightarrow> Inr (- EINVAL, key_found, ptrs, po, g)
                  | Some add \<Rightarrow>
                      rbind (rfold (\<lambda>e bad. if bad then Inr bad
                                else case e of None \<Rightarrow> Inl NullDeref | Some e \<Rightarrow> Inr (tree_like table e))
                              es False) (\<lambda>bad.
                      if bad then Inr (- EINVAL, key_found, ptrs, po, g)
                      else let table' = fold (\<lambda>e t. set_next (the e) t) es table
                           in rbind (add (h_table table) ks es key_found ptrs g)
                                (\<lambda>(st, kf, ptrs, g). Inr (st, kf, ptrs,
                                   Some (p\<lparr>tables := (tables p)[table_id := table']\<rparr>), g))))))"

definition rte_pipeline_table_entry_delete_bulk ::
  "('g, 'a, 't, 'h, 'k, 'm) rte_pipeline option \<Rightarrow> nat \<Rightarrow> 'k option list option \<Rightarrow> bool list \<Rightarrow> 'g \<Rightarrow>
   (int \<times> bool list \<times> 'g) res" where
  "rte_pipeline_table_entry_delete_bulk po table_id keys key_found g =
     (case po of None \<Rightarrow> Inr (- EINVAL, key_found, g)
      | Some p \<Rightarrow> (case keys of None \<Rightarrow> Inr (- EINVAL, key_found, g)
      | Some ks \<Rightarrow>
          if table_id \<ge> length (tables p) then Inr (- EINVAL, key_found, g)
          else let table = tables p ! table_id
               in case t_delete_bulk (tbl_ops table) of None \<Rightarrow> Inr (- EINVAL, key_found, g)
                  | Some del \<Rightarrow> del (h_table table) ks key_found g))"

section \<open>Ports\<close>

definition rte_pipeline_port_in_check_params ::
  "('g, 'a, 't, 'h, 'k, 'm) rte_pipeline option \<Rightarrow> ('g, 'a, 'h, 'm) rte_pipeline_port_in_params option \<Rightarrow>
   bool \<Rightarrow> int" where
  "rte_pipeline_port_in_check_params p params port_id_ptr =
     (case p of None \<Rightarrow> - EINVAL
      | Some p \<Rightarrow> (case params of None \<Rightarrow> - EINVAL
      | Some params \<Rightarrow>
          if \<not> port_id_ptr then - EINVAL
          else case pip_ops params of None \<Rightarrow> - EINVAL
          | Some ops \<Rightarrow>
              if Option.is_none (pi_create ops) then - EINVAL
              else if Option.is_none (pi_rx ops) then - EINVAL
              else if pip_burst_size params = 0 \<or> pip_burst_size params > RTE_PORT_IN_BURST_SIZE_MAX
              then - EINVAL
              else if length (ports_in p) = RTE_PIPELINE_PORT_IN_MAX then - EINVAL
              else 0))"

definition rte_pipeline_port_out_check_params ::
  "('g, 'a, 't, 'h, 'k, 'm) rte_pipeline option \<Rightarrow> ('g, 'a, 'h, 'm) rte_pipeline_port_out_params option \<Rightarrow>
   bool \<Rightarrow> int" where
  "rte_pipeline_port_out_check_params p params port_id_ptr =
     (case p of None \<Rightarrow> - EINVAL
      | Some p \<Rightarrow> (case params of None \<Rightarrow> - EINVAL
      | Some params \<Rightarrow>
          if \<not> port_id_ptr then - EINVAL
          else case pop_ops params of None \<Rightarrow> - EINVAL
          | Some ops \<Rightarrow>
              if Option.is_none (po_create ops) then - EINVAL
              else if Option.is_none (po_tx ops) then - EINVAL
              else if Option.is_none (po_tx_bulk ops) then - EINVAL
              else if length (ports_out p) = RTE_PIPELINE_PORT_OUT_MAX then - EINVAL
              else 0))"

text \<open>\<open>stats0\<close> is what the drop counter of the array slot held before; no code stores it here.\<close>

definition rte_pipeline_port_in_create ::
  "('g, 'a, 't, 'h, 'k, 'm) rte_pipeline option \<Rightarrow> ('g, 'a, 'h, 'm) rte_pipeline_port_in_params option \<Rightarrow>
   bool \<Rightarrow> u64 \<Rightarrow> 'g \<Rightarrow>
   (int \<times> nat option \<times> ('g, 'a, 't, 'h, 'k, 'm) rte_pipeline option \<times> 'g) res" where
  "rte_pipeline_port_in_create po params port_id_ptr stats0 g =
     (let status = rte_pipeline_port_in_check_params po params port_id_ptr in
      if status \<noteq> 0 then Inr (status, None, po, g)
      else let p = the po; pr = the params; ops = the (pip_ops pr); id = length (ports_in p)
           in rbind ((the (pi_create ops)) (pip_arg_create pr) (pl_socket_id p) g) (\<lambda>(h, g).
              case h of None \<Rightarrow> Inr (- EINVAL, None, po, g)
              | Some h \<Rightarrow>
                  Inr (0, Some id, Some (p\<lparr>ports_in := ports_in p @ [\<lparr>pin_ops = ops,
                    pin_action = pip_action pr, pin_burst_size = pip_burst_size pr,
                    pin_table_id = RTE_TABLE_INVALID, pin_h = h, pin_next = None,
                    pin_n_pkts_dropped_by_ah = stats0\<rparr>]\<rparr>), g)))"

definition rte_pipeline_port_out_create ::
  "('g, 'a, 't, 'h, 'k, 'm) rte_pipeline option \<Rightarrow> ('g, 'a, 'h, 'm) rte_pipeline_port_out_params option \<Rightarrow>
   bool \<Rightarrow> u64 \<Rightarrow> 'g \<Rightarrow>
   (int \<times> nat option \<times> ('g, 'a, 't, 'h, 'k, 'm) rte_pipeline option \<times> 'g) res" where
  "rte_pipeline_port_out_create po params port_id_ptr stats0 g =
     (let status = rte_pipeline_port_out_check_params po params port_id_ptr in
      if status \<noteq> 0 then Inr (status, None, po, g)
      else let p = the po; pr = the params; ops = the (pop_ops pr); id = length (ports_out p)
           in rbind ((the (po_create ops)) (pop_arg_create pr) (pl_socket_id p) g) (\<lambda>(h, g).
              case h of None \<Rightarrow> Inr (- EINVAL, None, po, g)
              | Some h \<Rightarrow>
                  Inr (0, Some id, Some (p\<lparr>ports_out := ports_out p @ [\<lparr>pout_ops = ops,
                    pout_action = pop_action pr, pout_h = h,
                    pout_n_pkts_dropped_by_ah = stats0\<rparr>]\<rparr>), g)))"

definition rte_pipeline_port_in_connect_to_table ::
  "('g, 'a, 't, 'h, 'k, 'm) rte_pipeline option \<Rightarrow> nat \<Rightarrow> nat \<Rightarrow>
   int \<times> ('g, 'a, 't, 'h, 'k, 'm) rte_pipeline option" where
  "rte_pipeline_port_in_connect_to_table po port_id table_id =
     (case po of None \<Rightarrow> (- EINVAL, po)
      | Some p \<Rightarrow>
          if port_id \<ge> length (ports_in p) then (- EINVAL, po)
          else if table_id \<ge> length (tables p) then (- EINVAL, po)
          else (0, Some (p\<lparr>ports_in := (ports_in p)[port_id :=
                  (ports_in p ! port_id)\<lparr>pin_table_id := table_id\<rparr>]\<rparr>)))"

text \<open>Storing a \<open>next\<close> pointer of an input port; a store to a slot beyond the occupied ones is
  not observable and is dropped (it never happens, lemma \<open>enable_ring\<close>).\<close>

definition set_port_next ::
  "nat \<Rightarrow> nat \<Rightarrow> ('g, 'a, 'h, 'm) rte_port_in list \<Rightarrow> ('g, 'a, 'h, 'm) rte_port_in list" where
  "set_port_next i n ps = ps[i := (ps ! i)\<lparr>pin_next := Some n\<rparr>]"

definition rte_pipeline_port_in_enable ::
  "('g, 'a, 't, 'h, 'k, 'm) rte_pipeline option \<Rightarrow> nat \<Rightarrow>
   int \<times> ('g, 'a, 't, 'h, 'k, 'm) rte_pipeline option" where
  "rte_pipeline_port_in_enable po port_id =
     (case po of None \<Rightarrow> (- EINVAL, po)
      | Some p \<Rightarrow>
          if port_id \<ge> length (ports_in p) then (- EINVAL, po)
          else let port_mask = bit1 port_id in
            if enabled_port_in_mask p AND port_mask \<noteq> 0 then (0, po)
            else let em = enabled_port_in_mask p OR port_mask;
                     port_prev_id = unat (rte_mask_get_prev em (of_nat port_id));
                     port_next_id = unat (rte_mask_get_next em (of_nat port_id));
                     ps = set_port_next port_id port_next_id
                            (set_port_next port_prev_id port_id (ports_in p))
                 in (0, Some (p\<lparr>enabled_port_in_mask := em, ports_in := ps,
                        port_in_next := (if em = port_mask then Some port_id else port_in_next p)\<rparr>)))"

definition rte_pipeline_port_in_disable ::
  "('g, 'a, 't, 'h, 'k, 'm) rte_pipeline option \<Rightarrow> nat \<Rightarrow>
   int \<times> ('g, 'a, 't, 'h, 'k, 'm) rte_pipeline option" where
  "rte_pipeline_port_in_disable po port_id =
     (case po of None \<Rightarrow> (- EINVAL, po)
      | Some p \<Rightarrow>
          if port_id \<ge> length (ports_in p) then (- EINVAL, po)
          else let port_mask = bit1 port_id in
            if enabled_port_in_mask p AND port_mask = 0 then (0, po)
            else let em = enabled_port_in_mask p AND NOT port_mask in
              if em = 0 then (0, Some (p\<lparr>enabled_port_in_mask := em, port_in_next := None\<rparr>))
              else let port_prev_id = unat (rte_mask_get_prev em (of_nat port_id));
                       port_next_id = unat (rte_mask_get_next em (of_nat port_id))
                   in (0, Some (p\<lparr>enabled_port_in_mask := em,
                        ports_in := set_port_next port_prev_id port_next_id (ports_in p),
                        port_in_next := (if port_in_next p = Some port_id then Some port_next_id
                                         else port_in_next p)\<rparr>)))"

section \<open>Run-time\<close>

definition rte_pipeline_check :: "('g, 'a, 't, 'h, 'k, 'm) rte_pipeline option \<Rightarrow> int" where
  "rte_pipeline_check po =
     (case po of None \<Rightarrow> - EINVAL
      | Some p \<Rightarrow>
          if ports_in p = [] then - EINVAL
          else if tables p = [] then - EINVAL
          else if ports_out p = [] then - EINVAL
          else if list_ex (\<lambda>port. pin_table_id port = RTE_TABLE_INVALID) (ports_in p) then - EINVAL
          else 0)"

text \<open>
  The loop over the packets of a mask that \<open>rte_pipeline_compute_masks\<close> and the three action
  handlers all contain: a counted loop when the mask is contiguous from bit 0, and otherwise a scan
  of all 64 positions that skips the clear ones.
\<close>

definition for_mask :: "u64 \<Rightarrow> (nat \<Rightarrow> 's \<Rightarrow> 's res) \<Rightarrow> 's \<Rightarrow> 's res" where
  "for_mask m body s =
     (if m AND (m + 1) = 0 then rfold body [0..<popcount m] s
      else rfold (\<lambda>i s. if bit1 i AND m = 0 then Inr s else body i s)
             [0..<RTE_PORT_IN_BURST_SIZE_MAX] s)"

definition entry_of :: "'m rte_run \<Rightarrow> nat \<Rightarrow> rte_pipeline_table_entry res" where
  "entry_of run i = (case entries run i of None \<Rightarrow> Inl NullDeref | Some e \<Rightarrow> Inr e)"

definition rte_pipeline_compute_masks :: "u64 \<Rightarrow> 'm rte_run \<Rightarrow> 'm rte_run res" where
  "rte_pipeline_compute_masks m run =
     for_mask m (\<lambda>i run. rbind (entry_of run i) (\<lambda>e. Inr (run\<lparr>action_mask1 := (action_mask1 run)
          (pte_action e := action_mask1 run (pte_action e) OR bit1 i)\<rparr>)))
       (run\<lparr>action_mask1 := (\<lambda>_. 0)\<rparr>)"

text \<open>\<open>&p->ports_out[id]\<close>: an index past the array is out of bounds, a slot of the array that
  no port occupies has no operations to call.\<close>

definition port_out_at ::
  "('g, 'a, 't, 'h, 'k, 'm) rte_pipeline \<Rightarrow> nat \<Rightarrow> ('g, 'a, 'h, 'm) rte_port_out res" where
  "port_out_at p pid = (if pid \<ge> RTE_PIPELINE_PORT_OUT_MAX then Inl OutOfBounds
     else if pid \<ge> length (ports_out p) then Inl NullDeref else Inr (ports_out p ! pid))"

definition fnptr :: "'f option \<Rightarrow> 'f res" where
  "fnptr f = (case f of None \<Rightarrow> Inl NullDeref | Some f \<Rightarrow> Inr f)"

definition rte_pipeline_action_handler_port_bulk ::
  "('g, 'a, 't, 'h, 'k, 'm) rte_pipeline \<Rightarrow> u64 \<Rightarrow> nat \<Rightarrow> 'm rte_run \<times> 'g \<Rightarrow> ('m rte_run \<times> 'g) res" where
  "rte_pipeline_action_handler_port_bulk p m port_id = (\<lambda>(run, g).
     rbind (port_out_at p port_id) (\<lambda>port_out.
     rbind (case pout_action port_out of None \<Rightarrow> Inr (run\<lparr>pkts_mask := m\<rparr>, g)
            | Some act \<Rightarrow> act m (run\<lparr>pkts_mask := m\<rparr>) g) (\<lambda>(run, g).
     if pkts_mask run \<noteq> 0
     then rbind (fnptr (po_tx_bulk (pout_ops port_out))) (\<lambda>tx_bulk.
          rbind (tx_bulk (pout_h port_out) (pkts run) (pkts_mask run) g) (\<lambda>g. Inr (run, g)))
     else Inr (run, g))))"

text \<open>The body of the loops of \<open>rte_pipeline_action_handler_port\<close> and \<open>_port_meta\<close> once the
  output port is known.\<close>

definition tx_packet ::
  "('g, 'a, 't, 'h, 'k, 'm) rte_pipeline \<Rightarrow> nat \<Rightarrow> nat \<Rightarrow> 'm rte_run \<times> 'g \<Rightarrow> ('m rte_run \<times> 'g) res" where
  "tx_packet p i port_out_id = (\<lambda>(run, g).
     rbind (port_out_at p port_out_id) (\<lambda>port_out.
     let pkt = pkts run i;
         tx = (\<lambda>(run, g). rbind (fnptr (po_tx (pout_ops port_out))) (\<lambda>tx.
                rbind (tx (pout_h port_out) pkt g) (\<lambda>g. Inr (run, g))))
     in case pout_action port_out of None \<Rightarrow> tx (run, g)
        | Some act \<Rightarrow> rbind (act (bit1 i) run g) (\<lambda>(run, g).
            if bit1 i AND pkts_mask run \<noteq> 0 then tx (run, g) else Inr (run, g))))"

definition rte_pipeline_action_handler_port ::
  "('g, 'a, 't, 'h, 'k, 'm) rte_pipeline \<Rightarrow> u64 \<Rightarrow> 'm rte_run \<times> 'g \<Rightarrow> ('m rte_run \<times> 'g) res" where
  "rte_pipeline_action_handler_port p m = (\<lambda>(run, g).
     for_mask m (\<lambda>i (run, g). rbind (entry_of run i) (\<lambda>e. tx_packet p i (pte_id e) (run, g)))
       (run\<lparr>pkts_mask := m\<rparr>, g))"

definition rte_pipeline_action_handler_port_meta ::
  "('g, 'm) mbuf_ops \<Rightarrow> ('g, 'a, 't, 'h, 'k, 'm) rte_pipeline \<Rightarrow> u64 \<Rightarrow> 'm rte_run \<times> 'g \<Rightarrow>
   ('m rte_run \<times> 'g) res" where
  "rte_pipeline_action_handler_port_meta mo p m = (\<lambda>(run, g).
     for_mask m (\<lambda>i (run, g). tx_packet p i (mb_meta32 mo (pkts run i) (offset_port_id p) g) (run, g))
       (run\<lparr>pkts_mask := m\<rparr>, g))"

definition rte_pipeline_action_handler_drop ::
  "('g, 'm) mbuf_ops \<Rightarrow> u64 \<Rightarrow> 'm rte_run \<times> 'g \<Rightarrow> ('m rte_run \<times> 'g) res" where
  "rte_pipeline_action_handler_drop mo m = (\<lambda>(run, g).
     rbind (for_mask m (\<lambda>i g. mb_free mo (pkts run i) g) g) (\<lambda>g. Inr (run, g)))"

text \<open>One iteration of the table loop of \<open>rte_pipeline_run\<close>, in its three parts.\<close>

definition table_miss ::
  "('g, 'a, 't, 'h, 'k, 'm) rte_pipeline \<Rightarrow> ('g, 't, 'h, 'k, 'm) rte_table \<Rightarrow> u64 \<Rightarrow>
   'm rte_run \<times> 'g \<Rightarrow> ('m rte_run \<times> 'g) res" where
  "table_miss p table miss = (\<lambda>(run, g).
     if miss = 0 then Inr (run, g)
     else let de = default_entry table in
       rbind (case tbl_action_miss table of None \<Rightarrow> Inr (run\<lparr>pkts_mask := miss\<rparr>, g)
              | Some act \<Rightarrow> act miss de (run\<lparr>pkts_mask := miss\<rparr>) g) (\<lambda>(run, g).
       if pte_action de = ACTION_PORT \<and> pkts_mask run \<noteq> 0
       then rte_pipeline_action_handler_port_bulk p (pkts_mask run) (pte_id de) (run, g)
       else Inr (run\<lparr>action_mask0 := (action_mask0 run)(pte_action de :=
              action_mask0 run (pte_action de) OR pkts_mask run)\<rparr>, g)))"

definition table_hit ::
  "('g, 't, 'h, 'k, 'm) rte_table \<Rightarrow> u64 \<Rightarrow> 'm rte_run \<times> 'g \<Rightarrow> ('m rte_run \<times> 'g) res" where
  "table_hit table hit = (\<lambda>(run, g).
     if hit = 0 then Inr (run, g)
     else
       rbind (case tbl_action_hit table of None \<Rightarrow> Inr (run\<lparr>pkts_mask := hit\<rparr>, g)
              | Some act \<Rightarrow> act hit (run\<lparr>pkts_mask := hit\<rparr>) g) (\<lambda>(run, g).
       rbind (rte_pipeline_compute_masks (pkts_mask run) run) (\<lambda>run.
       Inr (run\<lparr>action_mask0 := (\<lambda>a. action_mask0 run a OR action_mask1 run a)\<rparr>, g))))"

definition table_step ::
  "('g, 'a, 't, 'h, 'k, 'm) rte_pipeline \<Rightarrow> nat \<Rightarrow> 'm rte_run \<times> 'g \<Rightarrow>
   (nat \<times> 'm rte_run \<times> 'g) res" where
  "table_step p table_id = (\<lambda>(run, g).
     if table_id \<ge> RTE_PIPELINE_TABLE_MAX then Inl OutOfBounds
     else if table_id \<ge> length (tables p) then Inl NullDeref
     else let table = tables p ! table_id in
       rbind (fnptr (t_lookup (tbl_ops table))) (\<lambda>lookup.
       rbind (lookup (h_table table) (pkts run) (pkts_mask run) (entries run) g) (\<lambda>(hit, ents, g).
       rbind (table_miss p table (pkts_mask run AND NOT hit) (run\<lparr>entries := ents\<rparr>, g)) (\<lambda>s.
       rbind (table_hit table hit s) (\<lambda>(run, g).
       Inr (table_next_id table,
            run\<lparr>pkts_mask := action_mask0 run ACTION_TABLE,
                action_mask0 := (action_mask0 run)(ACTION_TABLE := 0)\<rparr>, g))))))"

text \<open>The table loop may not end (tables may name each other as next in a cycle): \<open>fuel\<close> bounds
  the number of lookups, and running out of it is the outcome \<open>OutOfFuel\<close>.\<close>

primrec table_loop ::
  "nat \<Rightarrow> ('g, 'a, 't, 'h, 'k, 'm) rte_pipeline \<Rightarrow> nat \<Rightarrow> 'm rte_run \<times> 'g \<Rightarrow> ('m rte_run \<times> 'g) res" where
  "table_loop 0 p table_id s = (if pkts_mask (fst s) = 0 then Inr s else Inl OutOfFuel)"
| "table_loop (Suc fuel) p table_id s =
     (if pkts_mask (fst s) = 0 then Inr s
      else rbind (table_step p table_id s) (\<lambda>(next, s). table_loop fuel p next s))"

definition rte_pipeline_run ::
  "nat \<Rightarrow> ('g, 'm) mbuf_ops \<Rightarrow> ('g, 'a, 't, 'h, 'k, 'm) rte_pipeline \<Rightarrow> 'g \<Rightarrow>
   (int \<times> ('g, 'a, 't, 'h, 'k, 'm) rte_pipeline \<times> 'g) res" where
  "rte_pipeline_run fuel mo p g =
     (case port_in_next p of None \<Rightarrow> Inr (0, p, g)
      | Some pi \<Rightarrow>
          if pi \<ge> length (ports_in p) then Inl NullDeref
          else let port_in = ports_in p ! pi; run = prun p in
            rbind (fnptr (pi_rx (pin_ops port_in))) (\<lambda>rx.
            rbind (rx (pin_h port_in) (pin_burst_size port_in) g) (\<lambda>(ms, g).
            let n_pkts = length ms in
            if n_pkts > RTE_PORT_IN_BURST_SIZE_MAX then Inl OutOfBounds
            else if n_pkts = 0 then Inr (0, p\<lparr>port_in_next := pin_next port_in\<rparr>, g)
            else let run = run\<lparr>pkts := (\<lambda>i. if i < n_pkts then ms ! i else pkts run i),
                               pkts_mask := RTE_LEN2MASK n_pkts, action_mask0 := (\<lambda>_. 0)\<rparr> in
              rbind (case pin_action port_in of None \<Rightarrow> Inr (run, g)
                     | Some act \<Rightarrow> act n_pkts run g) (\<lambda>s.
              rbind (table_loop fuel p (pin_table_id port_in) s) (\<lambda>s.
              rbind (rte_pipeline_action_handler_port p (action_mask0 (fst s) ACTION_PORT) s) (\<lambda>s.
              rbind (rte_pipeline_action_handler_port_meta mo p (action_mask0 (fst s) ACTION_PORT_META) s) (\<lambda>s.
              rbind (rte_pipeline_action_handler_drop mo (action_mask0 (fst s) ACTION_DROP) s) (\<lambda>(run, g).
              Inr (int n_pkts, p\<lparr>prun := run, port_in_next := pin_next port_in\<rparr>, g)))))))))"

definition rte_pipeline_flush ::
  "('g, 'a, 't, 'h, 'k, 'm) rte_pipeline option \<Rightarrow> 'g \<Rightarrow> (int \<times> 'g) res" where
  "rte_pipeline_flush po g =
     (case po of None \<Rightarrow> Inr (- EINVAL, g)
      | Some p \<Rightarrow> rbind (rfold (\<lambda>port. opt_call (po_flush (pout_ops port)) (pout_h port)) (ports_out p) g)
                    (\<lambda>g. Inr (0, g)))"

definition rte_pipeline_port_out_packet_insert ::
  "('g, 'a, 't, 'h, 'k, 'm) rte_pipeline \<Rightarrow> nat \<Rightarrow> 'm \<Rightarrow> 'g \<Rightarrow> (int \<times> 'g) res" where
  "rte_pipeline_port_out_packet_insert p port_id pkt g =
     rbind (port_out_at p port_id) (\<lambda>port_out.
     rbind (fnptr (po_tx (pout_ops port_out))) (\<lambda>tx.
     rbind (tx (pout_h port_out) pkt g) (\<lambda>g. Inr (0, g))))"

definition rte_pipeline_ah_packet_hijack :: "u64 \<Rightarrow> 'm rte_run \<Rightarrow> int \<times> 'm rte_run" where
  "rte_pipeline_ah_packet_hijack m run =
     (let m = m AND pkts_mask run in (0, run\<lparr>pkts_mask := pkts_mask run AND NOT m\<rparr>))"

definition rte_pipeline_ah_packet_drop :: "u64 \<Rightarrow> 'm rte_run \<Rightarrow> int \<times> 'm rte_run" where
  "rte_pipeline_ah_packet_drop m run =
     (let m = m AND pkts_mask run
      in (0, run\<lparr>pkts_mask := pkts_mask run AND NOT m,
                 action_mask0 := (action_mask0 run)(ACTION_DROP := action_mask0 run ACTION_DROP OR m)\<rparr>))"

text \<open>
  Reading statistics. The caller's structure (None for a NULL pointer) holds the statistics of the
  low-level object and the drop counters; the functions store into it and may clear the counters.
\<close>

type_synonym port_stats = "(u64 \<times> u64) \<times> u64"
type_synonym table_stats = "(u64 \<times> u64) \<times> u64 \<times> u64 \<times> u64 \<times> u64"

definition low_level_stats ::
  "('h \<Rightarrow> bool \<Rightarrow> 'g \<Rightarrow> (int \<times> (u64 \<times> u64) \<times> 'g) res) option \<Rightarrow> 'h \<Rightarrow> bool \<Rightarrow> 'g \<Rightarrow>
   (int \<times> (u64 \<times> u64) \<times> 'g) res" where
  "low_level_stats f h clear g = (case f of None \<Rightarrow> Inr (0, (0, 0), g) | Some f \<Rightarrow> f h clear g)"

definition rte_pipeline_port_in_stats_read ::
  "('g, 'a, 't, 'h, 'k, 'm) rte_pipeline option \<Rightarrow> nat \<Rightarrow> port_stats option \<Rightarrow> bool \<Rightarrow> 'g \<Rightarrow>
   (int \<times> port_stats option \<times> ('g, 'a, 't, 'h, 'k, 'm) rte_pipeline option \<times> 'g) res" where
  "rte_pipeline_port_in_stats_read po port_id stats clear g =
     (case po of None \<Rightarrow> Inr (- EINVAL, stats, po, g)
      | Some p \<Rightarrow>
          if port_id \<ge> length (ports_in p) then Inr (- EINVAL, stats, po, g)
          else let port = ports_in p ! port_id in
            rbind (low_level_stats (pi_stats (pin_ops port)) (pin_h port) clear g) (\<lambda>(ret, st, g).
            if ret \<noteq> 0 then Inr (ret, map_option (\<lambda>(_, d). (st, d)) stats, po, g)
            else Inr (0, map_option (\<lambda>_. (st, pin_n_pkts_dropped_by_ah port)) stats,
                   Some (if clear then p\<lparr>ports_in := (ports_in p)[port_id :=
                           port\<lparr>pin_n_pkts_dropped_by_ah := 0\<rparr>]\<rparr> else p), g)))"

definition rte_pipeline_port_out_stats_read ::
  "('g, 'a, 't, 'h, 'k, 'm) rte_pipeline option \<Rightarrow> nat \<Rightarrow> port_stats option \<Rightarrow> bool \<Rightarrow> 'g \<Rightarrow>
   (int \<times> port_stats option \<times> ('g, 'a, 't, 'h, 'k, 'm) rte_pipeline option \<times> 'g) res" where
  "rte_pipeline_port_out_stats_read po port_id stats clear g =
     (case po of None \<Rightarrow> Inr (- EINVAL, stats, po, g)
      | Some p \<Rightarrow>
          if port_id \<ge> length (ports_out p) then Inr (- EINVAL, stats, po, g)
          else let port = ports_out p ! port_id in
            rbind (low_level_stats (po_stats (pout_ops port)) (pout_h port) clear g) (\<lambda>(ret, st, g).
            if ret \<noteq> 0 then Inr (ret, map_option (\<lambda>(_, d). (st, d)) stats, po, g)
            else Inr (0, map_option (\<lambda>_. (st, pout_n_pkts_dropped_by_ah port)) stats,
                   Some (if clear then p\<lparr>ports_out := (ports_out p)[port_id :=
                           port\<lparr>pout_n_pkts_dropped_by_ah := 0\<rparr>]\<rparr> else p), g)))"

definition rte_pipeline_table_stats_read ::
  "('g, 'a, 't, 'h, 'k, 'm) rte_pipeline option \<Rightarrow> nat \<Rightarrow> table_stats option \<Rightarrow> bool \<Rightarrow> 'g \<Rightarrow>
   (int \<times> table_stats option \<times> ('g, 'a, 't, 'h, 'k, 'm) rte_pipeline option \<times> 'g) res" where
  "rte_pipeline_table_stats_read po table_id stats clear g =
     (case po of None \<Rightarrow> Inr (- EINVAL, stats, po, g)
      | Some p \<Rightarrow>
          if table_id \<ge> length (tables p) then Inr (- EINVAL, stats, po, g)
          else let table = tables p ! table_id in
            rbind (low_level_stats (t_stats (tbl_ops table)) (h_table table) clear g) (\<lambda>(ret, st, g).
            if ret \<noteq> 0 then Inr (ret, map_option (\<lambda>(_, d). (st, d)) stats, po, g)
            else Inr (0, map_option (\<lambda>_. (st, n_pkts_dropped_by_lkp_hit_ah table,
                     n_pkts_dropped_by_lkp_miss_ah table, n_pkts_dropped_lkp_hit table,
                     n_pkts_dropped_lkp_miss table)) stats,
                   Some (if clear then p\<lparr>tables := (tables p)[table_id :=
                           table\<lparr>n_pkts_dropped_by_lkp_hit_ah := 0, n_pkts_dropped_by_lkp_miss_ah := 0,
                             n_pkts_dropped_lkp_hit := 0, n_pkts_dropped_lkp_miss := 0\<rparr>]\<rparr> else p), g)))"

end
