(* ===== verification/Port_Chain.thy ===== *)
theory Port_Chain
  imports Pipeline
begin

text \<open>
  The circular list of enabled input ports of a pipeline (rte_pipeline.c: \<open>rte_mask_get_next\<close>,
  \<open>rte_mask_get_prev\<close>, \<open>rte_pipeline_port_in_enable\<close>, \<open>_disable\<close>, and how \<open>rte_pipeline_run\<close> moves
  along it). The specification is the cyclic order of the set bits of the enabled mask: the rotate
  and count-zeros code computes the cyclic successor and predecessor, enabling and disabling keep the
  \<open>next\<close> pointers equal to the cyclic successor, and the pointers visit every enabled port.
\<close>

section \<open>Cyclic order of the set bits\<close>

text \<open>The next set bit after position \<open>i\<close>, else the lowest one; the last set bit before \<open>i\<close>,
  else the highest one.\<close>

definition next_bit :: "u64 \<Rightarrow> nat \<Rightarrow> nat" where
  "next_bit m i = (case filter (\<lambda>j. i < j) (bits_of m) of [] \<Rightarrow> hd (bits_of m) | j # _ \<Rightarrow> j)"

definition prev_bit :: "u64 \<Rightarrow> nat \<Rightarrow> nat" where
  "prev_bit m i = (case filter (\<lambda>j. j < i) (bits_of m) of [] \<Rightarrow> last (bits_of m) | j # js \<Rightarrow> last (j # js))"

text \<open>The number of steps, 1 to 64, from position \<open>i\<close> up to position \<open>j\<close> on the circle.\<close>

definition fdist :: "nat \<Rightarrow> nat \<Rightarrow> nat" where
  "fdist i j = (if i < j then j - i else j + 64 - i)"

lemma next_bit_nearest:
  assumes "m \<noteq> 0" and "i < 64"
  shows "bit m (next_bit m i)" and "bit m j \<Longrightarrow> fdist i (next_bit m i) \<le> fdist i j"
proof -
  let ?up = "filter (\<lambda>j. i < j) (bits_of m)"
  have ne: "bits_of m \<noteq> []" using assms(1) by simp
  then obtain b bs where b: "bits_of m = b # bs" by (cases "bits_of m") auto
  have "sorted (b # bs)" using sorted_bits_of [of m] b by simp
  then have low: "bit m k \<Longrightarrow> b \<le> k" for k using b set_bits_of [of m] by auto
  have "bit m (next_bit m i) \<and> (bit m j \<longrightarrow> fdist i (next_bit m i) \<le> fdist i j)"
  proof (cases ?up)
    case Nil
    then have "\<And>k. bit m k \<Longrightarrow> k \<le> i" by (auto simp: filter_empty_conv not_less)
    moreover have "bit m b" using b set_bits_of [of m] by auto
    moreover have "next_bit m i = b" using Nil b by (simp add: next_bit_def)
    ultimately show ?thesis using low [of j] by (force simp: fdist_def)
  next
    case (Cons u us)
    then have "u \<in> set ?up" by simp
    then have u: "bit m u" "i < u" by auto
    have "sorted ?up" by (simp add: sorted_wrt_filter)
    then have "k \<in> set ?up \<Longrightarrow> u \<le> k" for k unfolding Cons by auto
    then have "bit m j \<Longrightarrow> i < j \<Longrightarrow> u - i \<le> j - i" by (simp add: diff_le_mono)
    with u show ?thesis using Cons bit_u64_le [of m u]
      by (auto simp: next_bit_def fdist_def)
  qed
  then show "bit m (next_bit m i)" and "bit m j \<Longrightarrow> fdist i (next_bit m i) \<le> fdist i j"
    by simp_all
qed

lemma prev_bit_nearest:
  assumes "m \<noteq> 0" and "i < 64"
  shows "bit m (prev_bit m i)" and "bit m j \<Longrightarrow> fdist (prev_bit m i) i \<le> fdist j i"
proof -
  let ?dn = "filter (\<lambda>j. j < i) (bits_of m)"
  have last_max: "sorted xs \<Longrightarrow> k \<in> set xs \<Longrightarrow> k \<le> last xs" for k and xs :: "nat list"
    by (induction xs) auto
  have ne: "bits_of m \<noteq> []" using assms(1) by simp
  have "bit m (prev_bit m i) \<and> (bit m j \<longrightarrow> fdist (prev_bit m i) i \<le> fdist j i)"
  proof (cases ?dn)
    case Nil
    then have "\<And>k. bit m k \<Longrightarrow> i \<le> k" by (auto simp: filter_empty_conv not_less)
    moreover have "bit m (last (bits_of m))" using last_in_set [OF ne] by simp
    moreover have "bit m k \<Longrightarrow> k \<le> last (bits_of m)" for k
      using last_max [OF sorted_bits_of, of k m] by simp
    ultimately show ?thesis using Nil bit_u64_le [of m]
      by (auto simp: prev_bit_def fdist_def not_less split: if_splits) force+
  next
    case (Cons u us)
    then have l: "prev_bit m i = last ?dn" by (simp add: prev_bit_def)
    have "last ?dn \<in> set ?dn" using Cons by (intro last_in_set) simp
    then have u: "bit m (last ?dn)" "last ?dn < i" by auto
    have "sorted ?dn" by (simp add: sorted_wrt_filter)
    then have "bit m k \<Longrightarrow> k < i \<Longrightarrow> k \<le> last ?dn" for k
      using last_max [of ?dn k] by simp
    then have "bit m j \<Longrightarrow> j < i \<Longrightarrow> i - last ?dn \<le> i - j" by (meson diff_le_mono2)
    with u show ?thesis unfolding l using bit_u64_le [of m j] assms(2)
      by (auto simp: fdist_def)
  qed
  then show "bit m (prev_bit m i)" and "bit m j \<Longrightarrow> fdist (prev_bit m i) i \<le> fdist j i"
    by simp_all
qed

lemma fdist_inj: "fdist i j = fdist i k \<Longrightarrow> i < 64 \<Longrightarrow> j < 64 \<Longrightarrow> k < 64 \<Longrightarrow> j = k"
  by (auto simp: fdist_def split: if_splits)

lemma fdist_inj2: "fdist j i = fdist k i \<Longrightarrow> i < 64 \<Longrightarrow> j < 64 \<Longrightarrow> k < 64 \<Longrightarrow> j = k"
  by (auto simp: fdist_def split: if_splits)

lemma next_bit_unique:
  assumes "bit m n" and "i < 64" and "\<And>j. bit m j \<Longrightarrow> fdist i n \<le> fdist i j"
  shows "next_bit m i = n"
proof -
  have "m \<noteq> 0" using assms(1) by auto
  note nb = next_bit_nearest [OF this assms(2)]
  have "fdist i (next_bit m i) = fdist i n" using nb(2) [OF assms(1)] assms(3) [OF nb(1)] by simp
  then show ?thesis using fdist_inj assms(2) bit_u64_le [OF nb(1)] bit_u64_le [OF assms(1)] by blast
qed

lemma prev_bit_unique:
  assumes "bit m n" and "i < 64" and "\<And>j. bit m j \<Longrightarrow> fdist n i \<le> fdist j i"
  shows "prev_bit m i = n"
proof -
  have "m \<noteq> 0" using assms(1) by auto
  note nb = prev_bit_nearest [OF this assms(2)]
  have "fdist (prev_bit m i) i = fdist n i" using nb(2) [OF assms(1)] assms(3) [OF nb(1)] by simp
  then show ?thesis using fdist_inj2 assms(2) bit_u64_le [OF nb(1)] bit_u64_le [OF assms(1)] by blast
qed

text \<open>If \<open>j\<close> lies strictly between \<open>i\<close> and \<open>k\<close> then it is closer to \<open>k\<close> than \<open>i\<close> is.\<close>

lemma fdist_between:
  assumes "fdist i j < fdist i k" and "i < 64" and "j < 64" and "k < 64"
  shows "fdist j k < fdist i k" and "fdist i k = fdist i j + fdist j k"
  using assms by (auto simp: fdist_def split: if_splits)

lemma fdist_between2:
  assumes "fdist j k < fdist i k" and "i < 64" and "j < 64" and "k < 64"
  shows "fdist i j < fdist i k"
  using assms by (auto simp: fdist_def split: if_splits)

lemma next_prev:
  assumes "bit m p"
  shows "next_bit m (prev_bit m p) = p"
proof (rule next_bit_unique [OF assms])
  have m: "m \<noteq> 0" and p: "p < 64" using assms bit_u64_le by auto
  note pb = prev_bit_nearest [OF m p]
  show q: "prev_bit m p < 64" using pb(1) bit_u64_le by blast
  fix j assume j: "bit m j"
  show "fdist (prev_bit m p) p \<le> fdist (prev_bit m p) j"
  proof (rule ccontr)
    assume "\<not> ?thesis"
    then have "fdist j p < fdist (prev_bit m p) p"
      using fdist_between(1) [OF _ q _ p] bit_u64_le [OF j] by simp
    with pb(2) [OF j] show False by simp
  qed
qed

lemma prev_next:
  assumes "bit m p"
  shows "prev_bit m (next_bit m p) = p"
proof (rule prev_bit_unique [OF assms])
  have m: "m \<noteq> 0" and p: "p < 64" using assms bit_u64_le by auto
  note nb = next_bit_nearest [OF m p]
  show q: "next_bit m p < 64" using nb(1) bit_u64_le by blast
  fix j assume j: "bit m j"
  show "fdist p (next_bit m p) \<le> fdist j (next_bit m p)"
  proof (rule ccontr)
    assume "\<not> ?thesis"
    then have "fdist p j < fdist p (next_bit m p)"
      using fdist_between2 [OF _ p _ q] bit_u64_le [OF j] by simp
    with nb(2) [OF j] show False by simp
  qed
qed

lemma next_bit_insert:
  assumes "m \<noteq> 0" and "i < 64" and "next_bit (m OR bit1 p) i \<noteq> p"
  shows "next_bit (m OR bit1 p) i = next_bit m i"
proof -
  let ?m = "m OR bit1 p"
  have b: "bit ?m j \<longleftrightarrow> bit m j \<or> (j = p \<and> p < 64)" for j by (auto simp: bit_or_iff)
  have "?m \<noteq> 0" using assms(1) b by (metis bit_eqI bit_0_eq bot_apply bot_bool_def)
  note nb = next_bit_nearest [OF this assms(2)]
  show ?thesis
    using nb assms(2,3) by (intro next_bit_unique [symmetric]) (auto simp: b)
qed

lemma int_fdist: "i < 64 \<Longrightarrow> int (fdist i j) = int j - int i + (if i < j then 0 else 64)"
  by (simp add: fdist_def)

lemma fdist_around:
  assumes "q < 64" "n < 64" "p < 64" "j < 64" "j \<noteq> p" and "fdist q p \<le> fdist j p"
    and "fdist p n \<le> fdist p j" and "fdist q p \<le> fdist n p" and "fdist p n \<le> fdist p q"
  shows "fdist q n \<le> fdist q j"
proof -
  note d = int_fdist [OF assms(1)] int_fdist [OF assms(2)] int_fdist [OF assms(3)] int_fdist [OF assms(4)]
  have "int (fdist q p) \<le> int (fdist j p)" "int (fdist p n) \<le> int (fdist p j)"
    "int (fdist q p) \<le> int (fdist n p)" "int (fdist p n) \<le> int (fdist p q)" "j < p \<or> p < j"
    using assms by auto
  then have "int (fdist q n) \<le> int (fdist q j)"
    using assms(1-4) unfolding d by (auto split: if_splits)
  then show ?thesis by simp
qed

lemma next_prev_disabled:
  assumes "m \<noteq> 0" and "\<not> bit m p" and p: "p < 64"
  shows "next_bit m (prev_bit m p) = next_bit m p"
proof -
  note pb = prev_bit_nearest [OF assms(1) p]
  note nb = next_bit_nearest [OF assms(1) p]
  have q: "prev_bit m p < 64" and n: "next_bit m p < 64" using pb(1) nb(1) bit_u64_le by auto
  show ?thesis
  proof (rule next_bit_unique [OF nb(1) q])
    fix j assume j: "bit m j"
    have "j < 64" "j \<noteq> p" using j bit_u64_le assms(2) by auto
    then show "fdist (prev_bit m p) (next_bit m p) \<le> fdist (prev_bit m p) j"
      by (intro fdist_around [OF q n p _ _ pb(2) [OF j] nb(2) [OF j] pb(2) [OF nb(1)] nb(2) [OF pb(1)]])
  qed
qed

section \<open>The mask functions compute the cyclic order\<close>

lemma bit_rot_next:
  assumes "pos < 64" and "k < 64"
  shows "bit (push_bit (63 - pos) m OR drop_bit ((pos + 1) mod 64) (m::u64)) k \<longleftrightarrow>
    bit m ((k + pos + 1) mod 64)"
proof (cases "k + pos + 1 < 64")
  case True
  then show ?thesis using assms by (auto simp: bit_simps ac_simps)
next
  case False
  then have "(k + pos + 1) mod 64 = k + pos + 1 - 64"
    using assms by (simp add: le_mod_geq)
  moreover have "bit m (k + Suc pos) = False" if "pos < 63"
    using False bit_u64_le [of m "k + Suc pos"] by auto
  moreover have "pos = 63 \<or> pos < 63" using assms by auto
  ultimately show ?thesis using assms False
    by (auto simp: bit_simps ac_simps)
qed

lemma bit_rot_prev:
  assumes "pos < 64" and "k < 64"
  shows "bit (drop_bit pos m OR push_bit ((64 - pos) mod 64) (m::u64)) k \<longleftrightarrow>
    bit m ((k + pos) mod 64)"
proof (cases "k + pos < 64")
  case True
  then show ?thesis using assms by (cases "pos = 0") (auto simp: bit_simps ac_simps)
next
  case False
  then have "(k + pos) mod 64 = k + pos - 64"
    using assms by (simp add: le_mod_geq)
  moreover have "\<not> bit m (pos + k)" using False bit_u64_le [of m "pos + k"] by auto
  moreover have "pos \<noteq> 0" using False assms by auto
  ultimately show ?thesis using assms False
    by (auto simp: bit_simps ac_simps)
qed

lemma u32_and_63: "unat ((w::u32) AND 0x3F) = unat w mod 64"
proof -
  have "(w::u32) AND 0x3F = take_bit 6 w" by (simp add: take_bit_eq_mask mask_eq_exp_minus_1)
  then have "unat (w AND 0x3F) = take_bit 6 (unat w)" by (simp only: unsigned_take_bit_eq)
  then show ?thesis by (simp add: take_bit_eq_mod)
qed

lemma u32_offset: "unat (of_nat k + 4294967232 :: u32) mod 64 = k mod 64"
proof -
  have "of_nat k + 4294967232 = (of_nat (k + 4294967232) :: u32)" by simp
  then have "unat (of_nat k + 4294967232 :: u32) = (k + 4294967232) mod 2 ^ 32"
    by (simp only: unsigned_of_nat take_bit_eq_mod) simp
  then show ?thesis by (simp add: mod_mod_cancel mod_add_right_eq [of k 4294967232 64, symmetric])
qed

lemma fdist_forward: "c < 64 \<Longrightarrow> i < 64 \<Longrightarrow> fdist i ((c + i + 1) mod 64) = c + 1"
  by (cases "c + i + 1 < 64") (auto simp: fdist_def le_mod_geq)

lemma fdist_backward: "c < 64 \<Longrightarrow> i < 64 \<Longrightarrow> fdist ((c + i) mod 64) i = 64 - c"
  by (cases "c + i < 64") (auto simp: fdist_def le_mod_geq)

lemma rte_mask_get_next_eq:
  assumes "m \<noteq> 0" and pos: "pos < 64"
  shows "unat (rte_mask_get_next m (of_nat pos)) = next_bit m pos"
proof -
  let ?rot = "push_bit (63 - pos) m OR drop_bit ((pos + 1) mod 64) m"
  have "63 - of_nat pos = (of_nat (63 - pos) :: u32)" using pos by (simp add: of_nat_diff)
  moreover have "unat (of_nat (63 - pos) :: u32) = 63 - pos"
    by (simp add: unsigned_of_nat take_bit_eq_mod)
  ultimately have s1: "unat ((63 - of_nat pos :: u32) AND 0x3F) = 63 - pos" by (simp add: u32_and_63)
  have "of_nat pos + 1 = (of_nat (pos + 1) :: u32)" by simp
  moreover have "unat (of_nat (pos + 1) :: u32) = pos + 1"
    using pos by (simp only: unsigned_of_nat take_bit_eq_mod) simp
  ultimately have s2: "unat ((of_nat pos + 1 :: u32) AND 0x3F) = (pos + 1) mod 64"
    by (simp only: u32_and_63)
  obtain j where j: "bit m j" using assms(1) by (metis bit_eqI bit_0_eq bot_apply bot_bool_def)
  have bk: "bit ?rot (fdist pos j - 1)" "fdist pos j \<ge> 1" "fdist pos j - 1 < 64" if "bit m j" for j
  proof -
    have j: "j < 64" using that by (rule bit_u64_le)
    show "fdist pos j \<ge> 1" and lt: "fdist pos j - 1 < 64" using j pos by (auto simp: fdist_def)
    have "(fdist pos j - 1 + pos + 1) mod 64 = j" using j pos by (auto simp: fdist_def)
    with that show "bit ?rot (fdist pos j - 1)" using bit_rot_next [OF pos lt] by simp
  qed
  have rot: "?rot \<noteq> 0" using bk(1) [OF j] by auto
  note c = ctz_less [OF rot]
  let ?n = "(ctz ?rot + pos + 1) mod 64"
  have m64: "(4294967232 :: u32) = - 64" by simp
  have "of_nat (ctz ?rot) - (63 - of_nat pos) = (of_nat (ctz ?rot + pos + 1) + 4294967232 :: u32)"
    unfolding m64 by (simp add: algebra_simps)
  moreover have "unat (rte_mask_get_next m (of_nat pos)) =
      unat ((of_nat (ctz ?rot) - (63 - of_nat pos) :: u32) AND 0x3F)"
    by (simp only: rte_mask_get_next_def Let_def s1 s2)
  ultimately have "unat (rte_mask_get_next m (of_nat pos)) = ?n"
    by (simp only: u32_offset u32_and_63)
  moreover have "next_bit m pos = ?n"
  proof (rule next_bit_unique [OF _ pos])
    show "bit m ?n" using c(2) bit_rot_next [OF pos c(1)] by simp
    fix j assume "bit m j"
    then have "ctz ?rot \<le> fdist pos j - 1" using bk(1) [of j] c(3) [of "fdist pos j - 1"] by force
    with bk(2) [OF \<open>bit m j\<close>] show "fdist pos ?n \<le> fdist pos j"
      using fdist_forward [OF c(1) pos] by linarith
  qed
  ultimately show ?thesis by simp
qed

lemma rte_mask_get_prev_eq:
  assumes "m \<noteq> 0" and pos: "pos < 64"
  shows "unat (rte_mask_get_prev m (of_nat pos)) = prev_bit m pos"
proof -
  let ?rot = "drop_bit pos m OR push_bit ((64 - pos) mod 64) m"
  have "unat (of_nat pos :: u32) = pos" using pos by (simp add: unsigned_of_nat take_bit_eq_mod)
  then have s1: "unat ((of_nat pos :: u32) AND 0x3F) = pos" using pos by (simp add: u32_and_63)
  have "64 - of_nat pos = (of_nat (64 - pos) :: u32)" using pos by (simp add: of_nat_diff)
  moreover have "unat (of_nat (64 - pos) :: u32) = 64 - pos"
    by (simp add: unsigned_of_nat take_bit_eq_mod)
  ultimately have s2: "unat ((64 - of_nat pos :: u32) AND 0x3F) = (64 - pos) mod 64"
    by (simp only: u32_and_63)
  obtain j where j: "bit m j" using assms(1) by (metis bit_eqI bit_0_eq bot_apply bot_bool_def)
  have bk: "bit ?rot (64 - fdist j pos)" "1 \<le> fdist j pos" "fdist j pos \<le> 64" if "bit m j" for j
  proof -
    have j: "j < 64" using that by (rule bit_u64_le)
    show "1 \<le> fdist j pos" and "fdist j pos \<le> 64" using j pos by (auto simp: fdist_def)
    then have lt: "64 - fdist j pos < 64" by simp
    have "(64 - fdist j pos + pos) mod 64 = j" using j pos by (auto simp: fdist_def le_mod_geq)
    with that show "bit ?rot (64 - fdist j pos)" using bit_rot_prev [OF pos lt] by simp
  qed
  have rot: "?rot \<noteq> 0" using bk(1) [OF j] by auto
  note c = clz_less [OF rot]
  let ?k = "63 - clz ?rot"
  have k: "?k < 64" by simp
  let ?n = "(?k + pos) mod 64"
  have "unat (of_nat (?k + pos) :: u32) = ?k + pos"
    using pos by (simp only: unsigned_of_nat take_bit_eq_mod) simp
  moreover have "unat (rte_mask_get_prev m (of_nat pos)) =
      unat ((of_nat ?k + of_nat pos :: u32) AND 0x3F)"
    by (simp only: rte_mask_get_prev_def Let_def s1 s2)
  ultimately have "unat (rte_mask_get_prev m (of_nat pos)) = ?n"
    by (simp only: u32_and_63 of_nat_add)
  moreover have "prev_bit m pos = ?n"
  proof (rule prev_bit_unique [OF _ pos])
    show "bit m ?n" using c(2) bit_rot_prev [OF pos k] by simp
    fix j assume "bit m j"
    then have "64 - fdist j pos \<le> ?k" using bk(1) [of j] c(3) [of "64 - fdist j pos"] by force
    with bk(2,3) [OF \<open>bit m j\<close>] show "fdist ?n pos \<le> fdist j pos"
      using fdist_backward [OF k pos] by linarith
  qed
  ultimately show ?thesis by simp
qed

section \<open>The chain of enabled ports\<close>

text \<open>
  The invariant: enabled ports exist, each one's \<open>next\<close> pointer is its cyclic successor among the
  enabled ports, and \<open>port_in_next\<close> is an enabled port, or NULL when there is none.
\<close>

definition port_chain :: "('g, 'a, 't, 'h, 'k, 'm) rte_pipeline \<Rightarrow> bool" where
  "port_chain p \<longleftrightarrow>
     length (ports_in p) \<le> RTE_PIPELINE_PORT_IN_MAX \<and>
     (\<forall>i < 64. bit (enabled_port_in_mask p) i \<longrightarrow> i < length (ports_in p) \<and>
        pin_next (ports_in p ! i) = Some (next_bit (enabled_port_in_mask p) i)) \<and>
     (case port_in_next p of None \<Rightarrow> enabled_port_in_mask p = 0
      | Some i \<Rightarrow> bit (enabled_port_in_mask p) i)"

lemma port_chainD:
  assumes "port_chain p" and "bit (enabled_port_in_mask p) i"
  shows "i < length (ports_in p)" and "i < 64"
    and "pin_next (ports_in p ! i) = Some (next_bit (enabled_port_in_mask p) i)"
  using assms bit_u64_le [of "enabled_port_in_mask p" i] by (auto simp: port_chain_def)

lemma port_chain_create: "rte_pipeline_create params alloc = Some p \<Longrightarrow> port_chain p"
  by (auto simp: rte_pipeline_create_def port_chain_def split: if_splits option.splits)

lemma port_chain_cong:
  assumes "port_chain p" and "length (ports_in q) = length (ports_in p)"
    and "\<And>i. i < length (ports_in p) \<Longrightarrow> pin_next (ports_in q ! i) = pin_next (ports_in p ! i)"
    and "enabled_port_in_mask q = enabled_port_in_mask p" and "port_in_next q = port_in_next p"
  shows "port_chain q"
  using assms by (auto simp: port_chain_def split: option.splits)

lemma port_chain_connect:
  assumes "port_chain p" and "rte_pipeline_port_in_connect_to_table (Some p) i t = (r, Some q)"
  shows "port_chain q"
  using assms(2)
  by (intro port_chain_cong [OF assms(1)])
     (auto simp: rte_pipeline_port_in_connect_to_table_def nth_list_update split: if_splits)

lemma port_chain_port_in_create:
  assumes "port_chain p"
    and "rte_pipeline_port_in_create (Some p) params ptr st g = Inr (r, pid, Some q, g')"
  shows "port_chain q"
proof (cases "q = p")
  case False
  then have status: "rte_pipeline_port_in_check_params (Some p) params ptr = 0"
    using assms(2) by (auto simp: rte_pipeline_port_in_create_def Let_def split: if_splits)
  then have "length (ports_in p) \<noteq> 64"
    by (auto simp: rte_pipeline_port_in_check_params_def split: option.splits if_splits)
  then have "length (ports_in p) < 64" using assms(1) by (simp add: port_chain_def)
  moreover obtain port where "q = p\<lparr>ports_in := ports_in p @ [port]\<rparr>"
    using assms(2) False status
    by (auto simp: rte_pipeline_port_in_create_def Let_def elim!: rbind_eq_InrE split: option.splits)
  ultimately show ?thesis using assms(1)
    by (auto simp: port_chain_def nth_append split: option.splits)
qed (use assms in simp)

lemma nth_set_port_next:
  "i < length ps \<Longrightarrow> pin_next (set_port_next j n ps ! i) = (if i = j then Some n else pin_next (ps ! i))"
  by (auto simp: set_port_next_def nth_list_update)

lemma length_set_port_next [simp]: "length (set_port_next j n ps) = length ps"
  by (simp add: set_port_next_def)

text \<open>Both functions keep the chain. Enabling and disabling also store only to occupied slots.\<close>

lemma enable_ring:
  assumes p: "port_chain p" and pid: "port_id < length (ports_in p)"
    and new: "\<not> bit (enabled_port_in_mask p) port_id"
  defines "em \<equiv> enabled_port_in_mask p OR bit1 port_id"
  shows "prev_bit em port_id < length (ports_in p)" and "next_bit em port_id < length (ports_in p)"
    and "\<And>i. bit em i \<Longrightarrow>
      pin_next (set_port_next port_id (next_bit em port_id)
        (set_port_next (prev_bit em port_id) port_id (ports_in p)) ! i) = Some (next_bit em i)"
proof -
  have lt: "port_id < 64" using p pid by (simp add: port_chain_def)
  have b: "bit em j \<longleftrightarrow> bit (enabled_port_in_mask p) j \<or> j = port_id" for j
    using lt by (auto simp: em_def bit_or_iff)
  have len: "bit em j \<Longrightarrow> j < length (ports_in p)" for j using b port_chainD(1) [OF p] pid by auto
  have em: "em \<noteq> 0" using b [of port_id] by auto
  show "prev_bit em port_id < length (ports_in p)" "next_bit em port_id < length (ports_in p)"
    using len prev_bit_nearest(1) [OF em lt] next_bit_nearest(1) [OF em lt] by auto
  fix i assume i: "bit em i"
  consider "i = port_id" | "i \<noteq> port_id" "i = prev_bit em port_id"
    | "i \<noteq> port_id" "i \<noteq> prev_bit em port_id" by blast
  then show "pin_next (set_port_next port_id (next_bit em port_id)
        (set_port_next (prev_bit em port_id) port_id (ports_in p)) ! i) = Some (next_bit em i)"
  proof cases
    case 3
    then have old: "bit (enabled_port_in_mask p) i" using i b by simp
    have "next_bit em i \<noteq> port_id" using prev_next [OF i] 3 by auto
    then have "next_bit em i = next_bit (enabled_port_in_mask p) i"
      unfolding em_def using old bit_u64_le [OF old] by (intro next_bit_insert) auto
    with 3 show ?thesis using len [OF i] port_chainD(3) [OF p old] by (simp add: nth_set_port_next)
  qed (use len [OF i] next_prev [of em port_id] b in \<open>auto simp: nth_set_port_next\<close>)
qed

lemma disable_ring:
  assumes p: "port_chain p" and old: "bit (enabled_port_in_mask p) port_id"
  defines "em \<equiv> enabled_port_in_mask p AND NOT (bit1 port_id)"
  assumes em: "em \<noteq> 0"
  shows "bit em (next_bit em port_id)"
    and "\<And>i. bit em i \<Longrightarrow>
      pin_next (set_port_next (prev_bit em port_id) (next_bit em port_id) (ports_in p) ! i) = Some (next_bit em i)"
proof -
  let ?m = "enabled_port_in_mask p"
  have lt: "port_id < 64" using port_chainD(2) [OF p old] .
  have b: "bit em j \<longleftrightarrow> bit ?m j \<and> j \<noteq> port_id" for j
    using bit_u64_le [of ?m j] by (auto simp: em_def bit_and_iff bit_not_iff)
  have m: "?m = em OR bit1 port_id"
    using old lt by (intro bit_word_eqI) (auto simp: b bit_or_iff)
  show "bit em (next_bit em port_id)" by (rule next_bit_nearest(1) [OF em lt])
  fix i assume i: "bit em i"
  then have im: "bit ?m i" "i < length (ports_in p)" "i < 64" using b port_chainD [OF p] by auto
  show "pin_next (set_port_next (prev_bit em port_id) (next_bit em port_id) (ports_in p) ! i) = Some (next_bit em i)"
  proof (cases "i = prev_bit em port_id")
    case True
    then show ?thesis using im next_prev_disabled [OF em _ lt] b by (simp add: nth_set_port_next)
  next
    case False
    have "next_bit ?m i \<noteq> port_id"
    proof
      assume n: "next_bit ?m i = port_id"
      have "prev_bit em port_id = i"
        using prev_next [OF im(1)] n prev_bit_nearest(2) [OF _ lt, of ?m] old lt i b
        by (intro prev_bit_unique) (auto simp del: bit_0_eq, metis bit_0_eq bot_apply bot_bool_def)
      with False show False by simp
    qed
    then have "next_bit ?m i = next_bit em i" using em im(3) unfolding m by (intro next_bit_insert)
    with False show ?thesis using im port_chainD(3) [OF p im(1)] by (simp add: nth_set_port_next)
  qed
qed

lemma port_chain_enable:
  assumes p: "port_chain p"
  shows "\<exists>r q. rte_pipeline_port_in_enable (Some p) i = (r, Some q) \<and> port_chain q \<and>
    (if i < length (ports_in p)
     then r = 0 \<and> enabled_port_in_mask q = enabled_port_in_mask p OR bit1 i
     else r = - EINVAL \<and> q = p)"
proof -
  let ?em = "enabled_port_in_mask p OR bit1 i"
  consider "i \<ge> length (ports_in p)" | "i < length (ports_in p)" "bit (enabled_port_in_mask p) i"
    | "i < length (ports_in p)" "\<not> bit (enabled_port_in_mask p) i" by linarith
  then show ?thesis
  proof cases
    case 2
    then have "?em = enabled_port_in_mask p" by (intro bit_word_eqI) (auto simp: bit_or_iff)
    with 2 p show ?thesis
      by (simp add: rte_pipeline_port_in_enable_def and.commute [of _ "bit1 i"] and_bit1_eq_0_iff)
  next
    case 3
    have i: "i < 64" using 3 p by (simp add: port_chain_def)
    then have em: "?em \<noteq> 0" "bit ?em i" by (auto simp: bit_eq_iff bit_or_iff)
    note ring = enable_ring [OF p 3]
    have nx: "case (if ?em = bit1 i then Some i else port_in_next p) of
        None \<Rightarrow> ?em = 0 | Some k \<Rightarrow> bit ?em k"
      using p i em(2) by (auto simp: port_chain_def bit_or_iff split: option.splits)
    have "bit ?em k \<Longrightarrow> k < length (ports_in p)" for k
      using 3(1) port_chainD(1) [OF p, of k] by (auto simp: bit_or_iff)
    with p 3 nx ring(3) show ?thesis
      by (simp add: rte_pipeline_port_in_enable_def Let_def and.commute [of _ "bit1 i"] and_bit1_eq_0_iff
            rte_mask_get_next_eq [OF em(1) i] rte_mask_get_prev_eq [OF em(1) i] port_chain_def
            cong: option.case_cong)
  qed (use p in \<open>simp add: rte_pipeline_port_in_enable_def\<close>)
qed

lemma port_chain_disable:
  assumes p: "port_chain p"
  shows "\<exists>r q. rte_pipeline_port_in_disable (Some p) i = (r, Some q) \<and> port_chain q \<and>
    (if i < length (ports_in p)
     then r = 0 \<and> enabled_port_in_mask q = enabled_port_in_mask p AND NOT (bit1 i)
     else r = - EINVAL \<and> q = p)"
proof -
  let ?em = "enabled_port_in_mask p AND NOT (bit1 i)"
  have b: "bit ?em j \<longleftrightarrow> bit (enabled_port_in_mask p) j \<and> j \<noteq> i" for j
    using bit_u64_le [of "enabled_port_in_mask p" j] by (auto simp: bit_and_iff bit_not_iff)
  note unf = rte_pipeline_port_in_disable_def Let_def and.commute [of _ "bit1 i"] and_bit1_eq_0_iff
  consider "i \<ge> length (ports_in p)" | "i < length (ports_in p)" "\<not> bit (enabled_port_in_mask p) i"
    | "i < length (ports_in p)" "bit (enabled_port_in_mask p) i" "?em = 0"
    | "i < length (ports_in p)" "bit (enabled_port_in_mask p) i" "?em \<noteq> 0" by linarith
  then show ?thesis
  proof cases
    case 2
    then have "?em = enabled_port_in_mask p" by (intro bit_word_eqI) (auto simp: b)
    with 2 p show ?thesis by (simp add: unf)
  next
    case 3
    then show ?thesis using p
      by (simp add: rte_pipeline_port_in_disable_def Let_def and_bit1_eq_0_iff port_chain_def
          and.commute [of "enabled_port_in_mask p" "bit1 i"])
  next
    case 4
    have i: "i < 64" using 4 p by (simp add: port_chain_def)
    note ring = disable_ring [OF p 4(2,3)]
    have "case (if port_in_next p = Some i then Some (next_bit ?em i) else port_in_next p) of
        None \<Rightarrow> ?em = 0 | Some k \<Rightarrow> bit ?em k"
      using p ring(1) b 4(2) by (auto simp: port_chain_def split: option.splits)
    moreover have "bit ?em k \<Longrightarrow> k < length (ports_in p)" for k
      using port_chainD(1) [OF p, of k] b by auto
    ultimately show ?thesis using p 4 ring(2)
      by (simp add: rte_pipeline_port_in_disable_def Let_def and_bit1_eq_0_iff
            and.commute [of "enabled_port_in_mask p" "bit1 i"]
            rte_mask_get_next_eq [OF 4(3) i] rte_mask_get_prev_eq [OF 4(3) i] port_chain_def
            cong: option.case_cong)
  qed (use p in \<open>simp add: rte_pipeline_port_in_disable_def\<close>)
qed

section \<open>Serving the enabled ports\<close>

text \<open>Following the chain from any enabled port reaches any other within 63 steps.\<close>

lemma chain_reaches:
  assumes "bit m i" and "bit m j"
  shows "\<exists>k<64. (next_bit m ^^ k) i = j"
proof -
  have reach: "i \<noteq> j \<Longrightarrow> \<exists>k<fdist i j + 1. (next_bit m ^^ k) i = j" using assms(1)
  proof (induction "fdist i j" arbitrary: i rule: less_induct)
    case less
    have m: "m \<noteq> 0" using less.prems by auto
    have i: "i < 64" and j: "j < 64" using less.prems assms(2) bit_u64_le by auto
    note nb = next_bit_nearest [OF m i]
    have n: "next_bit m i < 64" using nb(1) bit_u64_le by blast
    show ?case
    proof (cases "next_bit m i = j")
      case True
      moreover have "1 < fdist i j + 1" using i j less.prems by (auto simp: fdist_def)
      ultimately show ?thesis by (intro exI [of _ 1]) simp
    next
      case False
      then have "fdist i (next_bit m i) < fdist i j"
        using nb(2) [OF assms(2)] fdist_inj [OF _ i n j] by (meson le_neq_implies_less)
      then have lt: "fdist (next_bit m i) j < fdist i j" by (rule fdist_between(1) [OF _ i n j])
      then obtain k where "k < fdist (next_bit m i) j + 1" "(next_bit m ^^ k) (next_bit m i) = j"
        using less.hyps [OF lt False nb(1)] by blast
      with lt show ?thesis by (intro exI [of _ "Suc k"]) (simp add: funpow_swap1)
    qed
  qed
  have lt: "i \<noteq> j \<Longrightarrow> fdist i j < 64"
    using bit_u64_le [OF assms(1)] bit_u64_le [OF assms(2)] by (auto simp: fdist_def)
  show ?thesis
  proof (cases "i = j")
    case True
    then show ?thesis by (intro exI [of _ 0]) simp
  next
    case False
    obtain k where k: "k < fdist i j + 1" "(next_bit m ^^ k) i = j" using reach [OF False] by blast
    moreover have "k < 64" using k(1) lt [OF False] by linarith
    ultimately show ?thesis by blast
  qed
qed

text \<open>A run changes nothing of the pipeline but the run structures and the next port to serve.\<close>

lemma run_frame:
  assumes "rte_pipeline_run fuel mo p g = Inr (n, q, g')"
  shows "q = p\<lparr>prun := prun q, port_in_next := (case port_in_next p of None \<Rightarrow> None
           | Some i \<Rightarrow> pin_next (ports_in p ! i))\<rparr>"
proof (cases "port_in_next p")
  case None
  with assms have "q = p" by (simp add: rte_pipeline_run_def)
  with None show ?thesis by simp
next
  case (Some i)
  with assms show ?thesis
    by (auto simp: rte_pipeline_run_def Let_def elim!: rbind_eq_InrE split: if_splits prod.splits)
qed

lemma port_chain_run:
  assumes "port_chain p" and "rte_pipeline_run fuel mo p g = Inr (n, q, g')"
  shows "port_chain q" and "enabled_port_in_mask q = enabled_port_in_mask p"
    and "port_in_next q = map_option (next_bit (enabled_port_in_mask p)) (port_in_next p)"
proof -
  obtain run where q: "q = p\<lparr>prun := run, port_in_next := (case port_in_next p of None \<Rightarrow> None
      | Some i \<Rightarrow> pin_next (ports_in p ! i))\<rparr>" using run_frame [OF assms(2)] by metis
  then show "enabled_port_in_mask q = enabled_port_in_mask p" by simp
  show pn: "port_in_next q = map_option (next_bit (enabled_port_in_mask p)) (port_in_next p)"
    using q assms(1) port_chainD(3) [OF assms(1)] by (auto simp: port_chain_def split: option.splits)
  then show "port_chain q"
    using q assms(1) next_bit_nearest(1) [of "enabled_port_in_mask p"]
      bit_u64_le [of "enabled_port_in_mask p"]
    by (cases "port_in_next p") (auto simp: port_chain_def intro!: next_bit_nearest(1))
qed

text \<open>A pipeline of three idle input ports with ports 0 and 2 enabled, to evaluate the theorems on.\<close>

definition idle_port :: "nat option \<Rightarrow> (unit, unit, unit, unit) rte_port_in" where
  "idle_port nx = \<lparr>pin_ops = \<lparr>pi_create = None, pi_free = None, pi_rx = Some (\<lambda>h n g. Inr ([], g)),
       pi_stats = None\<rparr>, pin_action = None, pin_burst_size = 32, pin_table_id = 0, pin_h = (),
     pin_next = nx, pin_n_pkts_dropped_by_ah = 0\<rparr>"

definition idle_pipeline :: "nat \<Rightarrow> (unit, unit, unit, unit, unit, unit) rte_pipeline" where
  "idle_pipeline i = \<lparr>pl_name = ''demo'', pl_socket_id = 0, offset_port_id = 0,
     ports_in = [idle_port (Some 2), idle_port None, idle_port (Some 0)], ports_out = [], tables = [],
     enabled_port_in_mask = 5, port_in_next = Some i,
     prun = \<lparr>pkts = (\<lambda>_. ()), entries = (\<lambda>_. None), action_mask0 = (\<lambda>_. 0), action_mask1 = (\<lambda>_. 0),
       pkts_mask = 0\<rparr>\<rparr>"

lemma idle_pipeline_simps [simp]:
  "length (ports_in (idle_pipeline i)) = 3" "enabled_port_in_mask (idle_pipeline i) = 5"
  by (simp_all add: idle_pipeline_def)

lemma port_chain_idle: "port_chain (idle_pipeline 0)"
proof -
  have five: "(5::u64) = bit1 0 OR bit1 2" by (simp add: bit1_def)
  have b: "bit (5::u64) i \<longleftrightarrow> i = 0 \<or> i = 2" for i
    unfolding five by (auto simp: bit_or_iff)
  moreover have "bits_of 5 = [0, 2]"
    by (rule sorted_distinct_set_unique) (simp_all only: set_bits_of b, auto)
  moreover from this have "next_bit 5 0 = 2" "next_bit 5 2 = 0" by (simp_all add: next_bit_def)
  ultimately have "\<forall>i<64. bit (5::u64) i \<longrightarrow> i < 3 \<and>
      pin_next (ports_in (idle_pipeline 0) ! i) = Some (next_bit 5 i)"
    unfolding b by (auto simp: idle_pipeline_def idle_port_def)
  then show ?thesis by (simp add: port_chain_def) (simp add: idle_pipeline_def)
qed

text \<open>C24. The chain of enabled input ports is well formed after every sequence of enables and
  disables: enabling or disabling a port that exists succeeds, sets exactly that port's bit, and keeps
  every \<open>next\<close> pointer equal to the cyclic successor among the enabled ports; an id that does not
  exist is refused with \<open>-EINVAL\<close> and changes nothing.\<close>

theorem enable_disable_keep_chain:
  assumes "port_chain p"
  shows "(\<exists>r q. rte_pipeline_port_in_enable (Some p) i = (r, Some q) \<and> port_chain q \<and>
      (if i < length (ports_in p)
       then r = 0 \<and> enabled_port_in_mask q = enabled_port_in_mask p OR bit1 i
       else r = - EINVAL \<and> q = p)) \<and>
    (\<exists>r q. rte_pipeline_port_in_disable (Some p) i = (r, Some q) \<and> port_chain q \<and>
      (if i < length (ports_in p)
       then r = 0 \<and> enabled_port_in_mask q = enabled_port_in_mask p AND NOT (bit1 i)
       else r = - EINVAL \<and> q = p))"
  using port_chain_enable [OF assms] port_chain_disable [OF assms] by blast

theorem enable_disable_keep_chain_witness:
  "port_chain (idle_pipeline 0) \<and>
   (\<exists>r q. rte_pipeline_port_in_enable (Some (idle_pipeline 0)) 1 = (r, Some q) \<and> port_chain q \<and>
      enabled_port_in_mask q = 7)"
  using enable_disable_keep_chain [OF port_chain_idle, of 1]
  by (auto simp: port_chain_idle bit1_def)

text \<open>C25. No enabled input port starves: in a row of 64 runs of the pipeline, whatever the packets
  do and whatever the low-level ports and tables are, every enabled port is once the port served.\<close>

theorem run_serves_every_port:
  assumes "port_chain (ps 0)" and "bit (enabled_port_in_mask (ps 0)) j"
    and "\<And>k. k < 63 \<Longrightarrow> \<exists>n. rte_pipeline_run fuel mo (ps k) (gs k) = Inr (n, ps (Suc k), gs (Suc k))"
  shows "\<exists>k<64. port_in_next (ps k) = Some j"
proof -
  let ?m = "enabled_port_in_mask (ps 0)"
  obtain i where i: "port_in_next (ps 0) = Some i" "bit ?m i"
    using assms(1,2) by (auto simp: port_chain_def split: option.splits)
  have "k < 64 \<Longrightarrow> port_chain (ps k) \<and> enabled_port_in_mask (ps k) = ?m \<and>
      port_in_next (ps k) = Some ((next_bit ?m ^^ k) i)" for k
  proof (induction k)
    case 0
    then show ?case using assms(1) i by simp
  next
    case (Suc k)
    then obtain n where "rte_pipeline_run fuel mo (ps k) (gs k) = Inr (n, ps (Suc k), gs (Suc k))"
      using assms(3) [of k] by auto
    with Suc show ?case using port_chain_run [of "ps k"] by auto
  qed
  moreover obtain k where "k < 64" "(next_bit ?m ^^ k) i = j" using chain_reaches [OF i(2) assms(2)] by blast
  ultimately show ?thesis by blast
qed

theorem run_serves_every_port_witness:
  "\<exists>k<64. port_in_next (idle_pipeline (if even (k::nat) then 0 else 2)) = Some 2"
proof (rule run_serves_every_port [of "\<lambda>k. idle_pipeline (if even k then 0 else 2)" 2 0
    "\<lparr>mb_free = (\<lambda>m g. Inr g), mb_meta32 = (\<lambda>m ofs g. 0)\<rparr>" "\<lambda>_. ()"])
  show "port_chain (idle_pipeline (if even (0::nat) then 0 else 2))" using port_chain_idle by simp
  show "bit (enabled_port_in_mask (idle_pipeline (if even (0::nat) then 0 else 2))) 2"
    by (simp add: idle_pipeline_def)
qed (simp add: idle_pipeline_def idle_port_def rte_pipeline_run_def fnptr_def)

end
