(* ===== verification/Pipeline_Run.thy ===== *)
theory Pipeline_Run
  imports Port_Chain "HOL-Library.Multiset"
begin

text \<open>
  The run-time of the pipeline (rte_pipeline.c: \<open>rte_pipeline_compute_masks\<close>, the action handlers
  and \<open>rte_pipeline_run\<close>): the two paths of the mask loops agree, a burst through one table ends as
  the table entries say, and in a well-formed topology a run returns and every packet it received
  leaves it exactly once.
\<close>

section \<open>Loops over a mask\<close>

lemma for_mask_eq: "for_mask m body s = rfold body (bits_of m) s"
proof (cases "m AND (m + 1) = 0")
  case True
  then show ?thesis by (simp add: for_mask_def contiguous_bits_of [OF True, symmetric])
next
  case False
  have "rfold (\<lambda>i s. if bit1 i AND m = 0 then Inr s else body i s) [0..<64] s =
      rfold (\<lambda>i s. if bit m i then body i s else Inr s) [0..<64] s"
    by (rule rfold_cong) (simp_all add: and_bit1_eq_0_iff)
  with False show ?thesis by (simp add: for_mask_def rfold_guard bits_of_def)
qed

text \<open>The mask of a list of positions.\<close>

definition mask_of :: "nat list \<Rightarrow> u64" where
  "mask_of is = fold (\<lambda>i w. w OR bit1 i) is 0"

lemma bit_fold_bit1: "bit (fold (\<lambda>i w. w OR bit1 i) is w) k \<longleftrightarrow> bit w k \<or> (k \<in> set is \<and> k < 64)"
  by (induction "is" arbitrary: w) (auto simp: bit_or_iff)

lemma bit_mask_of [simp]: "bit (mask_of is) k \<longleftrightarrow> k \<in> set is \<and> k < 64"
  by (simp add: mask_of_def bit_fold_bit1)

lemma mask_of_bits_of [simp]: "mask_of (bits_of m) = m"
  by (rule bit_word_eqI) simp

lemma bits_of_mask_of_filter: "bits_of (mask_of (filter P (bits_of m))) = filter P (bits_of m)"
  by (rule sorted_distinct_set_unique) (auto simp: sorted_wrt_filter dest: bit_u64_le)

lemma compute_masks_eq:
  assumes "\<And>i. bit m i \<Longrightarrow> entries run i = Some (e i)"
  shows "rte_pipeline_compute_masks m run = Inr (run\<lparr>action_mask1 :=
    (\<lambda>a. mask_of (filter (\<lambda>i. pte_action (e i) = a) (bits_of m)))\<rparr>)"
proof -
  let ?body = "\<lambda>i run. rbind (entry_of run i) (\<lambda>e. Inr (run\<lparr>action_mask1 := (action_mask1 run)
          (pte_action e := action_mask1 run (pte_action e) OR bit1 i)\<rparr>))"
  let ?acc = "\<lambda>is am. (\<lambda>a. fold (\<lambda>i w. w OR bit1 i) (filter (\<lambda>i. pte_action (e i) = a) is) (am a))"
  have "(\<And>i. i \<in> set is \<Longrightarrow> entries run i = Some (e i)) \<Longrightarrow>
      rfold ?body is (run\<lparr>action_mask1 := am\<rparr>) = Inr (run\<lparr>action_mask1 := ?acc is am\<rparr>)" for "is" am
  proof (induction "is" arbitrary: am)
    case (Cons i "is")
    have "?acc is (am(pte_action (e i) := am (pte_action (e i)) OR bit1 i)) = ?acc (i # is) am"
      by (rule ext) simp
    moreover have "?body i (run\<lparr>action_mask1 := am\<rparr>) =
        Inr (run\<lparr>action_mask1 := am(pte_action (e i) := am (pte_action (e i)) OR bit1 i)\<rparr>)"
      using Cons.prems by (simp add: entry_of_def)
    moreover have "rfold ?body is (run\<lparr>action_mask1 := am'\<rparr>) = Inr (run\<lparr>action_mask1 := ?acc is am'\<rparr>)" for am'
      by (rule Cons.IH) (use Cons.prems in simp)
    ultimately show ?case by (simp only: rfold.simps rbind_Inr)
  qed simp
  from this [of "bits_of m" "\<lambda>_. 0"] assms show ?thesis
    by (simp add: rte_pipeline_compute_masks_def for_mask_eq mask_of_def)
qed

text \<open>C36. The burst loops' fast path and slow path agree and sort the packets by verdict: whatever the
  mask, \<open>rte_pipeline_compute_masks\<close> gives each action the mask of exactly the packets of the burst
  whose table entry carries that action, provided every packet in the mask has an entry.\<close>

theorem compute_masks_by_action:
  assumes "\<And>i. bit m i \<Longrightarrow> entries run i = Some (e i)"
  shows "\<exists>run'. rte_pipeline_compute_masks m run = Inr run' \<and>
    (\<forall>a i. bit (action_mask1 run' a) i \<longleftrightarrow> bit m i \<and> pte_action (e i) = a) \<and>
    run'\<lparr>action_mask1 := action_mask1 run\<rparr> = run"
  using compute_masks_eq [of m run e, OF assms] by (auto dest: bit_u64_le)

theorem compute_masks_by_action_witness:
  "\<exists>run'. rte_pipeline_compute_masks 5
       \<lparr>pkts = (\<lambda>_. ()), entries = (\<lambda>i. Some \<lparr>pte_action = (if i = 0 then ACTION_PORT else ACTION_DROP),
          pte_id = 0, pte_data = []\<rparr>), action_mask0 = (\<lambda>_. 0), action_mask1 = (\<lambda>_. 0), pkts_mask = 5\<rparr> = Inr run' \<and>
    bit (action_mask1 run' ACTION_PORT) 0 \<and> bit (action_mask1 run' ACTION_DROP) 2"
  using compute_masks_by_action [of 5 "\<lparr>pkts = (\<lambda>_. ()), entries = (\<lambda>i. Some \<lparr>pte_action =
      (if i = 0 then ACTION_PORT else ACTION_DROP), pte_id = 0, pte_data = []\<rparr>), action_mask0 = (\<lambda>_. 0),
      action_mask1 = (\<lambda>_. 0), pkts_mask = 5\<rparr>"
    "\<lambda>i. \<lparr>pte_action = (if i = 0 then ACTION_PORT else ACTION_DROP), pte_id = 0, pte_data = []\<rparr>"]
  by auto

section \<open>A burst through one table\<close>

text \<open>Without an output action handler, sending one packet is one call of the port's \<open>f_tx\<close>.\<close>

definition tx_call :: "('g, 'a, 't, 'h, 'k, 'm) rte_pipeline \<Rightarrow> nat \<Rightarrow> 'm \<Rightarrow> 'g \<Rightarrow> 'g res" where
  "tx_call p j m g = rbind (port_out_at p j) (\<lambda>port. rbind (fnptr (po_tx (pout_ops port))) (\<lambda>tx.
     tx (pout_h port) m g))"

definition no_out_action :: "('g, 'a, 't, 'h, 'k, 'm) rte_pipeline \<Rightarrow> bool" where
  "no_out_action p \<longleftrightarrow> list_all (\<lambda>port. pout_action port = None) (ports_out p)"

lemma tx_packet_eq:
  assumes "no_out_action p"
  shows "tx_packet p i j (run, g) = rbind (tx_call p j (pkts run i) g) (\<lambda>g. Inr (run, g))"
proof (cases "j < length (ports_out p) \<and> j < 64")
  case True
  then have "pout_action (ports_out p ! j) = None"
    using assms by (auto simp: no_out_action_def list_all_length)
  with True show ?thesis
    by (simp add: tx_packet_def tx_call_def port_out_at_def fnptr_def split: option.split)
next
  case False
  then show ?thesis by (auto simp: tx_packet_def tx_call_def port_out_at_def)
qed

lemma rfold_snd:
  assumes "\<And>i g. i \<in> set is \<Longrightarrow> body i (run, g) = rbind (f i g) (\<lambda>g. Inr (run, g))"
  shows "rfold body is (run, g) = rbind (rfold f is g) (\<lambda>g. Inr (run, g))"
  using assms
proof (induction "is" arbitrary: g)
  case (Cons i "is")
  then show ?case by (cases "f i g") auto
qed simp

lemma handler_port_eq:
  assumes "no_out_action p" and "\<And>i. bit m i \<Longrightarrow> entries run i = Some (e i)"
  shows "rte_pipeline_action_handler_port p m (run, g) =
    rbind (rfold (\<lambda>i. tx_call p (pte_id (e i)) (pkts run i)) (bits_of m) g)
      (\<lambda>g. Inr (run\<lparr>pkts_mask := m\<rparr>, g))"
  unfolding rte_pipeline_action_handler_port_def for_mask_eq prod.case
  by (rule rfold_snd) (simp add: assms entry_of_def tx_packet_eq)

lemma handler_port_meta_eq:
  assumes "no_out_action p"
  shows "rte_pipeline_action_handler_port_meta mo p m (run, g) =
    rbind (rfold (\<lambda>i g. tx_call p (mb_meta32 mo (pkts run i) (offset_port_id p) g) (pkts run i) g)
      (bits_of m) g) (\<lambda>g. Inr (run\<lparr>pkts_mask := m\<rparr>, g))"
  unfolding rte_pipeline_action_handler_port_meta_def for_mask_eq prod.case
  by (rule rfold_snd) (simp add: assms tx_packet_eq)

lemma handler_drop_eq:
  "rte_pipeline_action_handler_drop mo m (run, g) =
    rbind (rfold (\<lambda>i. mb_free mo (pkts run i)) (bits_of m) g) (\<lambda>g. Inr (run, g))"
  by (simp add: rte_pipeline_action_handler_drop_def for_mask_eq)

definition tx_bulk_call ::
  "('g, 'a, 't, 'h, 'k, 'm) rte_pipeline \<Rightarrow> nat \<Rightarrow> (nat \<Rightarrow> 'm) \<Rightarrow> u64 \<Rightarrow> 'g \<Rightarrow> 'g res" where
  "tx_bulk_call p j pk m g = rbind (port_out_at p j) (\<lambda>port.
     rbind (fnptr (po_tx_bulk (pout_ops port))) (\<lambda>tx. tx (pout_h port) pk m g))"

lemma handler_port_bulk_eq:
  assumes "no_out_action p" and "m \<noteq> 0"
  shows "rte_pipeline_action_handler_port_bulk p m j (run, g) =
    rbind (tx_bulk_call p j (pkts run) m g) (\<lambda>g. Inr (run\<lparr>pkts_mask := m\<rparr>, g))"
proof (cases "j < length (ports_out p) \<and> j < 64")
  case True
  then have "pout_action (ports_out p ! j) = None"
    using assms(1) by (auto simp: no_out_action_def list_all_length)
  with True assms(2) show ?thesis
    by (simp add: rte_pipeline_action_handler_port_bulk_def tx_bulk_call_def port_out_at_def fnptr_def
        split: option.split)
next
  case False
  then show ?thesis by (auto simp: rte_pipeline_action_handler_port_bulk_def tx_bulk_call_def port_out_at_def)
qed

text \<open>
  One iteration of the table loop without action handlers: misses of a PORT default entry are sent in
  bulk at once; all other packets are sorted into the action masks by their entry.
\<close>

definition verdict_mask ::
  "rte_pipeline_table_entry \<Rightarrow> u64 \<Rightarrow> u64 \<Rightarrow> (nat \<Rightarrow> rte_pipeline_table_entry) \<Rightarrow> rte_pipeline_action \<Rightarrow> u64" where
  "verdict_mask de miss hit e a =
     (if pte_action de = a \<and> a \<noteq> ACTION_PORT then miss else 0) OR
     mask_of (filter (\<lambda>i. pte_action (e i) = a) (bits_of hit))"

lemma bit_verdict_mask:
  "bit (verdict_mask de miss hit e a) i \<longleftrightarrow>
     (bit miss i \<and> pte_action de = a \<and> a \<noteq> ACTION_PORT) \<or> (bit hit i \<and> pte_action (e i) = a)"
  by (auto simp: verdict_mask_def bit_or_iff dest: bit_u64_le)

definition no_table_action :: "('g, 't, 'h, 'k, 'm) rte_table \<Rightarrow> bool" where
  "no_table_action table \<longleftrightarrow> tbl_action_hit table = None \<and> tbl_action_miss table = None"

lemma table_miss_eq:
  assumes "no_out_action p" and "tbl_action_miss table = None"
  shows "table_miss p table miss (run, g) =
    rbind (if pte_action (default_entry table) = ACTION_PORT \<and> miss \<noteq> 0
           then tx_bulk_call p (pte_id (default_entry table)) (pkts run) miss g else Inr g)
      (\<lambda>g. Inr (run\<lparr>pkts_mask := (if miss = 0 then pkts_mask run else miss),
         action_mask0 := (\<lambda>a. action_mask0 run a OR
           (if pte_action (default_entry table) = a \<and> a \<noteq> ACTION_PORT then miss else 0))\<rparr>, g))"
proof -
  let ?de = "default_entry table"
  let ?am = "\<lambda>a. action_mask0 run a OR (if pte_action ?de = a \<and> a \<noteq> ACTION_PORT then miss else 0)"
  consider "miss = 0" | "miss \<noteq> 0" "pte_action ?de = ACTION_PORT"
    | "miss \<noteq> 0" "pte_action ?de \<noteq> ACTION_PORT" by blast
  then show ?thesis
  proof cases
    case 1
    then have "?am = action_mask0 run" by auto
    with 1 show ?thesis by (simp add: table_miss_def)
  next
    case 2
    then have "?am = action_mask0 run" by auto
    with 2 assms show ?thesis by (simp add: table_miss_def handler_port_bulk_eq)
  next
    case 3
    then have "(action_mask0 run)(pte_action ?de := action_mask0 run (pte_action ?de) OR miss) = ?am"
      by auto
    with 3 assms show ?thesis by (simp add: table_miss_def)
  qed
qed

lemma table_hit_eq:
  assumes "tbl_action_hit table = None" and "\<And>i. bit hit i \<Longrightarrow> entries run i = Some (e i)"
  shows "\<exists>pm am1. \<forall>g. table_hit table hit (run, g) = Inr (run\<lparr>pkts_mask := pm, action_mask1 := am1,
    action_mask0 := (\<lambda>a. action_mask0 run a OR mask_of (filter (\<lambda>i. pte_action (e i) = a) (bits_of hit)))\<rparr>, g)"
proof (cases "hit = 0")
  case True
  then show ?thesis
    by (intro exI [of _ "pkts_mask run"] exI [of _ "action_mask1 run"]) (simp add: table_hit_def mask_of_def bits_of_def)
next
  case False
  have "rte_pipeline_compute_masks hit (run\<lparr>pkts_mask := hit\<rparr>) = Inr (run\<lparr>pkts_mask := hit, action_mask1 :=
    (\<lambda>a. mask_of (filter (\<lambda>i. pte_action (e i) = a) (bits_of hit)))\<rparr>)"
    using compute_masks_eq [of hit "run\<lparr>pkts_mask := hit\<rparr>" e] assms(2) by simp
  with False assms(1) show ?thesis
    by (intro exI [of _ hit] exI [of _ "\<lambda>a. mask_of (filter (\<lambda>i. pte_action (e i) = a) (bits_of hit))"])
       (simp add: table_hit_def)
qed

lemma table_step_eq:
  assumes "no_out_action p" and t: "t < length (tables p)" "t < 64" and "no_table_action (tables p ! t)"
    and "t_lookup (tbl_ops (tables p ! t)) = Some lk"
    and "lk (h_table (tables p ! t)) (pkts run) (pkts_mask run) (entries run) g = Inr (hit, ents, g')"
    and "\<And>i. bit hit i \<Longrightarrow> ents i = Some (e i)"
  defines "de \<equiv> default_entry (tables p ! t)" and "miss \<equiv> pkts_mask run AND NOT hit"
  shows "\<exists>am1. table_step p t (run, g) =
    rbind (if pte_action de = ACTION_PORT \<and> miss \<noteq> 0
           then tx_bulk_call p (pte_id de) (pkts run) miss g' else Inr g')
      (\<lambda>g. Inr (table_next_id (tables p ! t),
         run\<lparr>entries := ents, action_mask1 := am1,
             pkts_mask := action_mask0 run ACTION_TABLE OR verdict_mask de miss hit e ACTION_TABLE,
             action_mask0 := (\<lambda>a. if a = ACTION_TABLE then 0
               else action_mask0 run a OR verdict_mask de miss hit e a)\<rparr>, g))"
proof -
  let ?run1 = "run\<lparr>entries := ents, pkts_mask := (if miss = 0 then pkts_mask run else miss),
         action_mask0 := (\<lambda>a. action_mask0 run a OR
           (if pte_action de = a \<and> a \<noteq> ACTION_PORT then miss else 0))\<rparr>"
  have na: "tbl_action_hit (tables p ! t) = None" "tbl_action_miss (tables p ! t) = None"
    using assms(4) by (auto simp: no_table_action_def)
  have ent: "\<And>i. bit hit i \<Longrightarrow> entries ?run1 i = Some (e i)" using assms(7) by simp
  obtain pm am1 where hit: "\<And>g. table_hit (tables p ! t) hit (?run1, g) = Inr (?run1\<lparr>pkts_mask := pm, action_mask1 := am1,
    action_mask0 := (\<lambda>a. action_mask0 ?run1 a OR mask_of (filter (\<lambda>i. pte_action (e i) = a) (bits_of hit)))\<rparr>, g)"
    using table_hit_eq [OF na(1) ent] by blast
  have "table_step p t (run, g) =
      rbind (table_miss p (tables p ! t) miss (run\<lparr>entries := ents\<rparr>, g')) (\<lambda>s.
      rbind (table_hit (tables p ! t) hit s) (\<lambda>(run, g).
      Inr (table_next_id (tables p ! t), run\<lparr>pkts_mask := action_mask0 run ACTION_TABLE,
                action_mask0 := (action_mask0 run)(ACTION_TABLE := 0)\<rparr>, g)))"
    using t assms(5,6) by (simp add: table_step_def fnptr_def miss_def Let_def)
  also have "\<dots> = rbind (if pte_action de = ACTION_PORT \<and> miss \<noteq> 0
           then tx_bulk_call p (pte_id de) (pkts run) miss g' else Inr g') (\<lambda>g.
      rbind (table_hit (tables p ! t) hit (?run1, g)) (\<lambda>(run, g).
      Inr (table_next_id (tables p ! t), run\<lparr>pkts_mask := action_mask0 run ACTION_TABLE,
                action_mask0 := (action_mask0 run)(ACTION_TABLE := 0)\<rparr>, g)))"
    by (simp add: table_miss_eq [OF assms(1) na(2)] rbind_assoc de_def [symmetric])
  finally show ?thesis
    unfolding hit by (intro exI [of _ am1]) (simp add: verdict_mask_def fun_upd_def or.assoc cong: if_cong)
qed

text \<open>A burst of received packets stored in the pipeline.\<close>

definition burst :: "('g, 'a, 't, 'h, 'k, 'm) rte_pipeline \<Rightarrow> 'm list \<Rightarrow> nat \<Rightarrow> 'm" where
  "burst p ms = (\<lambda>i. if i < length ms then ms ! i else pkts (prun p) i)"

text \<open>C10. The verdict theorem for a pipeline with one table, which is the firewall's topology, and without action
  handlers on the way (the firewall's first input port has one, which changes neither packets nor verdicts): a run
  that receives the packets \<open>ms\<close> sends the packets without a matching rule to the default entry's
  port in one bulk call, then each packet that matched a PORT rule to that rule's port in order of
  arrival, then the PORT_META packets, and frees exactly the packets whose verdict is DROP, in
  order; it returns their number and moves on to the next enabled port. The equation includes
  every fault of the called operations.\<close>

theorem run_one_table:
  assumes port: "port_in_next p = Some k" "k < length (ports_in p)" "port = ports_in p ! k"
    and rx: "pi_rx (pin_ops port) = Some rx" "rx (pin_h port) (pin_burst_size port) g = Inr (ms, g1)"
      "0 < length ms" "length ms \<le> 64"
    and na: "pin_action port = None" "no_out_action p" "no_table_action table"
    and tab: "pin_table_id port = t" "t < length (tables p)" "t < 64" "table = tables p ! t"
    and lk: "t_lookup (tbl_ops table) = Some lk"
      "lk (h_table table) (burst p ms) (RTE_LEN2MASK (length ms)) (entries (prun p)) g1 = Inr (hit, ents, g2)"
      "\<And>i. bit hit i \<Longrightarrow> i < length ms \<and> ents i = Some (e i) \<and> pte_action (e i) \<noteq> ACTION_TABLE"
    and de: "de = default_entry table" "pte_action de \<noteq> ACTION_TABLE"
  defines "verdict \<equiv> \<lambda>i. if bit hit i then e i else de"
    and "misses \<equiv> filter (\<lambda>i. \<not> bit hit i) [0..<length ms]"
  shows "\<exists>run. rte_pipeline_run (Suc fuel) mo p g =
    rbind (if pte_action de = ACTION_PORT \<and> misses \<noteq> []
           then tx_bulk_call p (pte_id de) (burst p ms) (mask_of misses) g2 else Inr g2) (\<lambda>g.
    rbind (rfold (\<lambda>i. tx_call p (pte_id (e i)) (ms ! i))
             (filter (\<lambda>i. bit hit i \<and> pte_action (e i) = ACTION_PORT) [0..<length ms]) g) (\<lambda>g.
    rbind (rfold (\<lambda>i g. tx_call p (mb_meta32 mo (ms ! i) (offset_port_id p) g) (ms ! i) g)
             (filter (\<lambda>i. pte_action (verdict i) = ACTION_PORT_META) [0..<length ms]) g) (\<lambda>g.
    rbind (rfold (\<lambda>i. mb_free mo (ms ! i))
             (filter (\<lambda>i. pte_action (verdict i) = ACTION_DROP) [0..<length ms]) g) (\<lambda>g.
    Inr (int (length ms), p\<lparr>prun := run, port_in_next := pin_next port\<rparr>, g)))))"
proof -
  let ?n = "length ms"
  let ?M = "RTE_LEN2MASK ?n"
  let ?run = "(prun p)\<lparr>pkts := burst p ms, pkts_mask := ?M, action_mask0 := (\<lambda>_. 0)\<rparr>"
  let ?miss = "?M AND NOT hit"
  let ?V = "verdict_mask de ?miss hit e"
  have hit: "bit hit i \<Longrightarrow> i < ?n" "bit hit i \<Longrightarrow> ents i = Some (e i)" for i using lk(3) by auto
  have bmiss: "bit ?miss i \<longleftrightarrow> i < ?n \<and> \<not> bit hit i" for i
    using rx(4) by (auto simp: bit_and_iff bit_not_iff bit_RTE_LEN2MASK)
  have V: "bits_of (?V a) = filter (\<lambda>i. (bit hit i \<or> a \<noteq> ACTION_PORT) \<and> pte_action (verdict i) = a) [0..<?n]" for a
  proof (rule sorted_distinct_set_unique)
    show "set (bits_of (?V a)) = set (filter (\<lambda>i. (bit hit i \<or> a \<noteq> ACTION_PORT) \<and> pte_action (verdict i) = a) [0..<?n])"
      unfolding set_bits_of bit_verdict_mask bmiss using hit by (auto simp: verdict_def)
  qed (simp_all add: sorted_wrt_filter)
  have m: "mask_of misses = ?miss"
    using rx(4) by (intro bit_word_eqI) (auto simp only: bit_mask_of bmiss, auto simp: misses_def)
  have "misses = [] \<longleftrightarrow> mask_of misses = 0"
    using rx(4) by (auto simp: misses_def bit_eq_iff filter_empty_conv)
  then have mz: "misses = [] \<longleftrightarrow> ?miss = 0" by (simp add: m)
  have VT: "?V ACTION_TABLE = 0"
    using de(2) lk(3) by (intro bit_word_eqI) (auto simp: bit_verdict_mask)
  obtain fin where step: "table_step p t (?run, g1) =
      rbind (if pte_action de = ACTION_PORT \<and> ?miss \<noteq> 0
             then tx_bulk_call p (pte_id de) (burst p ms) ?miss g2 else Inr g2)
        (\<lambda>g. Inr (table_next_id table, fin, g))"
    and fin: "pkts fin = burst p ms" "entries fin = ents" "pkts_mask fin = 0"
      "action_mask0 fin ACTION_PORT = ?V ACTION_PORT" "action_mask0 fin ACTION_DROP = ?V ACTION_DROP"
      "action_mask0 fin ACTION_PORT_META = ?V ACTION_PORT_META"
  proof -
    let ?fin = "\<lambda>am1. (prun p)\<lparr>pkts := burst p ms, entries := ents, action_mask1 := am1, pkts_mask := 0,
               action_mask0 := (\<lambda>a. if a = ACTION_TABLE then 0 else ?V a)\<rparr>"
    obtain am1 where "table_step p t (?run, g1) =
      rbind (if pte_action de = ACTION_PORT \<and> ?miss \<noteq> 0
             then tx_bulk_call p (pte_id de) (burst p ms) ?miss g2 else Inr g2)
        (\<lambda>g. Inr (table_next_id table, ?fin am1, g))"
      using table_step_eq [OF na(2) tab(2,3), of lk ?run g1 hit ents g2 e,
          unfolded tab(4) [symmetric] de(1) [symmetric], OF na(3) lk(1)] lk(2) hit(2)
      by (auto simp: VT cong: if_cong)
    then show thesis by (rule that) simp_all
  qed
  have mne: "?M \<noteq> 0" using rx(3,4) bit_RTE_LEN2MASK [of ?n 0] by auto
  have loop: "table_loop fuel p nx (fin, g) = Inr (fin, g)" for nx g using fin(3) by (cases fuel) simp_all
  let ?r2 = "fin\<lparr>pkts_mask := ?V ACTION_PORT\<rparr>"
  let ?r3 = "fin\<lparr>pkts_mask := ?V ACTION_PORT_META\<rparr>"
  have port: "rte_pipeline_action_handler_port p (?V ACTION_PORT) (fin, g) =
     rbind (rfold (\<lambda>i. tx_call p (pte_id (e i)) (ms ! i))
             (filter (\<lambda>i. bit hit i \<and> pte_action (e i) = ACTION_PORT) [0..<?n]) g) (\<lambda>g. Inr (?r2, g))" for g
  proof -
    have "rfold (\<lambda>i. tx_call p (pte_id (e i)) (burst p ms i)) (bits_of (?V ACTION_PORT)) g =
      rfold (\<lambda>i. tx_call p (pte_id (e i)) (ms ! i))
             (filter (\<lambda>i. bit hit i \<and> pte_action (e i) = ACTION_PORT) [0..<?n]) g"
      by (rule rfold_cong) (auto simp: V verdict_def burst_def intro!: filter_cong)
    then show ?thesis using hit(2)
      by (subst handler_port_eq [OF na(2), of _ _ e]) (auto simp: bit_verdict_mask fin)
  qed
  have meta: "rte_pipeline_action_handler_port_meta mo p (?V ACTION_PORT_META) (?r2, g) =
     rbind (rfold (\<lambda>i g. tx_call p (mb_meta32 mo (ms ! i) (offset_port_id p) g) (ms ! i) g)
             (filter (\<lambda>i. pte_action (verdict i) = ACTION_PORT_META) [0..<?n]) g) (\<lambda>g. Inr (?r3, g))" for g
  proof -
    have "rfold (\<lambda>i g. tx_call p (mb_meta32 mo (burst p ms i) (offset_port_id p) g) (burst p ms i) g)
        (bits_of (?V ACTION_PORT_META)) g =
      rfold (\<lambda>i g. tx_call p (mb_meta32 mo (ms ! i) (offset_port_id p) g) (ms ! i) g)
             (filter (\<lambda>i. pte_action (verdict i) = ACTION_PORT_META) [0..<?n]) g"
      by (rule rfold_cong) (auto simp: V burst_def)
    then show ?thesis by (simp add: handler_port_meta_eq [OF na(2)] fin)
  qed
  have drop: "rte_pipeline_action_handler_drop mo (?V ACTION_DROP) (?r3, g) =
     rbind (rfold (\<lambda>i. mb_free mo (ms ! i))
             (filter (\<lambda>i. pte_action (verdict i) = ACTION_DROP) [0..<?n]) g) (\<lambda>g. Inr (?r3, g))" for g
  proof -
    have "rfold (\<lambda>i. mb_free mo (burst p ms i)) (bits_of (?V ACTION_DROP)) g =
      rfold (\<lambda>i. mb_free mo (ms ! i)) (filter (\<lambda>i. pte_action (verdict i) = ACTION_DROP) [0..<?n]) g"
      by (rule rfold_cong) (auto simp: V burst_def)
    then show ?thesis by (simp add: handler_drop_eq fin)
  qed
  have "rte_pipeline_run (Suc fuel) mo p g =
      rbind (table_loop (Suc fuel) p t (?run, g1)) (\<lambda>s.
      rbind (rte_pipeline_action_handler_port p (action_mask0 (fst s) ACTION_PORT) s) (\<lambda>s.
      rbind (rte_pipeline_action_handler_port_meta mo p (action_mask0 (fst s) ACTION_PORT_META) s) (\<lambda>s.
      rbind (rte_pipeline_action_handler_drop mo (action_mask0 (fst s) ACTION_DROP) s) (\<lambda>(run, g).
      Inr (int ?n, p\<lparr>prun := run, port_in_next := pin_next port\<rparr>, g)))))"
    using assms(1-3) rx na(1) tab(1) unfolding rte_pipeline_run_def
    by (simp add: Let_def fnptr_def burst_def del: table_loop.simps)
  also have "table_loop (Suc fuel) p t (?run, g1) =
      rbind (if pte_action de = ACTION_PORT \<and> ?miss \<noteq> 0
             then tx_bulk_call p (pte_id de) (burst p ms) ?miss g2 else Inr g2) (\<lambda>g. Inr (fin, g))"
    using mne by (simp add: step rbind_assoc loop)
  finally show ?thesis
    by (intro exI [of _ ?r3]) (simp add: rbind_assoc fin port meta drop mz m)
qed

text \<open>
  A small pipeline to evaluate the theorems on: one input port that delivers three packets, two
  output ports, one table in which packet 0 matches a rule for port 1 and packet 2 one that drops, and
  a log of the packets sent (with the port) and freed.
\<close>

type_synonym log = "(nat option \<times> nat) list"

definition log_mo :: "(log, nat) mbuf_ops" where
  "log_mo = \<lparr>mb_free = (\<lambda>m g. Inr (g @ [(None, m)])), mb_meta32 = (\<lambda>m ofs g. 0)\<rparr>"

definition log_port :: "nat \<Rightarrow> (log, unit, nat, nat) rte_port_out" where
  "log_port j = \<lparr>pout_ops = \<lparr>po_create = None, po_free = None,
       po_tx = Some (\<lambda>h m g. Inr (g @ [(Some h, m)])),
       po_tx_bulk = Some (\<lambda>h pk w g. Inr (g @ map (\<lambda>i. (Some h, pk i)) (bits_of w))),
       po_flush = None, po_stats = None\<rparr>, pout_action = None, pout_h = j, pout_n_pkts_dropped_by_ah = 0\<rparr>"

definition log_entry :: "nat \<Rightarrow> rte_pipeline_table_entry" where
  "log_entry i = \<lparr>pte_action = (if i = 0 then ACTION_PORT else ACTION_DROP), pte_id = 1, pte_data = []\<rparr>"

definition log_table :: "u64 \<Rightarrow> rte_pipeline_table_entry \<Rightarrow> (log, unit, nat, unit, nat) rte_table" where
  "log_table hit de = \<lparr>tbl_ops = \<lparr>t_create = None, t_free = None, t_add = None, t_delete = None,
       t_add_bulk = None, t_delete_bulk = None,
       t_lookup = Some (\<lambda>h pk m ents g. Inr (hit, (\<lambda>i. if bit hit i then Some (log_entry i) else ents i), g)),
       t_stats = None\<rparr>, tbl_action_hit = None, tbl_action_miss = None, default_entry = de,
     tbl_entry_size = 8, table_next_id = 0, table_next_id_valid = False, h_table = 0,
     n_pkts_dropped_by_lkp_hit_ah = 0, n_pkts_dropped_by_lkp_miss_ah = 0,
     n_pkts_dropped_lkp_hit = 0, n_pkts_dropped_lkp_miss = 0\<rparr>"

definition log_pipeline :: "u64 \<Rightarrow> rte_pipeline_table_entry \<Rightarrow> (log, unit, unit, nat, unit, nat) rte_pipeline" where
  "log_pipeline hit de = \<lparr>pl_name = ''log'', pl_socket_id = 0, offset_port_id = 0,
     ports_in = [\<lparr>pin_ops = \<lparr>pi_create = None, pi_free = None, pi_rx = Some (\<lambda>h n g. Inr ([10, 11, 12], g)),
         pi_stats = None\<rparr>, pin_action = None, pin_burst_size = 32, pin_table_id = 0, pin_h = 0,
         pin_next = Some 0, pin_n_pkts_dropped_by_ah = 0\<rparr>],
     ports_out = [log_port 0, log_port 1], tables = [log_table hit de],
     enabled_port_in_mask = 1, port_in_next = Some 0,
     prun = \<lparr>pkts = (\<lambda>_. 0), entries = (\<lambda>_. None), action_mask0 = (\<lambda>_. 0), action_mask1 = (\<lambda>_. 0),
       pkts_mask = 0\<rparr>\<rparr>"

lemma log_pipeline_simps [simp]:
  "port_in_next (log_pipeline hit de) = Some 0" "offset_port_id (log_pipeline hit de) = 0"
  "ports_in (log_pipeline hit de) = [\<lparr>pin_ops = \<lparr>pi_create = None, pi_free = None,
     pi_rx = Some (\<lambda>h n g. Inr ([10, 11, 12], g)), pi_stats = None\<rparr>, pin_action = None,
     pin_burst_size = 32, pin_table_id = 0, pin_h = 0, pin_next = Some 0, pin_n_pkts_dropped_by_ah = 0\<rparr>]"
  "ports_out (log_pipeline hit de) = [log_port 0, log_port 1]" "tables (log_pipeline hit de) = [log_table hit de]"
  "entries (prun (log_pipeline hit de)) = (\<lambda>_. None)" "action_mask0 (prun (log_pipeline hit de)) a = 0"
  "mb_free log_mo m g = Inr (g @ [(None, m)])" "no_out_action (log_pipeline hit de)"
  by (simp_all add: log_pipeline_def log_mo_def no_out_action_def log_port_def)

lemma log_table_simps [simp]:
  "no_table_action (log_table hit de)" "default_entry (log_table hit de) = de"
  "\<not> table_next_id_valid (log_table hit de)" "h_table (log_table hit de) = 0"
  "t_lookup (tbl_ops (log_table hit de)) =
     Some (\<lambda>h pk m ents g. Inr (hit, (\<lambda>i. if bit hit i then Some (log_entry i) else ents i), g))"
  by (simp_all add: log_table_def no_table_action_def)

theorem run_one_table_witness:
  "\<exists>q. rte_pipeline_run 1 log_mo (log_pipeline (bit1 0 OR bit1 2) \<lparr>pte_action = ACTION_PORT, pte_id = 0, pte_data = []\<rparr>) [] =
     Inr (3, q, [(Some 0, 11), (Some 1, 10), (None, 12)])"
proof -
  define H :: u64 where "H = bit1 0 OR bit1 2"
  let ?de = "\<lparr>pte_action = ACTION_PORT, pte_id = 0, pte_data = []\<rparr>"
  let ?p = "log_pipeline H ?de"
  have hit: "bit H i \<longleftrightarrow> i = 0 \<or> i = 2" for i by (auto simp: H_def bit_or_iff)
  have m1: "bits_of (mask_of [Suc 0]) = [Suc 0]"
    by (rule sorted_distinct_set_unique) auto
  have pre: "port_in_next ?p = Some 0" "0 < length (ports_in ?p)"
      "pi_rx (pin_ops (ports_in ?p ! 0)) = Some (\<lambda>h n g. Inr ([10, 11, 12], g))"
      "0 < length [10, 11, 12::nat]" "length [10, 11, 12::nat] \<le> 64" "pin_action (ports_in ?p ! 0) = None"
      "pin_table_id (ports_in ?p ! 0) = 0" "0 < length (tables ?p)" "(0::nat) < 64" "log_table H ?de = tables ?p ! 0"
      "?de = default_entry (log_table H ?de)" "pte_action ?de \<noteq> ACTION_TABLE"
    by simp_all
  have lk: "(\<lambda>h pk m ents g. Inr (H, (\<lambda>i. if bit H i then Some (log_entry i) else ents i), g))
        (h_table (log_table H ?de)) (burst ?p [10, 11, 12]) (RTE_LEN2MASK (length [10, 11, 12::nat]))
        (entries (prun ?p)) [] = Inr (H, (\<lambda>i. if bit H i then Some (log_entry i) else None), [])"
    by (simp cong: if_cong)
  have en: "bit H i \<Longrightarrow> i < length [10, 11, 12::nat] \<and>
      (if bit H i then Some (log_entry i) else None) = Some (log_entry i) \<and>
      pte_action (log_entry i) \<noteq> ACTION_TABLE" for i
    by (auto simp: hit log_entry_def)
  have lists: "filter (\<lambda>i. \<not> bit H i) [0..<length [10, 11, 12::nat]] = [1]"
      "filter (\<lambda>i. bit H i \<and> pte_action (log_entry i) = ACTION_PORT) [0..<length [10, 11, 12::nat]] = [0]"
      "filter (\<lambda>i. pte_action (if bit H i then log_entry i else ?de) = ACTION_PORT_META) [0..<length [10, 11, 12::nat]] = []"
      "filter (\<lambda>i. pte_action (if bit H i then log_entry i else ?de) = ACTION_DROP) [0..<length [10, 11, 12::nat]] = [2]"
    by (simp_all add: hit log_entry_def)
  note run = run_one_table [OF pre(1,2) refl pre(3) refl pre(4-6) log_pipeline_simps(9) log_table_simps(1)
      pre(7-10) log_table_simps(5) lk en pre(11,12), where mo = log_mo and fuel = 0, unfolded lists]
  have "tx_bulk_call ?p 0 (burst ?p [10, 11, 12]) (mask_of [1]) [] = Inr [(Some 0, 11)]"
    by (simp add: tx_bulk_call_def port_out_at_def fnptr_def log_port_def burst_def m1)
  moreover have "tx_call ?p 1 10 g = Inr (g @ [(Some 1, 10)])" for g
    by (simp add: tx_call_def port_out_at_def fnptr_def log_port_def)
  ultimately show ?thesis using run unfolding H_def [symmetric] by (auto simp: log_entry_def)
qed

section \<open>A table that is its own successor\<close>

text \<open>C37. The topology check does not exclude cycles: a default entry that sends the packets without a rule
  back to their own table is accepted. From then on a run that receives packets of which none matches a rule of the
  table looks them up for ever: \<open>rte_pipeline_run\<close> does not return, however many iterations of its loop are allowed
  (for a pipeline without action handlers on the way).\<close>

theorem self_loop_accepted_and_diverges:
  assumes t: "t < length (tables p)" "t < 64" and "\<not> table_next_id_valid (tables p ! t)"
    and na: "no_out_action p" "no_table_action (tables p ! t)"
    and port: "port_in_next p = Some k" "k < length (ports_in p)" "pin_table_id (ports_in p ! k) = t" "pin_action (ports_in p ! k) = None"
    and rx: "pi_rx (pin_ops (ports_in p ! k)) = Some rx"
      "rx (pin_h (ports_in p ! k)) (pin_burst_size (ports_in p ! k)) g = Inr (ms, g1)" "0 < length ms" "length ms \<le> 64"
    and lk: "t_lookup (tbl_ops (tables p ! t)) = Some lk"
      "lk (h_table (tables p ! t)) (burst p ms) (RTE_LEN2MASK (length ms)) (entries (prun p)) g1 = Inr (0, entries (prun p), g1)"
    and e: "pte_action e = ACTION_TABLE" "pte_id e = t"
  shows "\<exists>q. rte_pipeline_table_default_entry_add (Some p) t (Some e) = (0, Some q) \<and>
    (\<forall>fuel mo. rte_pipeline_run fuel mo q g = Inl OutOfFuel)"
proof -
  define q where "q = p\<lparr>tables := (tables p)[t := (set_next e (tables p ! t))\<lparr>default_entry := e\<rparr>]\<rparr>"
  let ?M = "RTE_LEN2MASK (length ms)"
  have tq: "t < length (tables q)" "no_out_action q" "no_table_action (tables q ! t)"
      "default_entry (tables q ! t) = e" "table_next_id (tables q ! t) = t"
      "t_lookup (tbl_ops (tables q ! t)) = Some lk"
      "lk (h_table (tables q ! t)) (burst p ms) ?M (entries (prun p)) g1 = Inr (0, entries (prun p), g1)"
    using assms by (simp_all add: q_def no_out_action_def no_table_action_def set_next_def)
  have M: "?M \<noteq> 0" using rx(3,4) bit_RTE_LEN2MASK [of "length ms" 0] by auto
  have loop: "table_loop fuel q t (run, g1) = Inl OutOfFuel"
    if "pkts run = burst p ms" "pkts_mask run = ?M" "entries run = entries (prun p)" "action_mask0 run ACTION_TABLE = 0" for fuel run
    using that
  proof (induction fuel arbitrary: run)
    case 0
    then show ?case using M by simp
  next
    case (Suc fuel)
    have l: "lk (h_table (tables q ! t)) (pkts run) (pkts_mask run) (entries run) g1 = Inr (0, entries run, g1)"
      using tq(7) Suc.prems by simp
    have nohit: "\<And>i. bit (0::u64) i \<Longrightarrow> entries run i = Some undefined" by simp
    obtain am1 where s: "table_step q t (run, g1) = Inr (t, run\<lparr>entries := entries run, action_mask1 := am1,
        pkts_mask := action_mask0 run ACTION_TABLE OR verdict_mask e (pkts_mask run) 0 (\<lambda>_. undefined) ACTION_TABLE,
        action_mask0 := (\<lambda>a. if a = ACTION_TABLE then 0 else action_mask0 run a OR
          verdict_mask e (pkts_mask run) 0 (\<lambda>_. undefined) a)\<rparr>, g1)"
      using table_step_eq [OF tq(2,1) t(2) tq(3,6) l nohit] tq(4,5) e(1)
      by (auto cong: if_cong)
    have "verdict_mask e (pkts_mask run) 0 (\<lambda>_. undefined) ACTION_TABLE = pkts_mask run"
      using e(1) by (intro bit_word_eqI) (simp add: bit_verdict_mask)
    then show ?case using Suc s M by simp
  qed
  have pq: "port_in_next q = Some k" "ports_in q = ports_in p" "prun q = prun p" using port(1) by (simp_all add: q_def)
  have "rte_pipeline_run fuel mo q g = Inl OutOfFuel" for fuel mo
    unfolding rte_pipeline_run_def using pq port rx loop [of "(prun p)\<lparr>pkts := burst p ms, pkts_mask := ?M, action_mask0 := (\<lambda>_. 0)\<rparr>" fuel]
    by (simp add: Let_def fnptr_def burst_def)
  moreover have "rte_pipeline_table_default_entry_add (Some p) t (Some e) = (0, Some q)"
    using assms by (simp add: rte_pipeline_table_default_entry_add_def tree_like_def q_def Let_def)
  ultimately show ?thesis by blast
qed

theorem self_loop_accepted_and_diverges_witness:
  "\<exists>q. rte_pipeline_table_default_entry_add (Some (log_pipeline 0 zero_entry)) 0
      (Some \<lparr>pte_action = ACTION_TABLE, pte_id = 0, pte_data = []\<rparr>) = (0, Some q) \<and>
    rte_pipeline_run 1000 log_mo q [] = Inl OutOfFuel"
proof -
  let ?p = "log_pipeline 0 zero_entry" and ?e = "\<lparr>pte_action = ACTION_TABLE, pte_id = 0, pte_data = []\<rparr>"
  have pre: "0 < length (tables ?p)" "(0 :: nat) < 64" "\<not> table_next_id_valid (tables ?p ! 0)" "no_out_action ?p" "no_table_action (tables ?p ! 0)"
      "port_in_next ?p = Some 0" "0 < length (ports_in ?p)" "pin_table_id (ports_in ?p ! 0) = 0" "pin_action (ports_in ?p ! 0) = None"
      "pi_rx (pin_ops (ports_in ?p ! 0)) = Some (\<lambda>h n g. Inr ([10, 11, 12], g))" "0 < length [10, 11, 12 :: nat]" "length [10, 11, 12 :: nat] \<le> 64"
      "pte_action ?e = ACTION_TABLE" "pte_id ?e = 0" by simp_all
  have lk: "t_lookup (tbl_ops (tables ?p ! 0)) = Some (\<lambda>h pk m ents g. Inr (0, (\<lambda>i. if bit (0 :: u64) i then Some (log_entry i) else ents i), g))"
      "(\<lambda>h pk m ents g. Inr (0 :: u64, (\<lambda>i. if bit (0 :: u64) i then Some (log_entry i) else ents i), g)) (h_table (tables ?p ! 0)) (burst ?p [10, 11, 12])
        (RTE_LEN2MASK (length [10, 11, 12 :: nat])) (entries (prun ?p)) ([] :: log) = Inr (0, entries (prun ?p), [])" by simp_all
  from self_loop_accepted_and_diverges [OF pre(1-10) refl pre(11,12) lk pre(13,14)] show ?thesis by blast
qed

end
