(* ===== verification/Full_Copy.thy ===== *)
theory Full_Copy
  imports Sketch Pipeline_Run
begin

text \<open>
  The full-copy build, src/Enclave/ip_pipeline/full_copy.c with \<open>rte_pktmbuf_copy\<close> of rte_mbuf.h: an
  input action copies each packet of a burst into an enclave mbuf, an output action frees the copies of
  the packets that leave. A packet in host memory is its list of segments; the enclave's mempool is the
  queue of its free mbufs (\<open>enclave_mempool\<close> has no per-core cache, and its ring is first-in first-out).
\<close>

record host_seg =
  hs_data_off :: nat
  hs_data :: "u8 list"

text \<open>A copy is a list of enclave mbufs with the bytes copied into each.\<close>

type_synonym copied = "(nat \<times> u8 list) list"

record copy_state =
  enclave_mempool :: "nat list"
  saved_mbufs :: "nat \<Rightarrow> copied"
  full_input_cm :: count_min_t

abbreviation (input) RTE_MBUF_DEFAULT_BUF_SIZE :: nat where "RTE_MBUF_DEFAULT_BUF_SIZE \<equiv> 2176"

text \<open>\<open>init_copy_mempool\<close>: \<open>pool_create n\<close> is what \<open>rte_pktmbuf_pool_create\<close> delivers for a pool of \<open>n\<close> mbufs, None for
  NULL.\<close>

definition init_copy_mempool :: "(nat \<Rightarrow> nat list option) \<Rightarrow> copy_state \<Rightarrow> copy_state res" where
  "init_copy_mempool pool_create st = (case pool_create RTE_PORT_IN_BURST_SIZE_MAX of None \<Rightarrow> Inl Panic
     | Some ms \<Rightarrow> Inr (st\<lparr>enclave_mempool := ms\<rparr>))"

text \<open>The loop of \<open>rte_pktmbuf_copy\<close>; \<open>mc\<close> is the copy so far, which is freed when the pool is empty. The copy
  of a segment takes its offset and length from host memory and does not check them. The loop tests its condition
  at the end: it takes an mbuf before it reads the first segment, also when there is none.\<close>

fun copy_loop :: "host_seg list \<Rightarrow> copied \<Rightarrow> nat list \<Rightarrow> (copied option \<times> nat list) res" where
  "copy_loop [] mc pool = Inr (Some mc, pool)"
| "copy_loop (md # mds) mc [] = Inr (None, map fst mc)"
| "copy_loop (md # mds) mc (mi # pool) =
     (if hs_data_off md + length (hs_data md) > RTE_MBUF_DEFAULT_BUF_SIZE then Inl OutOfBounds
      else copy_loop mds (mc @ [(mi, hs_data md)]) pool)"

definition rte_pktmbuf_copy :: "host_seg list \<Rightarrow> nat list \<Rightarrow> (copied option \<times> nat list) res" where
  "rte_pktmbuf_copy md pool = (if md = [] then (if pool = [] then Inr (None, []) else Inl NullDeref) else copy_loop md [] pool)"

text \<open>\<open>segs\<close> are the segments of each packet of the burst; \<open>hdr\<close> is what the sketch reads of it. The array
  \<open>saved_mbufs\<close> has room for one burst.\<close>

definition input_port_make_full_copy ::
  "bool \<Rightarrow> (nat \<Rightarrow> host_seg list) \<Rightarrow> (nat \<Rightarrow> rte_mbuf) \<Rightarrow> nat \<Rightarrow> copy_state \<Rightarrow> copy_state res" where
  "input_port_make_full_copy sketch segs hdr n st =
     rbind (rfold (\<lambda>i st. if i \<ge> RTE_PORT_IN_BURST_SIZE_MAX then Inl OutOfBounds
       else rbind (rte_pktmbuf_copy (segs i) (enclave_mempool st)) (\<lambda>(c, pool).
         case c of None \<Rightarrow> Inl Panic
         | Some c \<Rightarrow> Inr (st\<lparr>enclave_mempool := pool, saved_mbufs := (saved_mbufs st)(i := c)\<rparr>))) [0 ..< n] st) (\<lambda>st.
     if sketch then rbind (cm_update_bulk_mbuf (full_input_cm st) hdr n) (\<lambda>cm. Inr (st\<lparr>full_input_cm := cm\<rparr>)) else Inr st)"

definition output_port_free_full_copy :: "u64 \<Rightarrow> copy_state \<Rightarrow> copy_state" where
  "output_port_free_full_copy w st =
     fold (\<lambda>i st. if bit w i
        then st\<lparr>enclave_mempool := enclave_mempool st @ map fst (saved_mbufs st i)\<rparr> else st) [0 ..< 64] st"

text \<open>
  The two functions as actions of the pipeline's ports, as \<open>ecall_pipeline_firewall_init\<close> installs them in this build:
  they read the packets of the burst and leave them as they are. The state of the pipeline is the one here beside
  the rest of the machine.
\<close>

definition full_copy_in_action ::
  "bool \<Rightarrow> ('m \<Rightarrow> host_seg list) \<Rightarrow> ('m \<Rightarrow> rte_mbuf) \<Rightarrow> nat \<Rightarrow> 'm rte_run \<Rightarrow> copy_state \<times> 'x \<Rightarrow> ('m rte_run \<times> copy_state \<times> 'x) res" where
  "full_copy_in_action sketch segs hdr n run = (\<lambda>(st, x).
     rbind (input_port_make_full_copy sketch (\<lambda>i. segs (pkts run i)) (\<lambda>i. hdr (pkts run i)) n st) (\<lambda>st. Inr (run, st, x)))"

definition full_copy_out_action :: "u64 \<Rightarrow> 'm rte_run \<Rightarrow> copy_state \<times> 'x \<Rightarrow> ('m rte_run \<times> copy_state \<times> 'x) res" where
  "full_copy_out_action w run = (\<lambda>(st, x). Inr (run, output_port_free_full_copy w st, x))"

section \<open>Copying\<close>

text \<open>C33. A copy is faithful: when the segments fit the enclave buffers and the pool has one mbuf for each,
  the copy has exactly the bytes of the packet, segment by segment, in distinct mbufs taken from the pool;
  when the pool is too small nothing is lost, since the mbufs taken go back. A packet without any segment (a NULL
  pointer) is not copied: with a free mbuf the pointer is followed.\<close>

theorem rte_pktmbuf_copy_faithful:
  assumes "\<forall>s \<in> set md. hs_data_off s + length (hs_data s) \<le> RTE_MBUF_DEFAULT_BUF_SIZE"
  shows "rte_pktmbuf_copy md pool =
    (if md = [] \<and> pool \<noteq> [] then Inl NullDeref
     else if md \<noteq> [] \<and> length md \<le> length pool
     then Inr (Some (zip (take (length md) pool) (map hs_data md)), drop (length md) pool)
     else Inr (None, pool))"
proof -
  have "copy_loop md mc pool =
    (if length md \<le> length pool
     then Inr (Some (mc @ zip (take (length md) pool) (map hs_data md)), drop (length md) pool)
     else Inr (None, map fst mc @ pool))" for mc
    using assms
  proof (induction md arbitrary: mc pool)
    case (Cons s md)
    show ?case
    proof (cases pool)
      case Nil
      then show ?thesis by simp
    next
      case (Cons m pool')
      then show ?thesis using Cons.prems Cons.IH [of "mc @ [(m, hs_data s)]" pool'] by simp
    qed
  qed simp
  then show ?thesis by (simp add: rte_pktmbuf_copy_def)
qed

theorem rte_pktmbuf_copy_faithful_witness:
  "rte_pktmbuf_copy [\<lparr>hs_data_off = 128, hs_data = [1, 2]\<rparr>, \<lparr>hs_data_off = 128, hs_data = [3]\<rparr>] [10, 11, 12] =
     Inr (Some [(10, [1, 2]), (11, [3])], [12])"
  using rte_pktmbuf_copy_faithful [of "[\<lparr>hs_data_off = 128, hs_data = [1, 2]\<rparr>, \<lparr>hs_data_off = 128, hs_data = [3]\<rparr>]" "[10, 11, 12]"]
  by simp

text \<open>The length of a copy is not checked: a segment whose offset and length, which are read from host
  memory, exceed the enclave buffer makes the copy write behind it.\<close>

theorem rte_pktmbuf_copy_overrun:
  assumes "hs_data_off s + length (hs_data s) > RTE_MBUF_DEFAULT_BUF_SIZE" and "pool \<noteq> []"
  shows "rte_pktmbuf_copy (s # md) pool = Inl OutOfBounds"
  using assms by (cases pool) (simp_all add: rte_pktmbuf_copy_def)

theorem rte_pktmbuf_copy_overrun_witness:
  "rte_pktmbuf_copy [\<lparr>hs_data_off = 0, hs_data = replicate 2177 0\<rparr>] [10] = Inl OutOfBounds"
  by (rule rte_pktmbuf_copy_overrun) simp_all

section \<open>The pool over time\<close>

definition one_seg :: "host_seg list \<Rightarrow> bool" where
  "one_seg md \<longleftrightarrow> (\<exists>s. md = [s] \<and> hs_data_off s + length (hs_data s) \<le> RTE_MBUF_DEFAULT_BUF_SIZE)"

lemma copy_one_seg:
  assumes "one_seg md"
  shows "rte_pktmbuf_copy md pool = (case pool of [] \<Rightarrow> Inr (None, []) | m # pool \<Rightarrow> Inr (Some [(m, hs_data (hd md))], pool))"
  using assms by (cases pool) (auto simp: one_seg_def rte_pktmbuf_copy_def)

lemma full_copy_step:
  assumes "\<forall>i < n. one_seg (sg i)" and n: "n \<le> RTE_PORT_IN_BURST_SIZE_MAX"
  shows "if n \<le> length (enclave_mempool st)
    then \<exists>st'. input_port_make_full_copy sketch sg hdr n st = Inr st' \<and>
      length (enclave_mempool st') = length (enclave_mempool st) - n \<and> (\<forall>i < n. length (saved_mbufs st' i) = 1)
    else input_port_make_full_copy sketch sg hdr n st = Inl Panic"
proof -
  let ?f = "\<lambda>i st. if i \<ge> RTE_PORT_IN_BURST_SIZE_MAX then Inl OutOfBounds else rbind (rte_pktmbuf_copy (sg i) (enclave_mempool st)) (\<lambda>(c, pool).
         case c of None \<Rightarrow> Inl Panic
         | Some c \<Rightarrow> Inr (st\<lparr>enclave_mempool := pool, saved_mbufs := (saved_mbufs st)(i := c)\<rparr>))"
  have loop: "if n \<le> length (enclave_mempool st)
    then \<exists>st'. rfold ?f [0 ..< n] st = Inr st' \<and> length (enclave_mempool st') = length (enclave_mempool st) - n \<and>
      (\<forall>i < n. length (saved_mbufs st' i) = 1)
    else rfold ?f [0 ..< n] st = Inl Panic" for st
    using assms
  proof (induction n)
    case (Suc n)
    then have IH: "if n \<le> length (enclave_mempool st)
      then \<exists>st'. rfold ?f [0 ..< n] st = Inr st' \<and> length (enclave_mempool st') = length (enclave_mempool st) - n \<and>
        (\<forall>i < n. length (saved_mbufs st' i) = 1)
      else rfold ?f [0 ..< n] st = Inl Panic" by simp
    show ?case
    proof (cases "n \<le> length (enclave_mempool st)")
      case True
      with IH obtain s where s: "rfold ?f [0 ..< n] st = Inr s" "length (enclave_mempool s) = length (enclave_mempool st) - n"
          "\<forall>i < n. length (saved_mbufs s i) = 1" by auto
      have c: "one_seg (sg n)" using Suc.prems by simp
      show ?thesis
        using s c Suc.prems(2) by (cases "enclave_mempool s") (auto simp: rfold_append copy_one_seg)
    qed (use IH in \<open>auto simp: rfold_append\<close>)
  qed simp
  show ?thesis
    using loop [of st] n by (cases sketch) (auto simp: input_port_make_full_copy_def cm_update_bulk_mbuf_def Let_def split: if_splits)
qed

lemma free_full_copy_length:
  assumes "\<forall>i < 64. bit m i \<longrightarrow> length (saved_mbufs st i) = 1"
  shows "length (enclave_mempool (output_port_free_full_copy m st)) = length (enclave_mempool st) + popcount m"
proof -
  have "length (enclave_mempool (fold (\<lambda>i st. if bit m i
      then st\<lparr>enclave_mempool := enclave_mempool st @ map fst (saved_mbufs st i)\<rparr> else st) xs s)) =
      length (enclave_mempool s) + length (filter (bit m) xs)"
    if "\<forall>i \<in> set xs. bit m i \<longrightarrow> length (saved_mbufs s i) = 1" for xs and s :: copy_state
    using that
  proof (induction xs arbitrary: s)
    case (Cons i xs)
    let ?s = "if bit m i then s\<lparr>enclave_mempool := enclave_mempool s @ map fst (saved_mbufs s i)\<rparr> else s"
    have "\<forall>j \<in> set xs. bit m j \<longrightarrow> length (saved_mbufs ?s j) = 1" using Cons.prems by simp
    from Cons.IH [OF this] show ?case using Cons.prems by simp
  qed simp
  from this [of "[0 ..< 64]" st] assms show ?thesis
    by (simp add: output_port_free_full_copy_def popcount_def bits_of_def)
qed

lemma free_one_copy:
  assumes "i < 64"
  shows "output_port_free_full_copy (bit1 i) st = st\<lparr>enclave_mempool := enclave_mempool st @ map fst (saved_mbufs st i)\<rparr>"
proof -
  have "[0 ..< 64] = [0 ..< i] @ i # [Suc i ..< 64]" using assms upt_add_eq_append [of 0 i "64 - i"] upt_conv_Cons [of i 64] by simp
  moreover have "fold (\<lambda>j st. if bit (bit1 i) j
      then st\<lparr>enclave_mempool := enclave_mempool st @ map fst (saved_mbufs st j)\<rparr> else st) xs s = s" if "i \<notin> set xs" for xs and s :: copy_state
    using that by (induction xs arbitrary: s) auto
  ultimately show ?thesis using assms by (simp add: output_port_free_full_copy_def)
qed

text \<open>Operations of ports and of the host's pool work on the rest of the machine.\<close>

definition apart :: "('c \<times> 'x \<Rightarrow> ('c \<times> 'x) res) \<Rightarrow> bool" where
  "apart f \<longleftrightarrow> (\<forall>g. \<exists>g'. f g = Inr g' \<and> fst g' = fst g)"

lemma rfold_apart:
  assumes "\<And>i. apart (f i)"
  shows "\<exists>x'. rfold f is (c, x) = Inr (c, x')"
proof -
  have "\<exists>t. f i s = Inr t \<and> fst t = c" if "fst s = c" for i s
  proof -
    obtain g' where "f i s = Inr g'" "fst g' = fst s" using assms [of i] unfolding apart_def by blast
    then show ?thesis using that by auto
  qed
  from rfold_total [of "\<lambda>g. fst g = c" "(c, x)" "is" f, OF _ this] obtain t where "rfold f is (c, x) = Inr t" "fst t = c" by auto
  then show ?thesis by (cases t) auto
qed

text \<open>Every output port has the output action, as the two ports of the firewall have.\<close>

definition copy_ports :: "(copy_state \<times> 'x, 'a, 't, 'h, 'k, 'm) rte_pipeline \<Rightarrow> bool" where
  "copy_ports p \<longleftrightarrow> length (ports_out p) \<le> 64 \<and> (\<forall>port \<in> set (ports_out p). pout_action port = Some full_copy_out_action \<and>
     (\<exists>tx. po_tx (pout_ops port) = Some tx \<and> (\<forall>m. apart (tx (pout_h port) m))))"

lemma tx_packet_copy:
  assumes "copy_ports p" and "j < length (ports_out p)" and "i < 64" and "bit (pkts_mask run) i"
  shows "\<exists>x'. tx_packet p i j (run, st, x) = Inr (run, st\<lparr>enclave_mempool := enclave_mempool st @ map fst (saved_mbufs st i)\<rparr>, x')"
proof -
  let ?st = "st\<lparr>enclave_mempool := enclave_mempool st @ map fst (saved_mbufs st i)\<rparr>" and ?port = "ports_out p ! j"
  obtain tx where tx: "pout_action ?port = Some full_copy_out_action" "po_tx (pout_ops ?port) = Some tx" "apart (tx (pout_h ?port) (pkts run i))"
    using assms(1,2) unfolding copy_ports_def by (metis nth_mem)
  obtain x' where x': "tx (pout_h ?port) (pkts run i) (?st, x) = Inr (?st, x')"
    using tx(3) unfolding apart_def by (metis prod.collapse fst_conv)
  have at: "port_out_at p j = Inr ?port" using assms(1,2) by (simp add: port_out_at_def copy_ports_def)
  have "bit1 i AND pkts_mask run \<noteq> 0" using assms(3,4) by (auto simp: bit_eq_iff bit_and_iff)
  then show ?thesis using at tx(1,2) x' free_one_copy [OF assms(3)]
    by (simp add: tx_packet_def full_copy_out_action_def fnptr_def)
qed

lemma send_copies:
  assumes "copy_ports p" and "\<forall>i \<in> set is. i < 64 \<and> bit (pkts_mask run) i \<and> entries run i = Some (e i) \<and> pte_id (e i) < length (ports_out p) \<and>
      length (saved_mbufs st i) = 1"
  shows "\<exists>st' x'. rfold (\<lambda>i (run, g). rbind (entry_of run i) (\<lambda>e. tx_packet p i (pte_id e) (run, g))) is (run, st, x) = Inr (run, st', x') \<and>
    length (enclave_mempool st') = length (enclave_mempool st) + length is"
  using assms(2)
proof (induction "is" arbitrary: st x)
  case (Cons i "is")
  let ?st = "st\<lparr>enclave_mempool := enclave_mempool st @ map fst (saved_mbufs st i)\<rparr>"
  obtain x1 where a: "tx_packet p i (pte_id (e i)) (run, st, x) = Inr (run, ?st, x1)"
    using tx_packet_copy [OF assms(1), of "pte_id (e i)" i run st x] Cons.prems by auto
  from Cons.IH [of ?st x1] obtain st' x' where
      "rfold (\<lambda>i (run, g). rbind (entry_of run i) (\<lambda>e. tx_packet p i (pte_id e) (run, g))) is (run, ?st, x1) = Inr (run, st', x')"
      "length (enclave_mempool st') = length (enclave_mempool ?st) + length is" using Cons.prems by auto
  then show ?case using a Cons.prems by (auto simp: entry_of_def)
qed simp

text \<open>A table whose default entry drops does not use the output ports.\<close>

lemma table_step_ports:
  assumes "pte_action (default_entry (tables p ! t)) \<noteq> ACTION_PORT"
  shows "table_step (p\<lparr>ports_out := X\<rparr>) t s = table_step p t s"
proof -
  have "table_miss (p\<lparr>ports_out := X\<rparr>) (tables p ! t) miss s = table_miss p (tables p ! t) miss s" for miss s
    using assms by (cases s) (auto simp: table_miss_def Let_def intro!: rbind_cong)
  then show ?thesis by (cases s) (simp add: table_step_def Let_def)
qed

text \<open>A run whose input port has an action, and what it finds in a table that drops by default and has rules for output
  ports only.\<close>

lemma run_with_action:
  assumes "port_in_next p = Some k" and "k < length (ports_in p)" and "port = ports_in p ! k" and "pin_action port = Some act"
    and "pi_rx (pin_ops port) = Some rx" and "rx (pin_h port) (pin_burst_size port) g = Inr (ms, g1)" and "0 < length ms" and "length ms \<le> 64"
  shows "rte_pipeline_run fuel mo p g =
      rbind (act (length ms) ((prun p)\<lparr>pkts := burst p ms, pkts_mask := RTE_LEN2MASK (length ms), action_mask0 := (\<lambda>_. 0)\<rparr>) g1) (\<lambda>s.
      rbind (table_loop fuel p (pin_table_id port) s) (\<lambda>s.
      rbind (rte_pipeline_action_handler_port p (action_mask0 (fst s) ACTION_PORT) s) (\<lambda>s.
      rbind (rte_pipeline_action_handler_port_meta mo p (action_mask0 (fst s) ACTION_PORT_META) s) (\<lambda>s.
      rbind (rte_pipeline_action_handler_drop mo (action_mask0 (fst s) ACTION_DROP) s) (\<lambda>(run, g).
      Inr (int (length ms), p\<lparr>prun := run, port_in_next := pin_next port\<rparr>, g))))))"
  using assms unfolding rte_pipeline_run_def by (simp add: Let_def fnptr_def burst_def del: table_loop.simps)

lemma filter_table_loop:
  assumes "t < length (tables p)" "t < 64" "no_table_action (tables p ! t)" "pte_action (default_entry (tables p ! t)) = ACTION_DROP"
    and lk: "t_lookup (tbl_ops (tables p ! t)) = Some lk"
      "lk (h_table (tables p ! t)) (pkts run) (pkts_mask run) (entries run) g = Inr (hit, ents, g)"
      "\<And>i. bit hit i \<Longrightarrow> ents i = Some (e i) \<and> pte_action (e i) = ACTION_PORT"
    and run: "action_mask0 run = (\<lambda>_. 0)" "pkts_mask run \<noteq> 0"
  shows "\<exists>fin. table_loop (Suc fuel) p t (run, g) = Inr (fin, g) \<and> pkts fin = pkts run \<and> entries fin = ents \<and>
    action_mask0 fin ACTION_PORT = hit \<and> action_mask0 fin ACTION_PORT_META = 0"
proof -
  let ?V = "verdict_mask (default_entry (tables p ! t)) (pkts_mask run AND NOT hit) hit e"
  have V: "?V ACTION_TABLE = 0" "?V ACTION_PORT = hit" "?V ACTION_PORT_META = 0" using lk(3) assms(4)
    by (intro bit_word_eqI; auto simp: bit_verdict_mask)+
  obtain am1 where "table_step p t (run, g) = Inr (table_next_id (tables p ! t), run\<lparr>entries := ents,
      action_mask1 := am1, pkts_mask := 0, action_mask0 := (\<lambda>a. if a = ACTION_TABLE then 0 else ?V a)\<rparr>, g)"
    using table_step_eq [of "p\<lparr>ports_out := []\<rparr>" t lk run g hit ents g e] assms V(1)
    by (auto simp: table_step_ports no_out_action_def cong: if_cong)
  moreover have "table_loop fuel p nx (run\<lparr>entries := ents, action_mask1 := am1, pkts_mask := 0, action_mask0 := f\<rparr>, g) =
      Inr (run\<lparr>entries := ents, action_mask1 := am1, pkts_mask := 0, action_mask0 := f\<rparr>, g)" for nx f by (cases fuel) simp_all
  ultimately show ?thesis using run(2) V by simp
qed

text \<open>C34. The full-copy build leaks the copy of every packet that the firewall drops. A run of the pipeline with the
  two actions, on one table whose default entry drops, that receives one-segment packets: if the enclave's pool has fewer
  free mbufs than the burst has packets it panics; otherwise it returns, and the pool has one mbuf less per
  packet received and one more per packet that matched a rule and was sent. The drop path of the pipeline frees
  the packet of the host and not its copy. The pool has 64 mbufs at the start, so 64 dropped packets are
  enough for the enclave to abort at the next one, as the concrete pipeline below does.\<close>

theorem full_copy_pool_accounting:
  assumes port: "port_in_next p = Some k" "k < length (ports_in p)" "port = ports_in p ! k"
      "pin_action port = Some (full_copy_in_action sketch segs hdr)"
    and rx: "pi_rx (pin_ops port) = Some rx" "rx (pin_h port) (pin_burst_size port) (st, x) = Inr (ms, st, x1)" "0 < length ms" "length ms \<le> 64"
    and one: "\<forall>m \<in> set ms. one_seg (segs m)"
    and tab: "pin_table_id port = t" "t < length (tables p)" "t < 64" "no_table_action (tables p ! t)"
      "pte_action (default_entry (tables p ! t)) = ACTION_DROP"
    and lk: "t_lookup (tbl_ops (tables p ! t)) = Some lk"
      "\<And>st. lk (h_table (tables p ! t)) (burst p ms) (RTE_LEN2MASK (length ms)) (entries (prun p)) (st, x1) = Inr (hit, ents, st, x1)"
      "\<And>i. bit hit i \<Longrightarrow> i < length ms \<and> ents i = Some (e i) \<and> pte_action (e i) = ACTION_PORT \<and> pte_id (e i) < length (ports_out p)"
    and out: "copy_ports p" and free: "\<And>m. apart (mb_free mo m)"
  shows "if length ms \<le> length (enclave_mempool st)
    then \<exists>run st' x'. rte_pipeline_run (Suc fuel) mo p (st, x) =
        Inr (int (length ms), p\<lparr>prun := run, port_in_next := pin_next port\<rparr>, st', x') \<and>
      length (enclave_mempool st') = length (enclave_mempool st) - length ms + popcount hit
    else rte_pipeline_run (Suc fuel) mo p (st, x) = Inl Panic"
proof -
  let ?n = "length ms" and ?M = "RTE_LEN2MASK (length ms)"
  let ?run = "(prun p)\<lparr>pkts := burst p ms, pkts_mask := ?M, action_mask0 := (\<lambda>_. 0)\<rparr>"
  have one': "\<forall>i < ?n. one_seg (segs (burst p ms i))" using one by (simp add: burst_def)
  note step = full_copy_step [OF one' rx(4), of st sketch "\<lambda>i. hdr (burst p ms i)"]
  note run = run_with_action [OF port rx, of "Suc fuel" mo, unfolded tab(1)]
  show ?thesis
  proof (cases "?n \<le> length (enclave_mempool st)")
    case False
    then show ?thesis using step by (simp add: run full_copy_in_action_def)
  next
    case True
    with step obtain st1 where st1: "input_port_make_full_copy sketch (\<lambda>i. segs (burst p ms i)) (\<lambda>i. hdr (burst p ms i)) ?n st = Inr st1"
        "length (enclave_mempool st1) = length (enclave_mempool st) - ?n" "\<forall>i < ?n. length (saved_mbufs st1 i) = 1" by auto
    have act: "full_copy_in_action sketch segs hdr ?n ?run (st, x1) = Inr (?run, st1, x1)" using st1(1) by (simp add: full_copy_in_action_def)
    have "?M \<noteq> 0" using rx(3,4) bit_RTE_LEN2MASK [of ?n 0] by auto
    then obtain fin where loop: "table_loop (Suc fuel) p t (?run, st1, x1) = Inr (fin, st1, x1)"
      and fin: "pkts fin = burst p ms" "entries fin = ents" "action_mask0 fin ACTION_PORT = hit" "action_mask0 fin ACTION_PORT_META = 0"
      using filter_table_loop [of t p lk ?run "(st1, x1)" hit ents e fuel] tab(2-5) lk by auto
    have "\<forall>i \<in> set (bits_of hit). i < 64 \<and> bit (pkts_mask (fin\<lparr>pkts_mask := hit\<rparr>)) i \<and> entries (fin\<lparr>pkts_mask := hit\<rparr>) i = Some (e i) \<and>
        pte_id (e i) < length (ports_out p) \<and> length (saved_mbufs st1 i) = 1"
    proof
      fix i assume "i \<in> set (bits_of hit)"
      then have i: "i < 64" "bit hit i" by (auto dest: bit_u64_le)
      then show "i < 64 \<and> bit (pkts_mask (fin\<lparr>pkts_mask := hit\<rparr>)) i \<and> entries (fin\<lparr>pkts_mask := hit\<rparr>) i = Some (e i) \<and>
        pte_id (e i) < length (ports_out p) \<and> length (saved_mbufs st1 i) = 1" using lk(3) [OF i(2)] st1(3) fin(2) by simp
    qed
    from send_copies [OF out this, of x1] obtain st2 x2 where
        s2: "rte_pipeline_action_handler_port p hit (fin, st1, x1) = Inr (fin\<lparr>pkts_mask := hit\<rparr>, st2, x2)"
        "length (enclave_mempool st2) = length (enclave_mempool st1) + popcount hit"
      by (auto simp: rte_pipeline_action_handler_port_def for_mask_eq popcount_def)
    have meta: "rte_pipeline_action_handler_port_meta mo p 0 (fin\<lparr>pkts_mask := hit\<rparr>, st2, x2) = Inr (fin\<lparr>pkts_mask := 0\<rparr>, st2, x2)"
      by (simp add: rte_pipeline_action_handler_port_meta_def for_mask_eq)
    obtain x3 where "rfold (\<lambda>i. mb_free mo (burst p ms i)) (bits_of (action_mask0 fin ACTION_DROP)) (st2, x2) = Inr (st2, x3)"
      using rfold_apart [of "\<lambda>i. mb_free mo (burst p ms i)", OF free] by blast
    then have drop: "rte_pipeline_action_handler_drop mo (action_mask0 fin ACTION_DROP) (fin\<lparr>pkts_mask := 0\<rparr>, st2, x2) =
        Inr (fin\<lparr>pkts_mask := 0\<rparr>, st2, x3)" by (simp add: handler_drop_eq fin(1))
    have "rte_pipeline_run (Suc fuel) mo p (st, x) = Inr (int ?n, p\<lparr>prun := fin\<lparr>pkts_mask := 0\<rparr>, port_in_next := pin_next port\<rparr>, st2, x3)"
      unfolding run act rbind_Inr loop fst_conv fin(3) s2(1) by (simp add: fin(3,4) s2(1) meta drop)
    then show ?thesis using True s2(2) st1(2) by auto
  qed
qed

text \<open>The input port of this pipeline always has one packet, its table has no rule and drops by default, and the host
  gets every packet back. From the pool of \<open>init_copy_mempool\<close> 64 runs return; the next one aborts.\<close>

definition drop_port :: "(copy_state \<times> nat list, unit, unit, nat) rte_port_in" where
  "drop_port = \<lparr>pin_ops = \<lparr>pi_create = None, pi_free = None, pi_rx = Some (\<lambda>h n g. Inr ([7], g)), pi_stats = None\<rparr>,
     pin_action = Some (full_copy_in_action True (\<lambda>m. [\<lparr>hs_data_off = 128, hs_data = [1, 2, 3]\<rparr>]) (\<lambda>m. \<lparr>mtod = (\<lambda>_. 0), pkt_len = 3\<rparr>)),
     pin_burst_size = 32, pin_table_id = 0, pin_h = (), pin_next = Some 0, pin_n_pkts_dropped_by_ah = 0\<rparr>"

definition drop_table :: "(copy_state \<times> nat list, unit, unit, unit, nat) rte_table" where
  "drop_table = \<lparr>tbl_ops = \<lparr>t_create = None, t_free = None, t_add = None, t_delete = None, t_add_bulk = None,
       t_delete_bulk = None, t_lookup = Some (\<lambda>h pk m ents g. Inr (0, ents, g)), t_stats = None\<rparr>,
     tbl_action_hit = None, tbl_action_miss = None, default_entry = zero_entry, tbl_entry_size = 8,
     table_next_id = 0, table_next_id_valid = False, h_table = (), n_pkts_dropped_by_lkp_hit_ah = 0,
     n_pkts_dropped_by_lkp_miss_ah = 0, n_pkts_dropped_lkp_hit = 0, n_pkts_dropped_lkp_miss = 0\<rparr>"

definition drop_pipeline :: "nat rte_run \<Rightarrow> (copy_state \<times> nat list, unit, unit, unit, unit, nat) rte_pipeline" where
  "drop_pipeline run = \<lparr>pl_name = [], pl_socket_id = 0, offset_port_id = 0, ports_in = [drop_port], ports_out = [],
     tables = [drop_table], enabled_port_in_mask = 1, port_in_next = Some 0, prun = run\<rparr>"

definition drop_mo :: "(copy_state \<times> nat list, nat) mbuf_ops" where
  "drop_mo = \<lparr>mb_free = (\<lambda>m (st, x). Inr (st, x @ [m])), mb_meta32 = (\<lambda>m i g. 0)\<rparr>"

definition drop_run :: "nat rte_run" where
  "drop_run = \<lparr>pkts = (\<lambda>_. 0), entries = (\<lambda>_. None), action_mask0 = (\<lambda>_. 0), action_mask1 = (\<lambda>_. 0), pkts_mask = 0\<rparr>"

primrec repeat_run where
  "repeat_run 0 p g = Inr (p, g)"
| "repeat_run (Suc n) p g = rbind (repeat_run n p g) (\<lambda>(p, g). rbind (rte_pipeline_run 1 drop_mo p g) (\<lambda>(_, p, g). Inr (p, g)))"

lemma drop_pipeline_simps:
  "port_in_next (drop_pipeline run) = Some 0" "ports_in (drop_pipeline run) = [drop_port]" "tables (drop_pipeline run) = [drop_table]"
  "ports_out (drop_pipeline run) = []" "prun (drop_pipeline run) = run" "(drop_pipeline run)\<lparr>prun := r, port_in_next := Some 0\<rparr> = drop_pipeline r"
  by (simp_all add: drop_pipeline_def)

theorem full_copy_pool_accounting_witness:
  "\<exists>st. init_copy_mempool (\<lambda>n. Some [0 ..< n])
       \<lparr>enclave_mempool = [], saved_mbufs = \<lambda>_. [], full_input_cm = cm_init (\<lambda>_. 3) (\<lambda>_. 5)\<rparr> = Inr st \<and>
     (\<exists>p st' x. repeat_run 64 (drop_pipeline drop_run) (st, []) = Inr (p, st', x) \<and> enclave_mempool st' = []) \<and>
     repeat_run 65 (drop_pipeline drop_run) (st, []) = Inl Panic"
proof -
  let ?sg = "\<lambda>m :: nat. [\<lparr>hs_data_off = 128, hs_data = [1, 2, 3 :: u8]\<rparr>]" and ?hd = "\<lambda>m :: nat. \<lparr>mtod = (\<lambda>_. 0), pkt_len = 3\<rparr>"
  let ?rx = "\<lambda>(h :: unit) (n :: nat) (g :: copy_state \<times> nat list). Inr ([7 :: nat], g) :: (nat list \<times> copy_state \<times> nat list) res"
  let ?lk = "\<lambda>(h :: unit) (pk :: nat \<Rightarrow> nat) (m :: u64) (ents :: nat \<Rightarrow> rte_pipeline_table_entry option) (g :: copy_state \<times> nat list).
    Inr (0 :: u64, ents, g) :: (u64 \<times> (nat \<Rightarrow> rte_pipeline_table_entry option) \<times> copy_state \<times> nat list) res"
  have port: "pin_action drop_port = Some (full_copy_in_action True ?sg ?hd)" "pi_rx (pin_ops drop_port) = Some ?rx"
      "pin_table_id drop_port = 0" "pin_next drop_port = Some 0" by (simp_all add: drop_port_def)
  have tab: "no_table_action drop_table" "pte_action (default_entry drop_table) = ACTION_DROP" "t_lookup (tbl_ops drop_table) = Some ?lk"
    by (simp_all add: drop_table_def no_table_action_def zero_entry_def)
  have one: "\<forall>m \<in> set [7]. one_seg (?sg m)" by (simp add: one_seg_def)
  have out: "copy_ports (drop_pipeline run)" for run by (simp add: copy_ports_def drop_pipeline_simps)
  have free: "apart (mb_free drop_mo m)" for m by (simp add: apart_def drop_mo_def split: prod.split)
  have run1: "if 1 \<le> length (enclave_mempool st)
    then \<exists>run' st' x'. rte_pipeline_run 1 drop_mo (drop_pipeline run) (st, x) = Inr (1, drop_pipeline run', st', x') \<and>
      length (enclave_mempool st') = length (enclave_mempool st) - 1
    else rte_pipeline_run 1 drop_mo (drop_pipeline run) (st, x) = Inl Panic" for run st x
    using full_copy_pool_accounting [of "drop_pipeline run" 0 drop_port True ?sg ?hd ?rx st x "[7]" x 0 ?lk 0 "entries run"
        "\<lambda>_. zero_entry" drop_mo 0, OF _ _ _ port(1,2) _ _ _ one port(3) _ _ _ _ _ _ _ out free]
    by (auto simp: drop_pipeline_simps tab port(4) popcount_def split: if_splits)
  have runs: "\<exists>run' st' x'. repeat_run n (drop_pipeline drop_run) (st, x) = Inr (drop_pipeline run', st', x') \<and>
      length (enclave_mempool st') = length (enclave_mempool st) - n" if "n \<le> length (enclave_mempool st)" for n st x
    using that
  proof (induction n)
    case (Suc n)
    then obtain run' st' x' where a: "repeat_run n (drop_pipeline drop_run) (st, x) = Inr (drop_pipeline run', st', x')"
        "length (enclave_mempool st') = length (enclave_mempool st) - n" by auto
    then show ?case using run1 [of st' run' x'] Suc.prems by (auto split: if_splits)
  qed auto
  let ?st = "\<lparr>enclave_mempool = [0 ..< 64], saved_mbufs = \<lambda>_. [], full_input_cm = cm_init (\<lambda>_. 3) (\<lambda>_. 5)\<rparr>"
  obtain run' st' x' where r: "repeat_run 64 (drop_pipeline drop_run) (?st, []) = Inr (drop_pipeline run', st', x')" "enclave_mempool st' = []"
    using runs [of 64 ?st "[]"] by auto
  have "repeat_run (Suc 64) (drop_pipeline drop_run) (?st, []) = Inl Panic" using r run1 [of st' run' x'] unfolding repeat_run.simps(2) by simp
  then show ?thesis using r by (simp add: init_copy_mempool_def)
qed

end
