(* ===== verification/Packet_Conservation.thy ===== *)
theory Packet_Conservation
  imports Pipeline_Run
begin

text \<open>
  Conservation of packets through a run of the pipeline. The locale \<open>pipeline_world\<close> is the contract
  the pipeline relies on: what \<open>f_rx\<close>, \<open>f_tx\<close>, \<open>f_tx_bulk\<close>, \<open>f_lookup\<close> and \<open>rte_pktmbuf_free\<close>
  promise about an invariant of the machine state and about the multiset of packets it owns. Under it
  \<open>rte_pipeline_run\<close> returns, and every packet that it received is handed out exactly once.
\<close>

section \<open>Topologies\<close>

text \<open>An entry of table \<open>t\<close> leads to a port that exists or to a later table.\<close>

definition entry_ok ::
  "('g, 'a, 't, 'h, 'k, 'm) rte_pipeline \<Rightarrow> bool \<Rightarrow> nat \<Rightarrow> rte_pipeline_table_entry \<Rightarrow> bool" where
  "entry_ok p meta t e = (case pte_action e of ACTION_DROP \<Rightarrow> True
     | ACTION_PORT \<Rightarrow> pte_id e < length (ports_out p)
     | ACTION_PORT_META \<Rightarrow> meta
     | ACTION_TABLE \<Rightarrow> t < table_next_id (tables p ! t) \<and> table_next_id (tables p ! t) < length (tables p))"

definition topology_ok :: "('g, 'a, 't, 'h, 'k, 'm) rte_pipeline \<Rightarrow> bool \<Rightarrow> bool" where
  "topology_ok p meta \<longleftrightarrow> length (ports_out p) \<le> RTE_PIPELINE_PORT_OUT_MAX \<and>
     length (tables p) \<le> RTE_PIPELINE_TABLE_MAX \<and> no_out_action p \<and>
     (\<forall>port \<in> set (ports_in p). pin_burst_size port \<le> RTE_PORT_IN_BURST_SIZE_MAX \<and>
        pin_table_id port < length (tables p)) \<and>
     (\<forall>t < length (tables p). no_table_action (tables p ! t) \<and> entry_ok p meta t (default_entry (tables p ! t)))"

section \<open>Packets under a mask\<close>

definition held :: "'m rte_run \<Rightarrow> u64 \<Rightarrow> 'm multiset" where
  "held run m = image_mset (pkts run) (mset (bits_of m))"

lemma held_0 [simp]: "held run 0 = {#}"
  using bits_of_eq_Nil_iff [of 0] by (simp add: held_def del: bits_of_eq_Nil_iff)

lemma held_or:
  assumes "\<And>i. \<not> (bit a i \<and> bit b i)"
  shows "held run (a OR b) = held run a + held run b"
proof -
  have fin: "finite {i. bit w i}" for w :: u64
    using set_bits_of [of w] by (metis List.finite_set)
  have ms: "mset (bits_of w) = mset_set {i. bit w i}" for w
    using mset_set_set [OF distinct_bits_of [of w]] by simp
  have "{i. bit (a OR b) i} = {i. bit a i} \<union> {i. bit b i}" by (auto simp: bit_or_iff)
  then have "mset_set {i. bit (a OR b) i} = mset_set {i. bit a i} + mset_set {i. bit b i}"
    using assms by (simp only:) (rule mset_set_Union, use fin in auto)
  then show ?thesis by (simp add: held_def ms)
qed

lemma held_cong: "pkts run = pkts run' \<Longrightarrow> held run m = held run' m"
  by (simp add: held_def)

text \<open>The lookup of a table splits the packets of its mask by verdict.\<close>

lemma held_verdicts:
  fixes de e and hit M :: u64
  assumes "\<And>i. bit hit i \<Longrightarrow> bit M i"
  defines "V \<equiv> verdict_mask de (M AND NOT hit) hit e"
  shows "held run M = held run (V ACTION_DROP) + held run (V ACTION_PORT) + held run (V ACTION_PORT_META)
    + held run (V ACTION_TABLE) + (if pte_action de = ACTION_PORT then held run (M AND NOT hit) else {#})"
proof -
  let ?B = "if pte_action de = ACTION_PORT then M AND NOT hit else 0"
  have b: "bit (V a) i \<longleftrightarrow> (bit M i \<and> \<not> bit hit i \<and> pte_action de = a \<and> a \<noteq> ACTION_PORT) \<or>
      (bit hit i \<and> pte_action (e i) = a)" for a i
    using bit_u64_le [of M i] by (auto simp: V_def bit_verdict_mask bit_and_iff bit_not_iff)
  have B: "bit ?B i \<longleftrightarrow> bit M i \<and> \<not> bit hit i \<and> pte_action de = ACTION_PORT" for i
    using bit_u64_le [of M i] by (auto simp: bit_and_iff bit_not_iff)
  have M: "M = (((V ACTION_DROP OR V ACTION_PORT) OR V ACTION_PORT_META) OR V ACTION_TABLE) OR ?B"
  proof (rule bit_word_eqI)
    fix i
    show "bit M i \<longleftrightarrow> bit ((((V ACTION_DROP OR V ACTION_PORT) OR V ACTION_PORT_META) OR V ACTION_TABLE) OR ?B) i"
      unfolding bit_or_iff b B using assms(1) [of i]
      by (cases "pte_action de"; cases "pte_action (e i)") auto
  qed
  have "held run M = held run (V ACTION_DROP) + held run (V ACTION_PORT) + held run (V ACTION_PORT_META)
    + held run (V ACTION_TABLE) + held run ?B"
    by (subst M) (subst held_or; (auto simp only: bit_or_iff b B; fail)?)+
  then show ?thesis by simp
qed

section \<open>The contract and its consequences\<close>

locale pipeline_world =
  fixes mo :: "('g, 'm) mbuf_ops"
    and p :: "('g, 'a, 't, 'h, 'k, 'm) rte_pipeline"
    and inv :: "'g \<Rightarrow> bool"
    and owned :: "'g \<Rightarrow> 'm multiset"
    and meta :: bool
  assumes topology: "inv g \<Longrightarrow> topology_ok p meta"
    and act_ok: "port \<in> set (ports_in p) \<Longrightarrow> pin_action port = Some act \<Longrightarrow> inv g \<Longrightarrow>
      n \<le> pin_burst_size port \<Longrightarrow> \<exists>g'. act n run g = Inr (run, g') \<and> inv g' \<and> owned g' = owned g"
    and free_ok: "inv g \<Longrightarrow> \<exists>g'. mb_free mo m g = Inr g' \<and> inv g' \<and> owned g' = add_mset m (owned g)"
    and rx_ok: "port \<in> set (ports_in p) \<Longrightarrow> inv g \<Longrightarrow>
      \<exists>rx ms g'. pi_rx (pin_ops port) = Some rx \<and> rx (pin_h port) (pin_burst_size port) g = Inr (ms, g') \<and>
        length ms \<le> pin_burst_size port \<and> inv g' \<and> owned g = mset ms + owned g'"
    and tx_ok: "port_out \<in> set (ports_out p) \<Longrightarrow> inv g \<Longrightarrow>
      \<exists>tx g'. po_tx (pout_ops port_out) = Some tx \<and> tx (pout_h port_out) m g = Inr g' \<and>
        inv g' \<and> owned g' = add_mset m (owned g)"
    and tx_bulk_ok: "port_out \<in> set (ports_out p) \<Longrightarrow> inv g \<Longrightarrow> w \<noteq> 0 \<Longrightarrow>
      \<exists>tx g'. po_tx_bulk (pout_ops port_out) = Some tx \<and> tx (pout_h port_out) pk w g = Inr g' \<and>
        inv g' \<and> owned g' = owned g + mset (map pk (bits_of w))"
    and lookup_ok: "t < length (tables p) \<Longrightarrow> inv g \<Longrightarrow> w \<noteq> 0 \<Longrightarrow>
      \<exists>lk hit ents' e g'. t_lookup (tbl_ops (tables p ! t)) = Some lk \<and>
        lk (h_table (tables p ! t)) pk w ents g = Inr (hit, ents', g') \<and> inv g' \<and> owned g' = owned g \<and>
        (\<forall>i. bit hit i \<longrightarrow> bit w i \<and> ents' i = Some (e i) \<and> entry_ok p meta t (e i)) \<and>
        (\<forall>i. \<not> bit hit i \<longrightarrow> ents' i = ents i)"
    and meta_ok: "meta \<Longrightarrow> inv g \<Longrightarrow> mb_meta32 mo m (offset_port_id p) g < length (ports_out p)"
begin

lemma no_out: "inv g \<Longrightarrow> no_out_action p"
  using topology by (simp add: topology_ok_def)

lemma tx_call_ok:
  assumes "j < length (ports_out p)" and "inv g"
  shows "\<exists>g'. tx_call p j m g = Inr g' \<and> inv g' \<and> owned g' = add_mset m (owned g)"
proof -
  have "port_out_at p j = Inr (ports_out p ! j)"
    using assms(1) topology [OF assms(2)] by (simp add: port_out_at_def topology_ok_def)
  then show ?thesis using tx_ok [OF nth_mem [OF assms(1)] assms(2), of m]
    by (auto simp: tx_call_def fnptr_def)
qed

lemma tx_bulk_call_ok:
  assumes "j < length (ports_out p)" and "inv g" and "w \<noteq> 0"
  shows "\<exists>g'. tx_bulk_call p j pk w g = Inr g' \<and> inv g' \<and> owned g' = owned g + mset (map pk (bits_of w))"
proof -
  have "port_out_at p j = Inr (ports_out p ! j)"
    using assms(1) topology [OF assms(2)] by (simp add: port_out_at_def topology_ok_def)
  then show ?thesis using tx_bulk_ok [OF nth_mem [OF assms(1)] assms(2,3), of pk]
    by (auto simp: tx_bulk_call_def fnptr_def)
qed

text \<open>A loop whose body gives away one packet gives away all packets of its list.\<close>

lemma give_away:
  assumes "inv g" and "\<And>i g. i \<in> set is \<Longrightarrow> inv g \<Longrightarrow>
      \<exists>g'. f i g = Inr g' \<and> inv g' \<and> owned g' = add_mset (pk i) (owned g)"
  shows "\<exists>g'. rfold f is g = Inr g' \<and> inv g' \<and> owned g' = owned g + image_mset pk (mset is)"
  using assms
proof (induction "is" arbitrary: g)
  case (Cons i "is")
  then obtain g1 where "f i g = Inr g1" "inv g1" "owned g1 = add_mset (pk i) (owned g)"
    by (meson list.set_intros(1))
  with Cons.IH [of g1] Cons.prems(2) show ?case by auto
qed simp

text \<open>What holds of the run structures between two lookups: a packet is under one mask only, and
  packets waiting for a port have an entry whose port exists.\<close>

definition sound :: "'m rte_run \<Rightarrow> bool" where
  "sound run \<longleftrightarrow> action_mask0 run ACTION_TABLE = 0 \<and>
     (\<forall>a i. bit (pkts_mask run) i \<longrightarrow> \<not> bit (action_mask0 run a) i) \<and>
     (\<forall>a b i. a \<noteq> b \<longrightarrow> bit (action_mask0 run a) i \<longrightarrow> \<not> bit (action_mask0 run b) i) \<and>
     (\<forall>i. bit (action_mask0 run ACTION_PORT) i \<longrightarrow>
        (\<exists>e. entries run i = Some e \<and> pte_id e < length (ports_out p))) \<and>
     (action_mask0 run ACTION_PORT_META \<noteq> 0 \<longrightarrow> meta)"

definition accounted :: "'m rte_run \<Rightarrow> 'g \<Rightarrow> 'm multiset" where
  "accounted run g = owned g + held run (pkts_mask run) + held run (action_mask0 run ACTION_DROP) +
     held run (action_mask0 run ACTION_PORT) + held run (action_mask0 run ACTION_PORT_META)"

text \<open>The run structures after a lookup on which \<open>hit\<close> matched.\<close>

definition after_lookup ::
  "'m rte_run \<Rightarrow> (nat \<Rightarrow> rte_pipeline_table_entry option) \<Rightarrow> (rte_pipeline_action \<Rightarrow> u64) \<Rightarrow>
   (rte_pipeline_action \<Rightarrow> u64) \<Rightarrow> 'm rte_run" where
  "after_lookup run ents am1 V = run\<lparr>entries := ents, action_mask1 := am1, pkts_mask := V ACTION_TABLE,
     action_mask0 := (\<lambda>a. if a = ACTION_TABLE then 0 else action_mask0 run a OR V a)\<rparr>"

lemma bit_verdict:
  "bit (verdict_mask de ((M::u64) AND NOT hit) hit e a) i \<longleftrightarrow>
     (bit M i \<and> \<not> bit hit i \<and> pte_action de = a \<and> a \<noteq> ACTION_PORT) \<or> (bit hit i \<and> pte_action (e i) = a)"
  using bit_u64_le [of M i] by (auto simp: bit_verdict_mask bit_and_iff bit_not_iff)

lemma sound_after_lookup:
  assumes run: "sound run" and de: "entry_ok p meta t de"
    and hit: "\<And>i. bit hit i \<Longrightarrow> bit (pkts_mask run) i \<and> ents i = Some (e i) \<and> entry_ok p meta t (e i)"
      "\<And>i. \<not> bit hit i \<Longrightarrow> ents i = entries run i"
  shows "sound (after_lookup run ents am1 (verdict_mask de (pkts_mask run AND NOT hit) hit e))"
    (is "sound (after_lookup run ents am1 ?V)")
proof -
  have s: "\<And>a i. bit (pkts_mask run) i \<Longrightarrow> \<not> bit (action_mask0 run a) i"
      "\<And>a b i. a \<noteq> b \<Longrightarrow> bit (action_mask0 run a) i \<Longrightarrow> \<not> bit (action_mask0 run b) i"
      "\<And>i. bit (action_mask0 run ACTION_PORT) i \<Longrightarrow> \<exists>e. entries run i = Some e \<and> pte_id e < length (ports_out p)"
      "action_mask0 run ACTION_PORT_META \<noteq> 0 \<Longrightarrow> meta"
    using run by (auto simp: sound_def)
  have VM: "bit (?V a) i \<Longrightarrow> bit (pkts_mask run) i" for a i using bit_verdict hit(1) by auto
  show ?thesis unfolding sound_def
  proof (intro conjI allI impI)
    let ?r = "after_lookup run ents am1 ?V"
    show "\<exists>ea. entries ?r i = Some ea \<and> pte_id ea < length (ports_out p)"
      if "bit (action_mask0 ?r ACTION_PORT) i" for i
    proof (cases "bit hit i")
      case True
      then have "pte_action (e i) = ACTION_PORT"
        using that s(1) hit(1) by (auto simp: after_lookup_def bit_or_iff bit_verdict)
      with hit(1) [OF True] show ?thesis by (simp add: entry_ok_def after_lookup_def)
    next
      case False
      then show ?thesis using that s(3) hit(2) by (simp add: after_lookup_def bit_or_iff bit_verdict)
    qed
    show meta if "action_mask0 ?r ACTION_PORT_META \<noteq> 0"
    proof (cases "?V ACTION_PORT_META = 0")
      case True
      then show ?thesis using that s(4) by (simp add: after_lookup_def)
    next
      case False
      then obtain i where "bit (?V ACTION_PORT_META) i" by (rule u64_nonzeroE)
      then show ?thesis using hit(1) [of i] de by (auto simp: bit_verdict entry_ok_def)
    qed
    show "\<not> bit (action_mask0 ?r a) i" if "bit (pkts_mask ?r) i" for a i
      using that s(1) VM [of ACTION_TABLE i] by (auto simp: after_lookup_def bit_or_iff bit_verdict)
    show "\<not> bit (action_mask0 ?r y) i" if "x \<noteq> y" "bit (action_mask0 ?r x) i" for x y i
      using that s(1,2) VM [of x i] VM [of y i]
      by (auto simp: after_lookup_def bit_or_iff bit_verdict split: if_splits)
  qed (simp add: after_lookup_def)
qed

lemma accounted_after_lookup:
  assumes "sound run" and "\<And>i. bit hit i \<Longrightarrow> bit (pkts_mask run) i"
    and "owned g' = owned g + (if pte_action de = ACTION_PORT then held run (pkts_mask run AND NOT hit) else {#})"
  shows "accounted (after_lookup run ents am1 (verdict_mask de (pkts_mask run AND NOT hit) hit e)) g' =
    accounted run g" (is "accounted (after_lookup run ents am1 ?V) g' = _")
proof -
  let ?r = "after_lookup run ents am1 ?V"
  have h: "held ?r m = held run m" for m by (rule held_cong) (simp add: after_lookup_def)
  have "bit (?V a) i \<Longrightarrow> bit (pkts_mask run) i" for a i using bit_verdict assms(2) by auto
  then have or: "held run (action_mask0 run a OR ?V a) = held run (action_mask0 run a) + held run (?V a)" for a
    using assms(1) by (intro held_or) (auto simp: sound_def)
  have A: "accounted ?r g' = owned g' + held run (?V ACTION_TABLE) + held run (action_mask0 run ACTION_DROP OR ?V ACTION_DROP)
      + held run (action_mask0 run ACTION_PORT OR ?V ACTION_PORT)
      + held run (action_mask0 run ACTION_PORT_META OR ?V ACTION_PORT_META)"
    unfolding accounted_def h by (simp add: after_lookup_def)
  have S: "held run (pkts_mask run) = held run (?V ACTION_DROP) + held run (?V ACTION_PORT) +
      held run (?V ACTION_PORT_META) + held run (?V ACTION_TABLE) +
      (if pte_action de = ACTION_PORT then held run (pkts_mask run AND NOT hit) else {#})"
    by (rule held_verdicts) (rule assms(2))
  show ?thesis unfolding A or assms(3) unfolding accounted_def S
    by (simp only: add.assoc add.commute add.left_commute)
qed

lemma table_step_ok:
  assumes inv: "inv g" and run: "sound run" "pkts_mask run \<noteq> 0" and t: "t < length (tables p)"
  shows "\<exists>nx run' g'. table_step p t (run, g) = Inr (nx, run', g') \<and> inv g' \<and> sound run' \<and>
    accounted run' g' = accounted run g \<and> (pkts_mask run' \<noteq> 0 \<longrightarrow> t < nx \<and> nx < length (tables p))"
proof -
  let ?de = "default_entry (tables p ! t)"
  have top: "t < 64" "no_table_action (tables p ! t)" "entry_ok p meta t ?de"
    using t topology [OF inv] by (auto simp: topology_ok_def)
  obtain lk hit ents e g1 where lk: "t_lookup (tbl_ops (tables p ! t)) = Some lk"
      "lk (h_table (tables p ! t)) (pkts run) (pkts_mask run) (entries run) g = Inr (hit, ents, g1)"
    and g1: "inv g1" "owned g1 = owned g"
    and hit: "\<And>i. bit hit i \<Longrightarrow> bit (pkts_mask run) i \<and> ents i = Some (e i) \<and> entry_ok p meta t (e i)"
      "\<And>i. \<not> bit hit i \<Longrightarrow> ents i = entries run i"
    using lookup_ok [OF t inv run(2), of "pkts run" "entries run"] by blast
  let ?miss = "pkts_mask run AND NOT hit"
  let ?V = "verdict_mask ?de ?miss hit e"
  let ?bulk = "if pte_action ?de = ACTION_PORT \<and> ?miss \<noteq> 0
           then tx_bulk_call p (pte_id ?de) (pkts run) ?miss g1 else Inr g1"
  have T0: "action_mask0 run ACTION_TABLE = 0" using run(1) by (simp add: sound_def)
  obtain am1 where step: "table_step p t (run, g) =
      rbind ?bulk (\<lambda>g. Inr (table_next_id (tables p ! t), after_lookup run ents am1 ?V, g))"
    using table_step_eq [OF no_out [OF inv] t top(1,2) lk] hit(1) unfolding after_lookup_def T0 or.left_neutral by blast
  obtain g' where g': "?bulk = Inr g'" "inv g'"
      "owned g' = owned g + (if pte_action ?de = ACTION_PORT then held run ?miss else {#})"
  proof (cases "pte_action ?de = ACTION_PORT \<and> ?miss \<noteq> 0")
    case True
    then have "pte_id ?de < length (ports_out p)" using top(3) by (simp add: entry_ok_def)
    from tx_bulk_call_ok [OF this g1(1), of ?miss "pkts run"] True g1(2) that show thesis
      by (auto simp: held_def)
  next
    case False
    then show thesis using that [of g1] g1 by auto
  qed
  have "t < table_next_id (tables p ! t) \<and> table_next_id (tables p ! t) < length (tables p)"
    if V: "?V ACTION_TABLE \<noteq> 0"
    using u64_nonzeroE [OF V] hit(1) top(3) by (metis bit_verdict entry_ok_def rte_pipeline_action.simps(16))
  then show ?thesis
    using step g'(1,2) sound_after_lookup [OF run(1) top(3) hit]
      accounted_after_lookup [OF run(1), of hit g' g ?de ents am1 e] hit(1) g'(3)
    by (auto simp: after_lookup_def)
qed

lemma table_loop_ok:
  assumes "inv g" and "sound run"
    and "pkts_mask run \<noteq> 0 \<Longrightarrow> t < length (tables p) \<and> length (tables p) \<le> t + fuel"
  shows "\<exists>run' g'. table_loop fuel p t (run, g) = Inr (run', g') \<and> inv g' \<and> sound run' \<and>
    pkts_mask run' = 0 \<and> accounted run' g' = accounted run g"
  using assms
proof (induction fuel arbitrary: t run g)
  case 0
  then show ?case by force
next
  case (Suc fuel)
  show ?case
  proof (cases "pkts_mask run = 0")
    case True
    with Suc.prems show ?thesis by simp
  next
    case False
    then obtain nx run1 g1 where step: "table_step p t (run, g) = Inr (nx, run1, g1)" "inv g1" "sound run1"
        "accounted run1 g1 = accounted run g" "pkts_mask run1 \<noteq> 0 \<longrightarrow> t < nx \<and> nx < length (tables p)"
      using table_step_ok [of g run t] Suc.prems by blast
    then have "pkts_mask run1 \<noteq> 0 \<Longrightarrow> nx < length (tables p) \<and> length (tables p) \<le> nx + fuel"
      using Suc.prems(3) False by force
    from Suc.IH [OF step(2,3) this] step False show ?thesis by auto
  qed
qed

lemma handlers_ok:
  assumes "inv g" and run: "sound run" "pkts_mask run = 0"
  shows "\<exists>r g'. rbind (rte_pipeline_action_handler_port p (action_mask0 run ACTION_PORT) (run, g)) (\<lambda>s.
      rbind (rte_pipeline_action_handler_port_meta mo p (action_mask0 (fst s) ACTION_PORT_META) s) (\<lambda>s.
      rte_pipeline_action_handler_drop mo (action_mask0 (fst s) ACTION_DROP) s)) = Inr (r, g') \<and>
    inv g' \<and> owned g' = accounted run g"
proof -
  let ?P = "action_mask0 run ACTION_PORT" and ?M = "action_mask0 run ACTION_PORT_META"
  let ?D = "action_mask0 run ACTION_DROP"
  obtain e where e: "\<And>i. bit ?P i \<Longrightarrow> entries run i = Some (e i) \<and> pte_id (e i) < length (ports_out p)"
    using run(1) unfolding sound_def by metis
  obtain g1 where g1: "rfold (\<lambda>i. tx_call p (pte_id (e i)) (pkts run i)) (bits_of ?P) g = Inr g1" "inv g1"
      "owned g1 = owned g + held run ?P"
    using give_away [OF assms(1), of "bits_of ?P" "\<lambda>i. tx_call p (pte_id (e i)) (pkts run i)" "pkts run"]
      e tx_call_ok by (auto simp: held_def)
  have meta: "?M \<noteq> 0 \<Longrightarrow> meta" using run(1) by (simp add: sound_def)
  obtain g2 where g2: "rfold (\<lambda>i g. tx_call p (mb_meta32 mo (pkts run i) (offset_port_id p) g) (pkts run i) g)
      (bits_of ?M) g1 = Inr g2" "inv g2" "owned g2 = owned g1 + held run ?M"
    using give_away [OF g1(2), of "bits_of ?M"
        "\<lambda>i g. tx_call p (mb_meta32 mo (pkts run i) (offset_port_id p) g) (pkts run i) g" "pkts run"]
      meta meta_ok tx_call_ok by (fastforce simp: held_def)
  obtain g3 where g3: "rfold (\<lambda>i. mb_free mo (pkts run i)) (bits_of ?D) g2 = Inr g3" "inv g3"
      "owned g3 = owned g2 + held run ?D"
    using give_away [OF g2(2), of "bits_of ?D" "\<lambda>i. mb_free mo (pkts run i)" "pkts run"] free_ok
    by (auto simp: held_def)
  have "rte_pipeline_action_handler_port p ?P (run, g) = Inr (run\<lparr>pkts_mask := ?P\<rparr>, g1)"
    using handler_port_eq [OF no_out [OF assms(1)], of ?P run e g] e g1(1) by simp
  moreover have "rte_pipeline_action_handler_port_meta mo p ?M (run\<lparr>pkts_mask := ?P\<rparr>, g1) =
      Inr (run\<lparr>pkts_mask := ?M\<rparr>, g2)"
    using g2(1) by (simp add: handler_port_meta_eq [OF no_out [OF assms(1)]])
  moreover have "rte_pipeline_action_handler_drop mo ?D (run\<lparr>pkts_mask := ?M\<rparr>, g2) =
      Inr (run\<lparr>pkts_mask := ?M\<rparr>, g3)"
    using g3(1) by (simp add: handler_drop_eq)
  moreover have "owned g3 = accounted run g"
    unfolding accounted_def g3(3) g2(3) g1(3) run(2) held_0
    by (simp only: add.assoc add.commute add.left_commute add_0_left add_0_right)
  ultimately show ?thesis using g3(2) by simp
qed

lemma run_ok:
  assumes g: "inv g" and fuel: "length (tables p) \<le> fuel"
    and nx: "\<And>k. port_in_next p = Some k \<Longrightarrow> k < length (ports_in p)"
  shows "\<exists>n q g'. rte_pipeline_run fuel mo p g = Inr (n, q, g') \<and> inv g' \<and> owned g' = owned g"
proof (cases "port_in_next p")
  case None
  with g show ?thesis by (simp add: rte_pipeline_run_def)
next
  case (Some k)
  let ?port = "ports_in p ! k"
  have k: "k < length (ports_in p)" "?port \<in> set (ports_in p)" using nx [OF Some] by auto
  have top: "pin_burst_size ?port \<le> 64" "pin_table_id ?port < length (tables p)"
    using topology [OF g] k by (auto simp: topology_ok_def)
  obtain rx ms g1 where rx: "pi_rx (pin_ops ?port) = Some rx"
      "rx (pin_h ?port) (pin_burst_size ?port) g = Inr (ms, g1)" "length ms \<le> pin_burst_size ?port"
      "inv g1" "owned g = mset ms + owned g1"
    using rx_ok [OF k(2) g] by blast
  show ?thesis
  proof (cases "ms = []")
    case True
    with Some k rx show ?thesis by (simp add: rte_pipeline_run_def Let_def fnptr_def)
  next
    case False
    let ?run = "(prun p)\<lparr>pkts := burst p ms, pkts_mask := RTE_LEN2MASK (length ms), action_mask0 := (\<lambda>_. 0)\<rparr>"
    have len: "length ms \<le> 64" using rx(3) top(1) by simp
    obtain ga where act: "(case pin_action ?port of None \<Rightarrow> Inr (?run, g1) | Some act \<Rightarrow> act (length ms) ?run g1) =
        Inr (?run, ga)" "inv ga" "owned ga = owned g1"
      using act_ok [OF k(2) _ rx(4,3), where run = ?run] rx(4) by (cases "pin_action ?port") auto
    have "sound ?run" by (simp add: sound_def)
    moreover have "accounted ?run ga = owned g"
    proof -
      have "map (burst p ms) [0..<length ms] = ms" by (rule nth_equalityI) (simp_all add: burst_def)
      then have "held ?run (RTE_LEN2MASK (length ms)) = mset ms"
        using len by (simp add: held_def bits_of_RTE_LEN2MASK del: mset_upt flip: mset_map)
      then show ?thesis by (simp add: accounted_def rx(5) act(3))
    qed
    ultimately obtain run1 g2 where loop: "table_loop fuel p (pin_table_id ?port) (?run, ga) = Inr (run1, g2)"
        "inv g2" "sound run1" "pkts_mask run1 = 0" "accounted run1 g2 = owned g"
      using table_loop_ok [OF act(2), of ?run "pin_table_id ?port" fuel] fuel top(2) by auto
    obtain r g3 where fin: "rbind (rte_pipeline_action_handler_port p (action_mask0 run1 ACTION_PORT) (run1, g2)) (\<lambda>s.
      rbind (rte_pipeline_action_handler_port_meta mo p (action_mask0 (fst s) ACTION_PORT_META) s) (\<lambda>s.
      rte_pipeline_action_handler_drop mo (action_mask0 (fst s) ACTION_DROP) s)) = Inr (r, g3)"
      "inv g3" "owned g3 = owned g"
      using handlers_ok [OF loop(2-4)] loop(5) by auto
    have "rte_pipeline_run fuel mo p g =
      rbind (table_loop fuel p (pin_table_id ?port) (?run, ga)) (\<lambda>s.
      rbind (rbind (rte_pipeline_action_handler_port p (action_mask0 (fst s) ACTION_PORT) s) (\<lambda>s.
      rbind (rte_pipeline_action_handler_port_meta mo p (action_mask0 (fst s) ACTION_PORT_META) s) (\<lambda>s.
      rte_pipeline_action_handler_drop mo (action_mask0 (fst s) ACTION_DROP) s))) (\<lambda>(run, g).
      Inr (int (length ms), p\<lparr>prun := run, port_in_next := pin_next ?port\<rparr>, g)))"
      using Some k(1) rx(1,2) len False act(1) unfolding rte_pipeline_run_def burst_def [abs_def]
      by (simp add: Let_def fnptr_def rbind_assoc cong: option.case_cong)
    then show ?thesis using fin by (simp add: loop(1))
  qed
qed

end

end
