(* ===== verification/Ring.thy ===== *)
theory Ring
  imports Prelude
begin

text \<open>
  The lockless ring of src/Enclave/include/dpdk/rte_ring.h and its creation in
  src/Enclave/dpdk/librte_ring/rte_ring.c, with the 32-bit head and tail indices that run freely and
  wrap around. The model is that of one thread at a time: a compare-and-set on the head then succeeds
  at once, and waiting for a tail that no other thread will move is the outcome \<open>OutOfFuel\<close>. The
  abstract specification is the locale \<open>bounded_queue\<close>, a FIFO list of at most \<open>cap\<close> elements.
\<close>

section \<open>The ring\<close>

record rte_ring_headtail =
  ht_head :: u32
  ht_tail :: u32
  ht_single :: bool

record 'm rte_ring =
  r_name :: string
  r_flags :: u32
  r_size :: u32
  r_mask :: u32
  r_prod :: rte_ring_headtail
  r_cons :: rte_ring_headtail
  r_slots :: "'m list"

datatype rte_ring_queue_behavior = RTE_RING_QUEUE_FIXED | RTE_RING_QUEUE_VARIABLE

abbreviation (input) RTE_RING_SZ_MASK :: u32 where "RTE_RING_SZ_MASK \<equiv> 0x0fffffff"
abbreviation (input) RTE_MEMZONE_NAMESIZE :: nat where "RTE_MEMZONE_NAMESIZE \<equiv> 32"
abbreviation (input) ENAMETOOLONG :: int where "ENAMETOOLONG \<equiv> 36"

text \<open>\<open>rte_ring_get_memsize\<close>: the ring structure takes 384 bytes (three aligned parts of 128), a
  pointer 8, and the sum is rounded up to a multiple of 64.\<close>

definition rte_ring_get_memsize :: "u32 \<Rightarrow> int" where
  "rte_ring_get_memsize count =
     (if (count - 1) AND count \<noteq> 0 \<or> count > RTE_RING_SZ_MASK then - EINVAL
      else let sz = 384 + uint count * 8 in (sz + 63) div 64 * 64)"

text \<open>\<open>rte_ring_init\<close> on a block whose slots hold whatever the memory held.\<close>

definition rte_ring_init :: "'m rte_ring \<Rightarrow> string \<Rightarrow> u32 \<Rightarrow> u32 \<Rightarrow> int \<times> 'm rte_ring" where
  "rte_ring_init r name count flags =
     (let z = \<lparr>ht_head = 0, ht_tail = 0, ht_single = False\<rparr>;
          r0 = r\<lparr>r_name := take (RTE_MEMZONE_NAMESIZE - 1) name, r_flags := 0, r_size := 0, r_mask := 0,
                 r_prod := z, r_cons := z\<rparr>
      in if length name \<ge> RTE_MEMZONE_NAMESIZE then (- ENAMETOOLONG, r0)
         else (0, r0\<lparr>r_flags := flags,
                    r_prod := z\<lparr>ht_single := (flags AND 1 \<noteq> 0)\<rparr>,
                    r_cons := z\<lparr>ht_single := (flags AND 2 \<noteq> 0)\<rparr>,
                    r_size := count, r_mask := count - 1\<rparr>))"

text \<open>
  \<open>rte_ring_create\<close>: the registry is the list of created rings, newest last. \<open>te\<close> says whether the
  list entry could be allocated, \<open>mz\<close> is the memory zone reserved for the ring (None when it
  could not be), \<open>errno\<close> what a failed reservation left in \<open>rte_errno\<close>.
\<close>

definition rte_ring_create ::
  "string \<Rightarrow> u32 \<Rightarrow> u32 \<Rightarrow> bool \<Rightarrow> 'm rte_ring option \<Rightarrow> int \<Rightarrow> 'm rte_ring list \<Rightarrow>
   (int + 'm rte_ring) \<times> 'm rte_ring list" where
  "rte_ring_create name count flags te mz errno reg =
     (let ring_size = rte_ring_get_memsize count in
      if ring_size < 0 then (Inl ring_size, reg)
      else if 3 + length name \<ge> RTE_MEMZONE_NAMESIZE then (Inl ENAMETOOLONG, reg)
      else if \<not> te then (Inl ENOMEM, reg)
      else case mz of None \<Rightarrow> (Inl errno, reg)
           | Some r \<Rightarrow> let r' = snd (rte_ring_init r name count flags) in (Inr r', reg @ [r']))"

definition rte_ring_lookup :: "string \<Rightarrow> 'm rte_ring list \<Rightarrow> int + 'm rte_ring" where
  "rte_ring_lookup name reg =
     (case List.find (\<lambda>r. take 29 name = take 29 (r_name r)) reg of None \<Rightarrow> Inl ENOENT | Some r \<Rightarrow> Inr r)"

section \<open>Enqueue and dequeue\<close>

definition move_prod_head ::
  "nat \<Rightarrow> rte_ring_queue_behavior \<Rightarrow> 'm rte_ring \<Rightarrow> nat \<times> u32 \<times> u32 \<times> u32 \<times> 'm rte_ring" where
  "move_prod_head n behavior r =
     (let old_head = ht_head (r_prod r); cons_tail = ht_tail (r_cons r);
          free_entries = r_mask r + cons_tail - old_head;
          n = (if n > unat free_entries
               then if behavior = RTE_RING_QUEUE_FIXED then 0 else unat free_entries else n)
      in if n = 0 then (0, old_head, old_head, free_entries, r)
         else let new_head = old_head + of_nat n
              in (n, old_head, new_head, free_entries, r\<lparr>r_prod := (r_prod r)\<lparr>ht_head := new_head\<rparr>\<rparr>))"

definition move_cons_head ::
  "nat \<Rightarrow> rte_ring_queue_behavior \<Rightarrow> 'm rte_ring \<Rightarrow> nat \<times> u32 \<times> u32 \<times> u32 \<times> 'm rte_ring" where
  "move_cons_head n behavior r =
     (let old_head = ht_head (r_cons r); prod_tail = ht_tail (r_prod r);
          entries = prod_tail - old_head;
          n = (if n > unat entries
               then if behavior = RTE_RING_QUEUE_FIXED then 0 else unat entries else n)
      in if n = 0 then (0, old_head, old_head, entries, r)
         else let new_head = old_head + of_nat n
              in (n, old_head, new_head, entries, r\<lparr>r_cons := (r_cons r)\<lparr>ht_head := new_head\<rparr>\<rparr>))"

text \<open>The positions \<open>ENQUEUE_PTRS\<close> and \<open>DEQUEUE_PTRS\<close> visit, in order: straight on, or to the end
  of the array and then from its start. (The straight copy is unrolled by four in the source.)\<close>

definition ptr_positions :: "'m rte_ring \<Rightarrow> u32 \<Rightarrow> nat \<Rightarrow> nat list" where
  "ptr_positions r head n =
     (let idx = head AND r_mask r
      in if idx + of_nat n < r_size r then [unat idx ..< unat idx + n]
         else [unat idx ..< unat (r_size r)] @ [0 ..< n - (unat (r_size r) - unat idx)])"

definition ENQUEUE_PTRS :: "u32 \<Rightarrow> 'm list \<Rightarrow> 'm rte_ring \<Rightarrow> 'm rte_ring res" where
  "ENQUEUE_PTRS head objs r =
     (let ps = ptr_positions r head (length objs)
      in if list_all (\<lambda>i. i < length (r_slots r)) ps
         then Inr (r\<lparr>r_slots := fold (\<lambda>(i, x) sl. sl[i := x]) (zip ps objs) (r_slots r)\<rparr>)
         else Inl OutOfBounds)"

definition DEQUEUE_PTRS :: "u32 \<Rightarrow> nat \<Rightarrow> 'm rte_ring \<Rightarrow> 'm list res" where
  "DEQUEUE_PTRS head n r =
     (let ps = ptr_positions r head n
      in if list_all (\<lambda>i. i < length (r_slots r)) ps then Inr (map (nth (r_slots r)) ps) else Inl OutOfBounds)"

text \<open>\<open>update_tail\<close> spins until the tail has its old value unless the side is single.\<close>

definition update_tail :: "u32 \<Rightarrow> u32 \<Rightarrow> bool \<Rightarrow> rte_ring_headtail \<Rightarrow> rte_ring_headtail res" where
  "update_tail old_val new_val single ht =
     (if \<not> single \<and> ht_tail ht \<noteq> old_val then Inl OutOfFuel else Inr (ht\<lparr>ht_tail := new_val\<rparr>))"

definition do_enqueue ::
  "'m list \<Rightarrow> rte_ring_queue_behavior \<Rightarrow> bool \<Rightarrow> 'm rte_ring \<Rightarrow> (nat \<times> u32 \<times> 'm rte_ring) res" where
  "do_enqueue objs behavior is_sp r =
     (case move_prod_head (length objs) behavior r of (n, prod_head, prod_next, free_entries, r) \<Rightarrow>
        if n = 0 then Inr (0, free_entries, r)
        else rbind (ENQUEUE_PTRS prod_head (take n objs) r) (\<lambda>r.
             rbind (update_tail prod_head prod_next is_sp (r_prod r)) (\<lambda>ht.
             Inr (n, free_entries - of_nat n, r\<lparr>r_prod := ht\<rparr>))))"

definition do_dequeue ::
  "nat \<Rightarrow> rte_ring_queue_behavior \<Rightarrow> bool \<Rightarrow> 'm rte_ring \<Rightarrow> ('m list \<times> u32 \<times> 'm rte_ring) res" where
  "do_dequeue n behavior is_sc r =
     (case move_cons_head n behavior r of (n, cons_head, cons_next, entries, r) \<Rightarrow>
        if n = 0 then Inr ([], entries, r)
        else rbind (DEQUEUE_PTRS cons_head n r) (\<lambda>objs.
             rbind (update_tail cons_head cons_next is_sc (r_cons r)) (\<lambda>ht.
             Inr (objs, entries - of_nat n, r\<lparr>r_cons := ht\<rparr>))))"

text \<open>The calls the port and message code makes.\<close>

definition rte_ring_sp_enqueue_burst :: "'m list \<Rightarrow> 'm rte_ring \<Rightarrow> (nat \<times> 'm rte_ring) res" where
  "rte_ring_sp_enqueue_burst objs r =
     rbind (do_enqueue objs RTE_RING_QUEUE_VARIABLE True r) (\<lambda>(n, _, r). Inr (n, r))"

definition rte_ring_mp_enqueue_burst :: "'m list \<Rightarrow> 'm rte_ring \<Rightarrow> (nat \<times> 'm rte_ring) res" where
  "rte_ring_mp_enqueue_burst objs r =
     rbind (do_enqueue objs RTE_RING_QUEUE_VARIABLE False r) (\<lambda>(n, _, r). Inr (n, r))"

definition rte_ring_sc_dequeue_burst :: "nat \<Rightarrow> 'm rte_ring \<Rightarrow> ('m list \<times> 'm rte_ring) res" where
  "rte_ring_sc_dequeue_burst n r =
     rbind (do_dequeue n RTE_RING_QUEUE_VARIABLE True r) (\<lambda>(objs, _, r). Inr (objs, r))"

definition rte_ring_mc_dequeue_burst :: "nat \<Rightarrow> 'm rte_ring \<Rightarrow> ('m list \<times> 'm rte_ring) res" where
  "rte_ring_mc_dequeue_burst n r =
     rbind (do_dequeue n RTE_RING_QUEUE_VARIABLE False r) (\<lambda>(objs, _, r). Inr (objs, r))"

definition rte_ring_sp_enqueue :: "'m \<Rightarrow> 'm rte_ring \<Rightarrow> (int \<times> 'm rte_ring) res" where
  "rte_ring_sp_enqueue obj r = rbind (do_enqueue [obj] RTE_RING_QUEUE_FIXED True r)
     (\<lambda>(n, _, r). Inr (if n \<noteq> 0 then 0 else - ENOBUFS, r))"

definition rte_ring_sc_dequeue :: "'m rte_ring \<Rightarrow> (int \<times> 'm option \<times> 'm rte_ring) res" where
  "rte_ring_sc_dequeue r = rbind (do_dequeue 1 RTE_RING_QUEUE_FIXED True r)
     (\<lambda>(objs, _, r). Inr (case objs of [] \<Rightarrow> (- ENOENT, None, r) | x # _ \<Rightarrow> (0, Some x, r)))"

definition rte_ring_count :: "'m rte_ring \<Rightarrow> u32" where
  "rte_ring_count r = (ht_tail (r_prod r) - ht_tail (r_cons r)) AND r_mask r"

definition rte_ring_free_count :: "'m rte_ring \<Rightarrow> u32" where
  "rte_ring_free_count r = (ht_tail (r_cons r) - ht_tail (r_prod r) - 1) AND r_mask r"

definition rte_ring_empty :: "'m rte_ring \<Rightarrow> bool" where
  "rte_ring_empty r = (ht_tail (r_cons r) = ht_tail (r_prod r))"

definition rte_ring_full :: "'m rte_ring \<Rightarrow> bool" where
  "rte_ring_full r = ((ht_tail (r_cons r) - ht_tail (r_prod r) - 1) AND r_mask r = 0)"

section \<open>Invariant and contents\<close>

definition ring_ok :: "'m rte_ring \<Rightarrow> bool" where
  "ring_ok r \<longleftrightarrow> (\<exists>k \<le> 27. r_size r = 2 ^ k) \<and> r_mask r = r_size r - 1 \<and>
     length (r_slots r) = unat (r_size r) \<and>
     ht_head (r_prod r) = ht_tail (r_prod r) \<and> ht_head (r_cons r) = ht_tail (r_cons r) \<and>
     unat (ht_tail (r_prod r) - ht_tail (r_cons r)) < unat (r_size r)"

definition slot_of :: "'m rte_ring \<Rightarrow> u32 \<Rightarrow> nat" where
  "slot_of r x = unat x mod unat (r_size r)"

definition contents :: "'m rte_ring \<Rightarrow> 'm list" where
  "contents r = map (\<lambda>i. r_slots r ! slot_of r (ht_tail (r_cons r) + of_nat i))
     [0 ..< unat (ht_tail (r_prod r) - ht_tail (r_cons r))]"

definition capacity :: "'m rte_ring \<Rightarrow> nat" where
  "capacity r = unat (r_size r) - 1"

subsection \<open>Index arithmetic\<close>

lemma ring_sizeE:
  assumes "ring_ok r"
  obtains k where "k \<le> 27" and "unat (r_size r) = 2 ^ k" and "r_size r = 2 ^ k" and "r_mask r = mask k"
proof -
  from assms obtain k where k: "k \<le> 27" "r_size r = 2 ^ k" "r_mask r = r_size r - 1"
    by (auto simp: ring_ok_def)
  have "(2::nat) ^ k < 2 ^ 32" using k(1) by (intro power_strict_increasing) auto
  moreover have "r_size r = of_nat (2 ^ k)" using k(2) by simp
  ultimately have "unat (r_size r) = 2 ^ k" by (simp only: unsigned_of_nat take_bit_eq_mod) simp
  moreover have "r_mask r = mask k" using k by (simp add: mask_eq_exp_minus_1)
  ultimately show thesis using that k by blast
qed

lemma unat_and_mask: "k \<le> 27 \<Longrightarrow> unat ((x::u32) AND mask k) = unat x mod 2 ^ k"
proof -
  have "(x AND mask k) = take_bit k x" by (simp add: take_bit_eq_mask)
  then have "unat (x AND mask k) = take_bit k (unat x)" by (simp only: unsigned_take_bit_eq)
  then show ?thesis by (simp add: take_bit_eq_mod)
qed

lemma unat_add_mod: "k \<le> 27 \<Longrightarrow> unat ((x::u32) + of_nat i) mod 2 ^ k = (unat x + i) mod 2 ^ k"
proof -
  assume k: "k \<le> 27"
  then have dvd: "(2::nat) ^ k dvd 2 ^ 32" by (intro le_imp_power_dvd) simp
  have "unat (x + of_nat i) = (unat x + i) mod 2 ^ 32"
    by (simp add: unat_word_ariths unsigned_of_nat take_bit_eq_mod mod_add_right_eq)
  then show ?thesis using dvd by (simp only: mod_mod_cancel)
qed

lemma slot_of_add:
  assumes "ring_ok r"
  shows "slot_of r (x + of_nat i) = (slot_of r x + i) mod unat (r_size r)"
proof -
  obtain k where "k \<le> 27" "unat (r_size r) = 2 ^ k" using assms by (rule ring_sizeE) blast
  then show ?thesis by (simp only: slot_of_def unat_add_mod mod_add_left_eq)
qed

lemma slot_of_less: "ring_ok r \<Longrightarrow> slot_of r x < unat (r_size r)"
  by (erule ring_sizeE) (simp add: slot_of_def)

lemma ptr_positions_update [simp]:
  "ptr_positions (r\<lparr>r_cons := c\<rparr>) = ptr_positions r" "ptr_positions (r\<lparr>r_prod := c\<rparr>) = ptr_positions r"
  by (simp_all add: ptr_positions_def Let_def fun_eq_iff cong: if_cong)

lemma ptr_positions_eq:
  assumes r: "ring_ok r" and n: "n < unat (r_size r)"
  shows "ptr_positions r x n = map (\<lambda>i. slot_of r (x + of_nat i)) [0 ..< n]"
proof -
  obtain k where k: "k \<le> 27" "unat (r_size r) = 2 ^ k" "r_mask r = mask k"
    using r by (rule ring_sizeE) blast
  let ?h = "slot_of r x" and ?S = "unat (r_size r)"
  have S: "?S \<le> 2 ^ 27" unfolding k(2) using k(1) by (intro power_increasing) auto
  have h: "?h < ?S" by (rule slot_of_less [OF r])
  have idx: "unat (x AND r_mask r) = ?h" using k by (simp add: unat_and_mask slot_of_def)
  have "unat (of_nat n :: u32) = n" using n S by (simp add: unsigned_of_nat take_bit_eq_mod)
  then have "unat ((x AND r_mask r) + of_nat n) = ?h + n"
    using idx h n S by (simp add: unat_word_ariths)
  then have cond: "(x AND r_mask r) + of_nat n < r_size r \<longleftrightarrow> ?h + n < ?S"
    by (simp add: word_less_nat_alt)
  show ?thesis
  proof (cases "?h + n < ?S")
    case True
    then show ?thesis
      by (simp add: ptr_positions_def cond idx slot_of_add [OF r]) (rule nth_equalityI, auto)
  next
    case False
    have "[?h ..< ?S] @ [0 ..< n - (?S - ?h)] = map (\<lambda>i. slot_of r (x + of_nat i)) [0 ..< n]"
    proof (rule nth_equalityI)
      show "length ([?h ..< ?S] @ [0 ..< n - (?S - ?h)]) = length (map (\<lambda>i. slot_of r (x + of_nat i)) [0 ..< n])"
        using False h by simp
      fix i assume "i < length ([?h ..< ?S] @ [0 ..< n - (?S - ?h)])"
      then have i: "i < n" using False h by simp
      show "([?h ..< ?S] @ [0 ..< n - (?S - ?h)]) ! i = map (\<lambda>i. slot_of r (x + of_nat i)) [0 ..< n] ! i"
        using i n h by (auto simp: nth_append slot_of_add [OF r] le_mod_geq)
    qed
    then show ?thesis using False by (simp add: ptr_positions_def cond idx)
  qed
qed

text \<open>Fewer than \<open>size\<close> consecutive positions are distinct.\<close>

lemma slot_of_inj:
  assumes r: "ring_ok r" and "i < unat (r_size r)" and "j < unat (r_size r)"
    and "slot_of r (x + of_nat i) = slot_of r (x + of_nat j)"
  shows "i = j"
proof -
  have "slot_of r x < unat (r_size r)" by (rule slot_of_less [OF r])
  with assms(2,3,4) show ?thesis
    by (cases "slot_of r x + i < unat (r_size r)"; cases "slot_of r x + j < unat (r_size r)")
       (auto simp: slot_of_add [OF r] le_mod_geq)
qed

lemma length_fold_list_update [simp]:
  "length (fold (\<lambda>(i, x) sl. sl[i := x]) us sl) = length sl"
  by (induction us arbitrary: sl) auto

lemma fold_list_update_other:
  "q \<notin> fst ` set us \<Longrightarrow> fold (\<lambda>(i, x) sl. sl[i := x]) us sl ! q = sl ! q"
  by (induction us arbitrary: sl) auto

lemma fold_list_update_at:
  assumes "distinct ps" and "length xs = length ps" and "\<And>q. q \<in> set ps \<Longrightarrow> q < length sl" and "j < length ps"
  shows "fold (\<lambda>(i, x) sl. sl[i := x]) (zip ps xs) sl ! (ps ! j) = xs ! j"
  using assms
proof (induction ps arbitrary: xs sl j)
  case (Cons p ps)
  then obtain y ys where xs: "xs = y # ys" by (cases xs) auto
  show ?case
  proof (cases j)
    case 0
    have "p \<notin> fst ` set (zip ps ys)" using Cons.prems(1) by (auto dest: set_zip_leftD)
    then show ?thesis using 0 xs Cons.prems(3) by (simp add: fold_list_update_other)
  next
    case (Suc j')
    then show ?thesis using Cons.IH [of ys "sl[p := y]" j'] Cons.prems xs by simp
  qed
qed simp

subsection \<open>The operations on the contents\<close>

lemma length_contents [simp]: "length (contents r) = unat (ht_tail (r_prod r) - ht_tail (r_cons r))"
  by (simp add: contents_def)

lemma ring_unat_facts:
  assumes "ring_ok r"
  shows "unat (r_mask r) = capacity r" and "unat (r_size r) = capacity r + 1"
    and "length (contents r) \<le> capacity r" and "capacity r < 2 ^ 27"
    and "unat (r_mask r + ht_tail (r_cons r) - ht_tail (r_prod r)) = capacity r - length (contents r)"
proof -
  obtain k where k: "k \<le> 27" "unat (r_size r) = 2 ^ k" "r_size r = 2 ^ k"
    using assms by (rule ring_sizeE) blast
  show S: "unat (r_size r) = capacity r + 1" using k(2) by (simp add: capacity_def)
  show len: "length (contents r) \<le> capacity r"
    using assms S by (simp add: ring_ok_def)
  have "(2::nat) ^ k \<le> 2 ^ 27" using k(1) by (intro power_increasing) auto
  then show c27: "capacity r < 2 ^ 27" using S k(2) by simp
  have "r_mask r = of_nat (capacity r)"
    using assms k(2,3) by (simp add: ring_ok_def capacity_def of_nat_diff)
  then show m: "unat (r_mask r) = capacity r"
    using c27 by (simp only: unsigned_of_nat take_bit_eq_mod) simp
  have e: "r_mask r + ht_tail (r_cons r) - ht_tail (r_prod r) =
      r_mask r - (ht_tail (r_prod r) - ht_tail (r_cons r))" by simp
  have "ht_tail (r_prod r) - ht_tail (r_cons r) \<le> r_mask r"
    using len m by (simp add: word_le_nat_alt)
  then show "unat (r_mask r + ht_tail (r_cons r) - ht_tail (r_prod r)) = capacity r - length (contents r)"
    unfolding e using m by (simp only: unat_sub length_contents)
qed

lemma contents_nth:
  "i < length (contents r) \<Longrightarrow> contents r ! i = r_slots r ! slot_of r (ht_tail (r_cons r) + of_nat i)"
  by (simp add: contents_def)

definition admitted :: "nat \<Rightarrow> rte_ring_queue_behavior \<Rightarrow> nat \<Rightarrow> nat" where
  "admitted n behavior room =
     (if n \<le> room then n else if behavior = RTE_RING_QUEUE_FIXED then 0 else room)"

lemma admitted_le: "admitted n b room \<le> n" "admitted n b room \<le> room"
  by (auto simp: admitted_def)

text \<open>The ring after \<open>n\<close> objects were stored at the producer's position and the tail moved.\<close>

lemma ring_append:
  assumes r: "ring_ok r" and n: "length (contents r) + length xs \<le> capacity r"
  defines "pt \<equiv> ht_tail (r_prod r)"
  defines "r' \<equiv> r\<lparr>r_slots := fold (\<lambda>(i, x) sl. sl[i := x])
        (zip (ptr_positions r pt (length xs)) xs) (r_slots r),
      r_prod := (r_prod r)\<lparr>ht_head := pt + of_nat (length xs), ht_tail := pt + of_nat (length xs)\<rparr>\<rparr>"
  shows "ring_ok r'" and "contents r' = contents r @ xs"
proof -
  let ?ct = "ht_tail (r_cons r)" and ?u = "length (contents r)" and ?n = "length xs"
  let ?ps = "ptr_positions r pt ?n"
  note fact = ring_unat_facts [OF r]
  have pt: "pt = ?ct + of_nat ?u" by (simp add: pt_def)
  have ps: "?ps = map (\<lambda>i. slot_of r (pt + of_nat i)) [0 ..< ?n]"
    using n fact(2) by (intro ptr_positions_eq [OF r]) simp
  have dist: "distinct ?ps"
    unfolding ps distinct_map using slot_of_inj [OF r] n fact(2) by (auto simp: inj_on_def)
  have len: "length (r_slots r) = unat (r_size r)" using r by (simp add: ring_ok_def)
  have rng: "\<And>q. q \<in> set ?ps \<Longrightarrow> q < length (r_slots r)" using slot_of_less [OF r] len by (auto simp: ps)
  have u': "unat (pt + of_nat ?n - ?ct) = ?u + ?n"
  proof -
    have "pt + of_nat ?n - ?ct = of_nat (?u + ?n)" using pt by simp
    then show ?thesis using n fact(4) by (simp only: unsigned_of_nat take_bit_eq_mod) simp
  qed
  have same: "slot_of r' = slot_of r" by (simp add: slot_of_def r'_def fun_eq_iff)
  show "ring_ok r'" using r n fact(2) u' by (simp add: ring_ok_def r'_def)
  have old: "slot_of r (?ct + of_nat i) \<notin> set ?ps" if i: "i < ?u" for i
  proof
    assume "slot_of r (?ct + of_nat i) \<in> set ?ps"
    then obtain j where "j < ?n" "slot_of r (?ct + of_nat i) = slot_of r (pt + of_nat j)"
      unfolding ps by auto
    then have j: "j < ?n" "slot_of r (?ct + of_nat i) = slot_of r (?ct + of_nat (?u + j))"
      by (simp_all add: pt add.assoc)
    have "i = ?u + j" by (rule slot_of_inj [OF r _ _ j(2)]) (use i j n fact(2) in auto)
    with i show False by simp
  qed
  show "contents r' = contents r @ xs"
  proof (rule nth_equalityI)
    show "length (contents r') = length (contents r @ xs)" using u' by (simp add: r'_def)
    fix i assume "i < length (contents r')"
    then have i: "i < ?u + ?n" using u' by (simp add: r'_def)
    have c: "contents r' ! i = r_slots r' ! slot_of r (?ct + of_nat i)"
      using i u' same by (subst contents_nth) (simp_all add: r'_def)
    show "contents r' ! i = (contents r @ xs) ! i"
    proof (cases "i < ?u")
      case True
      then have "slot_of r (?ct + of_nat i) \<notin> fst ` set (zip ?ps xs)"
        using old [OF True] by (metis image_iff prod.collapse set_zip_leftD)
      with True c show ?thesis by (simp add: r'_def fold_list_update_other nth_append contents_nth del: length_contents)
    next
      case False
      define j where "j = i - ?u"
      have j: "j < ?n" "?ct + of_nat i = pt + of_nat j" using False i by (auto simp: j_def pt of_nat_diff)
      then have "slot_of r (?ct + of_nat i) = ?ps ! j" by (simp add: ps)
      then have "contents r' ! i = xs ! j"
        using c j(1) fold_list_update_at [OF dist _ rng, of xs j] by (simp add: r'_def ps)
      with False show ?thesis by (simp add: nth_append j_def del: length_contents)
    qed
  qed
qed

lemma do_enqueue_ok:
  fixes objs :: "'m list" and behavior
  assumes r: "ring_ok r"
  defines "n \<equiv> admitted (length objs) behavior (capacity r - length (contents r))"
  shows "\<exists>r'. do_enqueue objs behavior sp r = Inr (n, of_nat (capacity r - length (contents r) - n), r') \<and>
    ring_ok r' \<and> contents r' = contents r @ take n objs \<and> capacity r' = capacity r"
proof -
  note fact = ring_unat_facts [OF r]
  let ?pt = "ht_tail (r_prod r)"
  let ?free = "r_mask r + ht_tail (r_cons r) - ?pt"
  let ?r1 = "r\<lparr>r_prod := (r_prod r)\<lparr>ht_head := ?pt + of_nat n\<rparr>\<rparr>"
  have h: "ht_head (r_prod r) = ?pt" using r by (simp add: ring_ok_def)
  have n: "n \<le> length objs" "n \<le> capacity r - length (contents r)" by (simp_all add: n_def admitted_le)
  have free: "?free = of_nat (capacity r - length (contents r))"
    using fact(5) by (metis of_nat_unat ucast_id)
  have mv: "move_prod_head (length objs) behavior r = (if n = 0 then (0, ?pt, ?pt, ?free, r)
      else (n, ?pt, ?pt + of_nat n, ?free, ?r1))"
    using fact(5) by (simp add: move_prod_head_def h n_def admitted_def Let_def not_le del: length_contents)
  show ?thesis
  proof (cases "n = 0")
    case True
    then show ?thesis using r free by (simp add: do_enqueue_def mv)
  next
    case False
    have "list_all (\<lambda>i. i < length (r_slots r)) (ptr_positions r ?pt n)"
      using slot_of_less [OF r] n fact(2,3) r
      by (subst ptr_positions_eq [OF r]) (auto simp: list_all_iff ring_ok_def simp del: length_contents)
    then have "do_enqueue objs behavior sp r = Inr (n, ?free - of_nat n,
        r\<lparr>r_slots := fold (\<lambda>(i, x) sl. sl[i := x]) (zip (ptr_positions r ?pt n) (take n objs)) (r_slots r),
          r_prod := (r_prod r)\<lparr>ht_head := ?pt + of_nat n, ht_tail := ?pt + of_nat n\<rparr>\<rparr>)"
      using False n(1) by (simp add: do_enqueue_def mv ENQUEUE_PTRS_def Let_def update_tail_def min_absorb2)
    moreover have "length (take n objs) = n" using n(1) by simp
    moreover have "?free - of_nat n = of_nat (capacity r - length (contents r) - n)"
      unfolding free by (rule of_nat_diff [OF n(2), symmetric])
    moreover have "length (contents r) + n \<le> capacity r" using n(2) fact(3) by linarith
    ultimately show ?thesis
      using ring_append [OF r, of "take n objs"] by (simp add: capacity_def del: length_contents)
  qed
qed

lemma do_dequeue_ok:
  fixes n :: nat and behavior
  assumes r: "ring_ok r"
  defines "m \<equiv> admitted n behavior (length (contents r))"
  shows "\<exists>r'. do_dequeue n behavior sc r = Inr (take m (contents r), of_nat (length (contents r) - m), r') \<and>
    ring_ok r' \<and> contents r' = drop m (contents r) \<and> capacity r' = capacity r"
proof -
  note fact = ring_unat_facts [OF r]
  let ?ct = "ht_tail (r_cons r)" and ?pt = "ht_tail (r_prod r)"
  let ?r1 = "r\<lparr>r_cons := (r_cons r)\<lparr>ht_head := ?ct + of_nat m\<rparr>\<rparr>"
  have h: "ht_head (r_cons r) = ?ct" using r by (simp add: ring_ok_def)
  have m: "m \<le> length (contents r)" by (simp add: m_def admitted_le)
  have used: "?pt - ?ct = of_nat (length (contents r))" by simp
  have mv: "move_cons_head n behavior r = (if m = 0 then (0, ?ct, ?ct, ?pt - ?ct, r)
      else (m, ?ct, ?ct + of_nat m, ?pt - ?ct, ?r1))"
    by (simp add: move_cons_head_def h m_def admitted_def Let_def not_le)
  show ?thesis
  proof (cases "m = 0")
    case True
    then show ?thesis using r by (simp add: do_dequeue_def mv)
  next
    case False
    let ?r2 = "r\<lparr>r_cons := (r_cons r)\<lparr>ht_head := ?ct + of_nat m, ht_tail := ?ct + of_nat m\<rparr>\<rparr>"
    have pos: "ptr_positions r ?ct m = map (\<lambda>i. slot_of r (?ct + of_nat i)) [0 ..< m]"
      using ptr_positions_eq [OF r, of m ?ct] m fact(2,3) by (simp del: length_contents)
    have "list_all (\<lambda>i. i < length (r_slots r)) (map (\<lambda>i. slot_of r (?ct + of_nat i)) [0 ..< m])"
      using slot_of_less [OF r] r by (auto simp: list_all_iff ring_ok_def)
    moreover have "map (\<lambda>i. r_slots r ! slot_of r (?ct + of_nat i)) [0 ..< m] = take m (contents r)"
      using m by (intro nth_equalityI) (simp_all add: contents_nth)
    ultimately have "do_dequeue n behavior sc r = Inr (take m (contents r), ?pt - ?ct - of_nat m, ?r2)"
      using False by (simp add: do_dequeue_def mv DEQUEUE_PTRS_def Let_def pos update_tail_def comp_def)
    moreover have u: "unat (?pt - (?ct + of_nat m)) = length (contents r) - m"
    proof -
      have "?pt - (?ct + of_nat m) = of_nat (length (contents r) - m)"
        using m by (simp add: of_nat_diff)
      then show ?thesis using fact(3,4) by (simp only: unsigned_of_nat take_bit_eq_mod) simp
    qed
    moreover have "length (contents r) - m < unat (r_size r)" using fact(2,3) by simp
    moreover from this have "ring_ok ?r2" using r u by (simp add: ring_ok_def)
    moreover have "contents ?r2 = drop m (contents r)"
      using u m by (intro nth_equalityI)
        (auto simp: contents_nth slot_of_def add.assoc)
    ultimately show ?thesis
      using m by (auto simp: of_nat_diff capacity_def)
  qed
qed

section \<open>The queue interface\<close>

text \<open>A schedule of enqueues (\<open>Inl xs\<close>) and dequeues (\<open>Inr n\<close>), with the objects accepted and delivered.\<close>

fun schedule ::
  "('m list \<Rightarrow> 'r \<Rightarrow> (nat \<times> 'r) res) \<Rightarrow> (nat \<Rightarrow> 'r \<Rightarrow> ('m list \<times> 'r) res) \<Rightarrow>
   ('m list + nat) list \<Rightarrow> 'r \<Rightarrow> ('m list \<times> 'm list \<times> 'r) res" where
  "schedule enq deq [] r = Inr ([], [], r)"
| "schedule enq deq (Inl xs # ops) r = rbind (enq xs r) (\<lambda>(k, r).
     rbind (schedule enq deq ops r) (\<lambda>(i, d, r). Inr (take k xs @ i, d, r)))"
| "schedule enq deq (Inr n # ops) r = rbind (deq n r) (\<lambda>(ys, r).
     rbind (schedule enq deq ops r) (\<lambda>(i, d, r). Inr (i, ys @ d, r)))"

text \<open>
  The same schedule on an abstract queue of capacity \<open>c\<close>: an enqueue accepts the longest prefix of the offered
  objects that fits, a dequeue delivers the oldest objects, as many as are wanted and there.
\<close>

fun fifo_spec :: "nat \<Rightarrow> ('m list + nat) list \<Rightarrow> 'm list \<Rightarrow> 'm list \<times> 'm list \<times> 'm list" where
  "fifo_spec c [] q = ([], [], q)"
| "fifo_spec c (Inl xs # ops) q =
     (case fifo_spec c ops (q @ take (c - length q) xs) of (i, d, q') \<Rightarrow> (take (c - length q) xs @ i, d, q'))"
| "fifo_spec c (Inr n # ops) q = (case fifo_spec c ops (drop n q) of (i, d, q') \<Rightarrow> (i, take n q @ d, q'))"

lemma fifo_spec_order: "fifo_spec c ops q = (i, d, q') \<Longrightarrow> q @ i = d @ q'"
proof (induction ops arbitrary: q i d)
  case (Cons op ops)
  show ?case
  proof (cases op)
    case (Inl xs)
    then show ?thesis using Cons by (fastforce split: prod.splits)
  next
    case (Inr n)
    then obtain d' where d: "fifo_spec c ops (drop n q) = (i, d', q')" "d = take n q @ d'"
      using Cons.prems by (auto split: prod.splits)
    have "q @ i = take n q @ drop n q @ i" by simp
    also have "\<dots> = d @ q'" using Cons.IH [OF d(1)] d(2) by simp
    finally show ?thesis .
  qed
qed simp

text \<open>
  What the port code relies on: a FIFO queue that takes as many of the offered objects as fit and
  gives as many as are wanted and there, and never fails.
\<close>

locale bounded_queue =
  fixes inv :: "'r \<Rightarrow> bool" and items :: "'r \<Rightarrow> 'm list" and cap :: "'r \<Rightarrow> nat"
    and enq :: "'m list \<Rightarrow> 'r \<Rightarrow> (nat \<times> 'r) res" and deq :: "nat \<Rightarrow> 'r \<Rightarrow> ('m list \<times> 'r) res"
  assumes bounded: "inv r \<Longrightarrow> length (items r) \<le> cap r"
    and enq_law: "inv r \<Longrightarrow> \<exists>r'. enq xs r = Inr (min (length xs) (cap r - length (items r)), r') \<and> inv r' \<and>
      cap r' = cap r \<and> items r' = items r @ take (cap r - length (items r)) xs"
    and deq_law: "inv r \<Longrightarrow> \<exists>r'. deq n r = Inr (take n (items r), r') \<and> inv r' \<and>
      cap r' = cap r \<and> items r' = drop n (items r)"
begin

lemma fifo:
  assumes "inv r"
  shows "\<exists>i d r'. schedule enq deq ops r = Inr (i, d, r') \<and> inv r' \<and> cap r' = cap r \<and>
    fifo_spec (cap r) ops (items r) = (i, d, items r')"
  using assms
proof (induction ops arbitrary: r)
  case (Cons op ops)
  show ?case
  proof (cases op)
    case (Inl xs)
    obtain r1 where r1: "enq xs r = Inr (min (length xs) (cap r - length (items r)), r1)" "inv r1"
        "cap r1 = cap r" "items r1 = items r @ take (cap r - length (items r)) xs"
      using enq_law [OF Cons.prems] by blast
    then obtain i d r' where "schedule enq deq ops r1 = Inr (i, d, r')" "inv r'" "cap r' = cap r"
        "fifo_spec (cap r) ops (items r1) = (i, d, items r')" using Cons.IH [OF r1(2)] by auto
    with Inl r1 show ?thesis by (auto simp: min_def split: if_splits)
  next
    case (Inr n)
    obtain r1 where r1: "deq n r = Inr (take n (items r), r1)" "inv r1" "cap r1 = cap r"
        "items r1 = drop n (items r)"
      using deq_law [OF Cons.prems] by blast
    then obtain i d r' where s: "schedule enq deq ops r1 = Inr (i, d, r')" "inv r'" "cap r' = cap r"
        "fifo_spec (cap r) ops (items r1) = (i, d, items r')" using Cons.IH [OF r1(2)] by auto
    with Inr r1 show ?thesis by simp
  qed
qed simp

end

lemma admitted_variable: "admitted n RTE_RING_QUEUE_VARIABLE room = min n room"
  by (simp add: admitted_def min_def)

lemma enqueue_burst_law:
  assumes "ring_ok r"
  shows "\<exists>r'. rbind (do_enqueue xs RTE_RING_QUEUE_VARIABLE single r) (\<lambda>(n, _, r). Inr (n, r)) =
      Inr (min (length xs) (capacity r - length (contents r)), r') \<and> ring_ok r' \<and> capacity r' = capacity r \<and>
      contents r' = contents r @ take (capacity r - length (contents r)) xs"
  using do_enqueue_ok [OF assms, of xs RTE_RING_QUEUE_VARIABLE single]
  by (auto simp: admitted_variable min_def split: if_splits)

lemma dequeue_burst_law:
  assumes "ring_ok r"
  shows "\<exists>r'. rbind (do_dequeue n RTE_RING_QUEUE_VARIABLE single r) (\<lambda>(xs, _, r). Inr (xs, r)) =
      Inr (take n (contents r), r') \<and> ring_ok r' \<and> capacity r' = capacity r \<and> contents r' = drop n (contents r)"
  using do_dequeue_ok [OF assms, of n RTE_RING_QUEUE_VARIABLE single]
  by (auto simp: admitted_variable min_def split: if_splits)

interpretation sp_ring: bounded_queue ring_ok contents capacity rte_ring_sp_enqueue_burst rte_ring_sc_dequeue_burst
  by unfold_locales
     (simp_all add: ring_unat_facts(3) rte_ring_sp_enqueue_burst_def rte_ring_sc_dequeue_burst_def
       enqueue_burst_law dequeue_burst_law del: length_contents)

interpretation mp_ring: bounded_queue ring_ok contents capacity rte_ring_mp_enqueue_burst rte_ring_mc_dequeue_burst
  by unfold_locales
     (simp_all add: ring_unat_facts(3) rte_ring_mp_enqueue_burst_def rte_ring_mc_dequeue_burst_def
       enqueue_burst_law dequeue_burst_law del: length_contents)

interpretation sp_mc_ring: bounded_queue ring_ok contents capacity rte_ring_sp_enqueue_burst rte_ring_mc_dequeue_burst
  using sp_ring.enq_law mp_ring.deq_law by unfold_locales (simp_all add: ring_unat_facts(3) del: length_contents)

interpretation mp_sc_ring: bounded_queue ring_ok contents capacity rte_ring_mp_enqueue_burst rte_ring_sc_dequeue_burst
  using mp_ring.enq_law sp_ring.deq_law by unfold_locales (simp_all add: ring_unat_facts(3) del: length_contents)

section \<open>Properties\<close>

lemma ring_init_ok:
  assumes "k \<le> 27" and "length (r_slots r) = 2 ^ k" and "length name < 32"
  shows "\<exists>r'. rte_ring_init r name (2 ^ k) flags = (0, r') \<and> ring_ok r' \<and> contents r' = [] \<and> capacity r' = 2 ^ k - 1"
proof -
  have "(2::nat) ^ k < 2 ^ 32" using assms(1) by (intro power_strict_increasing) auto
  then have "unat (of_nat (2 ^ k) :: u32) = 2 ^ k"
    by (simp only: unsigned_of_nat take_bit_eq_mod) simp
  then have "unat (2 ^ k :: u32) = 2 ^ k" by simp
  with assms show ?thesis by (auto simp: rte_ring_init_def ring_ok_def contents_def capacity_def Let_def)
qed

text \<open>C23. The ring refines a FIFO queue of capacity size - 1, whatever the position of its free-running 32-bit
  indices, wrap-around included, and for one or several producers and consumers (each operation on its own). Any
  schedule of burst enqueues and burst dequeues returns, and accepts, delivers and leaves in the ring
  exactly what the abstract queue does: an enqueue takes as many objects as there are free places, a dequeue
  gives as many as are wanted and there; nothing is lost, duplicated or reordered.\<close>

theorem ring_schedule_fifo:
  assumes "ring_ok r" and "enq \<in> {rte_ring_sp_enqueue_burst, rte_ring_mp_enqueue_burst}"
    and "deq \<in> {rte_ring_sc_dequeue_burst, rte_ring_mc_dequeue_burst}"
  shows "\<exists>i d r'. schedule enq deq ops r = Inr (i, d, r') \<and> ring_ok r' \<and> capacity r' = capacity r \<and>
    fifo_spec (capacity r) ops (contents r) = (i, d, contents r') \<and> contents r @ i = d @ contents r'"
proof -
  obtain i d r' where "schedule enq deq ops r = Inr (i, d, r')" "ring_ok r'" "capacity r' = capacity r"
      "fifo_spec (capacity r) ops (contents r) = (i, d, contents r')"
    using assms(2,3) sp_ring.fifo [OF assms(1)] mp_ring.fifo [OF assms(1)] sp_mc_ring.fifo [OF assms(1)] mp_sc_ring.fifo [OF assms(1)]
    by blast
  then show ?thesis using fifo_spec_order by blast
qed

text \<open>A ring of four slots whose indices are about to wrap around.\<close>

definition wrapping_ring :: "nat rte_ring" where
  "wrapping_ring = \<lparr>r_name = ''r'', r_flags = 3, r_size = 4, r_mask = 3,
     r_prod = \<lparr>ht_head = 0xFFFFFFFE, ht_tail = 0xFFFFFFFE, ht_single = True\<rparr>,
     r_cons = \<lparr>ht_head = 0xFFFFFFFE, ht_tail = 0xFFFFFFFE, ht_single = True\<rparr>, r_slots = [0, 0, 0, 0]\<rparr>"

lemma wrapping_ring_ok: "ring_ok wrapping_ring" "contents wrapping_ring = []" "capacity wrapping_ring = 3"
  by (auto simp: ring_ok_def wrapping_ring_def contents_def capacity_def intro!: exI [of _ 2])

theorem ring_schedule_fifo_witness:
  "\<exists>r'. schedule rte_ring_sp_enqueue_burst rte_ring_mc_dequeue_burst [Inl [1, 2, 3, 4], Inr 2, Inl [5]] wrapping_ring =
     Inr ([1, 2, 3, 5], [1, 2], r') \<and> contents r' = [3, 5]"
  using ring_schedule_fifo [OF wrapping_ring_ok(1), of rte_ring_sp_enqueue_burst rte_ring_mc_dequeue_burst "[Inl [1, 2, 3, 4], Inr 2, Inl [5]]"]
  by (auto simp: wrapping_ring_ok)

text \<open>The interface of a queue of single objects, as the message code uses it.\<close>

locale object_queue =
  fixes inv :: "'r \<Rightarrow> bool" and items :: "'r \<Rightarrow> 'm list" and cap :: "'r \<Rightarrow> nat"
    and put :: "'m \<Rightarrow> 'r \<Rightarrow> (int \<times> 'r) res" and get :: "'r \<Rightarrow> (int \<times> 'm option \<times> 'r) res"
  assumes put_law: "inv r \<Longrightarrow> \<exists>r'. put x r = Inr (if length (items r) = cap r then - ENOBUFS else 0, r') \<and> inv r' \<and>
      cap r' = cap r \<and> items r' = (if length (items r) = cap r then items r else items r @ [x])"
    and get_law: "inv r \<Longrightarrow> \<exists>r'. get r = Inr (case items r of [] \<Rightarrow> (- ENOENT, None, r') | y # _ \<Rightarrow> (0, Some y, r')) \<and>
      inv r' \<and> cap r' = cap r \<and> items r' = tl (items r)"
begin

lemma get_Nil: "inv r \<Longrightarrow> items r = [] \<Longrightarrow> \<exists>r'. get r = Inr (- ENOENT, None, r') \<and> inv r' \<and> cap r' = cap r \<and> items r' = []"
  using get_law [of r] by simp

lemma get_Cons:
  "inv r \<Longrightarrow> items r = y # ys \<Longrightarrow> \<exists>r'. get r = Inr (0, Some y, r') \<and> inv r' \<and> cap r' = cap r \<and> items r' = ys"
  using get_law [of r] by simp

lemma put_room:
  "inv r \<Longrightarrow> length (items r) < cap r \<Longrightarrow>
   \<exists>r'. put x r = Inr (0, r') \<and> inv r' \<and> cap r' = cap r \<and> items r' = items r @ [x]"
  using put_law [of r x] by simp

lemma put_done:
  "inv r \<Longrightarrow> put x r = Inr (0, r') \<Longrightarrow> inv r' \<and> cap r' = cap r \<and> items r' = items r @ [x]"
  using put_law [of r x] by (auto split: if_splits)

lemma get_done:
  "inv r \<Longrightarrow> get r = Inr (0, Some y, r') \<Longrightarrow> inv r' \<and> cap r' = cap r \<and> items r = y # items r'"
  using get_law [of r] by (cases "items r") auto

lemma put_full:
  "inv r \<Longrightarrow> length (items r) = cap r \<Longrightarrow>
   \<exists>r'. put x r = Inr (- ENOBUFS, r') \<and> inv r' \<and> cap r' = cap r \<and> items r' = items r"
  using put_law [of r x] by simp

end

interpretation single_ring: object_queue ring_ok contents capacity rte_ring_sp_enqueue rte_ring_sc_dequeue
proof
  fix r :: "'a rte_ring" and x
  assume r: "ring_ok r"
  show "\<exists>r'. rte_ring_sp_enqueue x r = Inr (if length (contents r) = capacity r then - ENOBUFS else 0, r') \<and> ring_ok r' \<and>
      capacity r' = capacity r \<and> contents r' = (if length (contents r) = capacity r then contents r else contents r @ [x])"
    using do_enqueue_ok [OF r, of "[x]" RTE_RING_QUEUE_FIXED True] ring_unat_facts(3) [OF r]
    by (auto simp: rte_ring_sp_enqueue_def admitted_def simp del: length_contents split: if_splits)
  show "\<exists>r'. rte_ring_sc_dequeue r = Inr (case contents r of [] \<Rightarrow> (- ENOENT, None, r') | y # _ \<Rightarrow> (0, Some y, r')) \<and>
      ring_ok r' \<and> capacity r' = capacity r \<and> contents r' = tl (contents r)"
    using do_dequeue_ok [OF r, of 1 RTE_RING_QUEUE_FIXED True]
    by (cases "contents r") (auto simp: rte_ring_sc_dequeue_def admitted_def simp del: length_contents split: if_splits)
qed

text \<open>Single-object operations: an enqueue on a ring that is full returns \<open>-ENOBUFS\<close> and keeps the
  contents, and otherwise returns 0 and appends the object; a dequeue from an empty ring returns
  \<open>-ENOENT\<close>, and otherwise returns 0 with the oldest object, which leaves the ring.\<close>

theorem ring_single_object:
  assumes "ring_ok r"
  shows "(\<exists>r'. rte_ring_sp_enqueue x r = Inr (if length (contents r) = capacity r then - ENOBUFS else 0, r') \<and> ring_ok r' \<and>
      capacity r' = capacity r \<and> contents r' = (if length (contents r) = capacity r then contents r else contents r @ [x])) \<and>
    (\<exists>r'. rte_ring_sc_dequeue r = Inr (case contents r of [] \<Rightarrow> (- ENOENT, None, r') | y # _ \<Rightarrow> (0, Some y, r')) \<and>
      ring_ok r' \<and> capacity r' = capacity r \<and> contents r' = tl (contents r))"
  using single_ring.put_law [OF assms] single_ring.get_law [OF assms] by blast

theorem ring_single_object_witness:
  "\<exists>r'. rte_ring_sp_enqueue 7 wrapping_ring = Inr (0, r') \<and> contents r' = [7]"
  using ring_single_object [OF wrapping_ring_ok(1), of 7] by (auto simp: wrapping_ring_ok simp del: length_contents)

text \<open>The size queries are exact at every index position: count and free count are the numbers of
  stored objects and of free places, and the empty and full tests decide these cases.\<close>

theorem ring_queries_exact:
  assumes "ring_ok r"
  shows "unat (rte_ring_count r) = length (contents r) \<and>
    unat (rte_ring_free_count r) = capacity r - length (contents r) \<and>
    (rte_ring_empty r \<longleftrightarrow> contents r = []) \<and> (rte_ring_full r \<longleftrightarrow> length (contents r) = capacity r)"
proof -
  obtain k where k: "k \<le> 27" "unat (r_size r) = 2 ^ k" "r_mask r = mask k"
    using assms by (rule ring_sizeE) blast
  note fact = ring_unat_facts [OF assms]
  let ?pt = "ht_tail (r_prod r)" and ?ct = "ht_tail (r_cons r)"
  have c: "unat (rte_ring_count r) = length (contents r)"
    using fact(2,3) k by (simp add: rte_ring_count_def unat_and_mask)
  have f: "unat (rte_ring_free_count r) = capacity r - length (contents r)"
  proof -
    have e: "r_mask r + ?ct - ?pt = (?ct - ?pt - 1) + of_nat (2 ^ k)"
      using k(3) by (simp add: mask_eq_exp_minus_1)
    have "unat (r_mask r + ?ct - ?pt) mod 2 ^ k = unat (?ct - ?pt - 1) mod 2 ^ k"
      unfolding e unat_add_mod [OF k(1)] by simp
    then show ?thesis using fact(2,5) k
      by (simp add: rte_ring_free_count_def unat_and_mask del: length_contents)
  qed
  have "rte_ring_empty r \<longleftrightarrow> ?pt - ?ct = 0" by (auto simp: rte_ring_empty_def)
  also have "\<dots> \<longleftrightarrow> unat (?pt - ?ct) = 0" by (simp add: unat_eq_0)
  also have "\<dots> \<longleftrightarrow> contents r = []" using length_contents [of r] by (metis length_0_conv)
  finally have e: "rte_ring_empty r \<longleftrightarrow> contents r = []" .
  have "rte_ring_full r \<longleftrightarrow> unat (rte_ring_free_count r) = 0"
    by (simp add: rte_ring_full_def rte_ring_free_count_def unat_eq_0)
  with c f e fact(3) show ?thesis by (auto simp del: length_contents)
qed

theorem ring_queries_exact_witness:
  "unat (rte_ring_free_count wrapping_ring) = 3 \<and> rte_ring_empty wrapping_ring"
  using ring_queries_exact [OF wrapping_ring_ok(1)] by (simp add: wrapping_ring_ok del: length_contents)

text \<open>A ring of size zero is accepted: zero passes the power-of-two test, so the creation succeeds,
  and the mask becomes all ones, which makes the first enqueue find room for more than four thousand
  million objects and store behind the end of an array without slots.\<close>

theorem zero_size_ring:
  assumes "length name < 29" and "r_slots r = []"
  shows "\<exists>r'. rte_ring_create name 0 flags True (Some r) errno reg = (Inr r', reg @ [r']) \<and>
    unat (rte_ring_free_count r') = 2 ^ 32 - 1 \<and> rte_ring_sp_enqueue x r' = Inl OutOfBounds"
proof -
  let ?r = "snd (rte_ring_init r name 0 flags)"
  have r: "r_size ?r = 0" "r_mask ?r = - 1" "r_slots ?r = []" "ht_head (r_prod ?r) = 0" "ht_tail (r_prod ?r) = 0"
      "ht_head (r_cons ?r) = 0" "ht_tail (r_cons ?r) = 0"
    using assms by (simp_all add: rte_ring_init_def Let_def)
  have "rte_ring_create name 0 flags True (Some r) errno reg = (Inr ?r, reg @ [?r])"
    using assms(1) by (simp add: rte_ring_create_def rte_ring_get_memsize_def Let_def)
  moreover have "unat (rte_ring_free_count ?r) = 2 ^ 32 - 1"
    by (simp add: rte_ring_free_count_def r unsigned_minus_1_eq_mask mask_eq_exp_minus_1)
  moreover have "rte_ring_sp_enqueue x ?r = Inl OutOfBounds"
    by (simp add: rte_ring_sp_enqueue_def do_enqueue_def move_prod_head_def r Let_def
        unsigned_minus_1_eq_mask mask_eq_exp_minus_1 ENQUEUE_PTRS_def ptr_positions_def)
  ultimately show ?thesis by blast
qed

theorem zero_size_ring_witness:
  "\<exists>r'. rte_ring_create ''rx'' 0 0 True (Some (wrapping_ring\<lparr>r_slots := []\<rparr>)) 0 [] = (Inr r', [r']) \<and>
    rte_ring_sp_enqueue 1 r' = Inl OutOfBounds"
  using zero_size_ring [of "''rx''" "wrapping_ring\<lparr>r_slots := []\<rparr>" 0 0 "[]" 1] by auto

end
