(* ===== verification/Port_Ring.thy ===== *)
theory Port_Ring
  imports Ring Pipeline "HOL-Library.Multiset"
begin

text \<open>
  Ring ports, src/Enclave/dpdk/librte_port/rte_port_ring.c: the reader, the writer that frees what does
  not fit into the ring, and the writer that retries. The memory behind the handles is the record
  \<open>port_mem\<close>: the rings, the port structures (a handle is a position; None is a port that was freed)
  the statistics of sink ports (theory Port_Sink) and the rest of the machine, \<open>'x\<close>, which \<open>rte_pktmbuf_free\<close> works on and which is a parameter
  (\<open>free\<close>). \<open>RTE_PORT_STATS_COLLECT\<close> is undefined in rte_config.h, so the counters only change when
  they are cleared.
\<close>

section \<open>State\<close>

record rte_port_ring_reader =
  rd_stats :: "u64 \<times> u64"
  rd_ring :: nat

record 'm rte_port_ring_writer =
  wr_stats :: "u64 \<times> u64"
  wr_tx_buf :: "'m list"
  wr_ring :: nat
  wr_tx_burst_sz :: nat
  wr_tx_buf_count :: nat
  wr_bsz_mask :: u64
  wr_is_multi :: bool

record 'm rte_port_ring_writer_nodrop = "'m rte_port_ring_writer" +
  wr_n_retries :: u64

record ('m, 'x) port_mem =
  rings :: "'m rte_ring list"
  readers :: "rte_port_ring_reader option list"
  writers :: "'m rte_port_ring_writer option list"
  nodrops :: "'m rte_port_ring_writer_nodrop option list"
  sinks :: "(u64 \<times> u64) option list"
  rest :: 'x

text \<open>Creation parameters: the ring (None is NULL), the burst size and the number of retries.\<close>

record rte_port_ring_params =
  conf_ring :: "nat option"
  conf_tx_burst_sz :: nat
  conf_n_retries :: u64

definition at :: "'z option list \<Rightarrow> nat \<Rightarrow> 'z res" where
  "at xs h = (if h < length xs then (case xs ! h of None \<Rightarrow> Inl NullDeref | Some z \<Rightarrow> Inr z) else Inl OutOfBounds)"

definition ring_at :: "('m, 'x) port_mem \<Rightarrow> nat \<Rightarrow> 'm rte_ring res" where
  "ring_at g i = (if i < length (rings g) then Inr (rings g ! i) else Inl OutOfBounds)"

section \<open>Reader\<close>

definition rte_port_ring_reader_create_internal ::
  "bool \<Rightarrow> rte_port_ring_reader option \<Rightarrow> rte_port_ring_params option \<Rightarrow> ('m, 'x) port_mem \<Rightarrow>
   (nat option \<times> ('m, 'x) port_mem) res" where
  "rte_port_ring_reader_create_internal is_multi alloc conf g =
     (case conf of None \<Rightarrow> Inr (None, g)
      | Some c \<Rightarrow> (case conf_ring c of None \<Rightarrow> Inr (None, g)
      | Some i \<Rightarrow> rbind (ring_at g i) (\<lambda>r.
          if (ht_single (r_cons r) \<and> is_multi) \<or> (\<not> ht_single (r_cons r) \<and> \<not> is_multi) then Inr (None, g)
          else case alloc of None \<Rightarrow> Inr (None, g)
               | Some p \<Rightarrow> Inr (Some (length (readers g)), g\<lparr>readers := readers g @ [Some (p\<lparr>rd_ring := i\<rparr>)]\<rparr>))))"

definition rte_port_ring_reader_create where
  "rte_port_ring_reader_create = rte_port_ring_reader_create_internal False"

definition rte_port_ring_multi_reader_create where
  "rte_port_ring_multi_reader_create = rte_port_ring_reader_create_internal True"

definition reader_rx ::
  "(nat \<Rightarrow> 'm rte_ring \<Rightarrow> ('m list \<times> 'm rte_ring) res) \<Rightarrow> nat \<Rightarrow> nat \<Rightarrow> ('m, 'x) port_mem \<Rightarrow>
   ('m list \<times> ('m, 'x) port_mem) res" where
  "reader_rx deq h n_pkts g =
     rbind (at (readers g) h) (\<lambda>p. rbind (ring_at g (rd_ring p)) (\<lambda>r.
     rbind (deq n_pkts r) (\<lambda>(ms, r). Inr (ms, g\<lparr>rings := (rings g)[rd_ring p := r]\<rparr>))))"

definition rte_port_ring_reader_rx where
  "rte_port_ring_reader_rx = reader_rx rte_ring_sc_dequeue_burst"

definition rte_port_ring_multi_reader_rx where
  "rte_port_ring_multi_reader_rx = reader_rx rte_ring_mc_dequeue_burst"

definition rte_port_ring_reader_free :: "nat option \<Rightarrow> ('m, 'x) port_mem \<Rightarrow> int \<times> ('m, 'x) port_mem" where
  "rte_port_ring_reader_free h g =
     (case h of None \<Rightarrow> (- EINVAL, g) | Some h \<Rightarrow> (0, g\<lparr>readers := (readers g)[h := None]\<rparr>))"

definition rte_port_ring_reader_stats_read ::
  "nat \<Rightarrow> bool \<Rightarrow> ('m, 'x) port_mem \<Rightarrow> (int \<times> (u64 \<times> u64) \<times> ('m, 'x) port_mem) res" where
  "rte_port_ring_reader_stats_read h clear g =
     rbind (at (readers g) h) (\<lambda>p. Inr (0, rd_stats p,
       if clear then g\<lparr>readers := (readers g)[h := Some (p\<lparr>rd_stats := (0, 0)\<rparr>)]\<rparr> else g))"

section \<open>Writer\<close>

text \<open>\<open>1LLU << (tx_burst_sz - 1)\<close>: for a burst size of 0 the shift count is \<open>2^32 - 1\<close>, which C leaves
  undefined and the processor takes modulo 64.\<close>

definition bsz_mask_of :: "nat \<Rightarrow> u64" where
  "bsz_mask_of sz = bit1 (unat ((of_nat sz - 1 :: u32) AND 63))"

definition writer_conf_bad :: "bool \<Rightarrow> 'm rte_ring \<Rightarrow> rte_port_ring_params \<Rightarrow> bool" where
  "writer_conf_bad is_multi r c \<longleftrightarrow> (ht_single (r_prod r) \<and> is_multi) \<or> (\<not> ht_single (r_prod r) \<and> \<not> is_multi) \<or>
     conf_tx_burst_sz c > RTE_PORT_IN_BURST_SIZE_MAX"

definition rte_port_ring_writer_create_internal ::
  "bool \<Rightarrow> 'm rte_port_ring_writer option \<Rightarrow> rte_port_ring_params option \<Rightarrow> ('m, 'x) port_mem \<Rightarrow>
   (nat option \<times> ('m, 'x) port_mem) res" where
  "rte_port_ring_writer_create_internal is_multi alloc conf g =
     (case conf of None \<Rightarrow> Inr (None, g)
      | Some c \<Rightarrow> (case conf_ring c of None \<Rightarrow> Inr (None, g)
      | Some i \<Rightarrow> rbind (ring_at g i) (\<lambda>r.
          if writer_conf_bad is_multi r c then Inr (None, g)
          else case alloc of None \<Rightarrow> Inr (None, g)
               | Some p \<Rightarrow> Inr (Some (length (writers g)), g\<lparr>writers := writers g @ [Some
                   (p\<lparr>wr_ring := i, wr_tx_burst_sz := conf_tx_burst_sz c, wr_tx_buf_count := 0,
                      wr_bsz_mask := bsz_mask_of (conf_tx_burst_sz c), wr_is_multi := is_multi\<rparr>)]\<rparr>))))"

definition rte_port_ring_writer_create where
  "rte_port_ring_writer_create = rte_port_ring_writer_create_internal False"

definition rte_port_ring_multi_writer_create where
  "rte_port_ring_multi_writer_create = rte_port_ring_writer_create_internal True"

text \<open>\<open>send_burst\<close> and \<open>send_burst_mp\<close> differ in the enqueue function.\<close>

definition ring_enqueue_burst :: "bool \<Rightarrow> 'm list \<Rightarrow> 'm rte_ring \<Rightarrow> (nat \<times> 'm rte_ring) res" where
  "ring_enqueue_burst is_multi = (if is_multi then rte_ring_mp_enqueue_burst else rte_ring_sp_enqueue_burst)"

definition send_burst ::
  "('m \<Rightarrow> 'x \<Rightarrow> 'x res) \<Rightarrow> bool \<Rightarrow> nat \<Rightarrow> ('m, 'x) port_mem \<Rightarrow> ('m, 'x) port_mem res" where
  "send_burst free is_multi h g =
     rbind (at (writers g) h) (\<lambda>p. rbind (ring_at g (wr_ring p)) (\<lambda>r.
     rbind (ring_enqueue_burst is_multi (take (wr_tx_buf_count p) (wr_tx_buf p)) r) (\<lambda>(nb_tx, r).
     rbind (rfold (\<lambda>i. free (wr_tx_buf p ! i)) [nb_tx ..< wr_tx_buf_count p] (rest g)) (\<lambda>x.
     Inr (g\<lparr>rings := (rings g)[wr_ring p := r], rest := x,
            writers := (writers g)[h := Some (p\<lparr>wr_tx_buf_count := 0\<rparr>)]\<rparr>)))))"

definition writer_tx ::
  "('m \<Rightarrow> 'x \<Rightarrow> 'x res) \<Rightarrow> bool \<Rightarrow> nat \<Rightarrow> 'm \<Rightarrow> ('m, 'x) port_mem \<Rightarrow> ('m, 'x) port_mem res" where
  "writer_tx free is_multi h pkt g =
     rbind (at (writers g) h) (\<lambda>p.
     if wr_tx_buf_count p \<ge> length (wr_tx_buf p) then Inl OutOfBounds
     else let p = p\<lparr>wr_tx_buf := (wr_tx_buf p)[wr_tx_buf_count p := pkt],
                    wr_tx_buf_count := wr_tx_buf_count p + 1\<rparr>;
              g = g\<lparr>writers := (writers g)[h := Some p]\<rparr>
          in if wr_tx_buf_count p \<ge> wr_tx_burst_sz p then send_burst free is_multi h g else Inr g)"

definition rte_port_ring_writer_tx where
  "rte_port_ring_writer_tx free = writer_tx free False"

definition rte_port_ring_multi_writer_tx where
  "rte_port_ring_multi_writer_tx free = writer_tx free True"

text \<open>The loop that moves the packets of a mask into the buffer, lowest first.\<close>

function store_loop :: "(nat \<Rightarrow> 'm) \<Rightarrow> u64 \<Rightarrow> 'm list \<Rightarrow> nat \<Rightarrow> ('m list \<times> nat) res" where
  "store_loop pk m buf cnt =
     (if m = 0 then Inr (buf, cnt)
      else if cnt \<ge> length buf then Inl OutOfBounds
      else store_loop pk (m AND NOT (bit1 (ctz m))) (buf[cnt := pk (ctz m)]) (cnt + 1))"
  by pat_completeness auto
termination
  by (relation "measure (\<lambda>(_, m, _, _). length (bits_of m))") (auto simp: bits_of_Cons_ctz)

declare store_loop.simps [simp del]

definition rte_port_ring_writer_tx_bulk_internal ::
  "('m \<Rightarrow> 'x \<Rightarrow> 'x res) \<Rightarrow> bool \<Rightarrow> nat \<Rightarrow> (nat \<Rightarrow> 'm) \<Rightarrow> u64 \<Rightarrow> ('m, 'x) port_mem \<Rightarrow> ('m, 'x) port_mem res" where
  "rte_port_ring_writer_tx_bulk_internal free is_multi h pk m g =
     rbind (at (writers g) h) (\<lambda>p.
     let expr = (m AND (m + 1)) OR ((m AND wr_bsz_mask p) XOR wr_bsz_mask p) in
     if expr = 0 then
       let n_pkts = popcount m in
       rbind (if wr_tx_buf_count p \<noteq> 0 then send_burst free is_multi h g else Inr g) (\<lambda>g.
       rbind (ring_at g (wr_ring p)) (\<lambda>r.
       rbind (ring_enqueue_burst is_multi (map pk [0 ..< n_pkts]) r) (\<lambda>(n_pkts_ok, r).
       rbind (rfold (\<lambda>i. free (pk i)) [n_pkts_ok ..< n_pkts] (rest g)) (\<lambda>x.
       Inr (g\<lparr>rings := (rings g)[wr_ring p := r], rest := x\<rparr>)))))
     else
       rbind (store_loop pk m (wr_tx_buf p) (wr_tx_buf_count p)) (\<lambda>(buf, cnt).
       let g = g\<lparr>writers := (writers g)[h := Some (p\<lparr>wr_tx_buf := buf, wr_tx_buf_count := cnt\<rparr>)]\<rparr> in
       if cnt \<ge> wr_tx_burst_sz p then send_burst free is_multi h g else Inr g))"

definition rte_port_ring_writer_tx_bulk where
  "rte_port_ring_writer_tx_bulk free = rte_port_ring_writer_tx_bulk_internal free False"

definition rte_port_ring_multi_writer_tx_bulk where
  "rte_port_ring_multi_writer_tx_bulk free = rte_port_ring_writer_tx_bulk_internal free True"

definition writer_flush ::
  "('m \<Rightarrow> 'x \<Rightarrow> 'x res) \<Rightarrow> bool \<Rightarrow> nat \<Rightarrow> ('m, 'x) port_mem \<Rightarrow> ('m, 'x) port_mem res" where
  "writer_flush free is_multi h g =
     rbind (at (writers g) h) (\<lambda>p. if wr_tx_buf_count p > 0 then send_burst free is_multi h g else Inr g)"

definition rte_port_ring_writer_flush where
  "rte_port_ring_writer_flush free = writer_flush free False"

definition rte_port_ring_multi_writer_flush where
  "rte_port_ring_multi_writer_flush free = writer_flush free True"

definition rte_port_ring_writer_free ::
  "('m \<Rightarrow> 'x \<Rightarrow> 'x res) \<Rightarrow> nat option \<Rightarrow> ('m, 'x) port_mem \<Rightarrow> (int \<times> ('m, 'x) port_mem) res" where
  "rte_port_ring_writer_free free h g =
     (case h of None \<Rightarrow> Inr (- EINVAL, g)
      | Some h \<Rightarrow> rbind (at (writers g) h) (\<lambda>p.
          rbind (if wr_is_multi p then rte_port_ring_multi_writer_flush free h g
                 else rte_port_ring_writer_flush free h g) (\<lambda>g.
          Inr (0, g\<lparr>writers := (writers g)[h := None]\<rparr>))))"

definition rte_port_ring_writer_stats_read ::
  "nat \<Rightarrow> bool \<Rightarrow> ('m, 'x) port_mem \<Rightarrow> (int \<times> (u64 \<times> u64) \<times> ('m, 'x) port_mem) res" where
  "rte_port_ring_writer_stats_read h clear g =
     rbind (at (writers g) h) (\<lambda>p. Inr (0, wr_stats p,
       if clear then g\<lparr>writers := (writers g)[h := Some (p\<lparr>wr_stats := (0, 0)\<rparr>)]\<rparr> else g))"

section \<open>Writer that retries\<close>

definition rte_port_ring_writer_nodrop_create_internal ::
  "bool \<Rightarrow> 'm rte_port_ring_writer_nodrop option \<Rightarrow> rte_port_ring_params option \<Rightarrow> ('m, 'x) port_mem \<Rightarrow>
   (nat option \<times> ('m, 'x) port_mem) res" where
  "rte_port_ring_writer_nodrop_create_internal is_multi alloc conf g =
     (case conf of None \<Rightarrow> Inr (None, g)
      | Some c \<Rightarrow> (case conf_ring c of None \<Rightarrow> Inr (None, g)
      | Some i \<Rightarrow> rbind (ring_at g i) (\<lambda>r.
          if writer_conf_bad is_multi r c then Inr (None, g)
          else case alloc of None \<Rightarrow> Inr (None, g)
               | Some p \<Rightarrow> Inr (Some (length (nodrops g)), g\<lparr>nodrops := nodrops g @ [Some
                   (p\<lparr>wr_ring := i, wr_tx_burst_sz := conf_tx_burst_sz c, wr_tx_buf_count := 0,
                      wr_bsz_mask := bsz_mask_of (conf_tx_burst_sz c), wr_is_multi := is_multi,
                      wr_n_retries := (if conf_n_retries c = 0 then - 1 else conf_n_retries c)\<rparr>)]\<rparr>))))"

definition rte_port_ring_writer_nodrop_create where
  "rte_port_ring_writer_nodrop_create = rte_port_ring_writer_nodrop_create_internal False"

definition rte_port_ring_multi_writer_nodrop_create where
  "rte_port_ring_multi_writer_nodrop_create = rte_port_ring_writer_nodrop_create_internal True"

text \<open>
  The retry loop. Its counter \<open>i\<close> is a \<open>uint32_t\<close> compared with a 64-bit limit, so with a limit of
  \<open>2^32\<close> or more it does not end by itself; \<open>fuel\<close> bounds the number of iterations. \<open>env k\<close> is what
  the other threads did to the ring before retry \<open>k\<close>. The result is the number of packets sent.
\<close>

primrec nodrop_retry ::
  "nat \<Rightarrow> (nat \<Rightarrow> 'm rte_ring \<Rightarrow> 'm rte_ring) \<Rightarrow> bool \<Rightarrow> u64 \<Rightarrow> 'm list \<Rightarrow> nat \<Rightarrow> nat \<Rightarrow> 'm rte_ring \<Rightarrow>
   (nat \<times> 'm rte_ring) res" where
  "nodrop_retry 0 env is_multi n_retries buf k nb_tx r = Inl OutOfFuel"
| "nodrop_retry (Suc fuel) env is_multi n_retries buf k nb_tx r =
     (if ucast (of_nat k :: u32) < n_retries
      then rbind (ring_enqueue_burst is_multi (drop nb_tx buf) (env k r)) (\<lambda>(c, r).
        if nb_tx + c \<ge> length buf then Inr (nb_tx + c, r)
        else nodrop_retry fuel env is_multi n_retries buf (Suc k) (nb_tx + c) r)
      else Inr (nb_tx, r))"

definition send_burst_nodrop ::
  "nat \<Rightarrow> (nat \<Rightarrow> 'm rte_ring \<Rightarrow> 'm rte_ring) \<Rightarrow> ('m \<Rightarrow> 'x \<Rightarrow> 'x res) \<Rightarrow> bool \<Rightarrow> nat \<Rightarrow> ('m, 'x) port_mem \<Rightarrow>
   ('m, 'x) port_mem res" where
  "send_burst_nodrop fuel env free is_multi h g =
     rbind (at (nodrops g) h) (\<lambda>p. rbind (ring_at g (wr_ring p)) (\<lambda>r.
     let buf = take (wr_tx_buf_count p) (wr_tx_buf p);
         done = (\<lambda>nb_tx r. rbind (rfold (\<lambda>i. free (wr_tx_buf p ! i)) [nb_tx ..< wr_tx_buf_count p] (rest g)) (\<lambda>x.
           Inr (g\<lparr>rings := (rings g)[wr_ring p := r], rest := x,
              nodrops := (nodrops g)[h := Some (p\<lparr>wr_tx_buf_count := 0\<rparr>)]\<rparr>)))
     in rbind (ring_enqueue_burst is_multi buf r) (\<lambda>(nb_tx, r).
        if nb_tx \<ge> wr_tx_buf_count p then done (wr_tx_buf_count p) r
        else rbind (nodrop_retry fuel env is_multi (wr_n_retries p) buf 0 nb_tx r) (\<lambda>(nb_tx, r). done nb_tx r))))"

definition nodrop_tx where
  "nodrop_tx fuel env free is_multi h pkt g =
     rbind (at (nodrops g) h) (\<lambda>p.
     if wr_tx_buf_count p \<ge> length (wr_tx_buf p) then Inl OutOfBounds
     else let p = p\<lparr>wr_tx_buf := (wr_tx_buf p)[wr_tx_buf_count p := pkt],
                    wr_tx_buf_count := wr_tx_buf_count p + 1\<rparr>;
              g = g\<lparr>nodrops := (nodrops g)[h := Some p]\<rparr>
          in if wr_tx_buf_count p \<ge> wr_tx_burst_sz p then send_burst_nodrop fuel env free is_multi h g else Inr g)"

definition rte_port_ring_writer_nodrop_tx where
  "rte_port_ring_writer_nodrop_tx fuel env free = nodrop_tx fuel env free False"

definition rte_port_ring_multi_writer_nodrop_tx where
  "rte_port_ring_multi_writer_nodrop_tx fuel env free = nodrop_tx fuel env free True"

definition rte_port_ring_writer_nodrop_tx_bulk_internal where
  "rte_port_ring_writer_nodrop_tx_bulk_internal fuel env free is_multi h pk m g =
     rbind (at (nodrops g) h) (\<lambda>p.
     let expr = (m AND (m + 1)) OR ((m AND wr_bsz_mask p) XOR wr_bsz_mask p) in
     if expr = 0 then
       let n_pkts = popcount m in
       rbind (if wr_tx_buf_count p \<noteq> 0 then send_burst_nodrop fuel env free is_multi h g else Inr g) (\<lambda>g.
       rbind (ring_at g (wr_ring p)) (\<lambda>r.
       rbind (ring_enqueue_burst is_multi (map pk [0 ..< n_pkts]) r) (\<lambda>(n_pkts_ok, r).
       let g = g\<lparr>rings := (rings g)[wr_ring p := r]\<rparr> in
       if n_pkts_ok \<ge> n_pkts then Inr g
       else rbind (at (nodrops g) h) (\<lambda>p.
         rbind (rfold (\<lambda>i (buf, cnt). if cnt \<ge> length buf then Inl OutOfBounds
                  else Inr (buf[cnt := pk i], cnt + 1)) [n_pkts_ok ..< n_pkts] (wr_tx_buf p, wr_tx_buf_count p))
         (\<lambda>(buf, cnt). send_burst_nodrop fuel env free is_multi h
            (g\<lparr>nodrops := (nodrops g)[h := Some (p\<lparr>wr_tx_buf := buf, wr_tx_buf_count := cnt\<rparr>)]\<rparr>))))))
     else
       rbind (store_loop pk m (wr_tx_buf p) (wr_tx_buf_count p)) (\<lambda>(buf, cnt).
       let g = g\<lparr>nodrops := (nodrops g)[h := Some (p\<lparr>wr_tx_buf := buf, wr_tx_buf_count := cnt\<rparr>)]\<rparr> in
       if cnt \<ge> wr_tx_burst_sz p then send_burst_nodrop fuel env free is_multi h g else Inr g))"

definition rte_port_ring_writer_nodrop_tx_bulk where
  "rte_port_ring_writer_nodrop_tx_bulk fuel env free = rte_port_ring_writer_nodrop_tx_bulk_internal fuel env free False"

definition rte_port_ring_multi_writer_nodrop_tx_bulk where
  "rte_port_ring_multi_writer_nodrop_tx_bulk fuel env free =
     rte_port_ring_writer_nodrop_tx_bulk_internal fuel env free True"

definition nodrop_flush where
  "nodrop_flush fuel env free is_multi h g =
     rbind (at (nodrops g) h) (\<lambda>p.
     if wr_tx_buf_count p > 0 then send_burst_nodrop fuel env free is_multi h g else Inr g)"

definition rte_port_ring_writer_nodrop_flush where
  "rte_port_ring_writer_nodrop_flush fuel env free = nodrop_flush fuel env free False"

definition rte_port_ring_multi_writer_nodrop_flush where
  "rte_port_ring_multi_writer_nodrop_flush fuel env free = nodrop_flush fuel env free True"

definition rte_port_ring_writer_nodrop_free where
  "rte_port_ring_writer_nodrop_free fuel env free h g =
     (case h of None \<Rightarrow> Inr (- EINVAL, g)
      | Some h \<Rightarrow> rbind (at (nodrops g) h) (\<lambda>p.
          rbind (if wr_is_multi p then rte_port_ring_multi_writer_nodrop_flush fuel env free h g
                 else rte_port_ring_writer_nodrop_flush fuel env free h g) (\<lambda>g.
          Inr (0, g\<lparr>nodrops := (nodrops g)[h := None]\<rparr>))))"

definition rte_port_ring_writer_nodrop_stats_read where
  "rte_port_ring_writer_nodrop_stats_read h clear g =
     rbind (at (nodrops g) h) (\<lambda>p. Inr (0 :: int, wr_stats p,
       if clear then g\<lparr>nodrops := (nodrops g)[h := Some (p\<lparr>wr_stats := (0, 0)\<rparr>)]\<rparr> else g))"

section \<open>Operation tables\<close>

text \<open>The summary of port operations at the end of the file, in the form the pipeline stores; \<open>alloc\<close> is
  the block the allocator hands out in a state. What the creation argument points to is a ring port's
  parameters or a sink's (None, or whether a file name is given); the wrong kind is read past its end.\<close>

datatype port_arg = Ring_Arg "rte_port_ring_params option" | Sink_Arg "bool option"

definition ring_create ::
  "(rte_port_ring_params option \<Rightarrow> 'g \<Rightarrow> (nat option \<times> 'g) res) \<Rightarrow> port_arg \<Rightarrow> int \<Rightarrow> 'g \<Rightarrow> (nat option \<times> 'g) res" where
  "ring_create f arg socket g = (case arg of Ring_Arg conf \<Rightarrow> f conf g | Sink_Arg _ \<Rightarrow> Inl OutOfBounds)"

definition rte_port_ring_reader_ops ::
  "(('m, 'x) port_mem \<Rightarrow> rte_port_ring_reader option) \<Rightarrow> (('m, 'x) port_mem, port_arg, nat, 'm) rte_port_in_ops" where
  "rte_port_ring_reader_ops alloc = \<lparr>
     pi_create = Some (ring_create (\<lambda>conf g. rte_port_ring_reader_create (alloc g) conf g)),
     pi_free = Some (\<lambda>h g. Inr (snd (rte_port_ring_reader_free (Some h) g))),
     pi_rx = Some rte_port_ring_reader_rx, pi_stats = Some rte_port_ring_reader_stats_read\<rparr>"

definition rte_port_ring_multi_reader_ops ::
  "(('m, 'x) port_mem \<Rightarrow> rte_port_ring_reader option) \<Rightarrow> (('m, 'x) port_mem, port_arg, nat, 'm) rte_port_in_ops" where
  "rte_port_ring_multi_reader_ops alloc = \<lparr>
     pi_create = Some (ring_create (\<lambda>conf g. rte_port_ring_multi_reader_create (alloc g) conf g)),
     pi_free = Some (\<lambda>h g. Inr (snd (rte_port_ring_reader_free (Some h) g))),
     pi_rx = Some rte_port_ring_multi_reader_rx, pi_stats = Some rte_port_ring_reader_stats_read\<rparr>"

definition rte_port_ring_writer_ops ::
  "('m \<Rightarrow> 'x \<Rightarrow> 'x res) \<Rightarrow> (('m, 'x) port_mem \<Rightarrow> 'm rte_port_ring_writer option) \<Rightarrow>
   (('m, 'x) port_mem, port_arg, nat, 'm) rte_port_out_ops" where
  "rte_port_ring_writer_ops free alloc = \<lparr>
     po_create = Some (ring_create (\<lambda>conf g. rte_port_ring_writer_create (alloc g) conf g)),
     po_free = Some (\<lambda>h g. rbind (rte_port_ring_writer_free free (Some h) g) (\<lambda>(_, g). Inr g)),
     po_tx = Some (rte_port_ring_writer_tx free), po_tx_bulk = Some (rte_port_ring_writer_tx_bulk free),
     po_flush = Some (rte_port_ring_writer_flush free), po_stats = Some rte_port_ring_writer_stats_read\<rparr>"

definition rte_port_ring_multi_writer_ops ::
  "('m \<Rightarrow> 'x \<Rightarrow> 'x res) \<Rightarrow> (('m, 'x) port_mem \<Rightarrow> 'm rte_port_ring_writer option) \<Rightarrow>
   (('m, 'x) port_mem, port_arg, nat, 'm) rte_port_out_ops" where
  "rte_port_ring_multi_writer_ops free alloc = \<lparr>
     po_create = Some (ring_create (\<lambda>conf g. rte_port_ring_multi_writer_create (alloc g) conf g)),
     po_free = Some (\<lambda>h g. rbind (rte_port_ring_writer_free free (Some h) g) (\<lambda>(_, g). Inr g)),
     po_tx = Some (rte_port_ring_multi_writer_tx free), po_tx_bulk = Some (rte_port_ring_multi_writer_tx_bulk free),
     po_flush = Some (rte_port_ring_multi_writer_flush free), po_stats = Some rte_port_ring_writer_stats_read\<rparr>"

definition rte_port_ring_writer_nodrop_ops where
  "rte_port_ring_writer_nodrop_ops fuel env free alloc = \<lparr>
     po_create = Some (ring_create (\<lambda>conf g. rte_port_ring_writer_nodrop_create (alloc g) conf g)),
     po_free = Some (\<lambda>h g. rbind (rte_port_ring_writer_nodrop_free fuel env free (Some h) g) (\<lambda>(_, g). Inr g)),
     po_tx = Some (rte_port_ring_writer_nodrop_tx fuel env free),
     po_tx_bulk = Some (rte_port_ring_writer_nodrop_tx_bulk fuel env free),
     po_flush = Some (rte_port_ring_writer_nodrop_flush fuel env free),
     po_stats = Some rte_port_ring_writer_nodrop_stats_read\<rparr>"

definition rte_port_ring_multi_writer_nodrop_ops where
  "rte_port_ring_multi_writer_nodrop_ops fuel env free alloc = \<lparr>
     po_create = Some (ring_create (\<lambda>conf g. rte_port_ring_multi_writer_nodrop_create (alloc g) conf g)),
     po_free = Some (\<lambda>h g. rbind (rte_port_ring_writer_nodrop_free fuel env free (Some h) g) (\<lambda>(_, g). Inr g)),
     po_tx = Some (rte_port_ring_multi_writer_nodrop_tx fuel env free),
     po_tx_bulk = Some (rte_port_ring_multi_writer_nodrop_tx_bulk fuel env free),
     po_flush = Some (rte_port_ring_multi_writer_nodrop_flush fuel env free),
     po_stats = Some rte_port_ring_writer_nodrop_stats_read\<rparr>"

section \<open>Invariant and ownership\<close>

definition writer_ok :: "nat \<Rightarrow> ('m, 'z) rte_port_ring_writer_scheme \<Rightarrow> bool" where
  "writer_ok n p \<longleftrightarrow> wr_ring p < n \<and> length (wr_tx_buf p) = 2 * RTE_PORT_IN_BURST_SIZE_MAX \<and>
     wr_tx_burst_sz p \<le> RTE_PORT_IN_BURST_SIZE_MAX \<and> (wr_tx_buf_count p = 0 \<or> wr_tx_buf_count p < wr_tx_burst_sz p)"

definition pending :: "('m, 'z) rte_port_ring_writer_scheme option \<Rightarrow> 'm multiset" where
  "pending p = (case p of None \<Rightarrow> {#} | Some p \<Rightarrow> mset (take (wr_tx_buf_count p) (wr_tx_buf p)))"

definition mem_ok :: "('x \<Rightarrow> bool) \<Rightarrow> ('m, 'x) port_mem \<Rightarrow> bool" where
  "mem_ok ok g \<longleftrightarrow> list_all ring_ok (rings g) \<and>
     list_all (\<lambda>p. \<forall>q. p = Some q \<longrightarrow> rd_ring q < length (rings g)) (readers g) \<and>
     list_all (\<lambda>p. \<forall>q. p = Some q \<longrightarrow> writer_ok (length (rings g)) q) (writers g) \<and> ok (rest g)"

text \<open>The packets in the rings, in the writers' buffers and in the rest of the machine.\<close>

definition mem_owned :: "('x \<Rightarrow> 'm multiset) \<Rightarrow> ('m, 'x) port_mem \<Rightarrow> 'm multiset" where
  "mem_owned pool g = sum_list (map (mset \<circ> contents) (rings g)) + sum_list (map pending (writers g)) + pool (rest g)"

lemma sum_list_update_mset:
  fixes f :: "'a \<Rightarrow> 'm multiset"
  assumes "i < length xs"
  shows "sum_list (map f (xs[i := x])) + f (xs ! i) = sum_list (map f xs) + f x"
  using assms by (induction xs arbitrary: i) (auto simp: nth_Cons' split: nat.splits simp: ac_simps)

lemma store_loop_eq:
  "cnt + popcount m \<le> length buf \<Longrightarrow> \<exists>buf'. store_loop pk m buf cnt = Inr (buf', cnt + popcount m) \<and>
     length buf' = length buf \<and> take (cnt + popcount m) buf' = take cnt buf @ map pk (bits_of m)"
proof (induction pk m buf cnt rule: store_loop.induct)
  case (1 pk m buf cnt)
  show ?case
  proof (cases "m = 0")
    case True
    then show ?thesis using bits_of_eq_Nil_iff [of m] by (simp add: store_loop.simps popcount_def del: bits_of_eq_Nil_iff)
  next
    case False
    let ?m' = "m AND NOT (bit1 (ctz m))"
    have b: "bits_of m = ctz m # bits_of ?m'" using False by (rule bits_of_Cons_ctz)
    then have pc: "popcount m = Suc (popcount ?m')" by (simp add: popcount_def)
    then have cnt: "cnt < length buf" using "1.prems" by simp
    from "1.IH" [OF False] cnt pc "1.prems" obtain buf' where
      "store_loop pk ?m' (buf[cnt := pk (ctz m)]) (cnt + 1) = Inr (buf', cnt + 1 + popcount ?m')"
      "length buf' = length buf"
      "take (cnt + 1 + popcount ?m') buf' = take (cnt + 1) (buf[cnt := pk (ctz m)]) @ map pk (bits_of ?m')"
      by auto
    moreover have "take (cnt + 1) (buf[cnt := pk (ctz m)]) = take cnt buf @ [pk (ctz m)]"
      using cnt by (simp add: take_Suc_conv_app_nth)
    ultimately show ?thesis using False cnt b pc by (subst store_loop.simps) simp
  qed
qed

lemma take_map_nth: "n \<le> length xs \<Longrightarrow> map ((!) xs) [k ..< n] = drop k (take n xs)"
  by (rule nth_equalityI) auto

text \<open>What the ports rely on of \<open>rte_pktmbuf_free\<close>: it returns and takes over the packet.\<close>

locale mbuf_pool =
  fixes free :: "'m \<Rightarrow> 'x \<Rightarrow> 'x res" and ok :: "'x \<Rightarrow> bool" and pool :: "'x \<Rightarrow> 'm multiset"
  assumes free_law: "ok x \<Longrightarrow> \<exists>x'. free m x = Inr x' \<and> ok x' \<and> pool x' = add_mset m (pool x)"
begin

lemma free_all:
  "ok x \<Longrightarrow> \<exists>x'. rfold (\<lambda>i. free (f i)) is x = Inr x' \<and> ok x' \<and> pool x' = pool x + mset (map f is)"
proof (induction "is" arbitrary: x)
  case (Cons i "is")
  obtain x1 where x1: "free (f i) x = Inr x1" "ok x1" "pool x1 = add_mset (f i) (pool x)"
    using free_law [OF Cons.prems] by blast
  with Cons.IH [OF x1(2)] show ?case by auto
qed simp

text \<open>Enqueueing a list on a ring and freeing what did not fit keeps every packet.\<close>

lemma enqueue_or_free:
  assumes "ring_ok r" and "ok x"
  shows "\<exists>n r' x'. ring_enqueue_burst mp (map f [0 ..< k]) r = Inr (n, r') \<and> ring_ok r' \<and>
    rfold (\<lambda>i. free (f i)) [n ..< k] x = Inr x' \<and> ok x' \<and>
    mset (contents r') + pool x' = mset (contents r) + pool x + mset (map f [0 ..< k])"
proof -
  obtain r' where r': "ring_enqueue_burst mp (map f [0 ..< k]) r = Inr (min k (capacity r - length (contents r)), r')"
      "ring_ok r'" "contents r' = contents r @ take (capacity r - length (contents r)) (map f [0 ..< k])"
    using sp_ring.enq_law [OF assms(1), of "map f [0 ..< k]"] mp_ring.enq_law [OF assms(1), of "map f [0 ..< k]"]
    by (cases mp) (auto simp: ring_enqueue_burst_def)
  let ?n = "min k (capacity r - length (contents r))"
  obtain x' where x': "rfold (\<lambda>i. free (f i)) [?n ..< k] x = Inr x'" "ok x'" "pool x' = pool x + mset (map f [?n ..< k])"
    using free_all [OF assms(2)] by blast
  have "[0 ..< k] = [0 ..< ?n] @ [?n ..< k]"
    using upt_add_eq_append [of 0 ?n "k - ?n"] by simp
  then have "mset (map f [0 ..< k]) = mset (map f [0 ..< ?n]) + mset (map f [?n ..< k])"
    by (metis map_append mset_append)
  moreover have "take (capacity r - length (contents r)) (map f [0 ..< k]) = map f [0 ..< ?n]"
    by (auto simp: take_map min_def)
  ultimately show ?thesis using r' x' by auto
qed

lemma send_burst_ok:
  assumes g: "list_all ring_ok (rings g)" "ok (rest g)"
    and h: "h < length (writers g)" "writers g ! h = Some p" "wr_ring p < length (rings g)"
      "wr_tx_buf_count p \<le> length (wr_tx_buf p)"
  shows "\<exists>r x. send_burst free mp h g = Inr (g\<lparr>rings := (rings g)[wr_ring p := r], rest := x,
      writers := (writers g)[h := Some (p\<lparr>wr_tx_buf_count := 0\<rparr>)]\<rparr>) \<and> ring_ok r \<and> ok x \<and>
    mset (contents r) + pool x = mset (contents (rings g ! wr_ring p)) + pool (rest g) + pending (Some p)"
proof -
  let ?c = "wr_tx_buf_count p"
  have buf: "take ?c (wr_tx_buf p) = map ((!) (wr_tx_buf p)) [0 ..< ?c]"
    using h(4) by (simp add: take_map_nth)
  have "ring_ok (rings g ! wr_ring p)" using g(1) h(3) by (simp add: list_all_length)
  from enqueue_or_free [OF this g(2), of mp "(!) (wr_tx_buf p)" ?c] obtain n r x where
    "ring_enqueue_burst mp (take ?c (wr_tx_buf p)) (rings g ! wr_ring p) = Inr (n, r)" "ring_ok r"
    "rfold (\<lambda>i. free (wr_tx_buf p ! i)) [n ..< ?c] (rest g) = Inr x" "ok x"
    "mset (contents r) + pool x = mset (contents (rings g ! wr_ring p)) + pool (rest g) + mset (take ?c (wr_tx_buf p))"
    unfolding buf by blast
  then show ?thesis using h by (auto simp: send_burst_def at_def ring_at_def pending_def)
qed

lemma mem_ok_set_writer:
  assumes "mem_ok ok g" and "writer_ok (length (rings g)) p" and "list_all ring_ok rs"
    and "length rs = length (rings g)" and "ok x"
  shows "mem_ok ok (g\<lparr>rings := rs, rest := x, writers := (writers g)[h := Some p]\<rparr>)"
  using assms
  by (cases "h < length (writers g)") (auto simp: mem_ok_def list_all_length nth_list_update split: if_splits)

lemma mem_okD:
  assumes "mem_ok ok g"
  shows "list_all ring_ok (rings g)" and "ok (rest g)"
    and "h < length (writers g) \<Longrightarrow> writers g ! h = Some p \<Longrightarrow> writer_ok (length (rings g)) p"
    and "k < length (readers g) \<Longrightarrow> readers g ! k = Some q \<Longrightarrow> rd_ring q < length (rings g)"
  using assms by (auto simp: mem_ok_def list_all_length)

text \<open>Replacing a ring, a writer and the rest of the machine.\<close>

lemma owned_update:
  assumes "i < length (rings g)" and "h < length (writers g)"
    and "mset (contents r) + pending (Some p') + pool x + M =
      mset (contents (rings g ! i)) + pending (writers g ! h) + pool (rest g) + N"
  shows "mem_owned pool (g\<lparr>rings := (rings g)[i := r], rest := x, writers := (writers g)[h := Some p']\<rparr>) + M =
    mem_owned pool g + N"
proof -
  let ?R = "\<lambda>rs. sum_list (map (mset \<circ> contents) rs)" and ?W = "\<lambda>ws. sum_list (map pending ws)"
  have R: "?R ((rings g)[i := r]) + mset (contents (rings g ! i)) = ?R (rings g) + mset (contents r)"
    using sum_list_update_mset [OF assms(1), of "mset \<circ> contents" r] by simp
  have W: "?W ((writers g)[h := Some p']) + pending (writers g ! h) = ?W (writers g) + pending (Some p')"
    using sum_list_update_mset [OF assms(2), of pending "Some p'"] by simp
  have "(?R ((rings g)[i := r]) + ?W ((writers g)[h := Some p']) + pool x + M) +
      (mset (contents (rings g ! i)) + pending (writers g ! h)) =
      (?R (rings g) + ?W (writers g)) + (mset (contents r) + pending (Some p') + pool x + M)"
    using R W by (simp add: ac_simps)
  also have "\<dots> = (?R (rings g) + ?W (writers g) + pool (rest g) + N) +
      (mset (contents (rings g ! i)) + pending (writers g ! h))"
    unfolding assms(3) by (simp add: ac_simps)
  finally show ?thesis by (simp add: mem_owned_def)
qed

end

context mbuf_pool
begin

lemma send_burst_law:
  assumes g: "mem_ok ok g" and h: "h < length (writers g)" "writers g ! h = Some p0"
    and p: "wr_ring p < length (rings g)" "wr_tx_buf_count p \<le> length (wr_tx_buf p)"
      "writer_ok (length (rings g)) (p\<lparr>wr_tx_buf_count := 0\<rparr>)"
    and own: "pending (Some p) = pending (Some p0) + M"
  shows "\<exists>g'. send_burst free mp h (g\<lparr>writers := (writers g)[h := Some p]\<rparr>) = Inr g' \<and> mem_ok ok g' \<and>
    mem_owned pool g' = mem_owned pool g + M \<and> length (rings g') = length (rings g) \<and>
    readers g' = readers g \<and> sinks g' = sinks g \<and> writers g' = (writers g)[h := Some (p\<lparr>wr_tx_buf_count := 0\<rparr>)]"
proof -
  let ?g = "g\<lparr>writers := (writers g)[h := Some p]\<rparr>"
  obtain r x where s: "send_burst free mp h ?g = Inr (?g\<lparr>rings := (rings ?g)[wr_ring p := r], rest := x,
      writers := (writers ?g)[h := Some (p\<lparr>wr_tx_buf_count := 0\<rparr>)]\<rparr>)" "ring_ok r" "ok x"
      "mset (contents r) + pool x = mset (contents (rings g ! wr_ring p)) + pool (rest g) + pending (Some p)"
    using send_burst_ok [of ?g h p mp] mem_okD(1,2) [OF g] h p by auto
  let ?g' = "g\<lparr>rings := (rings g)[wr_ring p := r], rest := x, writers := (writers g)[h := Some (p\<lparr>wr_tx_buf_count := 0\<rparr>)]\<rparr>"
  have "mem_ok ok ?g'"
    using mem_okD(1) [OF g] s(2,3) p(3)
    by (intro mem_ok_set_writer [OF g] list_all_list_update) auto
  moreover have "mem_owned pool ?g' + {#} = mem_owned pool g + M"
    using s(4) h own by (intro owned_update [OF p(1)]) (simp_all add: pending_def ac_simps)
  ultimately show ?thesis using s(1) by simp
qed

lemma writer_tx_law:
  assumes g: "mem_ok ok g" and h: "h < length (writers g)" "writers g ! h = Some p"
  shows "\<exists>g' p'. writer_tx free mp h pkt g = Inr g' \<and> mem_ok ok g' \<and>
    mem_owned pool g' = add_mset pkt (mem_owned pool g) \<and> length (rings g') = length (rings g) \<and>
    readers g' = readers g \<and> sinks g' = sinks g \<and> writers g' = (writers g)[h := Some p']"
proof -
  have w: "writer_ok (length (rings g)) p" by (rule mem_okD(3) [OF g h])
  let ?c = "wr_tx_buf_count p"
  let ?p = "p\<lparr>wr_tx_buf := (wr_tx_buf p)[?c := pkt], wr_tx_buf_count := ?c + 1\<rparr>"
  let ?g = "g\<lparr>writers := (writers g)[h := Some ?p]\<rparr>"
  have c: "?c < length (wr_tx_buf p)" using w by (auto simp: writer_ok_def)
  have pend: "pending (Some ?p) = pending (Some p) + {#pkt#}"
    using c by (simp add: pending_def take_Suc_conv_app_nth)
  have tx: "writer_tx free mp h pkt g =
      (if ?c + 1 \<ge> wr_tx_burst_sz p then send_burst free mp h ?g else Inr ?g)"
    using h c by (simp add: writer_tx_def at_def)
  show ?thesis
  proof (cases "?c + 1 \<ge> wr_tx_burst_sz p")
    case True
    then show ?thesis using send_burst_law [OF g h, of ?p "{#pkt#}" mp] w c pend
      by (auto simp: tx writer_ok_def simp del: add_mset_add_single)
  next
    case False
    have "mem_ok ok ?g"
      using mem_ok_set_writer [OF g _ mem_okD(1) [OF g] refl mem_okD(2) [OF g], of ?p h] w False
      by (simp add: writer_ok_def)
    moreover have "mem_owned pool (g\<lparr>rings := (rings g)[wr_ring p := rings g ! wr_ring p], rest := rest g,
        writers := (writers g)[h := Some ?p]\<rparr>) + {#} = mem_owned pool g + {#pkt#}"
      using w h pend by (intro owned_update) (auto simp: writer_ok_def)
    ultimately show ?thesis using False by (auto simp: tx)
  qed
qed

text \<open>The fast path of the bulk send is taken only when the mask is a full burst from position 0 on.\<close>

lemma bulk_fast_mask:
  fixes m b :: u64
  assumes "(m AND (m + 1)) OR ((m AND b) XOR b) = 0"
  shows "bits_of m = [0 ..< popcount m]"
proof -
  have "m AND (m + 1) = 0" using assms by (metis or_eq_0_iff)
  then show ?thesis by (rule contiguous_bits_of)
qed

lemma writer_tx_bulk_law:
  assumes g: "mem_ok ok g" and h: "h < length (writers g)" "writers g ! h = Some p"
  shows "\<exists>g' p'. rte_port_ring_writer_tx_bulk_internal free mp h pk m g = Inr g' \<and> mem_ok ok g' \<and>
    mem_owned pool g' = mem_owned pool g + mset (map pk (bits_of m)) \<and> length (rings g') = length (rings g) \<and>
    readers g' = readers g \<and> sinks g' = sinks g \<and> writers g' = (writers g)[h := Some p']"
proof -
  have w: "writer_ok (length (rings g)) p" by (rule mem_okD(3) [OF g h])
  let ?expr = "(m AND (m + 1)) OR ((m AND wr_bsz_mask p) XOR wr_bsz_mask p)"
  have same: "g\<lparr>writers := (writers g)[h := Some p]\<rparr> = g" using h by (simp add: list_update_same_conv)
  show ?thesis
  proof (cases "?expr = 0")
    case True
    have "\<exists>g1. send_burst free mp h g = Inr g1 \<and> mem_ok ok g1 \<and> mem_owned pool g1 = mem_owned pool g \<and>
        length (rings g1) = length (rings g) \<and> readers g1 = readers g \<and> sinks g1 = sinks g \<and>
        writers g1 = (writers g)[h := Some (p\<lparr>wr_tx_buf_count := 0\<rparr>)]"
      using send_burst_law [OF g h, of p "{#}" mp] w same by (auto simp: writer_ok_def)
    moreover have "writers g = (writers g)[h := Some p]" using h by (metis list_update_id)
    ultimately have "\<exists>g1 p1. (if wr_tx_buf_count p \<noteq> 0 then send_burst free mp h g else Inr g) = Inr g1 \<and> mem_ok ok g1 \<and>
        mem_owned pool g1 = mem_owned pool g \<and> length (rings g1) = length (rings g) \<and> readers g1 = readers g \<and> sinks g1 = sinks g \<and>
        writers g1 = (writers g)[h := Some p1]"
      using g by (cases "wr_tx_buf_count p = 0") (simp, metis, simp, metis)
    then obtain g1 p1 where g1: "(if wr_tx_buf_count p \<noteq> 0 then send_burst free mp h g else Inr g) = Inr g1"
        "mem_ok ok g1" "mem_owned pool g1 = mem_owned pool g" "length (rings g1) = length (rings g)"
        "readers g1 = readers g \<and> sinks g1 = sinks g" "writers g1 = (writers g)[h := Some p1]" by blast
    have i: "wr_ring p < length (rings g1)" using w g1(4) by (simp add: writer_ok_def)
    then have "ring_ok (rings g1 ! wr_ring p)" using mem_okD(1) [OF g1(2)] by (simp add: list_all_length)
    from enqueue_or_free [OF this mem_okD(2) [OF g1(2)], of mp pk "popcount m"] obtain n r x where e:
      "ring_enqueue_burst mp (map pk [0 ..< popcount m]) (rings g1 ! wr_ring p) = Inr (n, r)" "ring_ok r"
      "rfold (\<lambda>i. free (pk i)) [n ..< popcount m] (rest g1) = Inr x" "ok x"
      "mset (contents r) + pool x = mset (contents (rings g1 ! wr_ring p)) + pool (rest g1) + mset (map pk [0 ..< popcount m])"
      by blast
    let ?g' = "g1\<lparr>rings := (rings g1)[wr_ring p := r], rest := x\<rparr>"
    have h1: "h < length (writers g1)" "writers g1 ! h = Some p1" using g1(6) h by auto
    have "(writers g1)[h := Some p1] = writers g1" using h1 by (metis list_update_id)
    then have set1: "g1\<lparr>rings := (rings g1)[wr_ring p := r], rest := x, writers := (writers g1)[h := Some p1]\<rparr> = ?g'"
      by simp
    have "mem_ok ok (g1\<lparr>rings := (rings g1)[wr_ring p := r], rest := x, writers := (writers g1)[h := Some p1]\<rparr>)"
      using mem_okD [OF g1(2)] h1 e(2,4) by (intro mem_ok_set_writer [OF g1(2)] list_all_list_update) auto
    moreover have "mem_owned pool (g1\<lparr>rings := (rings g1)[wr_ring p := r], rest := x,
        writers := (writers g1)[h := Some p1]\<rparr>) + {#} = mem_owned pool g1 + mset (map pk [0 ..< popcount m])"
      using e(5) h1 by (intro owned_update [OF i]) (simp_all add: ac_simps)
    moreover have "rte_port_ring_writer_tx_bulk_internal free mp h pk m g = Inr ?g'"
      unfolding rte_port_ring_writer_tx_bulk_internal_def
      using h True g1(1) i e(1,3) by (simp add: at_def ring_at_def Let_def)
    ultimately show ?thesis using g1 bulk_fast_mask [OF True] unfolding set1 by auto
  next
    case False
    have pc: "popcount m \<le> 64" unfolding popcount_def bits_of_def by (rule le_trans [OF length_filter_le]) simp
    have le: "wr_tx_buf_count p + popcount m \<le> length (wr_tx_buf p)" using w pc by (auto simp: writer_ok_def)
    obtain buf where b: "store_loop pk m (wr_tx_buf p) (wr_tx_buf_count p) = Inr (buf, wr_tx_buf_count p + popcount m)"
        "length buf = length (wr_tx_buf p)"
        "take (wr_tx_buf_count p + popcount m) buf = take (wr_tx_buf_count p) (wr_tx_buf p) @ map pk (bits_of m)"
      using store_loop_eq [OF le, of pk] by blast
    let ?p = "p\<lparr>wr_tx_buf := buf, wr_tx_buf_count := wr_tx_buf_count p + popcount m\<rparr>"
    let ?g = "g\<lparr>writers := (writers g)[h := Some ?p]\<rparr>"
    have pend: "pending (Some ?p) = pending (Some p) + mset (map pk (bits_of m))" using b(3) by (simp add: pending_def)
    have tx: "rte_port_ring_writer_tx_bulk_internal free mp h pk m g =
        (if wr_tx_buf_count p + popcount m \<ge> wr_tx_burst_sz p then send_burst free mp h ?g else Inr ?g)"
      unfolding rte_port_ring_writer_tx_bulk_internal_def using h False b(1) by (simp add: at_def Let_def)
    show ?thesis
    proof (cases "wr_tx_buf_count p + popcount m \<ge> wr_tx_burst_sz p")
      case True
      then show ?thesis using send_burst_law [OF g h, of ?p "mset (map pk (bits_of m))" mp] w b(2) le pend
        by (auto simp: tx writer_ok_def)
    next
      case False
      have "mem_ok ok ?g"
        using mem_ok_set_writer [OF g _ mem_okD(1) [OF g] refl mem_okD(2) [OF g], of ?p h] w False b(2)
        by (simp add: writer_ok_def)
      moreover have "mem_owned pool (g\<lparr>rings := (rings g)[wr_ring p := rings g ! wr_ring p], rest := rest g,
          writers := (writers g)[h := Some ?p]\<rparr>) + {#} = mem_owned pool g + mset (map pk (bits_of m))"
        using w h pend by (intro owned_update) (auto simp: writer_ok_def)
      ultimately show ?thesis using False by (auto simp: tx)
    qed
  qed
qed

lemma reader_rx_law:
  assumes g: "mem_ok ok g" and h: "h < length (readers g)" "readers g ! h = Some p"
    and deq: "deq = rte_ring_sc_dequeue_burst \<or> deq = rte_ring_mc_dequeue_burst"
  shows "\<exists>ms g'. reader_rx deq h n g = Inr (ms, g') \<and> length ms \<le> n \<and> mem_ok ok g' \<and>
    mem_owned pool g = mset ms + mem_owned pool g' \<and> length (rings g') = length (rings g) \<and>
    readers g' = readers g \<and> sinks g' = sinks g \<and> writers g' = writers g"
proof -
  have i: "rd_ring p < length (rings g)" by (rule mem_okD(4) [OF g h])
  let ?r = "rings g ! rd_ring p"
  have ok: "ring_ok ?r" using i mem_okD(1) [OF g] by (simp add: list_all_length)
  obtain r' where r': "deq n ?r = Inr (take n (contents ?r), r')" "ring_ok r'" "contents r' = drop n (contents ?r)"
    using sp_ring.deq_law [OF ok, of n] mp_ring.deq_law [OF ok, of n] deq by blast
  let ?g' = "g\<lparr>rings := (rings g)[rd_ring p := r']\<rparr>"
  have "sum_list (map (mset \<circ> contents) ((rings g)[rd_ring p := r'])) + mset (contents ?r) =
      sum_list (map (mset \<circ> contents) (rings g)) + mset (contents r')"
    using sum_list_update_mset [OF i, of "mset \<circ> contents" r'] by simp
  moreover have "mset (contents ?r) = mset (take n (contents ?r)) + mset (contents r')"
    unfolding r'(3) by (metis append_take_drop_id mset_append)
  ultimately have "mem_owned pool g = mset (take n (contents ?r)) + mem_owned pool ?g'"
    by (simp add: mem_owned_def ac_simps)
  moreover have "mem_ok ok ?g'"
    using g i r'(2) by (auto simp: mem_ok_def list_all_length nth_list_update)
  moreover have "reader_rx deq h n g = Inr (take n (contents ?r), ?g')"
    using h i r'(1) by (simp add: reader_rx_def at_def ring_at_def)
  ultimately show ?thesis by auto
qed

end

context mbuf_pool
begin

lemma writer_flush_law:
  assumes g: "mem_ok ok g" and h: "h < length (writers g)" "writers g ! h = Some p"
  shows "\<exists>g' p'. writer_flush free mp h g = Inr g' \<and> mem_ok ok g' \<and> mem_owned pool g' = mem_owned pool g \<and>
    readers g' = readers g \<and> sinks g' = sinks g \<and> writers g' = (writers g)[h := Some p'] \<and> wr_tx_buf_count p' = 0"
proof -
  have w: "writer_ok (length (rings g)) p" by (rule mem_okD(3) [OF g h])
  have same: "(writers g)[h := Some p] = writers g" using h by (metis list_update_id)
  show ?thesis
  proof (cases "wr_tx_buf_count p = 0")
    case True
    then show ?thesis using g h same by (intro exI [of _ g] exI [of _ p]) (simp add: writer_flush_def at_def)
  next
    case False
    obtain g' where "send_burst free mp h g = Inr g'" "mem_ok ok g'" "mem_owned pool g' = mem_owned pool g"
        "readers g' = readers g" "sinks g' = sinks g" "writers g' = (writers g)[h := Some (p\<lparr>wr_tx_buf_count := 0\<rparr>)]"
      using send_burst_law [OF g h, of p "{#}" mp] w same by (auto simp: writer_ok_def)
    then show ?thesis using False h
      by (intro exI [of _ g'] exI [of _ "p\<lparr>wr_tx_buf_count := 0\<rparr>"]) (simp add: writer_flush_def at_def)
  qed
qed

lemma writer_free_law:
  assumes g: "mem_ok ok g" and h: "h < length (writers g)" "writers g ! h = Some p"
  shows "\<exists>g'. rte_port_ring_writer_free free (Some h) g = Inr (0, g') \<and> mem_ok ok g' \<and>
    mem_owned pool g' = mem_owned pool g \<and> writers g' = (writers g)[h := None]"
proof -
  obtain g1 p1 where g1: "writer_flush free (wr_is_multi p) h g = Inr g1" "mem_ok ok g1"
      "mem_owned pool g1 = mem_owned pool g" "writers g1 = (writers g)[h := Some p1]" "wr_tx_buf_count p1 = 0"
    using writer_flush_law [OF g h] by blast
  have h1: "h < length (writers g1)" "writers g1 ! h = Some p1" using g1(4) h by auto
  have "rte_port_ring_writer_free free (Some h) g = Inr (0, g1\<lparr>writers := (writers g1)[h := None]\<rparr>)"
    using h g1(1) by (cases "wr_is_multi p") (simp_all add: rte_port_ring_writer_free_def at_def
        rte_port_ring_writer_flush_def rte_port_ring_multi_writer_flush_def)
  moreover have "sum_list (map pending ((writers g1)[h := None])) = sum_list (map pending (writers g1))"
    using sum_list_update_mset [OF h1(1), of pending None] h1(2) g1(5) by (simp add: pending_def)
  moreover have "mem_ok ok (g1\<lparr>writers := (writers g1)[h := None]\<rparr>)"
    using g1(2) by (auto simp: mem_ok_def intro: list_all_list_update)
  ultimately show ?thesis using g1(3,4) by (auto simp: mem_owned_def)
qed

end

lemma writer_create_ok:
  assumes "mem_ok ok g" and "length (wr_tx_buf p) = 128"
    and "rte_port_ring_writer_create_internal mp (Some p) conf g = Inr (Some h, g')"
  shows "mem_ok ok g'" and "mem_owned pool g' = mem_owned pool g" and "h < length (writers g')"
    and "\<exists>q. writers g' ! h = Some q \<and> wr_tx_buf_count q = 0"
proof -
  from assms(3) obtain c i where "conf = Some c" "conf_ring c = Some i" "i < length (rings g)"
      "conf_tx_burst_sz c \<le> 64" "h = length (writers g)"
    and g': "g' = g\<lparr>writers := writers g @ [Some (p\<lparr>wr_ring := i, wr_tx_burst_sz := conf_tx_burst_sz c,
        wr_tx_buf_count := 0, wr_bsz_mask := bsz_mask_of (conf_tx_burst_sz c), wr_is_multi := mp\<rparr>)]\<rparr>"
    by (auto simp: rte_port_ring_writer_create_internal_def ring_at_def writer_conf_bad_def
        elim!: rbind_eq_InrE split: option.splits if_splits)
  then show "mem_ok ok g'" "mem_owned pool g' = mem_owned pool g" "h < length (writers g')"
      "\<exists>q. writers g' ! h = Some q \<and> wr_tx_buf_count q = 0"
    using assms(1,2) by (auto simp: mem_ok_def writer_ok_def mem_owned_def pending_def)
qed

section \<open>Retrying\<close>

lemma nodrop_retry_full:
  assumes "ring_ok r" and "length (contents r) = capacity r" and "nb < length buf"
    and "\<And>k. ucast (of_nat k :: u32) < n_retries"
  shows "nodrop_retry fuel (\<lambda>_ r. r) mp n_retries buf k nb r = Inl OutOfFuel"
  using assms(1,2)
proof (induction fuel arbitrary: k r)
  case (Suc fuel)
  obtain r' where r': "ring_enqueue_burst mp (drop nb buf) r = Inr (0, r')" "ring_ok r'" "capacity r' = capacity r"
      "contents r' = contents r"
    using sp_ring.enq_law [OF Suc.prems(1), of "drop nb buf"] mp_ring.enq_law [OF Suc.prems(1), of "drop nb buf"]
      Suc.prems(2)
    by (cases mp) (auto simp: ring_enqueue_burst_def simp del: length_contents)
  then show ?case using Suc assms(3,4) by (simp del: length_contents)
qed simp

text \<open>The writer that retries blocks on a full ring: with the retry limit left at 0 (which means
  unlimited) and no other thread taking packets out, sending a buffered packet never returns,
  however many retries are allowed, because the 32-bit counter never reaches the 64-bit limit.\<close>

theorem nodrop_unlimited_blocks_on_full_ring:
  assumes "h < length (nodrops g)" and "nodrops g ! h = Some p" and "wr_n_retries p = - 1"
    and "wr_ring p < length (rings g)" and "r = rings g ! wr_ring p" and "ring_ok r"
    and "length (contents r) = capacity r" and "0 < wr_tx_buf_count p" and "wr_tx_buf_count p \<le> length (wr_tx_buf p)"
  shows "send_burst_nodrop fuel (\<lambda>_ r. r) free mp h g = Inl OutOfFuel"
proof -
  have lim: "ucast (of_nat k :: u32) < (- 1 :: u64)" for k
  proof -
    have "unat (ucast (of_nat k :: u32) :: u64) \<le> unat (of_nat k :: u32)"
      by (simp add: unsigned_ucast_eq)
    also have "\<dots> < 2 ^ 32" using unsigned_less [of "of_nat k :: u32", where ?'a = nat] by simp
    also have "\<dots> \<le> unat (- 1 :: u64)" by (simp add: unsigned_minus_1_eq_mask mask_eq_exp_minus_1)
    finally show ?thesis by (simp add: word_less_nat_alt)
  qed
  let ?buf = "take (wr_tx_buf_count p) (wr_tx_buf p)"
  obtain r' where r': "ring_enqueue_burst mp ?buf r = Inr (0, r')" "ring_ok r'" "capacity r' = capacity r"
      "contents r' = contents r"
    using sp_ring.enq_law [OF assms(6), of ?buf] mp_ring.enq_law [OF assms(6), of ?buf] assms(7)
    by (cases mp) (auto simp: ring_enqueue_burst_def simp del: length_contents)
  have "nodrop_retry fuel (\<lambda>_ r. r) mp (wr_n_retries p) ?buf 0 0 r' = Inl OutOfFuel"
    using r' assms lim by (intro nodrop_retry_full) (simp_all del: length_contents)
  then show ?thesis using assms r'(1)
    by (simp add: send_burst_nodrop_def at_def ring_at_def Let_def)
qed

text \<open>A ring of two slots that holds the packet 5, and a writer with packet 6 in its buffer.\<close>

definition full_ring :: "nat rte_ring" where
  "full_ring = \<lparr>r_name = ''f'', r_flags = 3, r_size = 2, r_mask = 1,
     r_prod = \<lparr>ht_head = 1, ht_tail = 1, ht_single = True\<rparr>, r_cons = \<lparr>ht_head = 0, ht_tail = 0, ht_single = True\<rparr>,
     r_slots = [5, 0]\<rparr>"

definition full_writer :: "nat rte_port_ring_writer_nodrop" where
  "full_writer = \<lparr>wr_stats = (0, 0), wr_tx_buf = [6], wr_ring = 0, wr_tx_burst_sz = 1, wr_tx_buf_count = 1,
     wr_bsz_mask = 1, wr_is_multi = False, wr_n_retries = - 1\<rparr>"

definition full_mem :: "(nat, unit) port_mem" where
  "full_mem = \<lparr>rings = [full_ring], readers = [], writers = [], nodrops = [Some full_writer], sinks = [], rest = ()\<rparr>"

lemma full_ring_ok: "ring_ok full_ring" "contents full_ring = [5]" "capacity full_ring = 1"
  by (auto simp: ring_ok_def full_ring_def contents_def capacity_def slot_of_def intro!: exI [of _ 1])

theorem nodrop_unlimited_blocks_on_full_ring_witness:
  "send_burst_nodrop 100000 (\<lambda>_ r. r) (\<lambda>m x. Inr x) False 0 full_mem = Inl OutOfFuel"
  by (rule nodrop_unlimited_blocks_on_full_ring [of 0 full_mem full_writer full_ring])
     (simp_all add: full_mem_def full_writer_def full_ring_ok del: length_contents)

end
