(* ===== verification/Mbuf.thy ===== *)
theory Mbuf
  imports Port_Ring
begin

text \<open>
  Freeing packet buffers, \<open>rte_pktmbuf_free\<close> and what it calls in
  src/Enclave/include/dpdk/rte_mbuf.h. A segment is an address; memory maps addresses inside the
  enclave to segment headers; an address outside the enclave is handed to the host by an OCALL.
  \<open>rte_mempool_put\<close> appends to the list of returned segments. The debug checks compile to nothing
  (\<open>RTE_LIBRTE_MBUF_DEBUG\<close> is undefined), so only the fields the freeing code looks at are kept.
\<close>

record mbuf_seg =
  seg_refcnt :: u16
  seg_next :: "nat option"
  seg_nb_segs :: u16
  seg_parent :: "nat option"

record mbuf_mem =
  segs :: "nat \<Rightarrow> mbuf_seg option"
  returned :: "nat list"
  ocalls :: "nat list"

definition seg_at :: "mbuf_mem \<Rightarrow> nat \<Rightarrow> mbuf_seg res" where
  "seg_at x m = (case segs x m of None \<Rightarrow> Inl NullDeref | Some s \<Rightarrow> Inr s)"

definition seg_set :: "nat \<Rightarrow> mbuf_seg \<Rightarrow> mbuf_mem \<Rightarrow> mbuf_mem" where
  "seg_set m s x = x\<lparr>segs := (segs x)(m := Some s)\<rparr>"

definition rte_mbuf_raw_free :: "nat \<Rightarrow> mbuf_mem \<Rightarrow> mbuf_mem" where
  "rte_mbuf_raw_free m x = x\<lparr>returned := returned x @ [m]\<rparr>"

text \<open>An indirect segment (\<open>RTE_MBUF_INDIRECT\<close>) has a parent whose data it shares; detaching makes it
  direct and drops one reference of the parent, in 16 bits.\<close>

definition rte_pktmbuf_detach :: "nat \<Rightarrow> mbuf_mem \<Rightarrow> mbuf_mem res" where
  "rte_pktmbuf_detach m x =
     rbind (seg_at x m) (\<lambda>s. case seg_parent s of None \<Rightarrow> Inl NullDeref
      | Some md \<Rightarrow>
          let x = seg_set m (s\<lparr>seg_parent := None\<rparr>) x in
          rbind (seg_at x md) (\<lambda>d.
          let c = seg_refcnt d - 1 in
          if c = 0 then Inr (rte_mbuf_raw_free md
            (seg_set md (d\<lparr>seg_next := None, seg_nb_segs := 1, seg_refcnt := 1\<rparr>) x))
          else Inr (seg_set md (d\<lparr>seg_refcnt := c\<rparr>) x)))"

definition unlink_seg :: "nat \<Rightarrow> mbuf_mem \<Rightarrow> mbuf_mem res" where
  "unlink_seg m x =
     rbind (seg_at x m) (\<lambda>s.
     rbind (if seg_parent s \<noteq> None then rte_pktmbuf_detach m x else Inr x) (\<lambda>x.
     rbind (seg_at x m) (\<lambda>s.
     Inr (if seg_next s \<noteq> None then seg_set m (s\<lparr>seg_next := None, seg_nb_segs := 1\<rparr>) x else x))))"

definition rte_pktmbuf_prefree_seg :: "nat \<Rightarrow> mbuf_mem \<Rightarrow> (nat option \<times> mbuf_mem) res" where
  "rte_pktmbuf_prefree_seg m x =
     rbind (seg_at x m) (\<lambda>s.
     if seg_refcnt s = 1 then rbind (unlink_seg m x) (\<lambda>x. Inr (Some m, x))
     else let c = seg_refcnt s - 1; x = seg_set m (s\<lparr>seg_refcnt := c\<rparr>) x in
       if c = 0 then rbind (unlink_seg m x) (\<lambda>x. rbind (seg_at x m) (\<lambda>s.
              Inr (Some m, seg_set m (s\<lparr>seg_refcnt := 1\<rparr>) x)))
       else Inr (None, x))"

definition rte_pktmbuf_free_seg :: "nat \<Rightarrow> mbuf_mem \<Rightarrow> mbuf_mem res" where
  "rte_pktmbuf_free_seg m x =
     rbind (rte_pktmbuf_prefree_seg m x) (\<lambda>(r, x).
     Inr (case r of None \<Rightarrow> x | Some m \<Rightarrow> rte_mbuf_raw_free m x))"

text \<open>The loop over the segments of a packet; \<open>fuel\<close> bounds their number.\<close>

primrec free_segs :: "nat \<Rightarrow> nat option \<Rightarrow> mbuf_mem \<Rightarrow> mbuf_mem res" where
  "free_segs 0 m x = (case m of None \<Rightarrow> Inr x | Some _ \<Rightarrow> Inl OutOfFuel)"
| "free_segs (Suc fuel) m x = (case m of None \<Rightarrow> Inr x
     | Some m \<Rightarrow> rbind (seg_at x m) (\<lambda>s.
         rbind (rte_pktmbuf_free_seg m x) (\<lambda>x. free_segs fuel (seg_next s) x)))"

definition rte_pktmbuf_free :: "(nat \<Rightarrow> bool) \<Rightarrow> nat \<Rightarrow> nat \<Rightarrow> mbuf_mem \<Rightarrow> mbuf_mem res" where
  "rte_pktmbuf_free outside fuel m x =
     (if outside m then Inr (x\<lparr>ocalls := ocalls x @ [m]\<rparr>) else free_segs fuel (Some m) x)"

section \<open>Properties\<close>

text \<open>A packet: a list of segments linked in order, all direct and referenced once.\<close>

fun chain :: "mbuf_mem \<Rightarrow> nat list \<Rightarrow> bool" where
  "chain x [] \<longleftrightarrow> True"
| "chain x [m] \<longleftrightarrow> (\<exists>s. segs x m = Some s \<and> seg_refcnt s = 1 \<and> seg_parent s = None \<and> seg_next s = None)"
| "chain x (m # m' # ms) \<longleftrightarrow> (\<exists>s. segs x m = Some s \<and> seg_refcnt s = 1 \<and> seg_parent s = None \<and>
     seg_next s = Some m') \<and> chain x (m' # ms)"

lemma free_seg_direct:
  assumes "segs x m = Some s" and "seg_refcnt s = 1" and "seg_parent s = None"
  shows "\<exists>s'. rte_pktmbuf_free_seg m x = Inr (x\<lparr>segs := (segs x)(m := Some s'), returned := returned x @ [m]\<rparr>) \<and>
    seg_refcnt s' = 1 \<and> seg_parent s' = None \<and> seg_next s' = None"
proof (cases "seg_next s")
  case None
  then have "rte_pktmbuf_free_seg m x = Inr (x\<lparr>returned := returned x @ [m]\<rparr>)"
    using assms by (simp add: rte_pktmbuf_free_seg_def rte_pktmbuf_prefree_seg_def unlink_seg_def seg_at_def
        rte_mbuf_raw_free_def)
  moreover have "(segs x)(m := Some s) = segs x" using assms(1) by (simp add: fun_upd_idem)
  ultimately show ?thesis using assms None by (intro exI [of _ s]) simp
next
  case (Some m')
  then show ?thesis using assms
    by (intro exI [of _ "s\<lparr>seg_next := None, seg_nb_segs := 1\<rparr>"])
       (simp add: rte_pktmbuf_free_seg_def rte_pktmbuf_prefree_seg_def unlink_seg_def seg_at_def
        rte_mbuf_raw_free_def seg_set_def)
qed

lemma chain_update: "m \<notin> set ms \<Longrightarrow> chain x ms \<Longrightarrow>
    chain (x\<lparr>segs := (segs x)(m := s), returned := l\<rparr>) ms"
  by (induction x ms rule: chain.induct) auto

lemma free_segs_chain:
  assumes "chain x ms" and "distinct ms" and "length ms \<le> fuel"
  shows "\<exists>x'. free_segs fuel (case ms of [] \<Rightarrow> None | m # _ \<Rightarrow> Some m) x = Inr x' \<and>
    returned x' = returned x @ ms \<and> ocalls x' = ocalls x"
  using assms
proof (induction ms arbitrary: x fuel)
  case Nil
  then show ?case by (cases fuel) auto
next
  case (Cons m ms)
  then obtain fuel' where fuel: "fuel = Suc fuel'" by (cases fuel) auto
  obtain s where s: "segs x m = Some s" "seg_refcnt s = 1" "seg_parent s = None"
      "seg_next s = (case ms of [] \<Rightarrow> None | m # _ \<Rightarrow> Some m)"
    using Cons.prems(1) by (cases ms) auto
  obtain s' where f: "rte_pktmbuf_free_seg m x = Inr (x\<lparr>segs := (segs x)(m := Some s'), returned := returned x @ [m]\<rparr>)"
    using free_seg_direct [OF s(1-3)] by blast
  have "chain x ms" using Cons.prems(1) by (cases ms) auto
  then have "chain (x\<lparr>segs := (segs x)(m := Some s'), returned := returned x @ [m]\<rparr>) ms"
    using Cons.prems(2) by (intro chain_update) auto
  from Cons.IH [OF this] Cons.prems fuel s f show ?case by (simp add: seg_at_def)
qed

text \<open>Freeing a packet inside the enclave returns each of its segments to the pool exactly once, in
  order, and ends: for a chain of direct segments referenced once, the number of segments is enough
  fuel. A packet outside the enclave causes exactly one OCALL and touches nothing else.\<close>

theorem pktmbuf_free_returns_all:
  assumes "chain x (m # ms)" and "distinct (m # ms)" and "length (m # ms) \<le> fuel"
  shows "(\<not> outside m \<longrightarrow> (\<exists>x'. rte_pktmbuf_free outside fuel m x = Inr x' \<and>
      returned x' = returned x @ m # ms \<and> ocalls x' = ocalls x)) \<and>
    (outside m \<longrightarrow> rte_pktmbuf_free outside fuel m x = Inr (x\<lparr>ocalls := ocalls x @ [m]\<rparr>))"
  using free_segs_chain [OF assms] by (simp add: rte_pktmbuf_free_def)

definition two_segs :: mbuf_mem where
  "two_segs = \<lparr>segs = [0 \<mapsto> \<lparr>seg_refcnt = 1, seg_next = Some 1, seg_nb_segs = 2, seg_parent = None\<rparr>,
       1 \<mapsto> \<lparr>seg_refcnt = 1, seg_next = None, seg_nb_segs = 1, seg_parent = None\<rparr>], returned = [], ocalls = []\<rparr>"

theorem pktmbuf_free_returns_all_witness:
  "\<exists>x'. rte_pktmbuf_free (\<lambda>_. False) 2 0 two_segs = Inr x' \<and> returned x' = [0, 1]"
  using pktmbuf_free_returns_all [of two_segs 0 "[1]" 2 "\<lambda>_. False"] by (auto simp: two_segs_def)

section \<open>The pool interface\<close>

text \<open>
  The burst code handles packets of one segment. When every address is outside the enclave or holds a
  direct single segment referenced once, freeing meets the contract the ports rely on.
\<close>

definition simple_segs :: "(nat \<Rightarrow> bool) \<Rightarrow> mbuf_mem \<Rightarrow> bool" where
  "simple_segs outside x \<longleftrightarrow> (\<forall>m. outside m \<or> chain x [m])"

definition given_back :: "mbuf_mem \<Rightarrow> nat multiset" where
  "given_back x = mset (returned x) + mset (ocalls x)"

lemma free_simple:
  assumes "simple_segs outside x"
  shows "\<exists>x'. rte_pktmbuf_free outside (Suc fuel) m x = Inr x' \<and> simple_segs outside x' \<and>
    given_back x' = add_mset m (given_back x)"
proof (cases "outside m")
  case True
  then show ?thesis using assms by (simp add: rte_pktmbuf_free_def simple_segs_def given_back_def)
next
  case False
  then obtain s where s: "segs x m = Some s" "seg_refcnt s = 1" "seg_parent s = None" "seg_next s = None"
    using assms by (auto simp: simple_segs_def)
  obtain s' where f: "rte_pktmbuf_free_seg m x = Inr (x\<lparr>segs := (segs x)(m := Some s'), returned := returned x @ [m]\<rparr>)"
      "seg_refcnt s' = 1" "seg_parent s' = None" "seg_next s' = None"
    using free_seg_direct [OF s(1-3)] by blast
  let ?x' = "x\<lparr>segs := (segs x)(m := Some s'), returned := returned x @ [m]\<rparr>"
  have "simple_segs outside ?x'" using assms f(2-4) by (auto simp: simple_segs_def)
  moreover have "rte_pktmbuf_free outside (Suc fuel) m x = Inr ?x'"
    using False s f(1) by (cases fuel) (simp_all add: rte_pktmbuf_free_def seg_at_def)
  ultimately show ?thesis by (simp add: given_back_def)
qed

interpretation host_pool: mbuf_pool "rte_pktmbuf_free outside (Suc fuel)" "simple_segs outside" given_back
  for outside fuel
  by unfold_locales (rule free_simple)

section \<open>Ring ports with this pool\<close>

text \<open>C35. A ring writer neither loses nor duplicates a packet and never writes behind its buffer: sending
  one packet, or the packets of any mask, on a live writer returns whatever the state of the ring,
  keeps the invariant (in particular the buffer index stays within its 128 places), and afterwards
  each packet is in the ring, in the buffer, or given back to the pool.\<close>

theorem ring_writer_conserves:
  assumes "mem_ok (simple_segs outside) g" and "h < length (writers g)" and "writers g ! h = Some p"
  shows "(\<exists>g'. rte_port_ring_writer_tx (rte_pktmbuf_free outside (Suc fuel)) h pkt g = Inr g' \<and>
      mem_ok (simple_segs outside) g' \<and> mem_owned given_back g' = add_mset pkt (mem_owned given_back g)) \<and>
    (\<exists>g'. rte_port_ring_writer_tx_bulk (rte_pktmbuf_free outside (Suc fuel)) h pk m g = Inr g' \<and>
      mem_ok (simple_segs outside) g' \<and>
      mem_owned given_back g' = mem_owned given_back g + mset (map pk (bits_of m)))"
  using host_pool.writer_tx_law [OF assms, of fuel False pkt]
    host_pool.writer_tx_bulk_law [OF assms, of fuel False pk m]
  unfolding rte_port_ring_writer_tx_def rte_port_ring_writer_tx_bulk_def by blast

definition host_writer :: "nat rte_port_ring_writer" where
  "host_writer = \<lparr>wr_stats = (0, 0), wr_tx_buf = replicate 128 0, wr_ring = 0, wr_tx_burst_sz = 1,
     wr_tx_buf_count = 0, wr_bsz_mask = 1, wr_is_multi = False\<rparr>"

definition host_mem :: "(nat, mbuf_mem) port_mem" where
  "host_mem = \<lparr>rings = [full_ring], readers = [Some \<lparr>rd_stats = (0, 0), rd_ring = 0\<rparr>],
     writers = [Some host_writer], nodrops = [], sinks = [],
     rest = \<lparr>segs = (\<lambda>_. None), returned = [], ocalls = []\<rparr>\<rparr>"

lemma host_mem_ok: "mem_ok (simple_segs (\<lambda>_. True)) host_mem" "0 < length (writers host_mem)"
    "writers host_mem ! 0 = Some host_writer"
  by (simp_all add: host_mem_def host_writer_def mem_ok_def full_ring_ok writer_ok_def simple_segs_def)

lemma host_mem_owned: "mem_owned given_back host_mem = {#5#}"
  by (simp add: host_mem_def host_writer_def mem_owned_def full_ring_ok pending_def given_back_def)

theorem ring_writer_conserves_witness:
  "\<exists>g'. rte_port_ring_writer_tx (rte_pktmbuf_free (\<lambda>_. True) 1) 0 8 host_mem = Inr g' \<and>
     mem_owned given_back g' = {#5, 8#}"
  using ring_writer_conserves [OF host_mem_ok, of 0 8] host_mem_owned
  by (auto simp: add_mset_commute)

text \<open>Closing a writer loses no packet: \<open>rte_port_ring_writer_free\<close> first sends what is still
  buffered, so afterwards every packet is in a ring, in another port's buffer or in the pool.\<close>

theorem ring_writer_free_conserves:
  assumes "mem_ok (simple_segs outside) g" and "h < length (writers g)" and "writers g ! h = Some p"
  shows "\<exists>g'. rte_port_ring_writer_free (rte_pktmbuf_free outside (Suc fuel)) (Some h) g = Inr (0, g') \<and>
    mem_ok (simple_segs outside) g' \<and> mem_owned given_back g' = mem_owned given_back g \<and>
    writers g' = (writers g)[h := None]"
  using host_pool.writer_free_law [OF assms, of fuel] by blast

theorem ring_writer_free_conserves_witness:
  "\<exists>g'. rte_port_ring_writer_free (rte_pktmbuf_free (\<lambda>_. True) 1) (Some 0) host_mem = Inr (0, g') \<and>
     mem_owned given_back g' = {#5#}"
  using ring_writer_free_conserves [OF host_mem_ok, of 0] host_mem_owned by auto

end
