(* ===== verification/Port_Sink.thy ===== *)
theory Port_Sink
  imports Port_Ring
begin

text \<open>
  Sink and source ports, src/Enclave/dpdk/librte_port/rte_port_source_sink.c. rte_config.h undefines
  \<open>RTE_PORT_PCAP\<close> and \<open>RTE_PORT_STATS_COLLECT\<close>: a sink frees what it is given, and nothing is dumped.
  A sink's memory is its statistics.
\<close>

section \<open>Sink\<close>

text \<open>\<open>rte_port_sink_create\<close>: \<open>alloc\<close> is the allocated block; the parameters are NULL or tell whether a
  file name is given, which this build refuses.\<close>

definition rte_port_sink_create ::
  "(u64 \<times> u64) option \<Rightarrow> bool option \<Rightarrow> ('m, 'x) port_mem \<Rightarrow> (nat option \<times> ('m, 'x) port_mem) res" where
  "rte_port_sink_create alloc file_name g =
     (case alloc of None \<Rightarrow> Inr (None, g)
      | Some st \<Rightarrow> if file_name = Some True then Inr (None, g)
                  else Inr (Some (length (sinks g)), g\<lparr>sinks := sinks g @ [Some st]\<rparr>))"

definition rte_port_sink_tx ::
  "('m \<Rightarrow> 'x \<Rightarrow> 'x res) \<Rightarrow> nat \<Rightarrow> 'm \<Rightarrow> ('m, 'x) port_mem \<Rightarrow> ('m, 'x) port_mem res" where
  "rte_port_sink_tx free h pkt g =
     rbind (at (sinks g) h) (\<lambda>_. rbind (free pkt (rest g)) (\<lambda>x. Inr (g\<lparr>rest := x\<rparr>)))"

text \<open>The loop of the bulk function's second branch, over the lowest set bit.\<close>

function sink_loop :: "('m \<Rightarrow> 'x \<Rightarrow> 'x res) \<Rightarrow> (nat \<Rightarrow> 'm) \<Rightarrow> u64 \<Rightarrow> 'x \<Rightarrow> 'x res" where
  "sink_loop free pk m x =
     (if m = 0 then Inr x
      else rbind (free (pk (ctz m)) x) (sink_loop free pk (m AND NOT (bit1 (ctz m)))))"
  by pat_completeness auto
termination
  by (relation "measure (\<lambda>(free, pk, m, x). length (bits_of m))") (use bits_of_Cons_ctz in fastforce)+

declare sink_loop.simps [simp del]

definition rte_port_sink_tx_bulk ::
  "('m \<Rightarrow> 'x \<Rightarrow> 'x res) \<Rightarrow> nat \<Rightarrow> (nat \<Rightarrow> 'm) \<Rightarrow> u64 \<Rightarrow> ('m, 'x) port_mem \<Rightarrow> ('m, 'x) port_mem res" where
  "rte_port_sink_tx_bulk free h pk m g =
     rbind (at (sinks g) h) (\<lambda>_.
     rbind (if m AND (m + 1) = 0 then rfold (\<lambda>i. free (pk i)) [0 ..< popcount m] (rest g)
            else sink_loop free pk m (rest g)) (\<lambda>x.
     Inr (g\<lparr>rest := x\<rparr>)))"

definition rte_port_sink_flush :: "nat option \<Rightarrow> ('m, 'x) port_mem \<Rightarrow> int \<times> ('m, 'x) port_mem" where
  "rte_port_sink_flush h g = (0, g)"

definition rte_port_sink_free :: "nat option \<Rightarrow> ('m, 'x) port_mem \<Rightarrow> int \<times> ('m, 'x) port_mem" where
  "rte_port_sink_free h g = (0, case h of None \<Rightarrow> g | Some h \<Rightarrow> g\<lparr>sinks := (sinks g)[h := None]\<rparr>)"

definition rte_port_sink_stats_read ::
  "nat \<Rightarrow> bool \<Rightarrow> ('m, 'x) port_mem \<Rightarrow> (int \<times> (u64 \<times> u64) \<times> ('m, 'x) port_mem) res" where
  "rte_port_sink_stats_read h clear g =
     rbind (at (sinks g) h) (\<lambda>st. Inr (0, st, if clear then g\<lparr>sinks := (sinks g)[h := Some (0, 0)]\<rparr> else g))"

section \<open>Source\<close>

text \<open>A source port: its statistics and what its block held where a loaded capture file would be; \<open>None\<close>
  is a NULL \<open>pkt_buff\<close>. The function that would load one is not compiled, so the field keeps what the
  allocator delivered.\<close>

record rte_port_source =
  src_stats :: "u64 \<times> u64"
  src_mempool :: nat
  src_pkts :: "u8 list list option"
  src_pkt_index :: nat

definition rte_port_source_create ::
  "rte_port_source option \<Rightarrow> (nat option \<times> bool) option \<Rightarrow> rte_port_source option" where
  "rte_port_source_create alloc params =
     (case params of None \<Rightarrow> None
      | Some (mempool, file_name) \<Rightarrow> (case mempool of None \<Rightarrow> None
      | Some mp \<Rightarrow> (case alloc of None \<Rightarrow> None
      | Some port \<Rightarrow> if file_name then None else Some (port\<lparr>src_mempool := mp\<rparr>))))"

text \<open>\<open>rte_port_source_rx\<close>: \<open>alloc_bulk\<close> is \<open>rte_pktmbuf_alloc_bulk\<close>, \<open>fill\<close> the copy of packet bytes and
  length into an mbuf.\<close>

definition rte_port_source_rx ::
  "(nat \<Rightarrow> nat \<Rightarrow> 'x \<Rightarrow> ('m list \<times> 'x) option) \<Rightarrow> ('m \<Rightarrow> u8 list \<Rightarrow> 'x \<Rightarrow> 'x) \<Rightarrow> nat \<Rightarrow> rte_port_source \<Rightarrow> 'x \<Rightarrow>
   ('m list \<times> rte_port_source \<times> 'x) res" where
  "rte_port_source_rx alloc_bulk fill n p x =
     (case alloc_bulk (src_mempool p) n x of None \<Rightarrow> Inr ([], p, x)
      | Some (ms, x) \<Rightarrow> (case src_pkts p of None \<Rightarrow> Inr (ms, p, x)
        | Some data \<Rightarrow>
            rbind (rfold (\<lambda>i (k, x). if k \<ge> length data then Inl OutOfBounds
                else Inr (if k + 1 \<ge> length data then 0 else k + 1, fill (ms ! i) (data ! k) x))
              [0 ..< n] (src_pkt_index p, x)) (\<lambda>(k, x).
            Inr (ms, p\<lparr>src_pkt_index := k\<rparr>, x))))"

definition rte_port_source_stats_read :: "bool \<Rightarrow> rte_port_source \<Rightarrow> int \<times> (u64 \<times> u64) \<times> rte_port_source" where
  "rte_port_source_stats_read clear p = (0, src_stats p, if clear then p\<lparr>src_stats := (0, 0)\<rparr> else p)"

section \<open>Operation tables\<close>

definition rte_port_sink_ops ::
  "('m \<Rightarrow> 'x \<Rightarrow> 'x res) \<Rightarrow> (('m, 'x) port_mem \<Rightarrow> (u64 \<times> u64) option) \<Rightarrow>
   (('m, 'x) port_mem, port_arg, nat, 'm) rte_port_out_ops" where
  "rte_port_sink_ops free alloc = \<lparr>
     po_create = Some (\<lambda>arg socket g. case arg of Sink_Arg f \<Rightarrow> rte_port_sink_create (alloc g) f g
       | Ring_Arg _ \<Rightarrow> Inl OutOfBounds),
     po_free = Some (\<lambda>h g. Inr (snd (rte_port_sink_free (Some h) g))),
     po_tx = Some (rte_port_sink_tx free), po_tx_bulk = Some (rte_port_sink_tx_bulk free),
     po_flush = Some (\<lambda>h g. Inr (snd (rte_port_sink_flush (Some h) g))), po_stats = Some rte_port_sink_stats_read\<rparr>"

section \<open>Laws\<close>

lemma sink_loop_eq: "sink_loop free pk m x = rfold (\<lambda>i. free (pk i)) (bits_of m) x"
proof (induction free pk m x rule: sink_loop.induct)
  case (1 free pk m x)
  show ?case
  proof (cases "m = 0")
    case True
    then show ?thesis by (subst sink_loop.simps) simp
  next
    case False
    then have "sink_loop free pk m x = rbind (free (pk (ctz m)) x) (sink_loop free pk (m AND NOT (bit1 (ctz m))))"
      by (subst sink_loop.simps) simp
    also have "\<dots> = rfold (\<lambda>i. free (pk i)) (bits_of m) x"
      unfolding bits_of_Cons_ctz [OF False] using 1 [OF False] by (auto intro: rbind_cong)
    finally show ?thesis .
  qed
qed

text \<open>Both branches of the sink's bulk function do the same: whatever the mask, the packets of its set
  bits are freed, each once and lowest first. On a contiguous mask the plain counting loop is used, on
  others the loop over the lowest set bit, which ends.\<close>

theorem sink_tx_bulk_frees_mask:
  "rte_port_sink_tx_bulk free h pk m g =
     rbind (at (sinks g) h) (\<lambda>_. rbind (rfold (\<lambda>i. free (pk i)) (bits_of m) (rest g)) (\<lambda>x. Inr (g\<lparr>rest := x\<rparr>)))"
  by (simp add: rte_port_sink_tx_bulk_def sink_loop_eq contiguous_bits_of)

context mbuf_pool
begin

lemma sink_tx_law:
  assumes "mem_ok ok g" and "h < length (sinks g)" and "sinks g ! h = Some st"
  shows "\<exists>g'. rte_port_sink_tx free h pkt g = Inr g' \<and> mem_ok ok g' \<and>
    mem_owned pool g' = add_mset pkt (mem_owned pool g) \<and> readers g' = readers g \<and> writers g' = writers g \<and> sinks g' = sinks g"
  using free_law [of "rest g" pkt] assms by (auto simp: rte_port_sink_tx_def at_def mem_ok_def mem_owned_def)

lemma sink_tx_bulk_law:
  assumes "mem_ok ok g" and "h < length (sinks g)" and "sinks g ! h = Some st"
  shows "\<exists>g'. rte_port_sink_tx_bulk free h pk m g = Inr g' \<and> mem_ok ok g' \<and>
    mem_owned pool g' = mem_owned pool g + mset (map pk (bits_of m)) \<and> readers g' = readers g \<and>
    writers g' = writers g \<and> sinks g' = sinks g"
proof -
  have r: "rte_port_sink_tx_bulk free h pk m g =
      rbind (rfold (\<lambda>i. free (pk i)) (bits_of m) (rest g)) (\<lambda>x. Inr (g\<lparr>rest := x\<rparr>))"
    using assms(2,3) by (simp add: rte_port_sink_tx_bulk_def sink_loop_eq contiguous_bits_of at_def)
  obtain x where x: "rfold (\<lambda>i. free (pk i)) (bits_of m) (rest g) = Inr x" "ok x"
      "pool x = pool (rest g) + mset (map pk (bits_of m))"
    using free_all [of "rest g" pk "bits_of m"] assms(1) by (auto simp: mem_ok_def)
  show ?thesis unfolding r x(1) using x(2,3) assms(1) by (simp add: mem_ok_def mem_owned_def add.assoc)
qed

end

end
