(* ===== verification/Acl.thy ===== *)
theory Acl
  imports Prelude
begin

text \<open>
  ACL contexts, src/Enclave/dpdk/librte_acl/rte_acl.c: the registry of contexts by name, and the rules
  collected in a context before it is built. A context is identified by a number (its address). What
  \<open>rte_acl_build\<close> compiles the rules to, and what \<open>rte_acl_classify\<close> computes with it, is the record
  \<open>acl_lib\<close> of parameters: the run-time structure has type \<open>'rt\<close>, packet data type \<open>'d\<close>.
\<close>

section \<open>Rules and contexts\<close>

text \<open>\<open>struct rte_acl_field\<close>: the two unions as their 64 bits.\<close>

record rte_acl_field =
  af_value :: u64
  af_mask_range :: u64

record rte_acl_rule =
  ar_category_mask :: u32
  ar_priority :: int
  ar_userdata :: nat
  ar_field :: "rte_acl_field list"

abbreviation (input) RTE_ACL_MAX_PRIORITY :: int where "RTE_ACL_MAX_PRIORITY \<equiv> 536870911"
abbreviation (input) RTE_ACL_MIN_PRIORITY :: int where "RTE_ACL_MIN_PRIORITY \<equiv> 0"
abbreviation (input) RTE_ACL_MAX_FIELDS :: nat where "RTE_ACL_MAX_FIELDS \<equiv> 64"
abbreviation (input) RTE_ACL_NAMESIZE :: nat where "RTE_ACL_NAMESIZE \<equiv> 32"

text \<open>A context: \<open>num_rules\<close> and the memory for \<open>max_rules\<close> rules behind the structure; \<open>ctx_rt\<close> is
  the built run-time structure, None before \<open>rte_acl_build\<close>.\<close>

record 'rt rte_acl_ctx =
  ctx_name :: string
  ctx_max_rules :: nat
  ctx_rule_sz :: nat
  ctx_num_rules :: nat
  ctx_mem :: "rte_acl_rule list"
  ctx_rt :: "'rt option"

record 'rt acl_heap =
  ctxs :: "(nat \<times> 'rt rte_acl_ctx) list"
  fresh :: nat

record rte_acl_param =
  par_name :: string
  par_rule_size :: nat
  par_max_rule_num :: nat

record ('cfg, 'rt, 'd) acl_lib =
  al_build :: "rte_acl_rule list \<Rightarrow> 'cfg \<Rightarrow> 'rt option"
  al_classify :: "'rt \<Rightarrow> 'd \<Rightarrow> nat"

section \<open>Operations\<close>

definition ctx_at :: "'rt acl_heap \<Rightarrow> nat \<Rightarrow> 'rt rte_acl_ctx option" where
  "ctx_at hp c = map_of (ctxs hp) c"

definition ctx_set :: "nat \<Rightarrow> 'rt rte_acl_ctx \<Rightarrow> 'rt acl_heap \<Rightarrow> 'rt acl_heap" where
  "ctx_set c x hp = hp\<lparr>ctxs := map (\<lambda>(i, y). if i = c then (i, x) else (i, y)) (ctxs hp)\<rparr>"

text \<open>\<open>strncmp\<close> over the whole name array: names hold at most 31 characters.\<close>

definition rte_acl_find_existing :: "string \<Rightarrow> 'rt acl_heap \<Rightarrow> nat option" where
  "rte_acl_find_existing name hp =
     map_option fst (List.find (\<lambda>(i, x). take RTE_ACL_NAMESIZE name = ctx_name x) (ctxs hp))"

definition rte_acl_free :: "nat option \<Rightarrow> 'rt acl_heap \<Rightarrow> 'rt acl_heap" where
  "rte_acl_free c hp = (case c of None \<Rightarrow> hp | Some c \<Rightarrow> hp\<lparr>ctxs := filter (\<lambda>(i, _). i \<noteq> c) (ctxs hp)\<rparr>)"

text \<open>
  \<open>rte_acl_create\<close>. An existing context of the same name is returned as it is. \<open>alloc\<close> is what the
  allocator delivered for a new one, None when it (or the list entry) could not be allocated: the
  number of rules and the rule memory that the block happens to hold, since the function stores
  neither and relies on zeroed memory.
\<close>

definition rte_acl_create ::
  "(nat \<times> rte_acl_rule list) option \<Rightarrow> rte_acl_param \<Rightarrow> 'rt acl_heap \<Rightarrow> nat option \<times> 'rt acl_heap" where
  "rte_acl_create alloc par hp =
     (case List.find (\<lambda>(i, x). take RTE_ACL_NAMESIZE (par_name par) = ctx_name x) (ctxs hp) of
        Some (i, _) \<Rightarrow> (Some i, hp)
      | None \<Rightarrow> (case alloc of None \<Rightarrow> (None, hp)
        | Some (n, mem) \<Rightarrow>
            (Some (fresh hp), hp\<lparr>fresh := fresh hp + 1, ctxs := ctxs hp @ [(fresh hp,
               \<lparr>ctx_name = take (RTE_ACL_NAMESIZE - 1) (par_name par), ctx_max_rules = par_max_rule_num par,
                ctx_rule_sz = par_rule_size par, ctx_num_rules = n, ctx_mem = mem, ctx_rt = None\<rparr>)]\<rparr>)))"

definition acl_check_rule :: "rte_acl_rule \<Rightarrow> int" where
  "acl_check_rule r =
     (if ar_category_mask r AND 0xFFFF = 0 \<or> ar_priority r > RTE_ACL_MAX_PRIORITY \<or>
         ar_priority r < RTE_ACL_MIN_PRIORITY
      then - EINVAL else 0)"

definition acl_add_rules :: "rte_acl_rule list \<Rightarrow> 'rt rte_acl_ctx \<Rightarrow> int \<times> 'rt rte_acl_ctx" where
  "acl_add_rules rules x =
     (if length rules + ctx_num_rules x > ctx_max_rules x then (- ENOMEM, x)
      else (0, x\<lparr>ctx_mem := take (ctx_num_rules x) (ctx_mem x) @ rules @
                   drop (ctx_num_rules x + length rules) (ctx_mem x),
                 ctx_num_rules := ctx_num_rules x + length rules\<rparr>))"

definition rte_acl_add_rules :: "rte_acl_rule list \<Rightarrow> 'rt rte_acl_ctx \<Rightarrow> int \<times> 'rt rte_acl_ctx" where
  "rte_acl_add_rules rules x =
     (if ctx_rule_sz x = 0 then (- EINVAL, x)
      else case List.find (\<lambda>r. acl_check_rule r \<noteq> 0) rules of
        Some r \<Rightarrow> (acl_check_rule r, x)
      | None \<Rightarrow> acl_add_rules rules x)"

definition rte_acl_reset_rules :: "'rt rte_acl_ctx \<Rightarrow> 'rt rte_acl_ctx" where
  "rte_acl_reset_rules x = x\<lparr>ctx_num_rules := 0\<rparr>"

text \<open>\<open>rte_acl_build\<close> compiles the first \<open>num_rules\<close> rules of the memory. Its callers only test the
  status for zero; \<open>-EINVAL\<close> stands for every error code.\<close>

definition rte_acl_build ::
  "('cfg, 'rt, 'd) acl_lib \<Rightarrow> 'cfg \<Rightarrow> 'rt rte_acl_ctx \<Rightarrow> int \<times> 'rt rte_acl_ctx" where
  "rte_acl_build lib cfg x =
     (case al_build lib (take (ctx_num_rules x) (ctx_mem x)) cfg of
        None \<Rightarrow> (- EINVAL, x\<lparr>ctx_rt := None\<rparr>) | Some rt \<Rightarrow> (0, x\<lparr>ctx_rt := Some rt\<rparr>))"

section \<open>Laws\<close>

lemma ctx_at_set: "ctx_at hp c = Some y \<Longrightarrow> ctx_at (ctx_set c x hp) d = (if d = c then Some x else ctx_at hp d)"
proof -
  have "map_of (map (\<lambda>(i, y). if i = c then (i, x) else (i, y)) xs) d =
      (if d = c then map_option (\<lambda>_. x) (map_of xs c) else map_of xs d)" for xs
    by (induction xs) auto
  then show "ctx_at hp c = Some y \<Longrightarrow> ?thesis" by (simp add: ctx_at_def ctx_set_def)
qed

lemma ctx_at_free:
  fixes hp :: "'a acl_heap"
  shows "ctx_at (rte_acl_free (Some c) hp) d = (if d = c then None else ctx_at hp d)"
proof -
  have "map_of (filter (\<lambda>(i, _). i \<noteq> c) xs) d = (if d = c then None else map_of xs d)"
    for xs :: "(nat \<times> 'a rte_acl_ctx) list"
    by (induction xs) auto
  then show ?thesis by (simp add: ctx_at_def rte_acl_free_def)
qed

lemma rte_acl_add_rules_ok:
  "rte_acl_add_rules rules x = (0, y) \<longleftrightarrow> ctx_rule_sz x \<noteq> 0 \<and> (\<forall>r\<in>set rules. acl_check_rule r = 0) \<and>
     acl_add_rules rules x = (0, y)"
  by (auto simp: rte_acl_add_rules_def find_Some_iff find_None_iff split: option.splits)

lemma add_rules_mem:
  assumes "rte_acl_add_rules rules x = (0, y)" and "length (ctx_mem x) = ctx_max_rules x"
  shows "take (ctx_num_rules y) (ctx_mem y) = take (ctx_num_rules x) (ctx_mem x) @ rules"
    and "length (ctx_mem y) = ctx_max_rules y" and "ctx_max_rules y = ctx_max_rules x"
    and "ctx_num_rules y = ctx_num_rules x + length rules" and "ctx_rule_sz y = ctx_rule_sz x"
    and "ctx_name y = ctx_name x" and "ctx_num_rules y \<le> ctx_max_rules y"
  using assms by (auto simp: rte_acl_add_rules_ok acl_add_rules_def split: if_splits)

end
