(* ===== verification/Table_Acl.thy ===== *)
theory Table_Acl
  imports Acl Pipeline
begin

text \<open>
  The ACL table of the packet framework, src/Enclave/dpdk/librte_table/rte_table_acl.c. A pointer in
  \<open>acl_rule_list\<close> is NULL or points to the rule memory of its own position, so the list holds the rules
  themselves; the action table holds the table entries. Position 0 is never used, because 0 is the
  classifier's answer for no match. The functions work on the table and on the heap of ACL contexts;
  \<open>alloc\<close> is the block that the allocator delivers for a new context.
\<close>

section \<open>The table\<close>

record 'cfg rte_table_acl =
  acl_stats :: "u64 \<times> u64"
  acl_name0 :: string
  acl_name1 :: string
  acl_name_id :: bool
  acl_cfg :: 'cfg
  acl_num_fields :: nat
  acl_ctx :: "nat option"
  acl_n_rules :: nat
  acl_entry_size :: nat
  acl_rule_size :: nat
  acl_rule_list :: "rte_acl_rule option list"
  acl_action_table :: "rte_pipeline_table_entry list"

record 'cfg rte_table_acl_params =
  tap_name :: "string option"
  tap_n_rules :: nat
  tap_n_rule_fields :: nat
  tap_field_format :: 'cfg

text \<open>The rule of an add request: its priority (0 is the highest) and its field values.\<close>

record rte_table_acl_rule_add_params =
  rap_priority :: int
  rap_field_value :: "rte_acl_field list"

text \<open>The sizes of the parts of the table, computed in 32 bits (\<open>RTE_ACL_RULE_SZ\<close> is 16 bytes of data
  and 16 per field).\<close>

definition cache_line_roundup :: "u32 \<Rightarrow> u32" where
  "cache_line_roundup x = (x + 63) AND NOT 63"

definition acl_table_sizes :: "u32 \<Rightarrow> u32 \<Rightarrow> u32 \<Rightarrow> u32 \<times> u32 \<times> u32" where
  "acl_table_sizes n_rules entry_size n_fields =
     (cache_line_roundup (n_rules * entry_size), cache_line_roundup (n_rules * 8),
      cache_line_roundup (n_rules * (16 + 16 * n_fields)))"

text \<open>\<open>rte_table_acl_create\<close>: \<open>alloc\<close> is the content of the allocated block: its rule list, its action
  table and its statistics.\<close>

definition rte_table_acl_create ::
  "(rte_acl_rule option list \<times> rte_pipeline_table_entry list \<times> u64 \<times> u64) option \<Rightarrow>
   'cfg rte_table_acl_params option \<Rightarrow> nat \<Rightarrow> 'cfg rte_table_acl option" where
  "rte_table_acl_create alloc params entry_size =
     (case params of None \<Rightarrow> None
      | Some p \<Rightarrow> (case tap_name p of None \<Rightarrow> None
      | Some name \<Rightarrow>
          if tap_n_rules p = 0 then None
          else if tap_n_rule_fields p = 0 \<or> tap_n_rule_fields p > RTE_ACL_MAX_FIELDS then None
          else case alloc of None \<Rightarrow> None
          | Some (rules, actions, stats) \<Rightarrow>
              Some \<lparr>acl_stats = stats, acl_name0 = take (RTE_ACL_NAMESIZE - 1) (name @ ''_a''),
                acl_name1 = take (RTE_ACL_NAMESIZE - 1) (name @ ''_b''), acl_name_id = True,
                acl_cfg = tap_field_format p, acl_num_fields = tap_n_rule_fields p, acl_ctx = None,
                acl_n_rules = tap_n_rules p, acl_entry_size = (entry_size + 7) div 8 * 8,
                acl_rule_size = 16 + 16 * tap_n_rule_fields p,
                acl_rule_list = rules, acl_action_table = actions\<rparr>))"

definition rte_table_acl_free :: "'cfg rte_table_acl option \<Rightarrow> 'rt acl_heap \<Rightarrow> int \<times> 'rt acl_heap" where
  "rte_table_acl_free acl hp = (case acl of None \<Rightarrow> (- EINVAL, hp) | Some acl \<Rightarrow> (0, rte_acl_free (acl_ctx acl) hp))"

definition acl_params :: "'cfg rte_table_acl \<Rightarrow> rte_acl_param" where
  "acl_params acl = \<lparr>par_name = (if acl_name_id acl then acl_name1 acl else acl_name0 acl),
     par_rule_size = acl_rule_size acl, par_max_rule_num = acl_n_rules acl\<rparr>"

text \<open>The loop of \<open>rte_table_acl_build\<close> that adds the rules one by one.\<close>

primrec add_all :: "rte_acl_rule option list \<Rightarrow> nat \<Rightarrow> 'rt rte_acl_ctx \<Rightarrow> (nat \<times> 'rt rte_acl_ctx) option" where
  "add_all [] n x = Some (n, x)"
| "add_all (r # rs) n x =
     (case r of None \<Rightarrow> add_all rs n x
      | Some r \<Rightarrow> (case rte_acl_add_rules [r] x of (status, x) \<Rightarrow>
          if status \<noteq> 0 then None else add_all rs (n + 1) x))"

text \<open>\<open>rte_table_acl_build\<close>: None for the status -1, and otherwise what it stored in \<open>*acl_ctx\<close>.\<close>

definition rte_table_acl_build ::
  "('cfg, 'rt, 'd) acl_lib \<Rightarrow> (nat \<times> rte_acl_rule list) option \<Rightarrow> 'cfg rte_table_acl \<Rightarrow> 'rt acl_heap \<Rightarrow>
   nat option option \<times> 'rt acl_heap" where
  "rte_table_acl_build lib alloc acl hp =
     (case rte_acl_create alloc (acl_params acl) hp of
        (None, hp) \<Rightarrow> (None, hp)
      | (Some c, hp) \<Rightarrow>
          (case add_all (drop 1 (take (acl_n_rules acl) (acl_rule_list acl))) 0 (the (ctx_at hp c)) of
             None \<Rightarrow> (None, rte_acl_free (Some c) hp)
           | Some (n_rules, x) \<Rightarrow>
               if n_rules = 0 then (Some None, rte_acl_free (Some c) hp)
               else (case rte_acl_build lib (acl_cfg acl) x of (status, x) \<Rightarrow>
                 if status \<noteq> 0 then (None, rte_acl_free (Some c) (ctx_set c x hp))
                 else (Some (Some c), ctx_set c x hp))))"

section \<open>Adding and deleting one rule\<close>

text \<open>The search loop: the first position whose rule has the key, else the first free position.\<close>

fun acl_search ::
  "rte_acl_field list \<Rightarrow> rte_acl_rule option list \<Rightarrow> nat \<Rightarrow> nat option \<Rightarrow> nat + nat option" where
  "acl_search key [] i free = Inr free"
| "acl_search key (None # rs) i free = acl_search key rs (i + 1) (if free = None then Some i else free)"
| "acl_search key (Some r # rs) i free =
     (if ar_field r = key then Inl i else acl_search key rs (i + 1) free)"

definition table_search where
  "table_search acl key = acl_search key (drop 1 (take (acl_n_rules acl) (acl_rule_list acl))) 1 None"

definition rule_key :: "'cfg rte_table_acl \<Rightarrow> rte_acl_field list \<Rightarrow> rte_acl_field list" where
  "rule_key acl fv = take (acl_num_fields acl) fv"

text \<open>
  The priority of the new rule. The C code subtracts in 32 bits, which overflows for priorities below
  -1610612736; the compilers' wrapped value is negative, so that the rule is refused by \<open>acl_check_rule\<close> as it is
  with the exact value here, which is then larger than \<open>RTE_ACL_MAX_PRIORITY\<close>.
\<close>

definition new_rule :: "'cfg rte_table_acl \<Rightarrow> rte_table_acl_rule_add_params \<Rightarrow> nat \<Rightarrow> rte_acl_rule" where
  "new_rule acl rule pos = \<lparr>ar_category_mask = 1, ar_priority = RTE_ACL_MAX_PRIORITY - rap_priority rule,
     ar_userdata = pos, ar_field = rule_key acl (rap_field_value rule)\<rparr>"

definition set_entry :: "nat \<Rightarrow> rte_pipeline_table_entry \<Rightarrow> 'cfg rte_table_acl \<Rightarrow> 'cfg rte_table_acl" where
  "set_entry pos e acl = acl\<lparr>acl_action_table := (acl_action_table acl)[pos := e]\<rparr>"

definition set_rule :: "nat \<Rightarrow> rte_acl_rule option \<Rightarrow> 'cfg rte_table_acl \<Rightarrow> 'cfg rte_table_acl" where
  "set_rule pos r acl = acl\<lparr>acl_rule_list := (acl_rule_list acl)[pos := r]\<rparr>"

definition flip_name :: "'cfg rte_table_acl \<Rightarrow> 'cfg rte_table_acl" where
  "flip_name acl = acl\<lparr>acl_name_id := \<not> acl_name_id acl\<rparr>"

text \<open>
  \<open>rte_table_acl_entry_add\<close>: the status, and where it stored them, whether the key was found and the
  position of the entry.
\<close>

definition rte_table_acl_entry_add ::
  "('cfg, 'rt, 'd) acl_lib \<Rightarrow> (nat \<times> rte_acl_rule list) option \<Rightarrow> 'cfg rte_table_acl option \<Rightarrow>
   rte_table_acl_rule_add_params option \<Rightarrow> rte_pipeline_table_entry option \<Rightarrow> 'rt acl_heap \<Rightarrow>
   int \<times> (bool \<times> nat) option \<times> 'cfg rte_table_acl option \<times> 'rt acl_heap" where
  "rte_table_acl_entry_add lib alloc table key entry hp =
     (case table of None \<Rightarrow> (- EINVAL, None, table, hp)
      | Some acl \<Rightarrow> (case key of None \<Rightarrow> (- EINVAL, None, table, hp)
      | Some rule \<Rightarrow> (case entry of None \<Rightarrow> (- EINVAL, None, table, hp)
      | Some e \<Rightarrow>
          if rap_priority rule > RTE_ACL_MAX_PRIORITY then (- EINVAL, None, table, hp)
          else case table_search acl (rule_key acl (rap_field_value rule)) of
            Inl i \<Rightarrow> (0, Some (True, i), Some (set_entry i e acl), hp)
          | Inr None \<Rightarrow> (- ENOSPC, None, table, hp)
          | Inr (Some free_pos) \<Rightarrow>
              let acl' = flip_name (set_rule free_pos (Some (new_rule acl rule free_pos)) acl) in
              (case rte_table_acl_build lib alloc acl' hp of
                 (None, hp) \<Rightarrow> (- EINVAL, None, Some (flip_name (set_rule free_pos None acl')), hp)
               | (Some c, hp) \<Rightarrow>
                   (0, Some (False, free_pos), Some (set_entry free_pos e (acl'\<lparr>acl_ctx := c\<rparr>)),
                    rte_acl_free (acl_ctx acl) hp)))))"

text \<open>The search loop of the deletion goes on after a match.\<close>

definition delete_search ::
  "rte_acl_field list \<Rightarrow> 'cfg rte_table_acl \<Rightarrow> (nat \<times> rte_acl_rule) option \<times> 'cfg rte_table_acl" where
  "delete_search key acl = fold (\<lambda>i (hit, acl). case acl_rule_list acl ! i of
       None \<Rightarrow> (hit, acl)
     | Some r \<Rightarrow> if ar_field r = key then (Some (i, r), set_rule i None acl) else (hit, acl))
     [1 ..< acl_n_rules acl] (None, acl)"

definition rte_table_acl_entry_delete ::
  "('cfg, 'rt, 'd) acl_lib \<Rightarrow> (nat \<times> rte_acl_rule list) option \<Rightarrow> 'cfg rte_table_acl option \<Rightarrow>
   rte_acl_field list option \<Rightarrow> 'rt acl_heap \<Rightarrow>
   int \<times> (bool \<times> rte_pipeline_table_entry option) option \<times> 'cfg rte_table_acl option \<times> 'rt acl_heap" where
  "rte_table_acl_entry_delete lib alloc table key hp =
     (case table of None \<Rightarrow> (- EINVAL, None, table, hp)
      | Some acl \<Rightarrow> (case key of None \<Rightarrow> (- EINVAL, None, table, hp)
      | Some fv \<Rightarrow>
          (case delete_search (rule_key acl fv) acl of
             (None, acl) \<Rightarrow> (0, Some (False, None), Some acl, hp)
           | (Some (pos, r), acl1) \<Rightarrow>
               let acl' = flip_name acl1 in
               (case rte_table_acl_build lib alloc acl' hp of
                  (None, hp) \<Rightarrow> (- EINVAL, None, Some (flip_name (set_rule pos (Some r) acl')), hp)
                | (Some c, hp) \<Rightarrow> (0, Some (True, Some (acl_action_table acl ! pos)),
                     Some (acl'\<lparr>acl_ctx := c\<rparr>), rte_acl_free (acl_ctx acl) hp)))))"

section \<open>Bulk operations\<close>

text \<open>
  The loop of \<open>rte_table_acl_entry_add_bulk\<close> over the keys. Its state is the table, the arrays
  \<open>key_found\<close> and \<open>entries_ptr\<close>, and \<open>rule_pos\<close> (0 where no rule was added; \<open>build\<close> is set exactly
  when some position is not 0). The flag is \<open>err\<close>: no free position was left.
\<close>

fun add_bulk_loop ::
  "(rte_table_acl_rule_add_params \<times> rte_pipeline_table_entry) list \<Rightarrow> nat \<Rightarrow>
   'cfg rte_table_acl \<times> bool list \<times> nat option list \<times> nat list \<Rightarrow>
   bool \<times> 'cfg rte_table_acl \<times> bool list \<times> nat option list \<times> nat list" where
  "add_bulk_loop [] i s = (False, s)"
| "add_bulk_loop ((rule, e) # rest) i (acl, key_found, ptrs, rule_pos) =
     (case table_search acl (rule_key acl (rap_field_value rule)) of
        Inl j \<Rightarrow> add_bulk_loop rest (i + 1) (set_entry j e acl, key_found[i := True], ptrs[i := Some j], rule_pos)
      | Inr None \<Rightarrow> (True, acl, key_found, ptrs, rule_pos)
      | Inr (Some free_pos) \<Rightarrow> add_bulk_loop rest (i + 1)
          (set_rule free_pos (Some (new_rule acl rule free_pos)) acl, key_found, ptrs, rule_pos[i := free_pos]))"

definition clear_rules :: "nat list \<Rightarrow> 'cfg rte_table_acl \<Rightarrow> 'cfg rte_table_acl" where
  "clear_rules rule_pos acl = fold (\<lambda>j acl. if j = 0 then acl else set_rule j None acl) rule_pos acl"

text \<open>The loop that commits the entries of the new rules.\<close>

definition commit_entries ::
  "rte_pipeline_table_entry list \<Rightarrow> nat list \<Rightarrow> bool list \<Rightarrow> nat option list \<Rightarrow> 'cfg rte_table_acl \<Rightarrow>
   bool list \<times> nat option list \<times> 'cfg rte_table_acl" where
  "commit_entries es rule_pos key_found ptrs acl =
     fold (\<lambda>i (key_found, ptrs, acl). if rule_pos ! i = 0 then (key_found, ptrs, acl)
        else (key_found[i := False], ptrs[i := Some (rule_pos ! i)], set_entry (rule_pos ! i) (es ! i) acl))
       [0 ..< length rule_pos] (key_found, ptrs, acl)"

definition bulk_arg_bad ::
  "rte_table_acl_rule_add_params option \<times> rte_pipeline_table_entry option \<times> nat option \<Rightarrow> bool" where
  "bulk_arg_bad = (\<lambda>(k, e, ptr). k = None \<or> e = None \<or> ptr = None \<or> rap_priority (the k) > RTE_ACL_MAX_PRIORITY)"

definition rte_table_acl_entry_add_bulk ::
  "('cfg, 'rt, 'd) acl_lib \<Rightarrow> (nat \<times> rte_acl_rule list) option \<Rightarrow> 'cfg rte_table_acl option \<Rightarrow>
   rte_table_acl_rule_add_params option list \<Rightarrow> rte_pipeline_table_entry option list \<Rightarrow> bool list \<Rightarrow>
   nat option list \<Rightarrow> 'rt acl_heap \<Rightarrow>
   int \<times> bool list \<times> nat option list \<times> 'cfg rte_table_acl option \<times> 'rt acl_heap" where
  "rte_table_acl_entry_add_bulk lib alloc table keys ents key_found ptrs hp =
     (case table of None \<Rightarrow> (- EINVAL, key_found, ptrs, table, hp)
      | Some acl \<Rightarrow>
          if length keys = 0 then (- EINVAL, key_found, ptrs, table, hp)
          else if list_ex bulk_arg_bad (zip keys (zip ents ptrs)) then (- EINVAL, key_found, ptrs, table, hp)
          else let n_keys = length keys in
            (case add_bulk_loop (zip (map the keys) (map the ents)) 0
                    (acl, replicate n_keys False, ptrs, replicate n_keys 0) of
               (err, acl1, key_found, ptrs, rule_pos) \<Rightarrow>
                 if err then (- ENOSPC, key_found, ptrs, Some (clear_rules rule_pos acl1), hp)
                 else if list_all (\<lambda>j. j = 0) rule_pos then (0, key_found, ptrs, Some acl1, hp)
                 else let acl' = flip_name acl1 in
                   (case rte_table_acl_build lib alloc acl' hp of
                      (None, hp) \<Rightarrow> (- EINVAL, key_found, ptrs, Some (flip_name (clear_rules rule_pos acl')), hp)
                    | (Some c, hp) \<Rightarrow>
                        (case commit_entries (map the ents) rule_pos key_found ptrs (acl'\<lparr>acl_ctx := c\<rparr>) of
                           (key_found, ptrs, acl') \<Rightarrow>
                             (0, key_found, ptrs, Some acl', rte_acl_free (acl_ctx acl) hp)))))"

text \<open>
  The loop of \<open>rte_table_acl_entry_delete_bulk\<close> collects the positions and rules it removes
  (\<open>rule_pos\<close>, \<open>deleted_rules\<close>; None is position 0). Its only caller passes NULL for \<open>entries\<close>.
\<close>

fun delete_bulk_loop ::
  "rte_acl_field list list \<Rightarrow> nat \<Rightarrow> bool list \<Rightarrow> 'cfg rte_table_acl \<Rightarrow>
   (nat \<times> rte_acl_rule) option list \<times> bool list \<times> 'cfg rte_table_acl" where
  "delete_bulk_loop [] i key_found acl = ([], key_found, acl)"
| "delete_bulk_loop (k # ks) i key_found acl =
     (case delete_search (rule_key acl k) acl of (hit, acl) \<Rightarrow>
        (case delete_bulk_loop ks (i + 1) (if hit = None then key_found[i := False] else key_found) acl of
           (hits, key_found, acl) \<Rightarrow> (hit # hits, key_found, acl)))"

definition restore_rules :: "(nat \<times> rte_acl_rule) option list \<Rightarrow> 'cfg rte_table_acl \<Rightarrow> 'cfg rte_table_acl" where
  "restore_rules hits acl =
     fold (\<lambda>hit acl. case hit of None \<Rightarrow> acl | Some (j, r) \<Rightarrow> set_rule j (Some r) acl) hits acl"

definition rte_table_acl_entry_delete_bulk ::
  "('cfg, 'rt, 'd) acl_lib \<Rightarrow> (nat \<times> rte_acl_rule list) option \<Rightarrow> 'cfg rte_table_acl option \<Rightarrow>
   rte_acl_field list option list \<Rightarrow> bool list \<Rightarrow> 'rt acl_heap \<Rightarrow>
   int \<times> bool list \<times> 'cfg rte_table_acl option \<times> 'rt acl_heap" where
  "rte_table_acl_entry_delete_bulk lib alloc table keys key_found hp =
     (case table of None \<Rightarrow> (- EINVAL, key_found, table, hp)
      | Some acl \<Rightarrow>
          if length keys = 0 then (- EINVAL, key_found, table, hp)
          else if list_ex (\<lambda>k. k = None) keys then (- EINVAL, key_found, table, hp)
          else (case delete_bulk_loop (map the keys) 0 key_found acl of
            (hits, key_found, acl1) \<Rightarrow>
              if list_all (\<lambda>h. h = None) hits then (0, key_found, Some acl1, hp)
              else let acl' = flip_name acl1 in
                (case rte_table_acl_build lib alloc acl' hp of
                   (None, hp) \<Rightarrow> (- EINVAL, key_found, Some (flip_name (restore_rules hits acl')), hp)
                 | (Some c, hp) \<Rightarrow>
                     (0, map (\<lambda>(h, kf). if h = None then kf else True) (zip hits key_found),
                      Some (acl'\<lparr>acl_ctx := c\<rparr>), rte_acl_free (acl_ctx acl) hp))))"

section \<open>Lookup\<close>

text \<open>
  \<open>rte_table_acl_lookup\<close>: \<open>mtod\<close> is the packet data behind an mbuf. The first loop collects the data
  of the packets under the mask, the second one takes the results from the lowest packet on.
\<close>

fun acl_results ::
  "'cfg rte_table_acl \<Rightarrow> nat list \<Rightarrow> u64 \<Rightarrow> u64 \<Rightarrow> (nat \<Rightarrow> rte_pipeline_table_entry option) \<Rightarrow>
   (u64 \<times> (nat \<Rightarrow> rte_pipeline_table_entry option)) res" where
  "acl_results acl [] mk out ents = Inr (out, ents)"
| "acl_results acl (pos # rs) mk out ents =
     (let i = ctz mk; mk = mk AND NOT (bit1 i) in
      if pos = 0 then acl_results acl rs mk out ents
      else if pos \<ge> length (acl_action_table acl) then Inl OutOfBounds
      else acl_results acl rs mk (out OR bit1 i) (ents(i := Some (acl_action_table acl ! pos))))"

definition rte_table_acl_lookup ::
  "('cfg, 'rt, 'd) acl_lib \<Rightarrow> ('m \<Rightarrow> 'd) \<Rightarrow> 'cfg rte_table_acl \<Rightarrow> 'rt acl_heap \<Rightarrow> (nat \<Rightarrow> 'm) \<Rightarrow> u64 \<Rightarrow>
   (nat \<Rightarrow> rte_pipeline_table_entry option) \<Rightarrow> (u64 \<times> (nat \<Rightarrow> rte_pipeline_table_entry option)) res" where
  "rte_table_acl_lookup lib mtod acl hp pk mk ents =
     (let pkts_data = map (\<lambda>i. mtod (pk i)) (filter (bit mk) [0 ..< 64 - clz mk]) in
      case acl_ctx acl of None \<Rightarrow> acl_results acl [] mk 0 ents
      | Some c \<Rightarrow> (case Option.bind (ctx_at hp c) ctx_rt of None \<Rightarrow> Inl NullDeref
        | Some rt \<Rightarrow> acl_results acl (map (al_classify lib rt) pkts_data) mk 0 ents))"

definition rte_table_acl_stats_read :: "bool \<Rightarrow> 'cfg rte_table_acl \<Rightarrow> int \<times> (u64 \<times> u64) \<times> 'cfg rte_table_acl" where
  "rte_table_acl_stats_read clear acl =
     (0, acl_stats acl, if clear then acl\<lparr>acl_stats := (0, 0)\<rparr> else acl)"

end
