(* ===== verification/Table_Acl_Correct.thy ===== *)
theory Table_Acl_Correct
  imports Table_Acl
begin

text \<open>
  The ACL table implements a finite map from keys to a priority and an entry. The invariant says that
  positions, user data and keys agree, and that the live ACL context is the one built from exactly the
  rules of the table. Adding and deleting change the map as specified or leave table and contexts as
  they were; a lookup returns the entry of the best rule that matches.
\<close>

section \<open>Invariant and abstraction\<close>

definition cur_name :: "'cfg rte_table_acl \<Rightarrow> string" where
  "cur_name acl = (if acl_name_id acl then acl_name1 acl else acl_name0 acl)"

definition active :: "'cfg rte_table_acl \<Rightarrow> rte_acl_rule list" where
  "active acl = map the (filter (\<lambda>r. r \<noteq> None) (drop 1 (acl_rule_list acl)))"

definition rule_in :: "'cfg rte_table_acl \<Rightarrow> nat \<Rightarrow> rte_acl_rule \<Rightarrow> bool" where
  "rule_in acl i r \<longleftrightarrow> 1 \<le> i \<and> i < acl_n_rules acl \<and> acl_rule_list acl ! i = Some r"

definition acl_ok :: "'cfg rte_table_acl \<Rightarrow> bool" where
  "acl_ok acl \<longleftrightarrow> 0 < acl_n_rules acl \<and> length (acl_rule_list acl) = acl_n_rules acl \<and>
     length (acl_action_table acl) = acl_n_rules acl \<and> acl_rule_size acl \<noteq> 0 \<and>
     acl_name0 acl \<noteq> acl_name1 acl \<and> length (acl_name0 acl) < RTE_ACL_NAMESIZE \<and>
     length (acl_name1 acl) < RTE_ACL_NAMESIZE \<and>
     (\<forall>i r. rule_in acl i r \<longrightarrow> ar_userdata r = i \<and> acl_check_rule r = 0) \<and>
     (\<forall>i j r s. rule_in acl i r \<longrightarrow> rule_in acl j s \<longrightarrow> ar_field r = ar_field s \<longrightarrow> i = j)"

text \<open>The table as a map: the rule's stored priority and the entry at its position.\<close>

definition acl_map :: "'cfg rte_table_acl \<Rightarrow> rte_acl_field list \<Rightarrow> (int \<times> rte_pipeline_table_entry) option" where
  "acl_map acl key = (case table_search acl key of
     Inl i \<Rightarrow> Some (ar_priority (the (acl_rule_list acl ! i)), acl_action_table acl ! i) | Inr _ \<Rightarrow> None)"

text \<open>The context in use was built from the active rules, and it is the only one with a name of this
  table; the identifiers of the contexts are distinct.\<close>

definition synced :: "('cfg, 'rt, 'd) acl_lib \<Rightarrow> 'cfg rte_table_acl \<Rightarrow> 'rt acl_heap \<Rightarrow> bool" where
  "synced lib acl hp \<longleftrightarrow>
     (case acl_ctx acl of None \<Rightarrow> active acl = []
      | Some c \<Rightarrow> active acl \<noteq> [] \<and> (\<exists>x rt. ctx_at hp c = Some x \<and> ctx_rt x = Some rt \<and>
          al_build lib (active acl) (acl_cfg acl) = Some rt \<and> ctx_name x = cur_name acl)) \<and>
     distinct (map fst (ctxs hp)) \<and> (\<forall>(i, x) \<in> set (ctxs hp). i < fresh hp \<and>
       (ctx_name x \<in> {acl_name0 acl, acl_name1 acl} \<longrightarrow> acl_ctx acl = Some i))"

section \<open>Searching\<close>

lemma acl_search_cases:
  "(case acl_search key rs i free of
      Inl j \<Rightarrow> \<exists>k < length rs. j = i + k \<and> (\<exists>r. rs ! k = Some r \<and> ar_field r = key)
    | Inr f \<Rightarrow> (\<forall>r. Some r \<in> set rs \<longrightarrow> ar_field r \<noteq> key) \<and>
        (case f of None \<Rightarrow> free = None \<and> None \<notin> set rs
         | Some p \<Rightarrow> free = Some p \<or> free = None \<and> (\<exists>k < length rs. p = i + k \<and> rs ! k = None)))"
proof (induction rs arbitrary: i free)
  case (Cons r rs)
  have shift: "\<exists>k < length (r # rs). j = i + k \<and> P ((r # rs) ! k)"
    if "\<exists>k < length rs. j = i + 1 + k \<and> P (rs ! k)" for j P
    using that by (auto intro: exI [of _ "Suc _"])
  show ?case
  proof (cases r)
    case None
    let ?f = "if free = None then Some i else free"
    have s: "acl_search key (r # rs) i free = acl_search key rs (i + 1) ?f" using None by simp
    show ?thesis unfolding s using Cons.IH [of "i + 1" ?f] shift [where P = "\<lambda>x. \<exists>r. x = Some r \<and> ar_field r = key"]
      by (auto simp: None split: sum.splits option.splits if_splits)
  next
    case (Some x)
    show ?thesis
    proof (cases "ar_field x = key")
      case True
      then show ?thesis using Some by auto
    next
      case False
      then have s: "acl_search key (r # rs) i free = acl_search key rs (i + 1) free" using Some by simp
      show ?thesis unfolding s using Cons.IH [of "i + 1" free] False
        shift [where P = "\<lambda>x. \<exists>r. x = Some r \<and> ar_field r = key"] shift [where P = "\<lambda>x. x = None"]
        by (auto simp: Some split: sum.splits option.splits)
    qed
  qed
qed (simp split: option.split)

lemma table_search_len:
  assumes len: "length (acl_rule_list acl) = acl_n_rules acl" "0 < acl_n_rules acl"
  shows "(\<exists>i r. table_search acl key = Inl i \<and> rule_in acl i r \<and> ar_field r = key) \<or>
    (\<exists>p. table_search acl key = Inr (Some p) \<and> 1 \<le> p \<and> p < acl_n_rules acl \<and> acl_rule_list acl ! p = None \<and>
       (\<forall>i r. rule_in acl i r \<longrightarrow> ar_field r \<noteq> key)) \<or>
    (table_search acl key = Inr None \<and> (\<forall>i. 1 \<le> i \<longrightarrow> i < acl_n_rules acl \<longrightarrow> (\<exists>r. rule_in acl i r)) \<and>
       (\<forall>i r. rule_in acl i r \<longrightarrow> ar_field r \<noteq> key))"
proof -
  let ?rs = "drop 1 (acl_rule_list acl)"
  have nth: "?rs ! (i - 1) = acl_rule_list acl ! i" if "1 \<le> i" "i < acl_n_rules acl" for i
    using that len by simp
  have ri: "rule_in acl i r \<longleftrightarrow> 1 \<le> i \<and> i - 1 < length ?rs \<and> ?rs ! (i - 1) = Some r" for i r
    using len nth [of i] by (auto simp: rule_in_def)
  have ts: "table_search acl key = acl_search key ?rs 1 None"
    using len by (simp add: table_search_def)
  note c = acl_search_cases [where key = key and rs = ?rs and i = 1 and free = None]
  show ?thesis
  proof (cases "acl_search key ?rs 1 None")
    case (Inl j)
    with c obtain k r where "k < length ?rs" "j = 1 + k" "?rs ! k = Some r" "ar_field r = key" by auto
    then show ?thesis using Inl by (auto simp: ri ts)
  next
    case (Inr f)
    with c have "\<And>r. Some r \<in> set ?rs \<Longrightarrow> ar_field r \<noteq> key" by simp
    then have no: "\<forall>i r. rule_in acl i r \<longrightarrow> ar_field r \<noteq> key"
      unfolding ri by (metis nth_mem)
    show ?thesis
    proof (cases f)
      case None
      then have "None \<notin> set ?rs" using c Inr by simp
      then have "\<exists>r. rule_in acl i r" if "1 \<le> i" "i < acl_n_rules acl" for i
      proof -
        have "?rs ! (i - 1) \<in> set ?rs" using that len by (intro nth_mem) auto
        then have "acl_rule_list acl ! i \<noteq> None" using \<open>None \<notin> set ?rs\<close> nth [OF that] by metis
        then show ?thesis using that by (auto simp: rule_in_def)
      qed
      then show ?thesis using no None Inr ts by simp
    next
      case (Some p)
      then obtain k where "k < length ?rs" "p = 1 + k" "?rs ! k = None" using c Inr by auto
      then show ?thesis using no Some Inr ts len nth [of p] by auto
    qed
  qed
qed

lemma table_search_cases:
  assumes "acl_ok acl"
  shows "(\<exists>i r. table_search acl key = Inl i \<and> rule_in acl i r \<and> ar_field r = key) \<or>
    (\<exists>p. table_search acl key = Inr (Some p) \<and> 1 \<le> p \<and> p < acl_n_rules acl \<and> acl_rule_list acl ! p = None \<and>
       (\<forall>i r. rule_in acl i r \<longrightarrow> ar_field r \<noteq> key)) \<or>
    (table_search acl key = Inr None \<and> (\<forall>i. 1 \<le> i \<longrightarrow> i < acl_n_rules acl \<longrightarrow> (\<exists>r. rule_in acl i r)) \<and>
       (\<forall>i r. rule_in acl i r \<longrightarrow> ar_field r \<noteq> key))"
  by (rule table_search_len) (use assms in \<open>simp_all add: acl_ok_def\<close>)

lemma acl_ok_unique:
  "acl_ok acl \<Longrightarrow> rule_in acl i r \<Longrightarrow> rule_in acl j s \<Longrightarrow> ar_field r = ar_field s \<Longrightarrow> i = j"
  unfolding acl_ok_def by blast

lemma rule_in_fun: "rule_in acl i r \<Longrightarrow> rule_in acl i s \<Longrightarrow> r = s"
  by (simp add: rule_in_def)

lemma table_search_Inl:
  assumes "acl_ok acl" and "rule_in acl i r"
  shows "table_search acl (ar_field r) = Inl i"
  using table_search_cases [OF assms(1), of "ar_field r"] assms acl_ok_unique [OF assms(1)] by metis

lemma acl_map_Some:
  assumes "acl_ok acl"
  shows "acl_map acl key = Some (pri, e) \<longleftrightarrow>
    (\<exists>i r. rule_in acl i r \<and> ar_field r = key \<and> ar_priority r = pri \<and> acl_action_table acl ! i = e)"
proof
  assume "acl_map acl key = Some (pri, e)"
  then obtain i where i: "table_search acl key = Inl i" "pri = ar_priority (the (acl_rule_list acl ! i))"
      "e = acl_action_table acl ! i"
    by (auto simp: acl_map_def split: sum.splits)
  then obtain r where "rule_in acl i r" "ar_field r = key"
    using table_search_cases [OF assms, of key] by auto
  then show "\<exists>i r. rule_in acl i r \<and> ar_field r = key \<and> ar_priority r = pri \<and> acl_action_table acl ! i = e"
    using i by (auto simp: rule_in_def)
next
  assume "\<exists>i r. rule_in acl i r \<and> ar_field r = key \<and> ar_priority r = pri \<and> acl_action_table acl ! i = e"
  then obtain i r where "rule_in acl i r" "ar_field r = key" "ar_priority r = pri" "acl_action_table acl ! i = e"
    by blast
  then show "acl_map acl key = Some (pri, e)"
    using table_search_Inl [OF assms, of i r] by (simp add: acl_map_def rule_in_def)
qed

lemma acl_map_None:
  assumes "acl_ok acl"
  shows "acl_map acl key = None \<longleftrightarrow> (\<forall>i r. rule_in acl i r \<longrightarrow> ar_field r \<noteq> key)"
  using acl_map_Some [OF assms, of key] by (cases "acl_map acl key") fastforce+

section \<open>Building\<close>

lemma add_rule_bad: "acl_check_rule r \<noteq> 0 \<Longrightarrow> rte_acl_add_rules [r] x = (st, y) \<Longrightarrow> st \<noteq> 0"
  by (auto simp: rte_acl_add_rules_def acl_check_rule_def split: if_splits)

text \<open>Adding rule by rule fills the memory with the active rules, or stops at a rule that is refused.\<close>

lemma add_all_eq:
  assumes "length (ctx_mem x) = ctx_max_rules x" and "ctx_rule_sz x \<noteq> 0"
    and "ctx_num_rules x + length rs \<le> ctx_max_rules x"
  shows "let act = map the (filter (\<lambda>r. r \<noteq> None) rs) in
    if \<forall>r \<in> set act. acl_check_rule r = 0
    then \<exists>y. add_all rs n x = Some (n + length act, y) \<and> ctx_name y = ctx_name x \<and>
      take (ctx_num_rules y) (ctx_mem y) = take (ctx_num_rules x) (ctx_mem x) @ act
    else add_all rs n x = None"
  using assms
proof (induction rs arbitrary: n x)
  case (Cons r rs)
  show ?case
  proof (cases r)
    case None
    then show ?thesis using Cons.IH [of x n] Cons.prems by (auto simp: Let_def split: if_splits)
  next
    case (Some q)
    obtain st y where a: "rte_acl_add_rules [q] x = (st, y)" by fastforce
    show ?thesis
    proof (cases "acl_check_rule q = 0")
      case True
      then have st: "st = 0" using a Cons.prems
        by (auto simp: rte_acl_add_rules_def acl_add_rules_def split: if_splits)
      note m = add_rules_mem [OF a [unfolded st] Cons.prems(1)]
      show ?thesis using Cons.IH [of y "n + 1"] m Cons.prems Some a st True
        by (auto simp: Let_def split: if_splits)
    next
      case False
      then have "add_all (r # rs) n x = None" using add_rule_bad [OF False a] Some a by simp
      then show ?thesis using False Some by (simp add: Let_def)
    qed
  qed
qed simp

text \<open>The allocator delivers nothing, or a zeroed context with room for the table's rules.\<close>

definition alloc_ok :: "'cfg rte_table_acl \<Rightarrow> (nat \<times> rte_acl_rule list) option \<Rightarrow> bool" where
  "alloc_ok acl alloc \<longleftrightarrow> (\<forall>n mem. alloc = Some (n, mem) \<longrightarrow> n = 0 \<and> length mem = acl_n_rules acl)"

text \<open>Memory was delivered and the compiler accepts every non-empty list of rules (the table compiles no other).\<close>

definition can_build :: "('cfg, 'rt, 'd) acl_lib \<Rightarrow> (nat \<times> rte_acl_rule list) option \<Rightarrow> 'cfg \<Rightarrow> bool" where
  "can_build lib alloc cfg \<longleftrightarrow> alloc \<noteq> None \<and> (\<forall>rules. rules \<noteq> [] \<longrightarrow> al_build lib rules cfg \<noteq> None)"

definition name_free :: "string \<Rightarrow> 'rt acl_heap \<Rightarrow> bool" where
  "name_free name hp \<longleftrightarrow> (\<forall>(i, x) \<in> set (ctxs hp). ctx_name x \<noteq> name \<and> i < fresh hp)"

lemma free_appended:
  "\<forall>(i, x) \<in> set (ctxs hp). i < fresh hp \<Longrightarrow>
   rte_acl_free (Some (fresh hp)) (hp\<lparr>fresh := n, ctxs := ctxs hp @ [(fresh hp, x)]\<rparr>) = hp\<lparr>fresh := n\<rparr>"
proof -
  assume "\<forall>(i, x) \<in> set (ctxs hp). i < fresh hp"
  then have "filter (\<lambda>(i, _). i \<noteq> fresh hp) (ctxs hp) = ctxs hp" by (intro filter_True) auto
  then show ?thesis by (simp add: rte_acl_free_def)
qed

lemma set_appended:
  "\<forall>(i, x) \<in> set (ctxs hp). i < fresh hp \<Longrightarrow>
   ctx_set (fresh hp) y (hp\<lparr>fresh := n, ctxs := ctxs hp @ [(fresh hp, x)]\<rparr>) =
     hp\<lparr>fresh := n, ctxs := ctxs hp @ [(fresh hp, y)]\<rparr>"
proof -
  assume "\<forall>(i, x) \<in> set (ctxs hp). i < fresh hp"
  then have "map (\<lambda>(i, z). if i = fresh hp then (i, y) else (i, z)) (ctxs hp) = ctxs hp"
    by (intro map_idI) auto
  then show ?thesis by (simp add: ctx_set_def)
qed

lemma at_appended:
  "\<forall>(i, x) \<in> set (ctxs hp). i < fresh hp \<Longrightarrow>
   ctx_at (hp\<lparr>fresh := n, ctxs := ctxs hp @ [(fresh hp, x)]\<rparr>) c = (if c = fresh hp then Some x else ctx_at hp c)"
  by (force simp: ctx_at_def map_add_def split: option.splits dest: map_of_SomeD)

lemma build_eq:
  fixes hp :: "'rt acl_heap"
  assumes len: "length (acl_rule_list acl) = acl_n_rules acl" "acl_rule_size acl \<noteq> 0"
    "length (cur_name acl) < RTE_ACL_NAMESIZE"
    and alloc: "alloc_ok acl alloc" and free: "name_free (cur_name acl) hp"
  shows "(\<exists>hp'. rte_table_acl_build lib alloc acl hp = (None, hp') \<and> ctxs hp' = ctxs hp \<and> fresh hp \<le> fresh hp' \<and>
        (can_build lib alloc (acl_cfg acl) \<longrightarrow> (\<exists>r \<in> set (active acl). acl_check_rule r \<noteq> 0))) \<or>
    (\<forall>r \<in> set (active acl). acl_check_rule r = 0) \<and>
      (active acl = [] \<and> (\<exists>hp'. rte_table_acl_build lib alloc acl hp = (Some None, hp') \<and> ctxs hp' = ctxs hp \<and>
          fresh hp \<le> fresh hp') \<or>
       active acl \<noteq> [] \<and> (\<exists>x rt. al_build lib (active acl) (acl_cfg acl) = Some rt \<and> ctx_rt x = Some rt \<and>
          ctx_name x = cur_name acl \<and> rte_table_acl_build lib alloc acl hp =
          (Some (Some (fresh hp)), hp\<lparr>fresh := fresh hp + 1, ctxs := ctxs hp @ [(fresh hp, x)]\<rparr>)))"
proof -
  have nm: "par_name (acl_params acl) = cur_name acl" by (simp add: acl_params_def cur_name_def)
  have nf: "List.find (\<lambda>(i, x). take RTE_ACL_NAMESIZE (cur_name acl) = ctx_name x) (ctxs hp) = None"
    using free len(3) by (force simp: find_None_iff name_free_def)
  have fr: "\<forall>(i, x) \<in> set (ctxs hp). i < fresh hp" using free by (auto simp: name_free_def)
  show ?thesis
  proof (cases alloc)
    case None
    then show ?thesis using nf by (simp add: rte_table_acl_build_def rte_acl_create_def nm can_build_def)
  next
    case (Some a)
    then obtain mem where mem: "alloc = Some (0, mem)" "length mem = acl_n_rules acl"
      using alloc by (cases a) (auto simp: alloc_ok_def)
    define x0 :: "'rt rte_acl_ctx" where "x0 = \<lparr>ctx_name = cur_name acl, ctx_max_rules = acl_n_rules acl,
      ctx_rule_sz = acl_rule_size acl, ctx_num_rules = 0, ctx_mem = mem, ctx_rt = None\<rparr>"
    define hp1 where "hp1 = hp\<lparr>fresh := fresh hp + 1, ctxs := ctxs hp @ [(fresh hp, x0)]\<rparr>"
    have c: "rte_acl_create alloc (acl_params acl) hp = (Some (fresh hp), hp1)"
      using nf len(3) mem by (simp add: rte_acl_create_def nm hp1_def x0_def) (simp add: acl_params_def)
    have x0: "ctx_at hp1 (fresh hp) = Some x0" using at_appended [OF fr] by (simp add: hp1_def)
    have f1: "rte_acl_free (Some (fresh hp)) hp1 = hp\<lparr>fresh := fresh hp + 1\<rparr>"
      using free_appended [OF fr] by (simp add: hp1_def)
    have s1: "ctx_set (fresh hp) y hp1 = hp\<lparr>fresh := fresh hp + 1, ctxs := ctxs hp @ [(fresh hp, y)]\<rparr>" for y
      using set_appended [OF fr] by (simp add: hp1_def)
    let ?rs = "drop 1 (take (acl_n_rules acl) (acl_rule_list acl))"
    have act: "map the (filter (\<lambda>r. r \<noteq> None) ?rs) = active acl" using len by (simp add: active_def)
    have all: "if \<forall>r \<in> set (active acl). acl_check_rule r = 0
      then \<exists>y. add_all ?rs 0 x0 = Some (length (active acl), y) \<and> ctx_name y = cur_name acl \<and>
        take (ctx_num_rules y) (ctx_mem y) = active acl
      else add_all ?rs 0 x0 = None"
    proof -
      have "length (ctx_mem x0) = ctx_max_rules x0" "ctx_rule_sz x0 \<noteq> 0"
          "ctx_num_rules x0 + length ?rs \<le> ctx_max_rules x0"
          "ctx_name x0 = cur_name acl" "take (ctx_num_rules x0) (ctx_mem x0) = []"
        using len mem by (simp_all add: x0_def)
      note x0s = this
      from add_all_eq [OF this(1-3), of 0] show ?thesis
        unfolding act Let_def x0s(4,5) append_Nil add_0 .
    qed
    show ?thesis
    proof (cases "\<forall>r \<in> set (active acl). acl_check_rule r = 0")
      case False
      then have "add_all ?rs 0 x0 = None" using all by presburger
      then have "rte_table_acl_build lib alloc acl hp = (None, hp\<lparr>fresh := fresh hp + 1\<rparr>)"
        using c x0 f1 by (simp add: rte_table_acl_build_def)
      then show ?thesis using False by auto
    next
      case True
      with all obtain y where y: "add_all ?rs 0 x0 = Some (length (active acl), y)" "ctx_name y = cur_name acl"
          "take (ctx_num_rules y) (ctx_mem y) = active acl"
        by auto
      have b: "rte_table_acl_build lib alloc acl hp =
        (if active acl = [] then (Some None, hp\<lparr>fresh := fresh hp + 1\<rparr>)
         else case al_build lib (active acl) (acl_cfg acl) of
             None \<Rightarrow> (None, hp\<lparr>fresh := fresh hp + 1\<rparr>)
           | Some rt \<Rightarrow> (Some (Some (fresh hp)), hp\<lparr>fresh := fresh hp + 1,
               ctxs := ctxs hp @ [(fresh hp, y\<lparr>ctx_rt := Some rt\<rparr>)]\<rparr>))"
        using y(1,3) c x0 f1 s1 free_appended [OF fr, where n = "fresh hp + 1"]
        by (simp add: rte_table_acl_build_def rte_acl_build_def split: option.split)
      show ?thesis
      proof (cases "active acl = []")
        case True
        then show ?thesis using b \<open>\<forall>r \<in> set (active acl). acl_check_rule r = 0\<close> by simp
      next
        case ne: False
        show ?thesis
        proof (cases "al_build lib (active acl) (acl_cfg acl)")
          case None
          then have "\<not> can_build lib alloc (acl_cfg acl)" using ne by (auto simp: can_build_def)
          then show ?thesis using b ne None by simp
        next
          case (Some rt)
          then have "al_build lib (active acl) (acl_cfg acl) = Some rt \<and> ctx_rt (y\<lparr>ctx_rt := Some rt\<rparr>) = Some rt \<and>
            ctx_name (y\<lparr>ctx_rt := Some rt\<rparr>) = cur_name acl \<and> rte_table_acl_build lib alloc acl hp =
            (Some (Some (fresh hp)), hp\<lparr>fresh := fresh hp + 1, ctxs := ctxs hp @ [(fresh hp, y\<lparr>ctx_rt := Some rt\<rparr>)]\<rparr>)"
            using b ne y(2) by simp
          then show ?thesis using ne True by blast
        qed
      qed
    qed
  qed
qed

section \<open>Changing one position\<close>

lemma rule_in_set_rule:
  "acl_ok acl \<Longrightarrow> 1 \<le> p \<Longrightarrow> p < acl_n_rules acl \<Longrightarrow>
   rule_in (set_rule p v acl) i r \<longleftrightarrow> (if i = p then v = Some r else rule_in acl i r)"
  by (auto simp: rule_in_def set_rule_def acl_ok_def nth_list_update)

lemma set_rule_simps [simp]:
  "acl_n_rules (set_rule p v acl) = acl_n_rules acl" "acl_action_table (set_rule p v acl) = acl_action_table acl"
  "acl_cfg (set_rule p v acl) = acl_cfg acl" "acl_ctx (set_rule p v acl) = acl_ctx acl"
  "acl_name_id (set_rule p v acl) = acl_name_id acl" "acl_name0 (set_rule p v acl) = acl_name0 acl"
  "acl_name1 (set_rule p v acl) = acl_name1 acl" "acl_rule_size (set_rule p v acl) = acl_rule_size acl"
  "acl_num_fields (set_rule p v acl) = acl_num_fields acl"
  "acl_rule_list (set_rule p v acl) = (acl_rule_list acl)[p := v]"
  by (simp_all add: set_rule_def)

lemma flip_name_simps [simp]:
  "acl_n_rules (flip_name acl) = acl_n_rules acl" "acl_action_table (flip_name acl) = acl_action_table acl"
  "acl_cfg (flip_name acl) = acl_cfg acl" "acl_ctx (flip_name acl) = acl_ctx acl"
  "acl_name_id (flip_name acl) = (\<not> acl_name_id acl)" "acl_name0 (flip_name acl) = acl_name0 acl"
  "acl_name1 (flip_name acl) = acl_name1 acl" "acl_rule_size (flip_name acl) = acl_rule_size acl"
  "acl_num_fields (flip_name acl) = acl_num_fields acl" "acl_rule_list (flip_name acl) = acl_rule_list acl"
  by (simp_all add: flip_name_def)

lemma set_entry_simps [simp]:
  "acl_n_rules (set_entry p e acl) = acl_n_rules acl"
  "acl_action_table (set_entry p e acl) = (acl_action_table acl)[p := e]"
  "acl_cfg (set_entry p e acl) = acl_cfg acl" "acl_ctx (set_entry p e acl) = acl_ctx acl"
  "acl_name_id (set_entry p e acl) = acl_name_id acl" "acl_name0 (set_entry p e acl) = acl_name0 acl"
  "acl_name1 (set_entry p e acl) = acl_name1 acl" "acl_rule_size (set_entry p e acl) = acl_rule_size acl"
  "acl_num_fields (set_entry p e acl) = acl_num_fields acl" "acl_rule_list (set_entry p e acl) = acl_rule_list acl"
  by (simp_all add: set_entry_def)

text \<open>Everything of a table but its name index, context and entries.\<close>

lemma active_cong: "acl_rule_list a = acl_rule_list b \<Longrightarrow> active a = active b"
  by (simp add: active_def)

lemma rule_in_cong:
  "acl_rule_list a = acl_rule_list b \<Longrightarrow> acl_n_rules a = acl_n_rules b \<Longrightarrow> rule_in a i r = rule_in b i r"
  by (simp add: rule_in_def)

lemma acl_ok_cong:
  assumes "acl_ok b" and "acl_rule_list a = acl_rule_list b" "acl_n_rules a = acl_n_rules b"
    "length (acl_action_table a) = length (acl_action_table b)" "acl_rule_size a = acl_rule_size b"
    "acl_name0 a = acl_name0 b" "acl_name1 a = acl_name1 b"
  shows "acl_ok a"
  using assms rule_in_cong [of a b] by (simp add: acl_ok_def)

lemma mem_active: "acl_ok acl \<Longrightarrow> r \<in> set (active acl) \<longleftrightarrow> (\<exists>i. rule_in acl i r)"
proof -
  assume ok: "acl_ok acl"
  have "r \<in> set (active acl) \<longleftrightarrow> Some r \<in> set (drop 1 (acl_rule_list acl))"
    by (force simp: active_def)
  also have "\<dots> \<longleftrightarrow> (\<exists>k < acl_n_rules acl - 1. acl_rule_list acl ! (1 + k) = Some r)"
    using ok by (auto simp: in_set_conv_nth acl_ok_def)
  also have "\<dots> \<longleftrightarrow> (\<exists>i. rule_in acl i r)"
  proof
    assume "\<exists>i. rule_in acl i r"
    then obtain i where "rule_in acl i r" ..
    then show "\<exists>k < acl_n_rules acl - 1. acl_rule_list acl ! (1 + k) = Some r"
      by (intro exI [of _ "i - 1"]) (auto simp: rule_in_def)
  next
    assume "\<exists>k < acl_n_rules acl - 1. acl_rule_list acl ! (1 + k) = Some r"
    then obtain k where "k < acl_n_rules acl - 1" "acl_rule_list acl ! (1 + k) = Some r" by blast
    then show "\<exists>i. rule_in acl i r" by (intro exI [of _ "1 + k"]) (auto simp: rule_in_def)
  qed
  finally show ?thesis .
qed

text \<open>Inserting a rule at a free position, and removing one.\<close>

lemma insert_ok:
  assumes ok: "acl_ok acl" and p: "1 \<le> p" "p < acl_n_rules acl"
    and new: "\<forall>i r. rule_in acl i r \<longrightarrow> ar_field r \<noteq> ar_field q" and q: "ar_userdata q = p" "acl_check_rule q = 0"
  shows "acl_ok (set_rule p (Some q) acl)"
proof -
  have "\<forall>i r. rule_in (set_rule p (Some q) acl) i r \<longrightarrow> ar_userdata r = i \<and> acl_check_rule r = 0"
    using ok q unfolding rule_in_set_rule [OF ok p] acl_ok_def by auto
  moreover have "\<forall>i j r s. rule_in (set_rule p (Some q) acl) i r \<longrightarrow> rule_in (set_rule p (Some q) acl) j s \<longrightarrow>
      ar_field r = ar_field s \<longrightarrow> i = j"
    using new acl_ok_unique [OF ok] unfolding rule_in_set_rule [OF ok p] by (metis option.inject)
  ultimately show ?thesis using ok by (simp add: acl_ok_def)
qed

lemma remove_ok:
  assumes ok: "acl_ok acl" and p: "1 \<le> p" "p < acl_n_rules acl"
  shows "acl_ok (set_rule p None acl)"
proof -
  have "\<forall>i r. rule_in (set_rule p None acl) i r \<longrightarrow> ar_userdata r = i \<and> acl_check_rule r = 0"
    using ok unfolding rule_in_set_rule [OF ok p] acl_ok_def by auto
  moreover have "\<forall>i j r s. rule_in (set_rule p None acl) i r \<longrightarrow> rule_in (set_rule p None acl) j s \<longrightarrow>
      ar_field r = ar_field s \<longrightarrow> i = j"
    using acl_ok_unique [OF ok] unfolding rule_in_set_rule [OF ok p] by (metis option.distinct(1))
  ultimately show ?thesis using ok by (simp add: acl_ok_def)
qed

lemma acl_map_eqI:
  assumes "acl_ok acl"
    and "\<And>key pri e. m key = Some (pri, e) \<longleftrightarrow>
      (\<exists>i r. rule_in acl i r \<and> ar_field r = key \<and> ar_priority r = pri \<and> acl_action_table acl ! i = e)"
  shows "acl_map acl = m"
proof
  fix key
  have "acl_map acl key = Some x \<longleftrightarrow> m key = Some x" for x
    using acl_map_Some [OF assms(1), of key] assms(2) [of key] by (cases x) simp
  then show "acl_map acl key = m key" by (metis not_Some_eq)
qed

section \<open>Rebuilding\<close>

lemma other_name_free:
  assumes ok: "acl_ok acl" and syn: "synced lib acl hp" and flip: "acl_name_id b = (\<not> acl_name_id acl)"
    "acl_name0 b = acl_name0 acl" "acl_name1 b = acl_name1 acl"
  shows "name_free (cur_name b) hp"
  unfolding name_free_def
proof (clarify, intro conjI)
  fix i x assume ix: "(i, x) \<in> set (ctxs hp)"
  have h: "i < fresh hp" "ctx_name x \<in> {acl_name0 acl, acl_name1 acl} \<longrightarrow> acl_ctx acl = Some i"
    using syn ix by (auto simp: synced_def)
  show "i < fresh hp" by (rule h)
  have ne: "cur_name b \<noteq> cur_name acl" and b: "cur_name b \<in> {acl_name0 acl, acl_name1 acl}"
    using ok flip by (auto simp: cur_name_def acl_ok_def)
  show "ctx_name x \<noteq> cur_name b"
  proof
    assume nm: "ctx_name x = cur_name b"
    then have "acl_ctx acl = Some i" using h(2) b by auto
    moreover have "ctx_at hp i = Some x"
      using syn ix by (auto simp: synced_def ctx_at_def)
    ultimately have "ctx_name x = cur_name acl" using syn by (auto simp: synced_def)
    with nm ne show False by simp
  qed
qed

lemma synced_ctxs: "synced lib acl hp \<Longrightarrow> ctxs hp' = ctxs hp \<Longrightarrow> fresh hp \<le> fresh hp' \<Longrightarrow> synced lib acl hp'"
  by (fastforce simp: synced_def ctx_at_def split: option.splits)

text \<open>Freeing the old context leaves no context with a name of the table.\<close>

lemma free_old:
  assumes "synced lib acl hp"
  shows "\<forall>(i, x) \<in> set (ctxs (rte_acl_free (acl_ctx acl) hp)).
      i < fresh hp \<and> ctx_name x \<notin> {acl_name0 acl, acl_name1 acl}"
    and "distinct (map fst (ctxs (rte_acl_free (acl_ctx acl) hp)))"
  using assms by (auto simp: synced_def rte_acl_free_def distinct_map_filter split: option.splits)

lemma free_append:
  assumes "\<forall>(i, x) \<in> set (ctxs hp). i < fresh hp" and "c \<noteq> Some (fresh hp)"
  shows "rte_acl_free c (hp\<lparr>fresh := n, ctxs := ctxs hp @ [(fresh hp, x)]\<rparr>) =
    (rte_acl_free c hp)\<lparr>fresh := n, ctxs := ctxs (rte_acl_free c hp) @ [(fresh hp, x)]\<rparr>"
  using assms by (cases c) (simp_all add: rte_acl_free_def)

text \<open>
  The central step of every change: the rules of the table have become those of \<open>b\<close>, whose name index
  is the other one. The build fails and the contexts stay, or it succeeds, and with the new context in
  place and the old one freed the table is in step with its context again.
\<close>

lemma rebuild:
  assumes ok: "acl_ok acl" and syn: "synced lib acl hp" and alloc: "alloc_ok acl alloc"
    and b: "length (acl_rule_list b) = acl_n_rules b" "acl_n_rules b = acl_n_rules acl"
      "acl_rule_size b = acl_rule_size acl" "acl_name_id b = (\<not> acl_name_id acl)"
      "acl_name0 b = acl_name0 acl" "acl_name1 b = acl_name1 acl"
  shows "(\<exists>hp'. rte_table_acl_build lib alloc b hp = (None, hp') \<and> synced lib acl hp' \<and> ctxs hp' = ctxs hp \<and>
        (can_build lib alloc (acl_cfg b) \<longrightarrow> (\<exists>r \<in> set (active b). acl_check_rule r \<noteq> 0))) \<or>
    (\<exists>c hp'. rte_table_acl_build lib alloc b hp = (Some c, hp') \<and> (\<forall>r \<in> set (active b). acl_check_rule r = 0) \<and>
      (\<forall>d. acl_rule_list d = acl_rule_list b \<longrightarrow> acl_ctx d = c \<longrightarrow> acl_cfg d = acl_cfg b \<longrightarrow>
        acl_name_id d = acl_name_id b \<longrightarrow> acl_name0 d = acl_name0 b \<longrightarrow> acl_name1 d = acl_name1 b \<longrightarrow>
        synced lib d (rte_acl_free (acl_ctx acl) hp')))"
proof -
  have nf: "name_free (cur_name b) hp" by (rule other_name_free [OF ok syn b(4-6)])
  have l: "acl_rule_size b \<noteq> 0" "length (cur_name b) < RTE_ACL_NAMESIZE" "alloc_ok b alloc"
    using ok b alloc by (auto simp: acl_ok_def cur_name_def alloc_ok_def)
  have fr: "\<forall>(i, x) \<in> set (ctxs hp). i < fresh hp" using nf by (auto simp: name_free_def)
  let ?old = "rte_acl_free (acl_ctx acl) hp"
  note old = free_old [OF syn]
  consider (fail) hp' where "rte_table_acl_build lib alloc b hp = (None, hp')" "ctxs hp' = ctxs hp" "fresh hp \<le> fresh hp'"
      "can_build lib alloc (acl_cfg b) \<longrightarrow> (\<exists>r \<in> set (active b). acl_check_rule r \<noteq> 0)"
    | (empty) hp' where "\<forall>r \<in> set (active b). acl_check_rule r = 0" "active b = []"
      "rte_table_acl_build lib alloc b hp = (Some None, hp')" "ctxs hp' = ctxs hp" "fresh hp \<le> fresh hp'"
    | (built) x rt where "\<forall>r \<in> set (active b). acl_check_rule r = 0" "active b \<noteq> []"
      "al_build lib (active b) (acl_cfg b) = Some rt" "ctx_rt x = Some rt" "ctx_name x = cur_name b"
      "rte_table_acl_build lib alloc b hp =
        (Some (Some (fresh hp)), hp\<lparr>fresh := fresh hp + 1, ctxs := ctxs hp @ [(fresh hp, x)]\<rparr>)"
    using build_eq [OF b(1) l nf, of lib] by blast
  then show ?thesis
  proof cases
    case fail
    then show ?thesis using synced_ctxs [OF syn] by blast
  next
    case (empty hp')
    have "ctxs (rte_acl_free (acl_ctx acl) hp') = ctxs ?old" "fresh (rte_acl_free (acl_ctx acl) hp') = fresh hp'"
      using empty(4) by (simp_all add: rte_acl_free_def split: option.splits)
    then have "synced lib d (rte_acl_free (acl_ctx acl) hp')"
      if "acl_rule_list d = acl_rule_list b" "acl_ctx d = None" "acl_name0 d = acl_name0 b" "acl_name1 d = acl_name1 b" for d
      using that old empty(2,5) b active_cong [OF that(1)] by (fastforce simp: synced_def)
    then show ?thesis using empty(1,3) by blast
  next
    case built
    let ?hp' = "hp\<lparr>fresh := fresh hp + 1, ctxs := ctxs hp @ [(fresh hp, x)]\<rparr>"
    have "acl_ctx acl \<noteq> Some (fresh hp)"
    proof
      assume a: "acl_ctx acl = Some (fresh hp)"
      then obtain y where "ctx_at hp (fresh hp) = Some y" using syn by (auto simp: synced_def)
      then show False using fr by (auto simp: ctx_at_def dest!: map_of_SomeD)
    qed
    then have f: "rte_acl_free (acl_ctx acl) ?hp' =
        ?old\<lparr>fresh := fresh hp + 1, ctxs := ctxs ?old @ [(fresh hp, x)]\<rparr>"
      by (rule free_append [OF fr])
    have lt: "\<forall>(i, x) \<in> set (ctxs ?old). i < fresh hp" using old(1) by auto
    then have at: "map_of (ctxs ?old @ [(fresh hp, x)]) (fresh hp) = Some x"
      by (force simp: map_add_def split: option.splits dest: map_of_SomeD)
    have "synced lib d (rte_acl_free (acl_ctx acl) ?hp')"
      if "acl_rule_list d = acl_rule_list b" "acl_ctx d = Some (fresh hp)" "acl_cfg d = acl_cfg b"
        "acl_name_id d = acl_name_id b" "acl_name0 d = acl_name0 b" "acl_name1 d = acl_name1 b" for d
    proof -
      have "active d = active b" "cur_name d = cur_name b" using that by (simp_all add: active_def cur_name_def)
      then show ?thesis unfolding f synced_def ctx_at_def using that old lt at built b by fastforce
    qed
    then show ?thesis using built(1,6) by blast
  qed
qed

section \<open>Add, delete, lookup\<close>

lemma undo_insert:
  "acl_rule_list acl ! p = None \<Longrightarrow> flip_name (set_rule p None (flip_name (set_rule p v acl))) = acl"
  using list_update_id [of "acl_rule_list acl" p] by (simp add: flip_name_def set_rule_def)

lemma card_dom_acl_map:
  assumes "acl_ok acl"
  shows "card (dom (acl_map acl)) = card {i. \<exists>r. rule_in acl i r}"
proof -
  let ?P = "{i. \<exists>r. rule_in acl i r}" and ?k = "\<lambda>i. ar_field (the (acl_rule_list acl ! i))"
  have k: "rule_in acl i r \<Longrightarrow> ?k i = ar_field r" for i r by (simp add: rule_in_def)
  have "dom (acl_map acl) = ?k ` ?P"
  proof -
    have "key \<in> dom (acl_map acl) \<longleftrightarrow> (\<exists>i r. rule_in acl i r \<and> ar_field r = key)" for key
      using acl_map_None [OF assms, of key] by (simp add: domIff)
    moreover have "(\<exists>i r. rule_in acl i r \<and> ar_field r = key) \<longleftrightarrow> key \<in> ?k ` ?P" for key
    proof
      assume "\<exists>i r. rule_in acl i r \<and> ar_field r = key"
      then obtain i r where "rule_in acl i r" "key = ?k i" using k by fastforce
      then show "key \<in> ?k ` ?P" by blast
    next
      assume "key \<in> ?k ` ?P"
      then obtain i r where "rule_in acl i r" "key = ?k i" by blast
      then show "\<exists>i r. rule_in acl i r \<and> ar_field r = key"
        using k [of i r] by (intro exI [of _ i] exI [of _ r]) simp
    qed
    ultimately show ?thesis by blast
  qed
  moreover have "inj_on ?k ?P"
  proof (rule inj_onI)
    fix i j assume "i \<in> ?P" "j \<in> ?P" and kk: "?k i = ?k j"
    then obtain r s where "rule_in acl i r" "rule_in acl j s" by blast
    then show "i = j" using kk k acl_ok_unique [OF assms, of i r j s] by simp
  qed
  ultimately show ?thesis by (simp add: card_image)
qed

lemma finite_dom_acl_map:
  assumes "acl_ok acl"
  shows "finite (dom (acl_map acl))"
proof (rule finite_subset)
  show "dom (acl_map acl) \<subseteq> (\<lambda>i. ar_field (the (acl_rule_list acl ! i))) ` {1 ..< acl_n_rules acl}"
  proof
    fix key assume "key \<in> dom (acl_map acl)"
    then obtain i r where "rule_in acl i r" "ar_field r = key" using acl_map_None [OF assms, of key] by auto
    then show "key \<in> (\<lambda>i. ar_field (the (acl_rule_list acl ! i))) ` {1 ..< acl_n_rules acl}"
      by (intro image_eqI [of _ _ i]) (auto simp: rule_in_def)
  qed
qed simp

lemma full_iff:
  assumes "acl_ok acl"
  shows "card (dom (acl_map acl)) = acl_n_rules acl - 1 \<longleftrightarrow> (\<forall>i. 1 \<le> i \<longrightarrow> i < acl_n_rules acl \<longrightarrow> (\<exists>r. rule_in acl i r))"
proof -
  let ?P = "{i. \<exists>r. rule_in acl i r}" and ?U = "{1..<acl_n_rules acl}"
  have sub: "?P \<subseteq> ?U" by (auto simp: rule_in_def)
  have "card ?P = acl_n_rules acl - 1 \<longleftrightarrow> ?P = ?U"
    using card_subset_eq [OF finite_atLeastLessThan sub] by auto
  also have "\<dots> \<longleftrightarrow> (\<forall>i. 1 \<le> i \<longrightarrow> i < acl_n_rules acl \<longrightarrow> (\<exists>r. rule_in acl i r))" using sub by auto
  finally show ?thesis by (simp add: card_dom_acl_map [OF assms])
qed

lemma new_rule_simps [simp]:
  "ar_userdata (new_rule acl rule p) = p" "ar_field (new_rule acl rule p) = rule_key acl (rap_field_value rule)"
  "ar_priority (new_rule acl rule p) = RTE_ACL_MAX_PRIORITY - rap_priority rule"
  by (simp_all add: new_rule_def)

text \<open>The map after an entry was overwritten, a rule inserted, a rule removed.\<close>

lemma acl_map_overwrite:
  assumes "acl_ok acl" and "rule_in acl i r"
  shows "acl_ok (set_entry i e acl)"
    and "acl_map (set_entry i e acl) = (acl_map acl)(ar_field r \<mapsto> (ar_priority r, e))"
proof -
  show ok: "acl_ok (set_entry i e acl)" by (rule acl_ok_cong [OF assms(1)]) simp_all
  have ri: "rule_in (set_entry i e acl) j s = rule_in acl j s" for j s by (rule rule_in_cong) simp_all
  have i: "i < length (acl_action_table acl)" using assms by (auto simp: acl_ok_def rule_in_def)
  show "acl_map (set_entry i e acl) = (acl_map acl)(ar_field r \<mapsto> (ar_priority r, e))"
  proof (rule acl_map_eqI [OF ok])
    fix key pri e'
    show "((acl_map acl)(ar_field r \<mapsto> (ar_priority r, e))) key = Some (pri, e') \<longleftrightarrow>
      (\<exists>j s. rule_in (set_entry i e acl) j s \<and> ar_field s = key \<and> ar_priority s = pri \<and>
         acl_action_table (set_entry i e acl) ! j = e')" (is "?L \<longleftrightarrow> ?R")
    proof (cases "key = ar_field r")
      case True
      have "?R \<longleftrightarrow> ar_priority r = pri \<and> e = e'"
      proof
        assume ?R
        then obtain j s where j: "rule_in acl j s" "ar_field s = key" "ar_priority s = pri"
            "(acl_action_table acl)[i := e] ! j = e'" by (auto simp: ri)
        have "j = i" by (rule acl_ok_unique [OF assms(1) j(1) assms(2)]) (simp add: j True)
        then show "ar_priority r = pri \<and> e = e'" using j rule_in_fun [OF assms(2)] i by auto
      next
        assume "ar_priority r = pri \<and> e = e'"
        then show ?R using assms(2) True i by (intro exI [of _ i] exI [of _ r]) (auto simp: rule_in_def)
      qed
      then show ?thesis using True by auto
    next
      case False
      have "j \<noteq> i" if "rule_in acl j s" "ar_field s = key" for j s
        using that False rule_in_fun [OF assms(2)] by auto
      then have "?R \<longleftrightarrow> (\<exists>j s. rule_in acl j s \<and> ar_field s = key \<and> ar_priority s = pri \<and> acl_action_table acl ! j = e')"
        by (auto simp: ri) fastforce+
      then show ?thesis using False by (simp add: acl_map_Some [OF assms(1)])
    qed
  qed
qed

lemma acl_map_insert:
  assumes ok: "acl_ok acl" and p: "1 \<le> p" "p < acl_n_rules acl" "acl_rule_list acl ! p = None"
    and new: "\<forall>i r. rule_in acl i r \<longrightarrow> ar_field r \<noteq> ar_field q" and q: "ar_userdata q = p" "acl_check_rule q = 0"
    and d: "acl_rule_list d = (acl_rule_list acl)[p := Some q]" "acl_n_rules d = acl_n_rules acl"
      "acl_action_table d = (acl_action_table acl)[p := e]" "acl_rule_size d = acl_rule_size acl"
      "acl_name0 d = acl_name0 acl" "acl_name1 d = acl_name1 acl"
  shows "acl_ok d" and "acl_map d = (acl_map acl)(ar_field q \<mapsto> (ar_priority q, e))"
proof -
  show okd: "acl_ok d" by (rule acl_ok_cong [OF insert_ok [OF ok p(1,2) new q]]) (simp_all add: d)
  have ri: "rule_in d i r \<longleftrightarrow> (if i = p then Some q = Some r else rule_in acl i r)" for i r
    using rule_in_cong [of d "set_rule p (Some q) acl"] rule_in_set_rule [OF ok p(1,2)] d by auto
  have i: "p < length (acl_action_table acl)" using ok p by (auto simp: acl_ok_def)
  have np: "\<not> rule_in acl p r" for r using p by (simp add: rule_in_def)
  show "acl_map d = (acl_map acl)(ar_field q \<mapsto> (ar_priority q, e))"
  proof (rule acl_map_eqI [OF okd])
    fix key pri e'
    show "((acl_map acl)(ar_field q \<mapsto> (ar_priority q, e))) key = Some (pri, e') \<longleftrightarrow>
      (\<exists>i r. rule_in d i r \<and> ar_field r = key \<and> ar_priority r = pri \<and> acl_action_table d ! i = e')"
    proof (cases "key = ar_field q")
      case True
      then have "(\<exists>i r. rule_in d i r \<and> ar_field r = key \<and> ar_priority r = pri \<and> acl_action_table d ! i = e') \<longleftrightarrow>
          ar_priority q = pri \<and> e = e'"
        using new i by (auto simp: ri d)
      then show ?thesis using True by auto
    next
      case False
      then show ?thesis using np by (auto simp: ri d acl_map_Some [OF ok]) (metis nth_list_update_neq)+
    qed
  qed
qed

lemma acl_map_remove:
  assumes ok: "acl_ok acl" and r: "rule_in acl p r"
    and d: "acl_rule_list d = (acl_rule_list acl)[p := None]" "acl_n_rules d = acl_n_rules acl"
      "acl_action_table d = acl_action_table acl" "acl_rule_size d = acl_rule_size acl"
      "acl_name0 d = acl_name0 acl" "acl_name1 d = acl_name1 acl"
  shows "acl_ok d" and "acl_map d = (acl_map acl)(ar_field r := None)"
proof -
  have p: "1 \<le> p" "p < acl_n_rules acl" using r by (simp_all add: rule_in_def)
  show okd: "acl_ok d" by (rule acl_ok_cong [OF remove_ok [OF ok p]]) (simp_all add: d)
  have ri: "rule_in d i s \<longleftrightarrow> i \<noteq> p \<and> rule_in acl i s" for i s
    using rule_in_cong [of d "set_rule p None acl"] rule_in_set_rule [OF ok p] d by auto
  show "acl_map d = (acl_map acl)(ar_field r := None)"
  proof (rule acl_map_eqI [OF okd])
    fix key pri e'
    show "((acl_map acl)(ar_field r := None)) key = Some (pri, e') \<longleftrightarrow>
      (\<exists>i s. rule_in d i s \<and> ar_field s = key \<and> ar_priority s = pri \<and> acl_action_table d ! i = e')"
    proof (cases "key = ar_field r")
      case True
      then show ?thesis using acl_ok_unique [OF ok _ r] by (auto simp: ri)
    next
      case False
      then have "i \<noteq> p" if "rule_in acl i s" "ar_field s = key" for i s
        using that rule_in_fun [OF r] by auto
      then show ?thesis using False by (auto simp: ri d acl_map_Some [OF ok])
    qed
  qed
qed

text \<open>The search loop of the deletion, which does not stop at a match, finds the one there is.\<close>

lemma delete_search_eq:
  assumes ok: "acl_ok acl"
  shows "delete_search key acl = (case table_search acl key of
     Inl i \<Rightarrow> (Some (i, the (acl_rule_list acl ! i)), set_rule i None acl) | Inr _ \<Rightarrow> (None, acl))"
proof -
  define f where "f = (\<lambda>i (hit, acl :: 'a rte_table_acl). case acl_rule_list acl ! i of
       None \<Rightarrow> (hit, acl) | Some r \<Rightarrow> if ar_field r = key then (Some (i, r), set_rule i None acl) else (hit, acl))"
  have skip: "fold f is (hit, b) = (hit, b)"
    if "\<And>i r. i \<in> set is \<Longrightarrow> acl_rule_list b ! i = Some r \<Longrightarrow> ar_field r \<noteq> key" for "is" hit b
    using that
  proof (induction "is")
    case (Cons i "is")
    have "f i (hit, b) = (hit, b)" using Cons.prems [of i] by (auto simp: f_def split: option.splits)
    moreover have "fold f is (hit, b) = (hit, b)" using Cons.prems by (intro Cons.IH) auto
    ultimately show ?case by simp
  qed simp
  let ?n = "acl_n_rules acl"
  have d: "delete_search key acl = fold f [1 ..< ?n] (None, acl)"
    unfolding delete_search_def f_def ..
  have len: "length (acl_rule_list acl) = ?n" using ok by (simp add: acl_ok_def)
  show ?thesis
  proof (cases "table_search acl key")
    case (Inr v)
    then have "\<forall>i r. rule_in acl i r \<longrightarrow> ar_field r \<noteq> key" using table_search_cases [OF ok, of key] by auto
    then have "fold f [1 ..< ?n] (None, acl) = (None, acl)" by (intro skip) (auto simp: rule_in_def)
    then show ?thesis using Inr d by simp
  next
    case (Inl p)
    then obtain r where r: "rule_in acl p r" "ar_field r = key"
      using table_search_cases [OF ok, of key] by auto
    then have p: "1 \<le> p" "p < ?n" "acl_rule_list acl ! p = Some r" by (simp_all add: rule_in_def)
    have split: "[1 ..< ?n] = [1 ..< p] @ p # [p + 1 ..< ?n]"
      using p upt_add_eq_append [of 1 p "?n - p"] upt_conv_Cons [of p ?n] by simp
    have one: "i = p" if "1 \<le> i" "i < ?n" "acl_rule_list acl ! i = Some s" "ar_field s = key" for i s
      using that r acl_ok_unique [OF ok, of i s p r] by (simp add: rule_in_def)
    have "fold f [1 ..< p] (None, acl) = (None, acl)"
    proof (rule skip)
      fix i s assume "i \<in> set [1 ..< p]" "acl_rule_list acl ! i = Some s"
      then show "ar_field s \<noteq> key" using one [of i s] p by auto
    qed
    moreover have "f p (None, acl) = (Some (p, r), set_rule p None acl)" using p r by (simp add: f_def)
    moreover have "fold f [p + 1 ..< ?n] (Some (p, r), set_rule p None acl) = (Some (p, r), set_rule p None acl)"
    proof (rule skip)
      fix i s assume "i \<in> set [p + 1 ..< ?n]" "acl_rule_list (set_rule p None acl) ! i = Some s"
      then show "ar_field s \<noteq> key" using one [of i s] p by auto
    qed
    ultimately show ?thesis using Inl p d unfolding split by simp
  qed
qed

text \<open>The rules of the table after one position was set.\<close>

lemma active_flip: "active (flip_name acl) = active acl"
  by (simp add: active_def flip_name_def)

lemma active_set_rule:
  assumes ok: "acl_ok acl" and r: "r \<in> set (active (set_rule p q acl))"
  shows "q = Some r \<or> acl_check_rule r = 0"
proof -
  from r have "Some r \<in> set (drop 1 ((acl_rule_list acl)[p := q]))" by (force simp: active_def set_rule_def)
  then obtain i where i: "i < length (acl_rule_list acl) - 1" "(acl_rule_list acl)[p := q] ! (1 + i) = Some r"
    by (force simp: in_set_conv_nth)
  show ?thesis
  proof (cases "p = 1 + i")
    case True
    then show ?thesis using i by simp
  next
    case False
    then have "rule_in acl (1 + i) r" using i ok by (auto simp: rule_in_def acl_ok_def)
    then show ?thesis using ok by (auto simp: acl_ok_def)
  qed
qed

lemma active_ok: "acl_ok acl \<Longrightarrow> r \<in> set (active acl) \<Longrightarrow> acl_check_rule r = 0"
  using active_set_rule [of acl r 0 None] by (cases "acl_rule_list acl") (auto simp: active_def set_rule_def)

text \<open>Adding a rule at a free position.\<close>

lemma add_new_position:
  assumes ok: "acl_ok acl" and syn: "synced lib acl hp" and alloc: "alloc_ok acl alloc"
    and run: "rte_table_acl_entry_add lib alloc (Some acl) (Some rule) (Some e) hp = (st, out, Some acl', hp')"
    and pri: "rap_priority rule \<le> RTE_ACL_MAX_PRIORITY"
    and new: "table_search acl (rule_key acl (rap_field_value rule)) = Inr (Some p)" "1 \<le> p" "p < acl_n_rules acl"
      "acl_rule_list acl ! p = None" "\<forall>i r. rule_in acl i r \<longrightarrow> ar_field r \<noteq> rule_key acl (rap_field_value rule)"
  shows "(st = - EINVAL \<and> out = None \<and> acl' = acl \<and> synced lib acl hp' \<and> ctxs hp' = ctxs hp \<and>
       (can_build lib alloc (acl_cfg acl) \<longrightarrow> rap_priority rule < 0)) \<or>
    (st = 0 \<and> 0 \<le> rap_priority rule \<and> out = Some (False, p) \<and> acl_ok acl' \<and> synced lib acl' hp' \<and> acl_action_table acl' ! p = e \<and>
     acl_map acl' = (acl_map acl)(rule_key acl (rap_field_value rule) \<mapsto> (RTE_ACL_MAX_PRIORITY - rap_priority rule, e)))"
proof -
  let ?q = "new_rule acl rule p" and ?b = "flip_name (set_rule p (Some (new_rule acl rule p)) acl)"
  have len: "length (acl_action_table acl) = acl_n_rules acl" using ok by (simp add: acl_ok_def)
  have "length (acl_rule_list ?b) = acl_n_rules ?b" using ok by (simp add: acl_ok_def)
  from rebuild [OF ok syn alloc this] consider
    (fail) hp1 where "rte_table_acl_build lib alloc ?b hp = (None, hp1)" "synced lib acl hp1" "ctxs hp1 = ctxs hp"
      "can_build lib alloc (acl_cfg ?b) \<longrightarrow> (\<exists>r \<in> set (active ?b). acl_check_rule r \<noteq> 0)"
    | (commit) c hp1 where "rte_table_acl_build lib alloc ?b hp = (Some c, hp1)"
      "\<forall>r \<in> set (active ?b). acl_check_rule r = 0"
      "\<forall>d. acl_rule_list d = acl_rule_list ?b \<longrightarrow> acl_ctx d = c \<longrightarrow> acl_cfg d = acl_cfg ?b \<longrightarrow>
         acl_name_id d = acl_name_id ?b \<longrightarrow> acl_name0 d = acl_name0 ?b \<longrightarrow> acl_name1 d = acl_name1 ?b \<longrightarrow>
         synced lib d (rte_acl_free (acl_ctx acl) hp1)"
    by auto
  then show ?thesis
  proof cases
    case fail
    then have "st = - EINVAL" "out = None" "acl' = acl" "hp' = hp1"
      using run pri new(1) undo_insert [OF new(4)] by (auto simp: rte_table_acl_entry_add_def Let_def)
    moreover have "rap_priority rule < 0" if "r \<in> set (active ?b)" "acl_check_rule r \<noteq> 0" for r
    proof -
      have "r = ?q" using active_set_rule [OF ok that(1) [unfolded active_flip]] that(2) by blast
      then show ?thesis using that(2) pri by (auto simp: acl_check_rule_def new_rule_def split: if_splits)
    qed
    ultimately show ?thesis using fail by auto
  next
    case commit
    let ?d = "set_entry p e (?b\<lparr>acl_ctx := c\<rparr>)"
    have res: "st = 0" "out = Some (False, p)" "acl' = ?d" "hp' = rte_acl_free (acl_ctx acl) hp1"
      using run pri new(1) commit(1) by (auto simp: rte_table_acl_entry_add_def Let_def)
    have "Some ?q \<in> set (drop 1 (acl_rule_list ?b))"
      using new(2,3) ok in_set_conv_nth [of "Some ?q" "drop 1 (acl_rule_list ?b)"]
      by (auto simp: acl_ok_def intro!: exI [of _ "p - 1"])
    then have "?q \<in> set (active ?b)" by (force simp: active_def)
    then have q: "acl_check_rule ?q = 0" using commit(2) by blast
    have "synced lib ?d hp'" using commit(3) res by simp
    moreover have "acl_ok ?d" "acl_map ?d = (acl_map acl)(rule_key acl (rap_field_value rule) \<mapsto>
        (RTE_ACL_MAX_PRIORITY - rap_priority rule, e))"
      using acl_map_insert [OF ok new(2-4) _ _ q, of ?d e] new(5) by simp_all
    moreover have "0 \<le> rap_priority rule" using q by (simp add: acl_check_rule_def new_rule_def split: if_splits)
    ultimately show ?thesis using res new(3) len by simp
  qed
qed

text \<open>The specification of adding, for use by the clients of the table.\<close>

lemma acl_entry_add_spec:
  assumes ok: "acl_ok acl" and syn: "synced lib acl hp" and alloc: "alloc_ok acl alloc"
    and run: "rte_table_acl_entry_add lib alloc (Some acl) (Some rule) (Some e) hp = (st, out, Some acl', hp')"
    and key: "key = rule_key acl (rap_field_value rule)"
  shows "acl_ok acl' \<and> synced lib acl' hp' \<and>
    (st = 0 \<longrightarrow> acl_map acl' = (acl_map acl)(key \<mapsto>
        (case acl_map acl key of None \<Rightarrow> RTE_ACL_MAX_PRIORITY - rap_priority rule | Some (pri, _) \<Rightarrow> pri, e)) \<and>
      (\<exists>pos. out = Some (acl_map acl key \<noteq> None, pos) \<and> pos < acl_n_rules acl \<and> acl_action_table acl' ! pos = e)) \<and>
    (st \<noteq> 0 \<longrightarrow> acl' = acl \<and> ctxs hp' = ctxs hp \<and> out = None) \<and>
    (st = - ENOSPC \<longleftrightarrow> rap_priority rule \<le> RTE_ACL_MAX_PRIORITY \<and> acl_map acl key = None \<and>
      card (dom (acl_map acl)) = acl_n_rules acl - 1) \<and>
    (can_build lib alloc (acl_cfg acl) \<longrightarrow> (st = 0 \<longleftrightarrow> rap_priority rule \<le> RTE_ACL_MAX_PRIORITY \<and>
      (acl_map acl key \<noteq> None \<or> 0 \<le> rap_priority rule \<and> card (dom (acl_map acl)) \<noteq> acl_n_rules acl - 1)))"
proof (cases "rap_priority rule > RTE_ACL_MAX_PRIORITY")
  case True
  then show ?thesis using run ok syn by (auto simp: rte_table_acl_entry_add_def)
next
  case False
  have len: "length (acl_action_table acl) = acl_n_rules acl" using ok by (simp add: acl_ok_def)
  consider (found) i r where "table_search acl key = Inl i" "rule_in acl i r" "ar_field r = key"
    | (new) p where "table_search acl key = Inr (Some p)" "1 \<le> p" "p < acl_n_rules acl" "acl_rule_list acl ! p = None"
      "\<forall>i r. rule_in acl i r \<longrightarrow> ar_field r \<noteq> key"
    | (full) "table_search acl key = Inr None"
      "\<forall>i. 1 \<le> i \<longrightarrow> i < acl_n_rules acl \<longrightarrow> (\<exists>r. rule_in acl i r)" "\<forall>i r. rule_in acl i r \<longrightarrow> ar_field r \<noteq> key"
    using table_search_cases [OF ok, of key] by blast
  then show ?thesis
  proof cases
    case found
    then have res: "st = 0" "out = Some (True, i)" "acl' = set_entry i e acl" "hp' = hp"
      using run False key by (auto simp: rte_table_acl_entry_add_def)
    have m: "acl_map acl key = Some (ar_priority r, acl_action_table acl ! i)"
      using found acl_map_Some [OF ok] by blast
    have i: "i < acl_n_rules acl" using found by (simp add: rule_in_def)
    have "synced lib acl' hp'"
      using syn res active_cong [of acl' acl] by (auto simp: synced_def cur_name_def split: option.splits)
    then show ?thesis using acl_map_overwrite [OF ok found(2), of e] res m i False len found(3) by auto
  next
    case full
    then have res: "st = - ENOSPC" "out = None" "acl' = acl" "hp' = hp"
      using run False key by (auto simp: rte_table_acl_entry_add_def)
    then show ?thesis using ok syn full False acl_map_None [OF ok, of key] full_iff [OF ok] by simp
  next
    case new
    have notfull: "card (dom (acl_map acl)) \<noteq> acl_n_rules acl - 1"
      using new full_iff [OF ok] by (auto simp: rule_in_def)
    have none: "acl_map acl key = None" using new(5) acl_map_None [OF ok] by blast
    show ?thesis
      using add_new_position [OF ok syn alloc run _ new [unfolded key]] False notfull none new(3) ok
      unfolding key by auto
  qed
qed

text \<open>C9. Adding a rule implements an update of the map from keys to priorities and entries, or it changes
  nothing. On success the key maps to the new entry, with the given priority if the key is new and with
  its old priority if it was there; the caller learns which, and the position of the entry. On any
  failure (priority out of range, table full, no memory, build refused) the table is exactly as before
  and no context was lost or leaked. A new key whose priority is not too large finds the table full exactly when it holds \<open>n_rules - 1\<close> keys. When memory
  is delivered and the compiler accepts the rules, the addition succeeds exactly if the priority is not too large
  and either the key is present or it is not negative and the table is not full. In all cases the invariant holds again: the context in use was built from exactly the rules of the table.\<close>

theorem acl_entry_add_refines:
  assumes ok: "acl_ok acl" and syn: "synced lib acl hp" and alloc: "alloc_ok acl alloc"
    and run: "rte_table_acl_entry_add lib alloc (Some acl) (Some rule) (Some e) hp = (st, out, Some acl', hp')"
    and key: "key = rule_key acl (rap_field_value rule)"
  shows "acl_ok acl' \<and> synced lib acl' hp' \<and>
    (st = 0 \<longrightarrow> acl_map acl' = (acl_map acl)(key \<mapsto>
        (case acl_map acl key of None \<Rightarrow> RTE_ACL_MAX_PRIORITY - rap_priority rule | Some (pri, _) \<Rightarrow> pri, e)) \<and>
      (\<exists>pos. out = Some (acl_map acl key \<noteq> None, pos) \<and> pos < acl_n_rules acl \<and> acl_action_table acl' ! pos = e)) \<and>
    (st \<noteq> 0 \<longrightarrow> acl' = acl \<and> ctxs hp' = ctxs hp \<and> out = None) \<and>
    (st = - ENOSPC \<longleftrightarrow> rap_priority rule \<le> RTE_ACL_MAX_PRIORITY \<and> acl_map acl key = None \<and>
      card (dom (acl_map acl)) = acl_n_rules acl - 1) \<and>
    (can_build lib alloc (acl_cfg acl) \<longrightarrow> (st = 0 \<longleftrightarrow> rap_priority rule \<le> RTE_ACL_MAX_PRIORITY \<and>
      (acl_map acl key \<noteq> None \<or> 0 \<le> rap_priority rule \<and> card (dom (acl_map acl)) \<noteq> acl_n_rules acl - 1)))"
  using assms by (rule acl_entry_add_spec)

lemma acl_entry_delete_spec:
  assumes ok: "acl_ok acl" and syn: "synced lib acl hp" and alloc: "alloc_ok acl alloc"
    and run: "rte_table_acl_entry_delete lib alloc (Some acl) (Some fv) hp = (st, out, Some acl', hp')"
    and key: "key = rule_key acl fv"
  shows "acl_ok acl' \<and> synced lib acl' hp' \<and>
    (st = 0 \<longrightarrow> acl_map acl' = (acl_map acl)(key := None) \<and>
      out = Some (acl_map acl key \<noteq> None, map_option snd (acl_map acl key))) \<and>
    (st \<noteq> 0 \<longrightarrow> acl' = acl \<and> ctxs hp' = ctxs hp \<and> out = None) \<and>
    (can_build lib alloc (acl_cfg acl) \<longrightarrow> st = 0)"
proof (cases "table_search acl key")
  case (Inr v)
  then have "acl_map acl key = None" by (simp add: acl_map_def)
  moreover have "st = 0" "out = Some (False, None)" "acl' = acl" "hp' = hp"
    using run Inr key by (auto simp: rte_table_acl_entry_delete_def delete_search_eq [OF ok])
  ultimately show ?thesis using ok syn by (simp add: fun_upd_idem)
next
  case (Inl p)
  then obtain r where r: "rule_in acl p r" "ar_field r = key" using table_search_cases [OF ok, of key] by auto
  then have p: "acl_rule_list acl ! p = Some r" by (simp add: rule_in_def)
  have m: "acl_map acl key = Some (ar_priority r, acl_action_table acl ! p)"
    using r acl_map_Some [OF ok] by blast
  let ?b = "flip_name (set_rule p None acl)"
  have undo: "flip_name (set_rule p (Some r) ?b) = acl"
    using list_update_id [of "acl_rule_list acl" p] p by (simp add: flip_name_def set_rule_def)
  have "length (acl_rule_list ?b) = acl_n_rules ?b" using ok by (simp add: acl_ok_def)
  from rebuild [OF ok syn alloc this] consider
    (fail) hp1 where "rte_table_acl_build lib alloc ?b hp = (None, hp1)" "synced lib acl hp1" "ctxs hp1 = ctxs hp"
      "can_build lib alloc (acl_cfg ?b) \<longrightarrow> (\<exists>r \<in> set (active ?b). acl_check_rule r \<noteq> 0)"
    | (commit) c hp1 where "rte_table_acl_build lib alloc ?b hp = (Some c, hp1)"
      "\<forall>d. acl_rule_list d = acl_rule_list ?b \<longrightarrow> acl_ctx d = c \<longrightarrow> acl_cfg d = acl_cfg ?b \<longrightarrow>
         acl_name_id d = acl_name_id ?b \<longrightarrow> acl_name0 d = acl_name0 ?b \<longrightarrow> acl_name1 d = acl_name1 ?b \<longrightarrow>
         synced lib d (rte_acl_free (acl_ctx acl) hp1)"
    by auto
  then show ?thesis
  proof cases
    case fail
    then have "st = - EINVAL" "out = None" "acl' = acl" "hp' = hp1"
      using run Inl p key undo by (auto simp: rte_table_acl_entry_delete_def delete_search_eq [OF ok] Let_def)
    moreover have "\<not> can_build lib alloc (acl_cfg acl)"
      using fail(4) active_set_rule [OF ok, of _ p None] by (auto simp: active_flip)
    ultimately show ?thesis using ok fail by simp
  next
    case commit
    then have res: "st = 0" "out = Some (True, Some (acl_action_table acl ! p))" "acl' = ?b\<lparr>acl_ctx := c\<rparr>"
        "hp' = rte_acl_free (acl_ctx acl) hp1"
      using run Inl p key by (auto simp: rte_table_acl_entry_delete_def delete_search_eq [OF ok] Let_def)
    have "synced lib acl' hp'" using commit(2) res by simp
    moreover have "acl_ok acl'" "acl_map acl' = (acl_map acl)(key := None)"
      using acl_map_remove [OF ok r(1), of acl'] res r(2) by simp_all
    ultimately show ?thesis using res m by simp
  qed
qed

text \<open>C27. Deleting a key removes exactly that key from the map and hands back its entry, or it changes
  nothing: a key that is not there is reported as not found with status 0, and when the new context
  cannot be built the table and the contexts are as before. With memory and a compiler that accepts the
  remaining rules it succeeds.\<close>

theorem acl_entry_delete_refines:
  assumes ok: "acl_ok acl" and syn: "synced lib acl hp" and alloc: "alloc_ok acl alloc"
    and run: "rte_table_acl_entry_delete lib alloc (Some acl) (Some fv) hp = (st, out, Some acl', hp')"
    and key: "key = rule_key acl fv"
  shows "acl_ok acl' \<and> synced lib acl' hp' \<and>
    (st = 0 \<longrightarrow> acl_map acl' = (acl_map acl)(key := None) \<and>
      out = Some (acl_map acl key \<noteq> None, map_option snd (acl_map acl key))) \<and>
    (st \<noteq> 0 \<longrightarrow> acl' = acl \<and> ctxs hp' = ctxs hp \<and> out = None) \<and>
    (can_build lib alloc (acl_cfg acl) \<longrightarrow> st = 0)"
  using assms by (rule acl_entry_delete_spec)

section \<open>Lookup\<close>

lemma acl_results_eq:
  assumes "\<And>i. bit mk i \<Longrightarrow> g i < length (acl_action_table acl)"
  shows "\<exists>out' ents'. acl_results acl (map g (bits_of mk)) mk out ents = Inr (out', ents') \<and>
    (\<forall>i. bit out' i \<longleftrightarrow> bit out i \<or> bit mk i \<and> g i \<noteq> 0) \<and>
    (\<forall>i. ents' i = (if bit mk i \<and> g i \<noteq> 0 then Some (acl_action_table acl ! g i) else ents i))"
  using assms
proof (induction "length (bits_of mk)" arbitrary: mk out ents)
  case 0
  then have z: "mk = 0" and b: "bits_of mk = []" by simp_all
  show ?case unfolding b by (simp add: z)
next
  case (Suc n)
  then have "bits_of mk \<noteq> []" by (metis length_0_conv nat.distinct(1))
  then have nz: "mk \<noteq> 0" by simp
  let ?c = "ctz mk" let ?m = "mk AND NOT (bit1 ?c)"
  note c = ctz_less [OF nz] bits_of_Cons_ctz [OF nz]
  have m: "bit ?m i \<longleftrightarrow> bit mk i \<and> i \<noteq> ?c" for i
    using c(1) bit_u64_le [of mk i] by (auto simp: bit_and_iff bit_not_iff)
  have n: "n = length (bits_of ?m)" using Suc.hyps(2) c(4) by simp
  let ?out = "if g ?c = 0 then out else out OR bit1 ?c"
  let ?ents = "if g ?c = 0 then ents else ents(?c := Some (acl_action_table acl ! g ?c))"
  obtain out' ents' where r: "acl_results acl (map g (bits_of ?m)) ?m ?out ?ents = Inr (out', ents')"
      "\<forall>i. bit out' i \<longleftrightarrow> bit ?out i \<or> bit ?m i \<and> g i \<noteq> 0"
      "\<forall>i. ents' i = (if bit ?m i \<and> g i \<noteq> 0 then Some (acl_action_table acl ! g i) else ?ents i)"
    using Suc.hyps(1) [OF n, of ?out ?ents] Suc.prems m by blast
  have "acl_results acl (map g (bits_of mk)) mk out ents = Inr (out', ents')"
    using r(1) Suc.prems [OF c(2)] unfolding c(4) by (auto simp: Let_def)
  moreover have "bit out' i \<longleftrightarrow> bit out i \<or> bit mk i \<and> g i \<noteq> 0" for i
    using r(2) c(1,2) m by (auto simp: bit_or_iff)
  moreover have "ents' i = (if bit mk i \<and> g i \<noteq> 0 then Some (acl_action_table acl ! g i) else ents i)" for i
    using r(3) c(2) m by auto
  ultimately show ?case by blast
qed

lemma filter_below_clz: "mk \<noteq> 0 \<Longrightarrow> filter (bit mk) [0 ..< 64 - clz mk] = bits_of mk"
proof -
  assume nz: "mk \<noteq> 0"
  note c = clz_less [OF nz]
  have "[0 ..< 64] = [0 ..< 64 - clz mk] @ [64 - clz mk ..< 64]"
    using upt_add_eq_append [of 0 "64 - clz mk" "clz mk"] c(1) by simp
  moreover have "filter (bit mk) [64 - clz mk ..< 64] = []"
    using c by (auto simp: filter_empty_conv)
  ultimately show ?thesis unfolding bits_of_def by (metis append_Nil2 filter_append)
qed

text \<open>
  What the classifier promises (rte_acl.h): it answers the user data of a rule that matches and has the
  highest priority among those that match, and 0 if no rule matches. \<open>mt\<close> is the matching relation.
\<close>

definition acl_contract :: "('cfg \<Rightarrow> rte_acl_rule \<Rightarrow> 'd \<Rightarrow> bool) \<Rightarrow> ('cfg, 'rt, 'd) acl_lib \<Rightarrow> bool" where
  "acl_contract mt lib \<longleftrightarrow> (\<forall>rules cfg rt d. al_build lib rules cfg = Some rt \<longrightarrow>
     (\<exists>r \<in> set rules. mt cfg r d \<and> (\<forall>s \<in> set rules. mt cfg s d \<longrightarrow> ar_priority s \<le> ar_priority r) \<and>
        al_classify lib rt d = ar_userdata r) \<or>
     (\<forall>r \<in> set rules. \<not> mt cfg r d) \<and> al_classify lib rt d = 0)"

text \<open>The entry of a rule of highest priority among the rules of the table that match.\<close>

definition best_entry ::
  "('cfg \<Rightarrow> rte_acl_rule \<Rightarrow> 'd \<Rightarrow> bool) \<Rightarrow> 'cfg rte_table_acl \<Rightarrow> 'd \<Rightarrow> rte_pipeline_table_entry \<Rightarrow> bool" where
  "best_entry mt acl d e \<longleftrightarrow> (\<exists>r \<in> set (active acl). mt (acl_cfg acl) r d \<and>
     (\<forall>s \<in> set (active acl). mt (acl_cfg acl) s d \<longrightarrow> ar_priority s \<le> ar_priority r) \<and>
     acl_map acl (ar_field r) = Some (ar_priority r, e))"

text \<open>The work of a lookup, in terms of the classifier's contract.\<close>

lemma acl_lookup_best_match_raw:
  assumes ok: "acl_ok acl" and syn: "synced lib acl hp" and con: "acl_contract mt lib" and mk: "mk \<noteq> 0"
  shows "\<exists>hit ents'. rte_table_acl_lookup lib mtod acl hp pk mk ents = Inr (hit, ents') \<and>
    (\<forall>i. (bit hit i \<longleftrightarrow> bit mk i \<and> (\<exists>r \<in> set (active acl). mt (acl_cfg acl) r (mtod (pk i)))) \<and>
      (bit hit i \<longrightarrow> (\<exists>e. ents' i = Some e \<and> best_entry mt acl (mtod (pk i)) e)) \<and>
      (\<not> bit hit i \<longrightarrow> ents' i = ents i))"
proof (cases "acl_ctx acl")
  case None
  then have "active acl = []" using syn by (simp add: synced_def)
  then show ?thesis using None by (simp add: rte_table_acl_lookup_def)
next
  case (Some c)
  then obtain x rt where x: "ctx_at hp c = Some x" "ctx_rt x = Some rt"
      "al_build lib (active acl) (acl_cfg acl) = Some rt"
    using syn by (auto simp: synced_def)
  define g where "g i = al_classify lib rt (mtod (pk i))" for i
  have cl: "(\<exists>r \<in> set (active acl). mt (acl_cfg acl) r (mtod (pk i)) \<and>
        (\<forall>s \<in> set (active acl). mt (acl_cfg acl) s (mtod (pk i)) \<longrightarrow> ar_priority s \<le> ar_priority r) \<and> g i = ar_userdata r) \<or>
      (\<forall>r \<in> set (active acl). \<not> mt (acl_cfg acl) r (mtod (pk i))) \<and> g i = 0" for i
    using con x(3) unfolding acl_contract_def g_def by blast
  have at: "rule_in acl (ar_userdata r) r" if "r \<in> set (active acl)" for r
    using that ok mem_active [OF ok] by (fastforce simp: acl_ok_def)
  have len: "length (acl_action_table acl) = acl_n_rules acl" "0 < acl_n_rules acl" using ok by (simp_all add: acl_ok_def)
  have "g i < length (acl_action_table acl)" for i
    using cl [of i] at len by (auto simp: rule_in_def)
  then obtain hit ents' where r: "acl_results acl (map g (bits_of mk)) mk 0 ents = Inr (hit, ents')"
      "\<forall>i. bit hit i \<longleftrightarrow> bit mk i \<and> g i \<noteq> 0"
      "\<forall>i. ents' i = (if bit mk i \<and> g i \<noteq> 0 then Some (acl_action_table acl ! g i) else ents i)"
    using acl_results_eq [of mk g acl 0 ents] by auto
  have "rte_table_acl_lookup lib mtod acl hp pk mk ents = Inr (hit, ents')"
    using r(1) Some x(1,2) unfolding g_def [abs_def]
    by (simp add: rte_table_acl_lookup_def filter_below_clz [OF mk] o_def)
  moreover have nz: "g i \<noteq> 0 \<longleftrightarrow> (\<exists>r \<in> set (active acl). mt (acl_cfg acl) r (mtod (pk i)))" for i
    using cl [of i] at by (fastforce simp: rule_in_def)
  moreover have "\<exists>e. ents' i = Some e \<and> best_entry mt acl (mtod (pk i)) e" if "bit hit i" for i
  proof -
    from that r(2) have i: "bit mk i" "g i \<noteq> 0" by simp_all
    with cl [of i] obtain q where q: "q \<in> set (active acl)" "mt (acl_cfg acl) q (mtod (pk i))"
        "\<forall>s \<in> set (active acl). mt (acl_cfg acl) s (mtod (pk i)) \<longrightarrow> ar_priority s \<le> ar_priority q" "g i = ar_userdata q"
      by blast
    have "acl_map acl (ar_field q) = Some (ar_priority q, acl_action_table acl ! ar_userdata q)"
      using at [OF q(1)] acl_map_Some [OF ok] by blast
    then show ?thesis using q r(3) i unfolding best_entry_def by auto
  qed
  ultimately show ?thesis using r(2,3) by auto
qed

text \<open>C26. A lookup gives every packet of the mask the entry of the best rule that matches it. It never
  reads outside the table; exactly the packets that some rule matches are reported as hits; the entry of
  a hit is the one the map holds for a matching rule of highest priority; other entries are not touched.\<close>

theorem acl_lookup_best_match:
  assumes ok: "acl_ok acl" and syn: "synced lib acl hp" and con: "acl_contract mt lib" and mk: "mk \<noteq> 0"
  shows "\<exists>hit ents'. rte_table_acl_lookup lib mtod acl hp pk mk ents = Inr (hit, ents') \<and>
    (\<forall>i. (bit hit i \<longleftrightarrow> bit mk i \<and> (\<exists>r \<in> set (active acl). mt (acl_cfg acl) r (mtod (pk i)))) \<and>
      (bit hit i \<longrightarrow> (\<exists>e. ents' i = Some e \<and> best_entry mt acl (mtod (pk i)) e)) \<and>
      (\<not> bit hit i \<longrightarrow> ents' i = ents i))"
  by (rule acl_lookup_best_match_raw [OF assms])

section \<open>A concrete table\<close>

text \<open>A classifier that keeps the rules and searches them: packets are lists of field values, and a rule
  matches the packets whose values are its own.\<close>

definition plain_match :: "unit \<Rightarrow> rte_acl_rule \<Rightarrow> u64 list \<Rightarrow> bool" where
  "plain_match cfg r d = (map af_value (ar_field r) = d)"

primrec plain_best :: "rte_acl_rule list \<Rightarrow> u64 list \<Rightarrow> rte_acl_rule option" where
  "plain_best [] d = None"
| "plain_best (r # rs) d = (case plain_best rs d of
     None \<Rightarrow> if plain_match () r d then Some r else None
   | Some s \<Rightarrow> if plain_match () r d \<and> ar_priority s \<le> ar_priority r then Some r else Some s)"

definition plain_lib :: "(unit, rte_acl_rule list, u64 list) acl_lib" where
  "plain_lib = \<lparr>al_build = (\<lambda>rules cfg. Some rules),
     al_classify = (\<lambda>rules d. case plain_best rules d of None \<Rightarrow> 0 | Some r \<Rightarrow> ar_userdata r)\<rparr>"

lemma plain_best:
  "(case plain_best rs d of None \<Rightarrow> \<forall>r \<in> set rs. \<not> plain_match () r d
    | Some r \<Rightarrow> r \<in> set rs \<and> plain_match () r d \<and> (\<forall>s \<in> set rs. plain_match () s d \<longrightarrow> ar_priority s \<le> ar_priority r))"
  by (induction rs) (fastforce split: option.splits)+

lemma plain_contract: "acl_contract plain_match plain_lib"
  unfolding acl_contract_def plain_lib_def
proof (clarsimp, goal_cases)
  case (1 rules d)
  then show ?case using plain_best [of rules d] by (cases "plain_best rules d") fastforce+
qed

definition demo_field :: "u64 \<Rightarrow> rte_acl_field" where
  "demo_field v = \<lparr>af_value = v, af_mask_range = 0\<rparr>"

definition demo_entry :: "nat \<Rightarrow> rte_pipeline_table_entry" where
  "demo_entry i = \<lparr>pte_action = ACTION_PORT, pte_id = i, pte_data = []\<rparr>"

text \<open>A table of three positions, as created on zeroed memory, and the same with one rule.\<close>

definition demo0 :: "unit rte_table_acl" where
  "demo0 = \<lparr>acl_stats = (0, 0), acl_name0 = ''fw_a'', acl_name1 = ''fw_b'', acl_name_id = True, acl_cfg = (),
     acl_num_fields = 1, acl_ctx = None, acl_n_rules = 3, acl_entry_size = 8, acl_rule_size = 32,
     acl_rule_list = [None, None, None], acl_action_table = [zero_entry, zero_entry, zero_entry]\<rparr>"

definition demo_rule :: "u64 \<Rightarrow> int \<Rightarrow> rte_table_acl_rule_add_params" where
  "demo_rule v pri = \<lparr>rap_priority = pri, rap_field_value = [demo_field v]\<rparr>"

definition demo_alloc :: "(nat \<times> rte_acl_rule list) option" where
  "demo_alloc = Some (0, replicate 3 \<lparr>ar_category_mask = 0, ar_priority = 0, ar_userdata = 0, ar_field = []\<rparr>)"

definition demo_heap0 :: "rte_acl_rule list acl_heap" where
  "demo_heap0 = \<lparr>ctxs = [], fresh = 0\<rparr>"

definition demo1 :: "unit rte_table_acl" where
  "demo1 = set_entry 1 (demo_entry 7) ((flip_name (set_rule 1 (Some (new_rule demo0 (demo_rule 5 0) 1)) demo0))
     \<lparr>acl_ctx := Some 0\<rparr>)"

definition demo_ctx1 :: "rte_acl_rule list rte_acl_ctx" where
  "demo_ctx1 = \<lparr>ctx_name = ''fw_a'', ctx_max_rules = 3, ctx_rule_sz = 32, ctx_num_rules = 1,
     ctx_mem = new_rule demo0 (demo_rule 5 0) 1 # drop 1 (snd (the demo_alloc)),
     ctx_rt = Some [new_rule demo0 (demo_rule 5 0) 1]\<rparr>"

definition demo_heap1 :: "rte_acl_rule list acl_heap" where
  "demo_heap1 = \<lparr>ctxs = [(0, demo_ctx1)], fresh = 1\<rparr>"

lemma demo0_ok: "acl_ok demo0" "synced plain_lib demo0 demo_heap0" "alloc_ok demo0 demo_alloc"
proof -
  have "\<not> rule_in demo0 i r" for i r
    by (cases "i = 1"; cases "i = 2") (auto simp: rule_in_def demo0_def)
  then show "acl_ok demo0" by (simp add: acl_ok_def) (simp add: demo0_def)
  show "synced plain_lib demo0 demo_heap0" by (simp add: synced_def demo0_def demo_heap0_def active_def)
  show "alloc_ok demo0 demo_alloc" by (simp add: alloc_ok_def demo_alloc_def demo0_def)
qed

lemma demo_add1:
  "rte_table_acl_entry_add plain_lib demo_alloc (Some demo0) (Some (demo_rule 5 0)) (Some (demo_entry 7)) demo_heap0 =
     (0, Some (False, 1), Some demo1, demo_heap1)"
  by (simp add: rte_table_acl_entry_add_def table_search_def rte_table_acl_build_def rte_acl_create_def
      acl_params_def rte_acl_add_rules_def acl_add_rules_def acl_check_rule_def rte_acl_build_def ctx_at_def ctx_set_def
      rte_acl_free_def demo0_def demo1_def demo_heap0_def demo_heap1_def demo_ctx1_def demo_alloc_def demo_rule_def
      plain_lib_def new_rule_def rule_key_def flip_name_def set_rule_def set_entry_def Let_def numeral_3_eq_3)

lemma demo0_map: "acl_map demo0 key = None"
  by (simp add: acl_map_def table_search_def demo0_def numeral_3_eq_3)

theorem acl_entry_add_refines_witness:
  "acl_ok demo1 \<and> synced plain_lib demo1 demo_heap1 \<and>
   acl_map demo1 [demo_field 5] = Some (RTE_ACL_MAX_PRIORITY, demo_entry 7)"
  using acl_entry_add_refines [OF demo0_ok demo_add1 refl] demo0_map
  by (simp add: demo_rule_def rule_key_def demo0_def)

lemma demo1_ok: "acl_ok demo1" "synced plain_lib demo1 demo_heap1" "alloc_ok demo1 demo_alloc"
proof -
  have q: "demo1 = set_entry 1 (demo_entry 7) ((flip_name (set_rule 1 (Some (new_rule demo0 (demo_rule 5 0) 1)) demo0))
     \<lparr>acl_ctx := Some 0\<rparr>)" by (rule demo1_def)
  have n: "\<forall>i r. rule_in demo0 i r \<longrightarrow> ar_field r \<noteq> ar_field (new_rule demo0 (demo_rule 5 0) 1)"
    using demo0_map acl_map_None [OF demo0_ok(1)] by blast
  have c: "acl_check_rule (new_rule demo0 (demo_rule 5 0) 1) = 0"
    by (simp add: acl_check_rule_def new_rule_def demo_rule_def)
  have d: "acl_n_rules demo0 = 3" "acl_rule_list demo0 = [None, None, None]" by (simp_all add: demo0_def)
  show "acl_ok demo1" unfolding q
    by (rule acl_map_insert(1) [OF demo0_ok(1) _ _ _ n _ c, where e = "demo_entry 7"]) (simp_all add: d)
  show "synced plain_lib demo1 demo_heap1"
    by (simp add: synced_def demo1_def demo0_def demo_heap1_def demo_ctx1_def active_def ctx_at_def cur_name_def
        plain_lib_def new_rule_def set_entry_def flip_name_def set_rule_def numeral_3_eq_3)
  show "alloc_ok demo1 demo_alloc" using demo0_ok(3) by (simp add: alloc_ok_def demo1_def)
qed

lemma demo_delete1:
  "rte_table_acl_entry_delete plain_lib demo_alloc (Some demo1) (Some [demo_field 5]) demo_heap1 =
     (0, Some (True, Some (demo_entry 7)), Some (demo1\<lparr>acl_rule_list := [None, None, None], acl_name_id := True,
        acl_ctx := None\<rparr>), demo_heap1\<lparr>ctxs := [], fresh := 2\<rparr>)"
  by (simp add: rte_table_acl_entry_delete_def delete_search_def rte_table_acl_build_def rte_acl_create_def
      acl_params_def rte_acl_free_def demo0_def demo1_def demo_heap1_def demo_ctx1_def demo_alloc_def demo_rule_def
      plain_lib_def new_rule_def rule_key_def flip_name_def set_rule_def set_entry_def Let_def numeral_3_eq_3)

theorem acl_entry_delete_refines_witness:
  "acl_map (demo1\<lparr>acl_rule_list := [None, None, None], acl_name_id := True, acl_ctx := None\<rparr>) [demo_field 5] = None \<and>
   map_option snd (acl_map demo1 [demo_field 5]) = Some (demo_entry 7)"
  using acl_entry_delete_refines [OF demo1_ok demo_delete1 refl]
  by (simp add: rule_key_def demo1_def demo0_def)

theorem acl_lookup_best_match_witness:
  "\<exists>hit ents'. rte_table_acl_lookup plain_lib (\<lambda>v. [v]) demo1 demo_heap1 (\<lambda>i. if i = 0 then 5 else 6) 3 (\<lambda>_. None) =
     Inr (hit, ents') \<and> bit hit 0 \<and> \<not> bit hit 1"
proof -
  have "active demo1 = [new_rule demo0 (demo_rule 5 0) 1]"
    by (simp add: active_def demo1_def demo0_def)
  moreover have "plain_match () (new_rule demo0 (demo_rule 5 0) 1) [v] \<longleftrightarrow> v = 5" for v
    by (auto simp: plain_match_def rule_key_def demo_rule_def demo0_def demo_field_def)
  moreover have "bit (3::u64) 0" by simp
  ultimately show ?thesis
    using acl_lookup_best_match [OF demo1_ok(1,2) plain_contract, of 3 "\<lambda>v. [v]" "\<lambda>i. if i = 0 then 5 else 6" "\<lambda>_. None"]
    by (auto simp: demo1_def demo0_def)
qed

end
