(* ===== verification/Filter_World.thy ===== *)
theory Filter_World
  imports Packet_Conservation Mbuf Port_Sink Table_Acl_Correct Sketch
begin

text \<open>
  The enclave's packet filter put together: the machine state holds the ring ports of
  src/Enclave/dpdk/librte_port, the mbuf pool, the ACL tables with their contexts, the header cache and
  the sketch. The operations of the ACL table (\<open>rte_table_acl_ops\<close> at the end of rte_table_acl.c) and the
  input action of header_copy.h work on this state, and the contract of the pipeline is interpreted on
  it: a run returns and accounts for every packet.
\<close>

section \<open>Machine state\<close>

record ('cfg, 'rt) enclave =
  mbufs :: mbuf_mem
  packet :: "nat \<Rightarrow> rte_mbuf"
  headers :: "nat \<Rightarrow> header_cache"
  input_cm :: count_min_t
  acls :: "'cfg rte_table_acl option list"
  acl_hp :: "'rt acl_heap"

type_synonym ('cfg, 'rt) world = "(nat, ('cfg, 'rt) enclave) port_mem"

definition enclave_free :: "(nat \<Rightarrow> bool) \<Rightarrow> nat \<Rightarrow> nat \<Rightarrow> ('cfg, 'rt) enclave \<Rightarrow> ('cfg, 'rt) enclave res" where
  "enclave_free outside fuel m x = rbind (rte_pktmbuf_free outside fuel m (mbufs x)) (\<lambda>b. Inr (x\<lparr>mbufs := b\<rparr>))"

definition world_mbuf_ops ::
  "(nat \<Rightarrow> bool) \<Rightarrow> nat \<Rightarrow> (nat \<Rightarrow> nat \<Rightarrow> ('cfg, 'rt) world \<Rightarrow> nat) \<Rightarrow> (('cfg, 'rt) world, nat) mbuf_ops" where
  "world_mbuf_ops outside fuel md =
     \<lparr>mb_free = (\<lambda>m g. rbind (enclave_free outside fuel m (rest g)) (\<lambda>x. Inr (g\<lparr>rest := x\<rparr>))), mb_meta32 = md\<rparr>"

section \<open>The table operations\<close>

text \<open>A key is what the caller's \<open>void *\<close> points to: the structure of an add or of a delete request. A
  structure of the wrong kind is read past its end.\<close>

datatype acl_key = Add_Key rte_table_acl_rule_add_params | Delete_Key "rte_acl_field list"

definition add_key :: "acl_key \<Rightarrow> rte_table_acl_rule_add_params res" where
  "add_key k = (case k of Add_Key r \<Rightarrow> Inr r | Delete_Key _ \<Rightarrow> Inl OutOfBounds)"

definition delete_key :: "acl_key \<Rightarrow> rte_acl_field list res" where
  "delete_key k = (case k of Delete_Key fv \<Rightarrow> Inr fv | Add_Key _ \<Rightarrow> Inl OutOfBounds)"

primrec keys_of :: "('k \<Rightarrow> 'z res) \<Rightarrow> 'k option list \<Rightarrow> 'z option list res" where
  "keys_of f [] = Inr []"
| "keys_of f (k # ks) = rbind (case k of None \<Rightarrow> Inr None | Some k \<Rightarrow> rbind (f k) (\<lambda>z. Inr (Some z))) (\<lambda>z.
     rbind (keys_of f ks) (\<lambda>zs. Inr (z # zs)))"

definition acl_store ::
  "nat \<Rightarrow> 'cfg rte_table_acl option \<Rightarrow> 'rt acl_heap \<Rightarrow> ('cfg, 'rt) world \<Rightarrow> ('cfg, 'rt) world" where
  "acl_store h acl hp g = g\<lparr>rest := (rest g)\<lparr>acls := (acls (rest g))[h := acl], acl_hp := hp\<rparr>\<rparr>"

text \<open>\<open>table_alloc\<close> and \<open>ctx_alloc\<close> are what the allocator delivers for a table and for a context.\<close>

definition rte_table_acl_ops ::
  "('cfg, 'rt, nat \<Rightarrow> u8) acl_lib \<Rightarrow>
   (('cfg, 'rt) world \<Rightarrow> (rte_acl_rule option list \<times> rte_pipeline_table_entry list \<times> u64 \<times> u64) option) \<Rightarrow>
   (('cfg, 'rt) world \<Rightarrow> (nat \<times> rte_acl_rule list) option) \<Rightarrow>
   (('cfg, 'rt) world, 'cfg rte_table_acl_params option, nat, acl_key, nat) rte_table_ops" where
  "rte_table_acl_ops lib table_alloc ctx_alloc = \<lparr>
     t_create = Some (\<lambda>arg socket sz g. Inr (case rte_table_acl_create (table_alloc g) arg sz of None \<Rightarrow> (None, g)
       | Some acl \<Rightarrow> (Some (length (acls (rest g))), g\<lparr>rest := (rest g)\<lparr>acls := acls (rest g) @ [Some acl]\<rparr>\<rparr>))),
     t_free = Some (\<lambda>h g. rbind (at (acls (rest g)) h) (\<lambda>acl.
       Inr (acl_store h None (snd (rte_table_acl_free (Some acl) (acl_hp (rest g)))) g))),
     t_add = Some (\<lambda>h k e g. rbind (at (acls (rest g)) h) (\<lambda>acl. rbind (add_key k) (\<lambda>rule.
       Inr (case rte_table_acl_entry_add lib (ctx_alloc g) (Some acl) (Some rule) (Some e) (acl_hp (rest g)) of
         (st, out, acl, hp) \<Rightarrow> (st, out, acl_store h acl hp g))))),
     t_delete = Some (\<lambda>h k g. rbind (at (acls (rest g)) h) (\<lambda>acl. rbind (delete_key k) (\<lambda>fv.
       Inr (case rte_table_acl_entry_delete lib (ctx_alloc g) (Some acl) (Some fv) (acl_hp (rest g)) of
         (st, out, acl, hp) \<Rightarrow> (st, out, acl_store h acl hp g))))),
     t_add_bulk = Some (\<lambda>h ks es kf ptrs g. rbind (at (acls (rest g)) h) (\<lambda>acl. rbind (keys_of add_key ks) (\<lambda>rules.
       Inr (case rte_table_acl_entry_add_bulk lib (ctx_alloc g) (Some acl) rules es kf ptrs (acl_hp (rest g)) of
         (st, kf, ptrs, acl, hp) \<Rightarrow> (st, kf, ptrs, acl_store h acl hp g))))),
     t_delete_bulk = Some (\<lambda>h ks kf g. rbind (at (acls (rest g)) h) (\<lambda>acl. rbind (keys_of delete_key ks) (\<lambda>fvs.
       Inr (case rte_table_acl_entry_delete_bulk lib (ctx_alloc g) (Some acl) fvs kf (acl_hp (rest g)) of
         (st, kf, acl, hp) \<Rightarrow> (st, kf, acl_store h acl hp g))))),
     t_lookup = Some (\<lambda>h pk mk ents g. rbind (at (acls (rest g)) h) (\<lambda>acl.
       rbind (rte_table_acl_lookup lib (\<lambda>m. mtod (packet (rest g) m)) acl (acl_hp (rest g)) pk mk ents) (\<lambda>(hit, ents).
       Inr (hit, ents, g)))),
     t_stats = Some (\<lambda>h clear g. rbind (at (acls (rest g)) h) (\<lambda>acl.
       Inr (case rte_table_acl_stats_read clear acl of
         (st, stats, acl) \<Rightarrow> (st, stats, acl_store h (Some acl) (acl_hp (rest g)) g))))\<rparr>"

text \<open>The input action of header_copy.h on this state; it changes neither the packets nor the masks.\<close>

definition header_copy_action ::
  "bool \<Rightarrow> bool \<Rightarrow> nat \<Rightarrow> nat rte_run \<Rightarrow> ('cfg, 'rt) world \<Rightarrow> (nat rte_run \<times> ('cfg, 'rt) world) res" where
  "header_copy_action asserts sketch n run g =
     rbind (input_port_make_header_copy asserts sketch (\<lambda>i. packet (rest g) (pkts run i)) n
              (headers (rest g), input_cm (rest g))) (\<lambda>(hs, cm).
     Inr (run, g\<lparr>rest := (rest g)\<lparr>headers := hs, input_cm := cm\<rparr>\<rparr>))"

section \<open>The pool\<close>

text \<open>Freeing touches the pool only, so any predicate of the tables and the packet data is kept.\<close>

definition pool_ok ::
  "(nat \<Rightarrow> bool) \<Rightarrow> ('cfg rte_table_acl option list \<Rightarrow> 'rt acl_heap \<Rightarrow> (nat \<Rightarrow> rte_mbuf) \<Rightarrow> bool) \<Rightarrow>
   ('cfg, 'rt) enclave \<Rightarrow> bool" where
  "pool_ok outside Q x \<longleftrightarrow> simple_segs outside (mbufs x) \<and> Q (acls x) (acl_hp x) (packet x)"

definition enclave_pool :: "('cfg, 'rt) enclave \<Rightarrow> nat multiset" where
  "enclave_pool x = given_back (mbufs x)"

interpretation enclave: mbuf_pool "enclave_free outside (Suc fuel)" "pool_ok outside Q" enclave_pool
  for outside fuel Q
proof unfold_locales
  fix x :: "('a, 'b) enclave" and m
  assume "pool_ok outside Q x"
  then show "\<exists>x'. enclave_free outside (Suc fuel) m x = Inr x' \<and> pool_ok outside Q x' \<and>
      enclave_pool x' = add_mset m (enclave_pool x)"
    using host_pool.free_law [of outside "mbufs x" fuel m]
    by (auto simp: pool_ok_def enclave_free_def enclave_pool_def)
qed

section \<open>The filter\<close>

text \<open>Input ports are ring readers, output ports ring writers (for one or several producers) or sinks, tables are
  ACL tables, and the only action is the header copy.\<close>

definition ring_port_in :: "bool \<Rightarrow> bool \<Rightarrow> (('cfg, 'rt) world, port_arg, nat, nat) rte_port_in \<Rightarrow> bool" where
  "ring_port_in asserts sketch port \<longleftrightarrow>
     (\<exists>a. pin_ops port = rte_port_ring_reader_ops a \<or> pin_ops port = rte_port_ring_multi_reader_ops a) \<and>
     (pin_action port = None \<or> pin_action port = Some (header_copy_action asserts sketch))"

text \<open>
  The output ports of this world are ring writers that may drop and sinks. The dropless writers of rte_port_ring.c (the type that
  src/App/ip_pipeline/init.c chooses for a software queue marked dropless, as config/sgx_firewall.cfg does for its two outputs) are
  modelled in Port_Ring; they wait for a reader, so that no bound on a run holds for them, and they are left out here.
\<close>

definition port_out_ok ::
  "(nat \<Rightarrow> bool) \<Rightarrow> nat \<Rightarrow> ('cfg, 'rt) world \<Rightarrow> (('cfg, 'rt) world, port_arg, nat, nat) rte_port_out \<Rightarrow> bool" where
  "port_out_ok outside fuel g port \<longleftrightarrow>
     (\<exists>a. (pout_ops port = rte_port_ring_writer_ops (enclave_free outside fuel) a \<or>
           pout_ops port = rte_port_ring_multi_writer_ops (enclave_free outside fuel) a) \<and>
        pout_h port < length (writers g) \<and> writers g ! pout_h port \<noteq> None) \<or>
     (\<exists>a. pout_ops port = rte_port_sink_ops (enclave_free outside fuel) a \<and>
        pout_h port < length (sinks g) \<and> sinks g ! pout_h port \<noteq> None)"

text \<open>The two kinds of output port, by the functions that send.\<close>

lemma port_out_okE:
  assumes "port_out_ok outside fuel g port"
  obtains (ring) mp q where "po_tx (pout_ops port) = Some (writer_tx (enclave_free outside fuel) mp)"
      "po_tx_bulk (pout_ops port) = Some (rte_port_ring_writer_tx_bulk_internal (enclave_free outside fuel) mp)"
      "po_flush (pout_ops port) = Some (writer_flush (enclave_free outside fuel) mp)"
      "po_stats (pout_ops port) = Some rte_port_ring_writer_stats_read"
      "pout_h port < length (writers g)" "writers g ! pout_h port = Some q"
    | (sink) st where "po_tx (pout_ops port) = Some (rte_port_sink_tx (enclave_free outside fuel))"
      "po_tx_bulk (pout_ops port) = Some (rte_port_sink_tx_bulk (enclave_free outside fuel))"
      "po_flush (pout_ops port) = Some (\<lambda>h g. Inr g)" "po_stats (pout_ops port) = Some rte_port_sink_stats_read"
      "pout_h port < length (sinks g)" "sinks g ! pout_h port = Some st"
  using assms unfolding port_out_ok_def
  by (auto simp: rte_port_ring_writer_ops_def rte_port_ring_multi_writer_ops_def rte_port_sink_ops_def
      rte_port_ring_writer_tx_def rte_port_ring_multi_writer_tx_def rte_port_ring_writer_tx_bulk_def
      rte_port_ring_multi_writer_tx_bulk_def rte_port_ring_writer_flush_def rte_port_ring_multi_writer_flush_def
      rte_port_sink_flush_def)

definition acl_table ::
  "('cfg, 'rt, nat \<Rightarrow> u8) acl_lib \<Rightarrow>
   (('cfg, 'rt) world, 'cfg rte_table_acl_params option, nat, acl_key, nat) rte_table \<Rightarrow> bool" where
  "acl_table lib table \<longleftrightarrow> (\<exists>ta ca. tbl_ops table = rte_table_acl_ops lib ta ca)"

text \<open>Each table of the pipeline is behind its handle, in step with its context, and its entries lead to
  ports or later tables that exist.\<close>

definition tables_ok ::
  "('cfg, 'rt, nat \<Rightarrow> u8) acl_lib \<Rightarrow>
   (('cfg, 'rt) world, 'a, 'cfg rte_table_acl_params option, nat, acl_key, nat) rte_pipeline \<Rightarrow>
   'cfg rte_table_acl option list \<Rightarrow> 'rt acl_heap \<Rightarrow> bool" where
  "tables_ok lib p as hp \<longleftrightarrow> (\<forall>t < length (tables p). \<exists>acl. acl_table lib (tables p ! t) \<and>
     h_table (tables p ! t) < length as \<and> as ! h_table (tables p ! t) = Some acl \<and> acl_ok acl \<and> synced lib acl hp \<and>
     (\<forall>i r. rule_in acl i r \<longrightarrow> entry_ok p False t (acl_action_table acl ! i)))"

definition ipv4_only :: "bool \<Rightarrow> (nat \<Rightarrow> rte_mbuf) \<Rightarrow> bool" where
  "ipv4_only asserts pkt \<longleftrightarrow> (asserts \<longrightarrow> (\<forall>m. be16 (mtod (pkt m)) 12 = ETHER_TYPE_IPv4))"

text \<open>The invariant of the filter; \<open>K\<close> is what else its owner relies on of the tables, the contexts and the
  packet data, which a run does not change.\<close>

definition filter_inv where
  "filter_inv K outside fuel lib mt asserts sketch p g \<longleftrightarrow> topology_ok p False \<and> acl_contract mt lib \<and>
     mem_ok (pool_ok outside (\<lambda>as hp pkt. tables_ok lib p as hp \<and> ipv4_only asserts pkt \<and> K as hp pkt)) g \<and>
     (\<forall>port \<in> set (ports_in p). ring_port_in asserts sketch port \<and>
        pin_h port < length (readers g) \<and> readers g ! pin_h port \<noteq> None) \<and>
     (\<forall>port \<in> set (ports_out p). port_out_ok outside fuel g port)"

text \<open>The objects behind the handles stay.\<close>

definition live :: "'z option list \<Rightarrow> 'z option list \<Rightarrow> bool" where
  "live xs ys \<longleftrightarrow> (\<forall>h < length xs. xs ! h \<noteq> None \<longrightarrow> h < length ys \<and> ys ! h \<noteq> None)"

lemma live_refl [simp]: "live xs xs"
  by (simp add: live_def)

lemma live_update [simp]: "live xs (xs[h := Some q])"
proof -
  have "xs[h := Some q] ! k \<noteq> None" if "k < length xs" "xs ! k \<noteq> None" for k
    using that by (cases "k = h") auto
  then show ?thesis by (simp add: live_def)
qed

lemma live_append [simp]: "live xs (xs @ ys)"
  by (simp add: live_def nth_append)

lemma port_out_live:
  "port_out_ok outside fuel g port \<Longrightarrow> live (writers g) (writers g') \<Longrightarrow> live (sinks g) (sinks g') \<Longrightarrow>
   port_out_ok outside fuel g' port"
  unfolding port_out_ok_def live_def by blast

lemma filter_inv_frame:
  assumes "filter_inv K outside fuel lib mt asserts sketch p g"
    and "mem_ok (pool_ok outside (\<lambda>as hp pkt. tables_ok lib p as hp \<and> ipv4_only asserts pkt \<and> K as hp pkt)) g'"
    and "live (readers g) (readers g')" and "live (sinks g) (sinks g')" and "live (writers g) (writers g')"
  shows "filter_inv K outside fuel lib mt asserts sketch p g'"
proof -
  have "pin_h port < length (readers g') \<and> readers g' ! pin_h port \<noteq> None" if "port \<in> set (ports_in p)" for port
    using assms(1,3) that unfolding filter_inv_def live_def by blast
  moreover have "port_out_ok outside fuel g' port" if "port \<in> set (ports_out p)" for port
    using assms(1) that port_out_live [OF _ assms(5,4)] unfolding filter_inv_def by blast
  ultimately show ?thesis using assms(1,2) unfolding filter_inv_def by blast
qed

lemma header_copy_runs:
  assumes "ipv4_only asserts (packet (rest g))" and "n \<le> RTE_PORT_IN_BURST_SIZE_MAX"
  shows "\<exists>hs cm. header_copy_action asserts sketch n run g = Inr (run, g\<lparr>rest := (rest g)\<lparr>headers := hs, input_cm := cm\<rparr>\<rparr>)"
proof -
  let ?f = "\<lambda>i (hs, ls). if i \<ge> RTE_PORT_IN_BURST_SIZE_MAX then Inl OutOfBounds else rbind (header_cache_clone asserts (packet (rest g) (pkts run i)))
      (\<lambda>(hc, l). Inr (hs(i := hc), ls(i := l)))"
  have step: "\<exists>t. ?f i s = Inr t \<and> True" if "i \<in> set [0..<n]" for i s
    using assms that by (cases s) (auto simp: header_cache_clone_def ipv4_only_def)
  obtain z where "rfold ?f [0..<n] (headers (rest g), \<lambda>_. 0) = Inr z"
    using rfold_total [of "\<lambda>_. True" _ "[0..<n]" ?f, OF TrueI step] by blast
  then obtain hs cm where "input_port_make_header_copy asserts sketch (\<lambda>i. packet (rest g) (pkts run i)) n
      (headers (rest g), input_cm (rest g)) = Inr (hs, cm)"
    using assms(2) by (cases z; cases sketch) (auto simp: input_port_make_header_copy_def cm_update_bulk_hc_def Let_def)
  then show ?thesis by (auto simp: header_copy_action_def)
qed

text \<open>The lookups of the tables.\<close>

lemma table_lookup_ok:
  assumes "acl_contract mt lib" and "acl_table lib table" and "at (acls (rest g)) (h_table table) = Inr acl"
    and ok: "acl_ok acl" "synced lib acl (acl_hp (rest g))" and mk: "mk \<noteq> 0"
    and E: "\<forall>i r. rule_in acl i r \<longrightarrow> E (acl_action_table acl ! i)"
  shows "\<exists>lk hit ents' e. t_lookup (tbl_ops table) = Some lk \<and>
    lk (h_table table) pk mk ents g = Inr (hit, ents', g) \<and>
    (\<forall>i. bit hit i \<longrightarrow> bit mk i \<and> ents' i = Some (e i) \<and> E (e i)) \<and> (\<forall>i. \<not> bit hit i \<longrightarrow> ents' i = ents i)"
proof -
  obtain ta ca where ops: "tbl_ops table = rte_table_acl_ops lib ta ca" using assms(2) by (auto simp: acl_table_def)
  let ?mtod = "\<lambda>m. mtod (packet (rest g) m)"
  obtain hit ents' where lk: "rte_table_acl_lookup lib ?mtod acl (acl_hp (rest g)) pk mk ents = Inr (hit, ents')"
    and h: "\<And>i. bit hit i \<Longrightarrow> bit mk i"
      "\<And>i. bit hit i \<Longrightarrow> \<exists>e. ents' i = Some e \<and> best_entry mt acl (?mtod (pk i)) e"
      "\<And>i. \<not> bit hit i \<Longrightarrow> ents' i = ents i"
    using acl_lookup_best_match_raw [OF ok assms(1) mk, of ?mtod pk ents] by blast
  have "E e" if "best_entry mt acl d e" for d e
  proof -
    from that obtain r :: rte_acl_rule where "acl_map acl (ar_field r) = Some (ar_priority r, e)" by (auto simp: best_entry_def)
    then obtain i q where "rule_in acl i q" "acl_action_table acl ! i = e" using acl_map_Some [OF ok(1)] by blast
    then show ?thesis using E by blast
  qed
  then have e: "bit mk i \<and> ents' i = Some (the (ents' i)) \<and> E (the (ents' i))" if "bit hit i" for i
    using h(1,2) [OF that] by auto
  obtain lk' where lk': "t_lookup (tbl_ops table) = Some lk'"
      "lk' (h_table table) pk mk ents g = Inr (hit, ents', g)"
    using lk assms(3) by (simp add: ops rte_table_acl_ops_def)
  show ?thesis
    by (rule exI [of _ lk'], rule exI [of _ hit], rule exI [of _ ents'], rule exI [of _ "\<lambda>i. the (ents' i)"])
       (use lk' e h(3) in blast)
qed

section \<open>The contract of the pipeline holds\<close>

interpretation filter: pipeline_world "world_mbuf_ops outside (Suc fuel) md" p
    "filter_inv K outside (Suc fuel) lib mt asserts sketch p" "mem_owned enclave_pool" False
  for K outside fuel md p lib mt asserts sketch
proof unfold_locales
  fix g :: "('a, 'b) world" and m n and run :: "nat rte_run" and pk :: "nat \<Rightarrow> nat" and w :: u64 and t ents
    and port :: "(('a, 'b) world, port_arg, nat, nat) rte_port_in" and port_out act
  let ?inv = "filter_inv K outside (Suc fuel) lib mt asserts sketch p"
  let ?Q = "\<lambda>as hp pkt. tables_ok lib p as hp \<and> ipv4_only asserts pkt \<and> K as hp pkt"
  assume g: "?inv g"
  then have mem: "mem_ok (pool_ok outside ?Q) g" by (simp add: filter_inv_def)
  then have pool: "pool_ok outside ?Q (rest g)" by (simp add: mem_ok_def)
  show "topology_ok p False" using g by (simp add: filter_inv_def)
  then have topo: "pin_burst_size port \<le> RTE_PORT_IN_BURST_SIZE_MAX" if "port \<in> set (ports_in p)" using that by (simp add: topology_ok_def)
  show "\<exists>g'. mb_free (world_mbuf_ops outside (Suc fuel) md) m g = Inr g' \<and> ?inv g' \<and>
      mem_owned enclave_pool g' = add_mset m (mem_owned enclave_pool g)"
  proof -
    obtain x where x: "enclave_free outside (Suc fuel) m (rest g) = Inr x" "pool_ok outside ?Q x"
        "enclave_pool x = add_mset m (enclave_pool (rest g))"
      using enclave.free_law [OF pool] by blast
    have "?inv (g\<lparr>rest := x\<rparr>)"
      using mem x(2) by (intro filter_inv_frame [OF g]) (auto simp: mem_ok_def)
    then show ?thesis using x by (simp add: world_mbuf_ops_def mem_owned_def)
  qed
  show "\<exists>g'. act n run g = Inr (run, g') \<and> ?inv g' \<and> mem_owned enclave_pool g' = mem_owned enclave_pool g"
    if act: "port \<in> set (ports_in p)" "pin_action port = Some act" "n \<le> pin_burst_size port"
  proof -
    have n: "n \<le> RTE_PORT_IN_BURST_SIZE_MAX" using topo [OF act(1)] act(3) by simp
    have a: "act = header_copy_action asserts sketch" using g act by (auto simp: filter_inv_def ring_port_in_def)
    obtain hs cm where c: "header_copy_action asserts sketch n run g = Inr (run, g\<lparr>rest := (rest g)\<lparr>headers := hs, input_cm := cm\<rparr>\<rparr>)"
      using header_copy_runs [OF _ n] pool by (fastforce simp: pool_ok_def)
    have "?inv (g\<lparr>rest := (rest g)\<lparr>headers := hs, input_cm := cm\<rparr>\<rparr>)"
      using mem by (intro filter_inv_frame [OF g]) (auto simp: mem_ok_def pool_ok_def)
    then show ?thesis using a c by (simp add: mem_owned_def enclave_pool_def)
  qed
  show "\<exists>rx ms g'. pi_rx (pin_ops port) = Some rx \<and> rx (pin_h port) (pin_burst_size port) g = Inr (ms, g') \<and>
      length ms \<le> pin_burst_size port \<and> ?inv g' \<and> mem_owned enclave_pool g = mset ms + mem_owned enclave_pool g'"
    if port: "port \<in> set (ports_in p)"
  proof -
    from g port obtain q where h: "pin_h port < length (readers g)" "readers g ! pin_h port = Some q"
      by (auto simp: filter_inv_def)
    obtain deq where deq: "pi_rx (pin_ops port) = Some (reader_rx deq)"
        "deq = rte_ring_sc_dequeue_burst \<or> deq = rte_ring_mc_dequeue_burst"
      using g port by (fastforce simp: filter_inv_def ring_port_in_def rte_port_ring_reader_ops_def
          rte_port_ring_multi_reader_ops_def rte_port_ring_reader_rx_def rte_port_ring_multi_reader_rx_def)
    obtain ms g' where r: "reader_rx deq (pin_h port) (pin_burst_size port) g = Inr (ms, g')"
        "length ms \<le> pin_burst_size port" "mem_ok (pool_ok outside ?Q) g'"
        "mem_owned enclave_pool g = mset ms + mem_owned enclave_pool g'" "readers g' = readers g" "sinks g' = sinks g" "writers g' = writers g"
      using enclave.reader_rx_law [OF mem h deq(2), of "pin_burst_size port"] by blast
    then have "?inv g'" by (intro filter_inv_frame [OF g r(3)]) simp_all
    then show ?thesis using deq(1) r by blast
  qed
  show "\<exists>tx g'. po_tx (pout_ops port_out) = Some tx \<and> tx (pout_h port_out) m g = Inr g' \<and> ?inv g' \<and>
      mem_owned enclave_pool g' = add_mset m (mem_owned enclave_pool g)" if port: "port_out \<in> set (ports_out p)"
  proof -
    from g port have "port_out_ok outside (Suc fuel) g port_out" by (simp add: filter_inv_def)
    then show ?thesis
    proof (cases rule: port_out_okE)
      case (ring mp q)
      obtain g' q' where r: "writer_tx (enclave_free outside (Suc fuel)) mp (pout_h port_out) m g = Inr g'"
          "mem_ok (pool_ok outside ?Q) g'" "mem_owned enclave_pool g' = add_mset m (mem_owned enclave_pool g)"
          "readers g' = readers g" "sinks g' = sinks g" "writers g' = (writers g)[pout_h port_out := Some q']"
        using enclave.writer_tx_law [OF mem ring(5,6), of fuel mp m] by blast
      then have "?inv g'" by (intro filter_inv_frame [OF g r(2)]) simp_all
      then show ?thesis using ring(1) r by blast
    next
      case (sink st)
      obtain g' where r: "rte_port_sink_tx (enclave_free outside (Suc fuel)) (pout_h port_out) m g = Inr g'"
          "mem_ok (pool_ok outside ?Q) g'" "mem_owned enclave_pool g' = add_mset m (mem_owned enclave_pool g)"
          "readers g' = readers g" "sinks g' = sinks g" "writers g' = writers g"
        using enclave.sink_tx_law [OF mem sink(5,6), of fuel m] by blast
      then have "?inv g'" by (intro filter_inv_frame [OF g r(2)]) simp_all
      then show ?thesis using sink(1) r by blast
    qed
  qed
  show "\<exists>tx g'. po_tx_bulk (pout_ops port_out) = Some tx \<and> tx (pout_h port_out) pk w g = Inr g' \<and> ?inv g' \<and>
      mem_owned enclave_pool g' = mem_owned enclave_pool g + mset (map pk (bits_of w))" if port: "port_out \<in> set (ports_out p)"
  proof -
    from g port have "port_out_ok outside (Suc fuel) g port_out" by (simp add: filter_inv_def)
    then show ?thesis
    proof (cases rule: port_out_okE)
      case (ring mp q)
      obtain g' q' where r: "rte_port_ring_writer_tx_bulk_internal (enclave_free outside (Suc fuel)) mp (pout_h port_out) pk w g = Inr g'"
          "mem_ok (pool_ok outside ?Q) g'" "mem_owned enclave_pool g' = mem_owned enclave_pool g + mset (map pk (bits_of w))"
          "readers g' = readers g" "sinks g' = sinks g" "writers g' = (writers g)[pout_h port_out := Some q']"
        using enclave.writer_tx_bulk_law [OF mem ring(5,6), of fuel mp pk w] by blast
      then have "?inv g'" by (intro filter_inv_frame [OF g r(2)]) simp_all
      then show ?thesis using ring(2) r by blast
    next
      case (sink st)
      obtain g' where r: "rte_port_sink_tx_bulk (enclave_free outside (Suc fuel)) (pout_h port_out) pk w g = Inr g'"
          "mem_ok (pool_ok outside ?Q) g'" "mem_owned enclave_pool g' = mem_owned enclave_pool g + mset (map pk (bits_of w))"
          "readers g' = readers g" "sinks g' = sinks g" "writers g' = writers g"
        using enclave.sink_tx_bulk_law [OF mem sink(5,6), of fuel pk w] by blast
      then have "?inv g'" by (intro filter_inv_frame [OF g r(2)]) simp_all
      then show ?thesis using sink(2) r by blast
    qed
  qed
  show "\<exists>lk hit ents' e g'. t_lookup (tbl_ops (tables p ! t)) = Some lk \<and>
      lk (h_table (tables p ! t)) pk w ents g = Inr (hit, ents', g') \<and> ?inv g' \<and>
      mem_owned enclave_pool g' = mem_owned enclave_pool g \<and>
      (\<forall>i. bit hit i \<longrightarrow> bit w i \<and> ents' i = Some (e i) \<and> entry_ok p False t (e i)) \<and>
      (\<forall>i. \<not> bit hit i \<longrightarrow> ents' i = ents i)" if t: "t < length (tables p)" and w: "w \<noteq> 0"
  proof -
    obtain acl where acl: "acl_table lib (tables p ! t)" "at (acls (rest g)) (h_table (tables p ! t)) = Inr acl"
        "acl_ok acl" "synced lib acl (acl_hp (rest g))"
        "\<forall>i r. rule_in acl i r \<longrightarrow> entry_ok p False t (acl_action_table acl ! i)"
      using pool t by (auto simp: pool_ok_def tables_ok_def at_def)
    have con: "acl_contract mt lib" using g by (simp add: filter_inv_def)
    show ?thesis using table_lookup_ok [OF con acl(1-4) w acl(5), of pk ents] g by blast
  qed
qed simp

lemma entry_ok_cong: "entry_ok (p\<lparr>prun := r, port_in_next := nx\<rparr>) meta t e = entry_ok p meta t e"
  by (cases "pte_action e") (simp_all add: entry_ok_def)

lemma filter_inv_cong:
  "filter_inv K outside fuel lib mt asserts sketch (p\<lparr>prun := r, port_in_next := nx\<rparr>) g =
   filter_inv K outside fuel lib mt asserts sketch p g"
  by (simp add: filter_inv_def topology_ok_def tables_ok_def entry_ok_cong no_out_action_def)

lemma filter_run_law:
  assumes inv: "filter_inv K outside (Suc fuel) lib mt asserts sketch p g" and chain: "port_chain p"
    and n: "length (tables p) \<le> n"
  shows "\<exists>r q g'. rte_pipeline_run n (world_mbuf_ops outside (Suc fuel) md) p g = Inr (r, q, g') \<and>
    filter_inv K outside (Suc fuel) lib mt asserts sketch q g' \<and> port_chain q \<and>
    mem_owned enclave_pool g' = mem_owned enclave_pool g"
proof -
  have nx: "k < length (ports_in p)" if "port_in_next p = Some k" for k
    using that chain port_chainD(1) [OF chain, of k] by (simp add: port_chain_def)
  obtain r q g' where run: "rte_pipeline_run n (world_mbuf_ops outside (Suc fuel) md) p g = Inr (r, q, g')"
      "filter_inv K outside (Suc fuel) lib mt asserts sketch p g'" "mem_owned enclave_pool g' = mem_owned enclave_pool g"
    using filter.run_ok [OF inv n nx] by blast
  have "q = p\<lparr>prun := prun q, port_in_next := (case port_in_next p of None \<Rightarrow> None
      | Some i \<Rightarrow> pin_next (ports_in p ! i))\<rparr>" by (rule run_frame [OF run(1)])
  then have "filter_inv K outside (Suc fuel) lib mt asserts sketch q g'" using run(2) filter_inv_cong by metis
  then show ?thesis using run port_chain_run [OF chain run(1)] by blast
qed

text \<open>C8. A run of the enclave's packet filter returns and loses no packet. For a pipeline of ring ports (writers that may drop) and sinks
  and of ACL tables whose entries lead to existing ports or to later tables, \<open>rte_pipeline_run\<close> neither
  faults nor loops (as many steps as there are tables are enough); the rules never need to be complete,
  the rings never need room. Every packet that was in a ring or a buffer before is afterwards in a ring,
  in a buffer, or given back to the pool, each exactly once; the pipeline is again in a state from which
  all this holds.\<close>

theorem filter_run_conserves:
  assumes inv: "filter_inv K outside (Suc fuel) lib mt asserts sketch p g" and chain: "port_chain p"
    and n: "length (tables p) \<le> n"
  shows "\<exists>r q g'. rte_pipeline_run n (world_mbuf_ops outside (Suc fuel) md) p g = Inr (r, q, g') \<and>
    filter_inv K outside (Suc fuel) lib mt asserts sketch q g' \<and> port_chain q \<and>
    mem_owned enclave_pool g' = mem_owned enclave_pool g"
  using assms by (rule filter_run_law)

section \<open>A concrete filter\<close>

text \<open>One ring in, one ring out, and a table with the rule: protocol 5 goes to port 0.\<close>

definition byte_lib :: "(unit, rte_acl_rule list, nat \<Rightarrow> u8) acl_lib" where
  "byte_lib = \<lparr>al_build = al_build plain_lib, al_classify = (\<lambda>rt d. al_classify plain_lib rt [ucast (d 23)])\<rparr>"

definition byte_match :: "unit \<Rightarrow> rte_acl_rule \<Rightarrow> (nat \<Rightarrow> u8) \<Rightarrow> bool" where
  "byte_match cfg r d = plain_match cfg r [ucast (d 23)]"

lemma byte_contract: "acl_contract byte_match byte_lib"
  unfolding acl_contract_def byte_match_def byte_lib_def acl_lib.select_convs
  using plain_contract [unfolded acl_contract_def, rule_format] by blast

definition demo_acl :: "unit rte_table_acl" where
  "demo_acl = set_entry 1 (demo_entry 0) demo1"

lemma demo1_rule: "rule_in demo1 i r \<longleftrightarrow> i = 1 \<and> r = new_rule demo0 (demo_rule 5 0) 1"
proof
  assume r: "rule_in demo1 i r"
  then have "i = 1 \<or> i = 2" by (auto simp: rule_in_def demo1_def demo0_def)
  with r show "i = 1 \<and> r = new_rule demo0 (demo_rule 5 0) 1"
    by (auto simp: rule_in_def demo1_def demo0_def)
qed (simp add: rule_in_def demo1_def demo0_def)

lemma demo_acl_ok: "acl_ok demo_acl" "synced byte_lib demo_acl demo_heap1"
    "rule_in demo_acl i r \<Longrightarrow> acl_action_table demo_acl ! i = demo_entry 0"
proof -
  show "acl_ok demo_acl" unfolding demo_acl_def
    by (rule acl_map_overwrite(1) [OF demo1_ok(1), of 1 "new_rule demo0 (demo_rule 5 0) 1"]) (simp add: demo1_rule)
  show "synced byte_lib demo_acl demo_heap1"
  proof -
    have eqs: "active demo_acl = active demo1" "cur_name demo_acl = cur_name demo1" "acl_ctx demo_acl = acl_ctx demo1"
        "acl_cfg demo_acl = acl_cfg demo1" "acl_name0 demo_acl = acl_name0 demo1" "acl_name1 demo_acl = acl_name1 demo1"
        "al_build byte_lib = al_build plain_lib"
      by (simp_all add: demo_acl_def active_def cur_name_def byte_lib_def)
    show ?thesis using demo1_ok(2) unfolding synced_def eqs .
  qed
  assume "rule_in demo_acl i r"
  then have "rule_in demo1 i r" by (simp add: demo_acl_def rule_in_def)
  then have "i = 1" by (simp add: demo1_rule)
  then show "acl_action_table demo_acl ! i = demo_entry 0"
    by (simp add: demo_acl_def demo1_def demo0_def)
qed

definition demo_world :: "(unit, rte_acl_rule list) world" where
  "demo_world = \<lparr>rings = [full_ring, full_ring], readers = [Some \<lparr>rd_stats = (0, 0), rd_ring = 0\<rparr>],
     writers = [Some (host_writer\<lparr>wr_ring := 1\<rparr>)], nodrops = [], sinks = [],
     rest = \<lparr>mbufs = \<lparr>segs = (\<lambda>_. None), returned = [], ocalls = []\<rparr>,
       packet = (\<lambda>_. \<lparr>mtod = (\<lambda>_. 5), pkt_len = 60\<rparr>), headers = (\<lambda>_. undefined), input_cm = cm_init (\<lambda>_. 3) (\<lambda>_. 4),
       acls = [Some demo_acl], acl_hp = demo_heap1\<rparr>\<rparr>"

definition demo_pipeline ::
  "((unit, rte_acl_rule list) world, port_arg, unit rte_table_acl_params option, nat, acl_key, nat) rte_pipeline" where
  "demo_pipeline = \<lparr>pl_name = ''fw'', pl_socket_id = 0, offset_port_id = 0,
     ports_in = [\<lparr>pin_ops = rte_port_ring_reader_ops (\<lambda>_. None), pin_action = Some (header_copy_action False True),
       pin_burst_size = 32, pin_table_id = 0, pin_h = 0, pin_next = Some 0, pin_n_pkts_dropped_by_ah = 0\<rparr>],
     ports_out = [\<lparr>pout_ops = rte_port_ring_writer_ops (enclave_free (\<lambda>_. True) 1) (\<lambda>_. None), pout_action = None,
       pout_h = 0, pout_n_pkts_dropped_by_ah = 0\<rparr>],
     tables = [\<lparr>tbl_ops = rte_table_acl_ops byte_lib (\<lambda>_. None) (\<lambda>_. None), tbl_action_hit = None, tbl_action_miss = None,
       default_entry = zero_entry, tbl_entry_size = 8, table_next_id = 0, table_next_id_valid = False, h_table = 0,
       n_pkts_dropped_by_lkp_hit_ah = 0, n_pkts_dropped_by_lkp_miss_ah = 0, n_pkts_dropped_lkp_hit = 0,
       n_pkts_dropped_lkp_miss = 0\<rparr>],
     enabled_port_in_mask = 1, port_in_next = Some 0,
     prun = \<lparr>pkts = (\<lambda>_. 0), entries = (\<lambda>_. None), action_mask0 = (\<lambda>_. 0), action_mask1 = (\<lambda>_. 0), pkts_mask = 0\<rparr>\<rparr>"

lemma demo_filter_inv: "filter_inv (\<lambda>_ _ _. True) (\<lambda>_. True) (Suc 0) byte_lib byte_match False True demo_pipeline demo_world"
proof -
  have e: "entry_ok demo_pipeline False 0 zero_entry" "entry_ok demo_pipeline False 0 (demo_entry 0)"
    by (simp_all add: entry_ok_def zero_entry_def demo_entry_def demo_pipeline_def)
  have top: "topology_ok demo_pipeline False"
    unfolding topology_ok_def using e(1) by (simp add: demo_pipeline_def no_out_action_def no_table_action_def)
  have t: "tables_ok byte_lib demo_pipeline [Some demo_acl] demo_heap1"
    unfolding tables_ok_def
  proof (intro allI impI exI [of _ demo_acl] conjI)
    fix t assume "t < length (tables demo_pipeline)"
    then have t0: "t = 0" by (simp add: demo_pipeline_def)
    show "acl_table byte_lib (tables demo_pipeline ! t)" by (auto simp: t0 acl_table_def demo_pipeline_def)
    show "h_table (tables demo_pipeline ! t) < length [Some demo_acl]"
        "[Some demo_acl] ! h_table (tables demo_pipeline ! t) = Some demo_acl"
      by (simp_all add: t0 demo_pipeline_def)
    show "entry_ok demo_pipeline False t (acl_action_table demo_acl ! i)" if "rule_in demo_acl i r" for i r
      using demo_acl_ok(3) [OF that] e(2) t0 by simp
  qed (rule demo_acl_ok)+
  have "mem_ok (pool_ok (\<lambda>_. True) (\<lambda>as hp pkt. tables_ok byte_lib demo_pipeline as hp \<and> ipv4_only False pkt \<and> True)) demo_world"
    using t by (simp add: mem_ok_def demo_world_def full_ring_ok writer_ok_def host_writer_def pool_ok_def
        simple_segs_def ipv4_only_def)
  moreover have "\<forall>port \<in> set (ports_in demo_pipeline). ring_port_in False True port \<and>
      pin_h port < length (readers demo_world) \<and> readers demo_world ! pin_h port \<noteq> None"
    by (auto simp: demo_pipeline_def demo_world_def ring_port_in_def)
  moreover have "\<forall>port \<in> set (ports_out demo_pipeline). port_out_ok (\<lambda>_. True) (Suc 0) demo_world port"
    by (auto simp: demo_pipeline_def demo_world_def port_out_ok_def)
  ultimately show ?thesis using top byte_contract by (simp add: filter_inv_def)
qed

lemma demo_chain: "port_chain demo_pipeline"
proof -
  have one: "(1::u64) = bit1 0" by (simp add: bit1_def)
  have b: "bit (1::u64) i \<longleftrightarrow> i = 0" for i unfolding one by auto
  have "bits_of 1 = [0]" by (rule sorted_distinct_set_unique) (simp_all only: set_bits_of b, auto)
  then have "next_bit 1 0 = 0" by (simp add: next_bit_def)
  then show ?thesis by (simp add: port_chain_def demo_pipeline_def b)
qed

theorem filter_run_conserves_witness:
  "\<exists>r q g'. rte_pipeline_run 1 (world_mbuf_ops (\<lambda>_. True) (Suc 0) (\<lambda>_ _ _. 0)) demo_pipeline demo_world = Inr (r, q, g') \<and>
     mem_owned enclave_pool g' = mem_owned enclave_pool demo_world"
proof -
  have "length (tables demo_pipeline) \<le> 1" by (simp add: demo_pipeline_def)
  from filter_run_conserves [OF demo_filter_inv demo_chain this] show ?thesis by blast
qed

end
