(* ===== verification/Parser.thy ===== *)
theory Parser
  imports Prelude
begin

text \<open>
  The text parsers of src/App/ip_pipeline/parser.c (and the two helpers of parser.h), which read
  the configuration file and the command line and, through an OCALL, the arguments of the enclave's
  firewall. A C string is a \<open>string\<close> without its terminating NUL; a pointer into it is the suffix it
  points at. An integer return code with a value stored through a pointer is \<open>Inl\<close> of the code or
  \<open>Inr\<close> of the value.
\<close>

section \<open>The C library's character classes and number scanners\<close>

definition isspace :: "char \<Rightarrow> bool" where
  "isspace c = (of_char c \<in> {9, 10, 11, 12, 13, 32 :: nat})"

definition isdigit :: "char \<Rightarrow> bool" where
  "isdigit c = (48 \<le> (of_char c :: nat) \<and> of_char c \<le> (57 :: nat))"

definition skip_white_spaces :: "string \<Rightarrow> string" where
  "skip_white_spaces s = dropWhile isspace s"

definition skip_digits :: "string \<Rightarrow> nat" where
  "skip_digits s = length (takeWhile isdigit s)"

text \<open>The value of a digit in a base up to 36.\<close>

definition digit_val :: "char \<Rightarrow> nat" where
  "digit_val c = (let n = of_char c :: nat in
     if 48 \<le> n \<and> n \<le> 57 then n - 48
     else if 65 \<le> n \<and> n \<le> 90 then n - 55
     else if 97 \<le> n \<and> n \<le> 122 then n - 87
     else 36)"

definition is_digit_in :: "nat \<Rightarrow> char \<Rightarrow> bool" where
  "is_digit_in base c = (digit_val c < base)"

definition digits_value :: "nat \<Rightarrow> string \<Rightarrow> nat" where
  "digits_value base ds = foldl (\<lambda>v c. v * base + digit_val c) 0 ds"

text \<open>
  \<open>strtoul(s, &next, base)\<close> for the bases 10 and 16 the code uses: leading white space, a sign, for
  base 16 a \<open>0x\<close> in front of a digit; the result saturates at \<open>ULONG_MAX\<close> with \<open>ERANGE\<close>; without
  any digit \<open>next\<close> is \<open>s\<close>. The result is whether \<open>errno\<close> is set, the value and \<open>next\<close>.
\<close>

definition scan_sign :: "string \<Rightarrow> bool \<times> string" where
  "scan_sign s = (case s of [] \<Rightarrow> (False, s)
     | c # cs \<Rightarrow> if c = CHR ''-'' then (True, cs) else if c = CHR ''+'' then (False, cs) else (False, s))"

definition skip_0x :: "nat \<Rightarrow> string \<Rightarrow> string" where
  "skip_0x base s = (if base = 16 \<and> 2 < length s \<and> s ! 0 = CHR ''0'' \<and>
       (s ! 1 = CHR ''x'' \<or> s ! 1 = CHR ''X'') \<and> is_digit_in 16 (s ! 2)
     then drop 2 s else s)"

definition strtoul :: "nat \<Rightarrow> string \<Rightarrow> bool \<times> u64 \<times> string" where
  "strtoul base s =
     (let (neg, s1) = scan_sign (skip_white_spaces s);
          s2 = skip_0x base s1;
          ds = takeWhile (is_digit_in base) s2;
          v = digits_value base ds
      in if ds = [] then (False, 0, s)
         else if 2 ^ 64 \<le> v then (True, - 1, drop (length ds) s2)
         else (False, if neg then - of_nat v else of_nat v, drop (length ds) s2))"

text \<open>\<open>strtol\<close>, base 10: saturates at the bounds of a 64-bit \<open>long\<close>.\<close>

definition strtol :: "string \<Rightarrow> int \<times> string" where
  "strtol s =
     (let (neg, s1) = scan_sign (skip_white_spaces s);
          ds = takeWhile (is_digit_in 10) s1;
          v = int (digits_value 10 ds)
      in if ds = [] then (0, s)
         else (if neg then max (- (2 ^ 63)) (- v) else min (2 ^ 63 - 1) v, drop (length ds) s1))"

section \<open>Numbers and flags\<close>

definition get_hex_val :: "char \<Rightarrow> u32" where
  "get_hex_val c = (let n = of_char c :: nat in
     if 48 \<le> n \<and> n \<le> 57 then of_nat (n - 48)
     else if 65 \<le> n \<and> n \<le> 70 then of_nat (n - 65 + 10)
     else if 97 \<le> n \<and> n \<le> 102 then of_nat (n - 97 + 10)
     else 0)"

definition starts_with :: "string \<Rightarrow> string \<Rightarrow> bool" where
  "starts_with w s = (take (length w) s = w)"

text \<open>The four tests run one after the other, each on what the ones before left over.\<close>

definition parser_read_arg_bool :: "string \<Rightarrow> int" where
  "parser_read_arg_bool s =
     (let p = skip_white_spaces s; result = - EINVAL;
          (p, result) = (if starts_with ''yes'' p \<or> starts_with ''YES'' p then (drop 3 p, 1) else (p, result));
          (p, result) = (if starts_with ''on'' p \<or> starts_with ''ON'' p then (drop 2 p, 1) else (p, result));
          (p, result) = (if starts_with ''no'' p \<or> starts_with ''NO'' p then (drop 2 p, 0) else (p, result));
          (p, result) = (if starts_with ''off'' p \<or> starts_with ''OFF'' p then (drop 3 p, 0) else (p, result));
          p = skip_white_spaces p
      in if p \<noteq> [] then - EINVAL else result)"

text \<open>The multiplier of a suffix letter: the cases of the \<open>switch\<close> fall through.\<close>

definition unit_of :: "char \<Rightarrow> u64 option" where
  "unit_of c =
     (if c = CHR ''T'' then Some (1024 * 1024 * 1024 * 1024)
      else if c = CHR ''G'' then Some (1024 * 1024 * 1024)
      else if c = CHR ''M'' then Some (1024 * 1024)
      else if c = CHR ''k'' \<or> c = CHR ''K'' then Some 1024
      else None)"

definition apply_unit :: "u64 \<Rightarrow> string \<Rightarrow> u64 \<times> string" where
  "apply_unit val p = (case p of [] \<Rightarrow> (val, p)
     | c # cs \<Rightarrow> (case unit_of c of None \<Rightarrow> (val, p) | Some u \<Rightarrow> (val * u, cs)))"

definition parser_read_uint64 :: "string \<Rightarrow> int + u64" where
  "parser_read_uint64 s =
     (let p = skip_white_spaces s
      in if p = [] \<or> \<not> isdigit (hd p) then Inl (- EINVAL)
         else let (_, val, next) = strtoul 10 p
              in if next = p then Inl (- EINVAL)
                 else let (val, p) = apply_unit val next; p = skip_white_spaces p
                      in if p \<noteq> [] then Inl (- EINVAL) else Inr val)"

definition parser_read_uint64_hex :: "string \<Rightarrow> int + u64" where
  "parser_read_uint64_hex s =
     (let p = skip_white_spaces s; (_, val, next) = strtoul 16 p
      in if next = p then Inl (- EINVAL)
         else if skip_white_spaces next \<noteq> [] then Inl (- EINVAL) else Inr val)"

text \<open>The common tail of the narrower readers: reject what does not fit, then cut.\<close>

definition narrow :: "u64 \<Rightarrow> int + u64 \<Rightarrow> int + 'w::len word" where
  "narrow max_val r = (case r of Inl ret \<Rightarrow> Inl ret
     | Inr val \<Rightarrow> if val > max_val then Inl (- ERANGE) else Inr (ucast val))"

definition parser_read_uint32 :: "string \<Rightarrow> int + u32" where
  "parser_read_uint32 s = narrow 0xFFFFFFFF (parser_read_uint64 s)"

definition parser_read_uint32_hex :: "string \<Rightarrow> int + u32" where
  "parser_read_uint32_hex s = narrow 0xFFFFFFFF (parser_read_uint64_hex s)"

definition parser_read_uint16 :: "string \<Rightarrow> int + u16" where
  "parser_read_uint16 s = narrow 0xFFFF (parser_read_uint64 s)"

definition parser_read_uint16_hex :: "string \<Rightarrow> int + u16" where
  "parser_read_uint16_hex s = narrow 0xFFFF (parser_read_uint64_hex s)"

definition parser_read_uint8 :: "string \<Rightarrow> int + u8" where
  "parser_read_uint8 s = narrow 0xFF (parser_read_uint64 s)"

definition parser_read_uint8_hex :: "string \<Rightarrow> int + u8" where
  "parser_read_uint8_hex s = narrow 0xFF (parser_read_uint64_hex s)"

section \<open>Tokens, byte strings and label lists\<close>

text \<open>\<open>strtok_r\<close> with \<open>PARSE_DELIMITER\<close>, the six white-space characters.\<close>

definition next_token :: "string \<Rightarrow> (string \<times> string) option" where
  "next_token s =
     (let p = dropWhile isspace s
      in if p = [] then None
         else Some (takeWhile (\<lambda>c. \<not> isspace c) p, drop 1 (dropWhile (\<lambda>c. \<not> isspace c) p)))"

fun tokenize :: "nat \<Rightarrow> string \<Rightarrow> string list \<times> string" where
  "tokenize 0 s = ([], s)"
| "tokenize (Suc n) s = (case next_token s of None \<Rightarrow> ([], [])
     | Some (t, s') \<Rightarrow> (let (ts, r) = tokenize n s' in (t # ts, r)))"

definition parse_tokenize_string :: "string option \<Rightarrow> nat \<Rightarrow> int + string list" where
  "parse_tokenize_string str n_tokens =
     (case str of None \<Rightarrow> Inl (- EINVAL)
      | Some s \<Rightarrow> if n_tokens < 1 then Inl (- EINVAL)
          else let (ts, r) = tokenize n_tokens s
               in if length ts = n_tokens \<and> next_token r \<noteq> None then Inl (- E2BIG) else Inr ts)"

definition is_hex_char :: "char \<Rightarrow> bool" where
  "is_hex_char c = (let n = of_char c :: nat in
     (48 \<le> n \<and> n \<le> 57) \<or> (65 \<le> n \<and> n \<le> 70) \<or> (97 \<le> n \<and> n \<le> 102))"

text \<open>Arithmetic on the \<open>uint32_t\<close> size is at that width: \<open>len\<close> and \<open>size * 2\<close> wrap.\<close>

definition parse_hex_string :: "string \<Rightarrow> u32 \<Rightarrow> int + u8 list" where
  "parse_hex_string src sz =
     (if sz = 0 then Inl (- 1)
      else let len = (of_nat (length src) :: u32)
           in if len AND 3 \<noteq> 0 \<or> len > sz * 2 then Inl (- 1)
              else if \<not> list_all is_hex_char src then Inl (- 1)
              else Inr (map (\<lambda>i. ucast (get_hex_val (src ! (2 * i)) * 16 + get_hex_val (src ! (2 * i + 1))))
                     [0..<unat (len div 2)]))"

text \<open>One label per round, each after the first behind a colon. The label is \<open>strtol\<close> cut to 32 bits.\<close>

definition take_label :: "nat \<Rightarrow> string \<Rightarrow> (u32 \<times> string) option" where
  "take_label count s =
     (let s1 = (if count > 0 then (if hd s = CHR '':'' then Some (tl s) else None) else Some s)
      in case s1 of None \<Rightarrow> None
         | Some s2 \<Rightarrow> (let (value, next) = strtol s2
                      in if next = s2 then None else Some (word_of_int value, next)))"

lemma scan_sign_length: "scan_sign s = (neg, t) \<Longrightarrow> length t \<le> length s"
  by (cases s) (auto simp: scan_sign_def split: if_splits)

lemma strtol_length: "strtol s = (v, next) \<Longrightarrow> next \<noteq> s \<Longrightarrow> length next < length s"
proof -
  assume "strtol s = (v, next)" "next \<noteq> s"
  then obtain neg s1 where s1: "scan_sign (skip_white_spaces s) = (neg, s1)"
    and ds: "takeWhile (is_digit_in 10) s1 \<noteq> []"
    and n: "next = drop (length (takeWhile (is_digit_in 10) s1)) s1"
    by (auto simp: strtol_def Let_def split: prod.splits if_splits)
  have "length s1 \<le> length (skip_white_spaces s)"
    using s1 by (rule scan_sign_length)
  also have "\<dots> \<le> length s" by (simp add: skip_white_spaces_def length_dropWhile_le)
  finally have "length s1 \<le> length s" .
  moreover have "length next < length s1" using ds n by (cases s1) auto
  ultimately show ?thesis by simp
qed

lemma take_label_length [termination_simp]:
  "take_label count s = Some (v, next) \<Longrightarrow> s \<noteq> [] \<Longrightarrow> length next < length s"
  by (auto simp: take_label_def Let_def split: if_splits prod.splits option.splits
      dest!: strtol_length)

function mpls_loop :: "nat \<Rightarrow> nat \<Rightarrow> string \<Rightarrow> (u32 list) option" where
  "mpls_loop n_max count s =
     (if s = [] then Some []
      else if n_max \<le> count then None
      else case take_label count s of None \<Rightarrow> None
           | Some (v, next) \<Rightarrow> map_option ((#) v) (mpls_loop n_max (Suc count) next))"
  by pat_completeness auto
termination
  by (relation "measure (\<lambda>(n, c, s). length s)") (auto dest: take_label_length)

definition parse_mpls_labels :: "string \<Rightarrow> nat \<Rightarrow> int + u32 list" where
  "parse_mpls_labels str n_labels =
     (if str = ''<void>'' then Inr []
      else case mpls_loop n_labels 0 str of None \<Rightarrow> Inl (- 1) | Some ls \<Rightarrow> Inr ls)"

section \<open>Addresses\<close>

text \<open>
  \<open>inet_pton4\<close>: \<open>octs\<close> are the finished bytes of \<open>tmp\<close> and \<open>cur\<close> is the byte \<open>*tp\<close> being built; the
  loop reads one character per round.
\<close>

fun pton4_loop :: "string \<Rightarrow> bool \<Rightarrow> nat \<Rightarrow> u8 list \<Rightarrow> nat \<Rightarrow> u8 list option" where
  "pton4_loop [] saw_digit octets octs cur =
     (if octets < 4 then None else Some (octs @ [of_nat cur]))"
| "pton4_loop (ch # src) saw_digit octets octs cur =
     (if isdigit ch then
        (let new = cur * 10 + digit_val ch
         in if new > 255 then None
            else if \<not> saw_digit then
              (if octets + 1 > 4 then None else pton4_loop src True (octets + 1) octs new)
            else pton4_loop src True octets octs new)
      else if ch = CHR ''.'' \<and> saw_digit then
        (if octets = 4 then None else pton4_loop src False octets (octs @ [of_nat cur]) 0)
      else None)"

definition inet_pton4 :: "string \<Rightarrow> u8 list option" where
  "inet_pton4 src = pton4_loop src False 0 [] 0"

text \<open>
  \<open>inet_pton6\<close>: \<open>tmp\<close> has 16 bytes, \<open>tp\<close> is the write position, \<open>colonp\<close> the position of the double
  colon, \<open>curtok\<close> where the current token starts, \<open>val\<close> the 16-bit group being read.
\<close>

record pton6_state =
  tmp6 :: "u8 list"
  tp6 :: nat
  colonp :: "nat option"
  curtok :: string
  saw_xdigit :: bool
  count_xdigit :: nat
  val6 :: u32
  dbloct_count :: nat

definition put_group :: "pton6_state \<Rightarrow> pton6_state" where
  "put_group st = st\<lparr>tmp6 := (tmp6 st)[tp6 st := ucast (drop_bit 8 (val6 st) AND 0xFF),
     tp6 st + 1 := ucast (val6 st AND 0xFF)], tp6 := tp6 st + 2,
     dbloct_count := dbloct_count st + 1\<rparr>"

fun pton6_loop :: "string \<Rightarrow> pton6_state \<Rightarrow> pton6_state option" where
  "pton6_loop [] st = Some st"
| "pton6_loop (ch # src) st =
     (if is_hex_char ch then
        (if count_xdigit st \<ge> 4 then None
         else let v = push_bit 4 (val6 st) OR of_nat (digit_val ch)
              in if v > 0xFFFF then None
                 else pton6_loop src (st\<lparr>val6 := v, saw_xdigit := True,
                        count_xdigit := count_xdigit st + 1\<rparr>))
      else if ch = CHR '':'' then
        (if \<not> saw_xdigit st then
           (if colonp st \<noteq> None then None
            else pton6_loop src (st\<lparr>curtok := src, colonp := Some (tp6 st)\<rparr>))
         else if src = [] then None
         else if tp6 st + 2 > 16 then None
         else pton6_loop src ((put_group st)\<lparr>curtok := src, saw_xdigit := False, count_xdigit := 0,
                val6 := 0\<rparr>))
      else if ch = CHR ''.'' \<and> tp6 st + 4 \<le> 16 then
        (case inet_pton4 (curtok st) of None \<Rightarrow> None
         | Some bs \<Rightarrow> Some (st\<lparr>tmp6 := take (tp6 st) (tmp6 st) @ bs @ drop (tp6 st + 4) (tmp6 st),
             tp6 := tp6 st + 4, saw_xdigit := False, dbloct_count := dbloct_count st + 2\<rparr>))
      else None)"

text \<open>The shift by hand behind a double colon: \<open>endp[-i] = colonp[n - i]; colonp[n - i] = 0\<close>.\<close>

definition pton6_shift :: "nat \<Rightarrow> nat \<Rightarrow> u8 list \<Rightarrow> u8 list" where
  "pton6_shift c n t =
     fold (\<lambda>i t. t[16 - i := t ! (c + n - i), c + n - i := 0]) [1..<Suc n] t"

definition pton6_finish :: "pton6_state \<Rightarrow> u8 list option" where
  "pton6_finish st =
     (case (if saw_xdigit st then (if tp6 st + 2 > 16 then None else Some (put_group st)) else Some st) of
        None \<Rightarrow> None
      | Some st \<Rightarrow>
          (case colonp st of
             Some c \<Rightarrow> if dbloct_count st = 8 then None
                      else Some (pton6_shift c (tp6 st - c) (tmp6 st))
           | None \<Rightarrow> if tp6 st \<noteq> 16 then None else Some (tmp6 st)))"

definition pton6_start :: "string \<Rightarrow> string option" where
  "pton6_start src =
     (case src of c # cs \<Rightarrow> if c = CHR '':'' then
          (case cs of [] \<Rightarrow> None | d # ds \<Rightarrow> if d \<noteq> CHR '':'' then None else Some cs) else Some src
      | [] \<Rightarrow> Some src)"

definition inet_pton6 :: "string \<Rightarrow> u8 list option" where
  "inet_pton6 src =
     (case pton6_start src of None \<Rightarrow> None
      | Some s \<Rightarrow>
          (case pton6_loop s \<lparr>tmp6 = replicate 16 0, tp6 = 0, colonp = None, curtok = s,
                  saw_xdigit = False, count_xdigit = 0, val6 = 0, dbloct_count = 0\<rparr> of
             None \<Rightarrow> None
           | Some st \<Rightarrow> pton6_finish st))"

text \<open>\<open>my_ether_aton\<close>: at most six groups; the first argument counts the groups still allowed.\<close>

fun aton_loop :: "nat \<Rightarrow> string \<Rightarrow> u64 list \<Rightarrow> (u64 list \<times> string) option" where
  "aton_loop 0 a os = None"
| "aton_loop (Suc k) a os =
     (let (errno, v, rest) = strtoul 16 a
      in if errno \<or> rest = a \<or> (rest \<noteq> [] \<and> hd rest \<noteq> CHR '':'') then None
         else if k \<noteq> 0 \<and> rest \<noteq> [] then aton_loop k (tl rest) (os @ [v])
         else Some (os @ [v], rest))"

definition my_ether_aton :: "string \<Rightarrow> u8 list option" where
  "my_ether_aton a =
     (case aton_loop 6 a [] of None \<Rightarrow> None
      | Some (os, rest) \<Rightarrow>
          if rest \<noteq> [] then None
          else if length os = 6 then
            (if \<exists>v\<in>set os. v > 0xFF then None else Some (map ucast os))
          else if length os = 3 then
            (if \<exists>v\<in>set os. v > 0xFFFF then None
             else Some (concat (map (\<lambda>v. [ucast (drop_bit 8 v), ucast (v AND 0xFF)]) os)))
          else None)"

definition parse_ipv4_addr :: "string \<Rightarrow> int + u8 list" where
  "parse_ipv4_addr token =
     (if length token \<ge> 16 then Inl (- EINVAL)
      else case inet_pton4 token of None \<Rightarrow> Inl (- EINVAL) | Some a \<Rightarrow> Inr a)"

definition parse_ipv6_addr :: "string \<Rightarrow> int + u8 list" where
  "parse_ipv6_addr token =
     (if length token \<ge> 46 then Inl (- EINVAL)
      else case inet_pton6 token of None \<Rightarrow> Inl (- EINVAL) | Some a \<Rightarrow> Inr a)"

definition parse_mac_addr :: "string \<Rightarrow> int + u8 list" where
  "parse_mac_addr token = (case my_ether_aton token of None \<Rightarrow> Inl (- 1) | Some a \<Rightarrow> Inr a)"

section \<open>Core ids\<close>

text \<open>
  \<open>parse_pipeline_core\<close>. The digits of one number are copied to \<open>num[8]\<close>; \<open>num[num_len] = 0\<close> then
  terminates them. With eight digits that write is outside the array, which the model reports.
\<close>

fun scan_num :: "string \<Rightarrow> nat \<Rightarrow> string \<Rightarrow> (string \<times> string) option" where
  "scan_num [] k num = Some (num, [])"
| "scan_num (c # cs) k num =
     (if k = 8 then None
      else if \<not> isdigit c then Some (num, c # cs)
      else scan_num cs (Suc k) (num @ [c]))"

record core_state =
  cs_s :: u32
  cs_c :: u32
  cs_h :: u32
  s_parsed :: bool
  c_parsed :: bool
  h_parsed :: bool

text \<open>The leading \<open>switch\<close>: the kind of the number that follows, the flags, and where it starts.\<close>

definition core_type :: "string \<Rightarrow> core_state \<Rightarrow> (char \<times> core_state \<times> string) option" where
  "core_type next st =
     (let c = hd next in
      if c = CHR ''s'' \<or> c = CHR ''S'' then
        (if s_parsed st \<or> c_parsed st \<or> h_parsed st then None
         else Some (CHR ''S'', st\<lparr>s_parsed := True\<rparr>, tl next))
      else if c = CHR ''c'' \<or> c = CHR ''C'' then
        (if c_parsed st \<or> h_parsed st then None
         else Some (CHR ''C'', st\<lparr>c_parsed := True\<rparr>, tl next))
      else if c = CHR ''h'' \<or> c = CHR ''H'' then
        (if h_parsed st then None else Some (CHR ''H'', st\<lparr>h_parsed := True\<rparr>, tl next))
      else if \<not> isdigit c \<or> s_parsed st \<or> c_parsed st \<or> h_parsed st then None
      else Some (CHR ''C'', st, next))"

definition core_store :: "char \<Rightarrow> u32 \<Rightarrow> core_state \<Rightarrow> core_state" where
  "core_store type v st =
     (let st = st\<lparr>cs_h := 0\<rparr> in
      if type = CHR ''S'' then st\<lparr>cs_s := v\<rparr>
      else if type = CHR ''C'' then st\<lparr>cs_c := v\<rparr>
      else st\<lparr>cs_h := 1\<rparr>)"

lemma scan_num_length: "scan_num s k num = Some (n, r) \<Longrightarrow> length r \<le> length s"
  by (induction s k num rule: scan_num.induct) (auto split: if_splits)

lemma core_type_progress:
  assumes "core_type next st = Some (type, st', q)" and "next \<noteq> []"
    and "scan_num q 0 [] = Some (n, r)"
  shows "length r < length next"
proof (cases "q = tl next")
  case True
  with assms scan_num_length [OF assms(3)] show ?thesis by (cases "next") auto
next
  case False
  with assms(1) have q: "q = next" and d: "isdigit (hd next)"
    by (auto simp: core_type_def Let_def split: if_splits)
  with assms obtain c cs where "next = c # cs" "scan_num cs 1 [c] = Some (n, r)"
    by (cases "next") auto
  with scan_num_length [of cs 1 "[c]"] show ?thesis by auto
qed

function core_loop :: "string \<Rightarrow> core_state \<Rightarrow> (int + core_state) res" where
  "core_loop next st =
     (if next = [] then Inr (Inr st)
      else if s_parsed st \<and> c_parsed st \<and> h_parsed st then Inr (Inl (- EINVAL))
      else case core_type next st of
        None \<Rightarrow> Inr (Inl (- EINVAL))
      | Some (type, st1, q) \<Rightarrow>
          (case scan_num q 0 [] of
             None \<Rightarrow> Inr (Inl (- EINVAL))
           | Some (num, r) \<Rightarrow>
               if num = [] \<and> type \<noteq> CHR ''H'' then Inr (Inl (- EINVAL))
               else if num \<noteq> [] \<and> type = CHR ''H'' then Inr (Inl (- EINVAL))
               else if length num = 8 then Inl OutOfBounds
               else core_loop r (core_store type (word_of_int (fst (strtol num))) st1)))"
  by pat_completeness auto
termination
  by (relation "measure (\<lambda>(n, st). length n)") (auto dest: core_type_progress)

declare core_loop.simps [simp del]
declare mpls_loop.simps [simp del]

definition parse_pipeline_core :: "string \<Rightarrow> (int + u32 \<times> u32 \<times> u32) res" where
  "parse_pipeline_core entry =
     rbind (core_loop (skip_white_spaces entry) \<lparr>cs_s = 0, cs_c = 0, cs_h = 0, s_parsed = False,
              c_parsed = False, h_parsed = False\<rparr>)
       (\<lambda>r. Inr (case r of Inl e \<Rightarrow> Inl e | Inr st \<Rightarrow> Inr (cs_s st, cs_c st, cs_h st)))"

section \<open>Decimal numerals\<close>

definition digit_char :: "nat \<Rightarrow> char" where
  "digit_char d = char_of (48 + d)"

fun dec :: "nat \<Rightarrow> string" where
  "dec n = (if n < 10 then [digit_char n] else dec (n div 10) @ [digit_char (n mod 10)])"

declare dec.simps [simp del]

lemma of_char_digit_char: "d < 10 \<Longrightarrow> (of_char (digit_char d) :: nat) = 48 + d"
  by (simp add: digit_char_def)

lemma digit_val_digit_char [simp]: "d < 10 \<Longrightarrow> digit_val (digit_char d) = d"
  by (simp add: digit_val_def of_char_digit_char)

lemma isdigit_digit_char [simp]: "d < 10 \<Longrightarrow> isdigit (digit_char d)"
  by (simp add: isdigit_def of_char_digit_char)

lemma isdigit_iff: "isdigit c \<longleftrightarrow> is_digit_in 10 c"
  by (auto simp: isdigit_def is_digit_in_def digit_val_def Let_def)

lemma digit_not_space: "isdigit c \<Longrightarrow> \<not> isspace c"
  by (auto simp: isdigit_def isspace_def)

lemma dec_digits: "\<forall>c\<in>set (dec n). isdigit c"
  by (induction n rule: dec.induct) (subst dec.simps, auto)

lemma dec_not_Nil [simp]: "dec n \<noteq> []"
  by (subst dec.simps) simp

lemma digits_value_append1:
  "digits_value b (ds @ [c]) = digits_value b ds * b + digit_val c"
  by (simp add: digits_value_def)

lemma digits_value_dec [simp]: "digits_value 10 (dec n) = n"
proof (induction n rule: dec.induct)
  case (1 n)
  show ?case
  proof (cases "n < 10")
    case True
    then show ?thesis by (subst dec.simps) (simp add: digits_value_def)
  next
    case False
    with 1 show ?thesis by (subst dec.simps) (simp add: digits_value_append1)
  qed
qed

lemma skip_white_spaces_append:
  "list_all isspace ws \<Longrightarrow> skip_white_spaces (ws @ s) = skip_white_spaces s"
  by (simp add: skip_white_spaces_def list_all_iff dropWhile_append1 dropWhile_append2)

lemma skip_white_spaces_Nil: "list_all isspace ws \<Longrightarrow> skip_white_spaces ws = []"
  by (simp add: skip_white_spaces_def list_all_iff)

lemma skip_white_spaces_digits:
  assumes "ds \<noteq> []" and "\<forall>c\<in>set ds. isdigit c"
  shows "skip_white_spaces (ds @ s) = ds @ s"
  using assms digit_not_space by (cases ds) (auto simp: skip_white_spaces_def)

lemma takeWhile_digits:
  assumes "\<forall>c\<in>set ds. isdigit c" and "r = [] \<or> \<not> isdigit (hd r)"
  shows "takeWhile (is_digit_in 10) (ds @ r) = ds"
  using assms by (cases r) (simp_all add: isdigit_iff takeWhile_append2)

lemma scan_sign_digit: "isdigit c \<Longrightarrow> scan_sign (c # s) = (False, c # s)"
  by (auto simp: scan_sign_def isdigit_def)

text \<open>\<open>strtoul\<close> on a run of digits that ends where the string ends or at another character.\<close>

lemma strtoul_digits:
  assumes "ds \<noteq> []" and "\<forall>c\<in>set ds. isdigit c" and "r = [] \<or> \<not> isdigit (hd r)"
  shows "strtoul 10 (ds @ r) =
     (2 ^ 64 \<le> digits_value 10 ds,
      if 2 ^ 64 \<le> digits_value 10 ds then - 1 else of_nat (digits_value 10 ds), r)"
proof -
  obtain c cs where ds: "ds = c # cs" using assms(1) by (cases ds) auto
  have "scan_sign (skip_white_spaces (ds @ r)) = (False, ds @ r)"
    unfolding skip_white_spaces_digits [OF assms(1,2)] using assms(2) by (simp add: ds scan_sign_digit)
  moreover have "skip_0x 10 (ds @ r) = ds @ r" by (simp add: skip_0x_def)
  ultimately show ?thesis
    using assms(1) takeWhile_digits [OF assms(2,3)] by (simp add: strtoul_def Let_def)
qed

lemma parser_read_uint64_digits:
  assumes ws: "list_all isspace ws" and ds: "ds \<noteq> []" "\<forall>c\<in>set ds. isdigit c"
    and r: "r = [] \<or> \<not> isdigit (hd r)"
  shows "parser_read_uint64 (ws @ ds @ r) =
     (let val = (if 2 ^ 64 \<le> digits_value 10 ds then - 1 else of_nat (digits_value 10 ds));
          (val, p) = apply_unit val r
      in if skip_white_spaces p \<noteq> [] then Inl (- EINVAL) else Inr val)"
proof -
  have skip: "skip_white_spaces (ws @ ds @ r) = ds @ r"
    using ws skip_white_spaces_digits [OF ds] by (simp add: skip_white_spaces_append)
  have "ds @ r \<noteq> []" "isdigit (hd (ds @ r))" "r \<noteq> ds @ r" using ds by (auto simp: hd_append)
  then show ?thesis
    unfolding parser_read_uint64_def skip Let_def strtoul_digits [OF ds r] by simp
qed

lemma apply_unit_space:
  assumes "list_all isspace ws"
  shows "apply_unit v ws = (v, ws)"
proof (cases ws)
  case (Cons c cs)
  with assms have "isspace c" by simp
  moreover have "\<not> isspace d" if "d \<in> {CHR ''T'', CHR ''G'', CHR ''M'', CHR ''k'', CHR ''K''}" for d
    using that by (auto simp: isspace_def)
  ultimately have "unit_of c = None" unfolding unit_of_def by (metis insert_iff)
  with Cons show ?thesis by (simp add: apply_unit_def)
qed (simp add: apply_unit_def)

lemma space_not_digit_hd: "list_all isspace ws \<Longrightarrow> ws = [] \<or> \<not> isdigit (hd ws)"
  using digit_not_space by (cases ws) auto

section \<open>Properties\<close>

text \<open>Decimal numbers without a unit suffix are read exactly: surrounded by any white space, the
  numeral of \<open>n\<close> gives \<open>n\<close> if it fits 32 bits and \<open>-ERANGE\<close> if it does not, also when it does not
  even fit the 64 bits of the intermediate value.\<close>

theorem parser_read_uint32_decimal:
  assumes "list_all isspace ws" and "list_all isspace ws'"
  shows "parser_read_uint32 (ws @ dec n @ ws') =
           (if n < 2 ^ 32 then Inr (of_nat n) else Inl (- ERANGE))"
proof -
  have "parser_read_uint64 (ws @ dec n @ ws') = Inr (if 2 ^ 64 \<le> n then - 1 else of_nat n)"
    using parser_read_uint64_digits [OF assms(1) dec_not_Nil dec_digits, of ws' n]
      space_not_digit_hd [OF assms(2)]
    by (simp add: apply_unit_space assms skip_white_spaces_Nil)
  moreover have "unat (of_nat n :: u64) = n" if "\<not> 2 ^ 64 \<le> n"
    using that by (simp add: unat_of_nat)
  moreover have "(ucast (of_nat n :: u64) :: u32) = of_nat n"
    by (rule bit_word_eqI) (simp add: bit_simps)
  moreover have "(0xFFFFFFFF :: u64) < - 1" by simp
  ultimately show ?thesis
    by (cases "2 ^ 64 \<le> n") (auto simp: parser_read_uint32_def narrow_def word_less_nat_alt)
qed

theorem parser_read_uint32_decimal_witness:
  "parser_read_uint32 ('' '' @ dec 4096 @ [CHR 0x0A]) = Inr 4096"
  using parser_read_uint32_decimal [of "'' ''" "[CHR 0x0A]" 4096] by (simp add: isspace_def)

text \<open>A unit suffix multiplies by a power of 1024 in 64 bits without an overflow check: the
  reader accepts \<open>16777216T\<close>, which is two to the 64th, as the 32-bit number 0, and the same number
  written out is rejected.\<close>

theorem parser_unit_overflow_accepted:
  "parser_read_uint32 ''16777216T'' = Inr 0 \<and>
   parser_read_uint32 ''18446744073709551616'' = Inl (- ERANGE)"
proof -
  have "parser_read_uint64 ([] @ ''16777216'' @ ''T'') = Inr 0"
    by (subst parser_read_uint64_digits)
       (simp_all add: isdigit_def digits_value_def digit_val_def apply_unit_def unit_of_def
         skip_white_spaces_def)
  moreover have "parser_read_uint64 ([] @ ''18446744073709551616'' @ []) = Inr (- 1)"
    by (subst parser_read_uint64_digits)
       (simp_all add: isdigit_def digits_value_def digit_val_def apply_unit_def skip_white_spaces_def)
  ultimately show ?thesis
    by (simp add: parser_read_uint32_def narrow_def)
qed

definition quad :: "string \<Rightarrow> string \<Rightarrow> string \<Rightarrow> string \<Rightarrow> string" where
  "quad a b c d = a @ ''.'' @ b @ ''.'' @ c @ ''.'' @ d"

definition octet :: "string \<Rightarrow> bool" where
  "octet ds = (ds \<noteq> [] \<and> list_all isdigit ds \<and> digits_value 10 ds \<le> 255)"

definition dots :: "string list \<Rightarrow> string" where
  "dots ds = concat (map ((#) CHR ''.'') ds)"

lemma foldl_digits_ge: "cur \<le> foldl (\<lambda>v c. v * 10 + digit_val c) cur ds"
proof (induction ds arbitrary: cur)
  case (Cons c cs)
  have "cur \<le> cur * 10 + digit_val c" by simp
  also have "\<dots> \<le> foldl (\<lambda>v c. v * 10 + digit_val c) (cur * 10 + digit_val c) cs" by (rule Cons.IH)
  finally show ?case by simp
qed simp

lemma pton4_digits:
  assumes "list_all isdigit ds" and "foldl (\<lambda>v c. v * 10 + digit_val c) cur ds \<le> 255"
  shows "pton4_loop (ds @ r) True k octs cur =
           pton4_loop r True k octs (foldl (\<lambda>v c. v * 10 + digit_val c) cur ds)"
  using assms
proof (induction ds arbitrary: cur)
  case (Cons c cs)
  have "cur * 10 + digit_val c \<le> 255"
    using Cons.prems(2) foldl_digits_ge [of "cur * 10 + digit_val c" cs] by simp
  with Cons show ?case by simp
qed simp

lemma pton4_group:
  assumes "octet ds" and "k < 4"
  shows "pton4_loop (ds @ r) False k octs 0 = pton4_loop r True (Suc k) octs (digits_value 10 ds)"
proof -
  obtain c cs where ds: "ds = c # cs" using assms(1) by (cases ds) (auto simp: octet_def)
  have le: "foldl (\<lambda>v c. v * 10 + digit_val c) (digit_val c) cs \<le> 255"
    using assms(1) by (simp add: octet_def ds digits_value_def)
  then have "digit_val c \<le> 255" using foldl_digits_ge [of "digit_val c" cs] by simp
  then show ?thesis
    using assms pton4_digits [OF _ le, of r "Suc k" octs]
    by (simp add: ds octet_def digits_value_def)
qed

lemma pton4_sound:
  assumes "pton4_loop s saw k octs cur = Some bs" and "cur \<le> 255"
    and "saw \<Longrightarrow> k = Suc (length octs)" and "\<not> saw \<Longrightarrow> k = length octs \<and> k < 4 \<and> cur = 0" and "k \<le> 4"
  shows "\<exists>d ds. s = d @ dots ds \<and> list_all isdigit d \<and> (\<not> saw \<longrightarrow> d \<noteq> []) \<and>
           foldl (\<lambda>v c. v * 10 + digit_val c) cur d \<le> 255 \<and> list_all octet ds \<and>
           length octs + length ds = 3 \<and>
           bs = octs @ of_nat (foldl (\<lambda>v c. v * 10 + digit_val c) cur d) # map (of_nat \<circ> digits_value 10) ds"
  using assms
proof (induction s arbitrary: saw k octs cur)
  case Nil
  then show ?case by (auto simp: dots_def split: if_splits intro!: exI [of _ "[]"])
next
  case (Cons ch s)
  show ?case
  proof (cases "isdigit ch")
    case True
    let ?new = "cur * 10 + digit_val ch" and ?k = "if saw then k else Suc k"
    have "pton4_loop s True ?k octs ?new = Some bs" "?new \<le> 255" "?k \<le> 4" "?k = Suc (length octs)"
      using Cons.prems True by (auto simp: Let_def split: if_splits)
    then obtain d ds where *: "s = d @ dots ds" "list_all isdigit d"
      "foldl (\<lambda>v c. v * 10 + digit_val c) ?new d \<le> 255" "list_all octet ds" "length octs + length ds = 3"
      "bs = octs @ of_nat (foldl (\<lambda>v c. v * 10 + digit_val c) ?new d) # map (of_nat \<circ> digits_value 10) ds"
      using Cons.IH [of True ?k octs ?new] by auto
    then show ?thesis using True by (intro exI [of _ "ch # d"] exI [of _ ds]) simp
  next
    case False
    with Cons.prems have dot: "ch = CHR ''.''" "saw" "k \<noteq> 4"
      and rec: "pton4_loop s False k (octs @ [of_nat cur]) 0 = Some bs"
      by (auto split: if_splits)
    then obtain d ds where *: "s = d @ dots ds" "list_all isdigit d" "d \<noteq> []"
      "foldl (\<lambda>v c. v * 10 + digit_val c) 0 d \<le> 255" "list_all octet ds"
      "Suc (length octs) + length ds = 3"
      "bs = (octs @ [of_nat cur]) @ of_nat (foldl (\<lambda>v c. v * 10 + digit_val c) 0 d)
              # map (of_nat \<circ> digits_value 10) ds"
      using Cons.IH [OF rec] Cons.prems by auto
    then have "octet d" by (simp add: octet_def digits_value_def)
    then show ?thesis
      using * dot Cons.prems(2)
      by - (rule exI [of _ "[]"], rule exI [of _ "d # ds"], simp add: dots_def digits_value_def)
  qed
qed

text \<open>Exact language of the dotted-quad reader: it succeeds precisely on four groups of decimal
  digits, each not empty and of value at most 255, joined by dots, and yields their values.\<close>

theorem inet_pton4_language:
  "inet_pton4 s = Some bs \<longleftrightarrow>
     (\<exists>a b c d. octet a \<and> octet b \<and> octet c \<and> octet d \<and> s = quad a b c d \<and>
        bs = map (\<lambda>ds. of_nat (digits_value 10 ds)) [a, b, c, d])"
proof
  assume "inet_pton4 s = Some bs"
  then have "pton4_loop s False 0 [] 0 = Some bs" by (simp add: inet_pton4_def)
  from pton4_sound [OF this] obtain a ds where a: "s = a @ dots ds" "list_all isdigit a" "a \<noteq> []"
    "foldl (\<lambda>v c. v * 10 + digit_val c) 0 a \<le> 255" "list_all octet ds" "length ds = 3"
    "bs = of_nat (foldl (\<lambda>v c. v * 10 + digit_val c) 0 a) # map (of_nat \<circ> digits_value 10) ds"
    by auto
  then obtain b c d where "ds = [b, c, d]"
    by (auto simp: numeral_3_eq_3 length_Suc_conv)
  with a show "\<exists>a b c d. octet a \<and> octet b \<and> octet c \<and> octet d \<and> s = quad a b c d \<and>
        bs = map (\<lambda>ds. of_nat (digits_value 10 ds)) [a, b, c, d]"
    by (intro exI [of _ a] exI [of _ b] exI [of _ c] exI [of _ d])
       (simp add: octet_def quad_def dots_def digits_value_def)
next
  assume "\<exists>a b c d. octet a \<and> octet b \<and> octet c \<and> octet d \<and> s = quad a b c d \<and>
        bs = map (\<lambda>ds. of_nat (digits_value 10 ds)) [a, b, c, d]"
  then obtain a b c d where o: "octet a" "octet b" "octet c" "octet d" and "s = quad a b c d"
    and "bs = map (\<lambda>ds. of_nat (digits_value 10 ds)) [a, b, c, d]" by blast
  moreover have "pton4_loop d False (Suc (Suc (Suc 0))) octs 0 = pton4_loop [] True 4 octs (digits_value 10 d)" for octs
    using pton4_group [OF o(4), of 3 "[]"] by (simp add: numeral_3_eq_3)
  moreover have "isdigit (CHR ''.'') = False" by (simp add: isdigit_def)
  ultimately show "inet_pton4 s = Some bs"
    by (simp add: inet_pton4_def quad_def pton4_group [OF o(1)] pton4_group [OF o(2)]
        pton4_group [OF o(3)])
qed


function words_of :: "string \<Rightarrow> string list" where
  "words_of s = (case next_token s of None \<Rightarrow> [] | Some (t, s') \<Rightarrow> t # words_of s')"
  by pat_completeness auto
termination
proof (relation "measure length")
  fix s x t s'
  assume "next_token s = Some x" "(t, s') = x"
  then have nt: "dropWhile isspace s \<noteq> []"
    and s': "s' = drop 1 (dropWhile (\<lambda>c. \<not> isspace c) (dropWhile isspace s))"
    by (auto simp: next_token_def Let_def split: if_splits)
  obtain c cs where c: "dropWhile isspace s = c # cs" "\<not> isspace c"
    using nt hd_dropWhile [of isspace s] by (cases "dropWhile isspace s") auto
  have "length s' \<le> length cs"
    using s' c length_dropWhile_le [of "\<lambda>c. \<not> isspace c" cs] by simp
  also have "\<dots> < length s" using c(1) length_dropWhile_le [of isspace s] by simp
  finally show "(s', s) \<in> measure length" by simp
qed simp

declare words_of.simps [simp del]

lemma tokenize_words:
  "tokenize n s = (ts, r) \<Longrightarrow>
     ts = take n (words_of s) \<and> (length ts = n \<longrightarrow> (next_token r \<noteq> None \<longleftrightarrow> n < length (words_of s)))"
proof (induction n arbitrary: s ts r)
  case 0
  then show ?case
    by (subst (2) words_of.simps) (auto split: option.split)
next
  case (Suc n)
  show ?case
  proof (cases "next_token s")
    case None
    then have "words_of s = []" by (subst words_of.simps) simp
    with None Suc.prems show ?thesis by simp
  next
    case (Some x)
    obtain t s' where x: "x = (t, s')" by (cases x)
    have w: "words_of s = t # words_of s'" using Some x by (subst words_of.simps) simp
    obtain ts' where "tokenize n s' = (ts', r)" "ts = t # ts'"
      using Suc.prems Some x by (auto split: prod.splits)
    with Suc.IH [of s' ts' r] w show ?thesis by simp
  qed
qed

text \<open>The tokenizer splits at white space: it returns all tokens in order when there are at most
  \<open>n\<close>, and \<open>-E2BIG\<close> exactly when there are more.\<close>

theorem parse_tokenize_string_words:
  assumes "0 < n"
  shows "parse_tokenize_string (Some s) n =
           (if length (words_of s) \<le> n then Inr (words_of s) else Inl (- E2BIG))"
proof -
  obtain ts r where t: "tokenize n s = (ts, r)" by fastforce
  from tokenize_words [OF t] assms show ?thesis
    by (auto simp: parse_tokenize_string_def t min_def)
qed

theorem parse_tokenize_string_words_witness:
  "parse_tokenize_string (Some ''p 1  firewall add'') 8 =
     Inr [''p'', ''1'', ''firewall'', ''add'']"
proof -
  have "words_of ''p 1  firewall add'' = [''p'', ''1'', ''firewall'', ''add'']"
    by (simp add: words_of.simps next_token_def isspace_def)
  then show ?thesis using parse_tokenize_string_words [of 8 "''p 1  firewall add''"] by simp
qed

lemma scan_num_all_digits:
  "list_all isdigit ds \<Longrightarrow> k + length ds \<le> 8 \<Longrightarrow> scan_num ds k num = Some (num @ ds, [])"
  by (induction ds arbitrary: k num) auto

lemma isdigit_not_letter: "isdigit c \<Longrightarrow> c \<notin> {CHR ''s'', CHR ''S'', CHR ''c'', CHR ''C'', CHR ''h'', CHR ''H''}"
  by (auto simp: isdigit_def)

text \<open>The pipeline-core reader overruns its 8-byte digit buffer: an entry of exactly eight
  digits makes it store the terminating NUL one byte behind the array.\<close>

theorem parse_pipeline_core_overrun:
  assumes "list_all isdigit ds" and "length ds = 8"
  shows "parse_pipeline_core ds = Inl OutOfBounds"
proof -
  obtain c cs where ds: "ds = c # cs" using assms(2) by (cases ds) auto
  have c: "isdigit c" using assms(1) ds by simp
  have skip: "skip_white_spaces ds = ds"
    using digit_not_space [OF c] by (simp add: ds skip_white_spaces_def)
  have type: "core_type ds st = Some (CHR ''C'', st, ds)"
    if "\<not> s_parsed st" "\<not> c_parsed st" "\<not> h_parsed st" for st
    using that isdigit_not_letter [OF c] c by (simp add: core_type_def Let_def ds)
  have "scan_num ds 0 [] = Some (ds, [])" using scan_num_all_digits [of ds 0 "[]"] assms by simp
  then show ?thesis
    unfolding parse_pipeline_core_def skip using assms(2)
    by (subst core_loop.simps) (simp add: type, auto)
qed

theorem parse_pipeline_core_overrun_witness:
  "parse_pipeline_core ''12345678'' = Inl OutOfBounds"
  by (rule parse_pipeline_core_overrun) (simp_all add: isdigit_def)

text \<open>A leading number does not have to be the whole core id although the code's comment says so,
  and the empty entry is accepted: \<open>5c3\<close> is read as core 3 of socket 0 and the empty string as
  core 0.\<close>

theorem parse_pipeline_core_lenient:
  "parse_pipeline_core ''5c3'' = Inr (Inr (0, 3, 0)) \<and> parse_pipeline_core '''' = Inr (Inr (0, 0, 0))"
  by (simp add: parse_pipeline_core_def skip_white_spaces_def isspace_def core_loop.simps core_type_def
      isdigit_def core_store_def strtol_def scan_sign_def is_digit_in_def digit_val_def digits_value_def)

end
