(* ===== verification/Firewall_BE.thy ===== *)
theory Firewall_BE
  imports Filter_World Parser
begin

text \<open>
  The firewall back end that runs in the enclave: src/Enclave/ip_pipeline/pipeline_firewall_be.c, the
  common message handling of pipeline_common_be.c, the port selection of src/App/ip_pipeline/pipeline_be.h
  (compiled with \<open>APP_ENCLAVE\<close>) and the main loop of src/Enclave/firewall_thread.c.

  The state is the back end's structure (record \<open>pipeline_firewall\<close>, with the packet framework's pipeline
  inside), the machine state of theory Filter_World, and the message rings. A ring of messages holds the
  messages themselves; a response overwrites its request in the same memory, after the request was read.
\<close>

section \<open>Rule fields\<close>

datatype rte_acl_field_type = RTE_ACL_FIELD_TYPE_MASK | RTE_ACL_FIELD_TYPE_RANGE | RTE_ACL_FIELD_TYPE_BITMASK

record rte_acl_field_def =
  fd_type :: rte_acl_field_type
  fd_size :: nat
  fd_field_index :: nat
  fd_input_index :: nat
  fd_offset :: nat

text \<open>The three formats differ in where the IPv4 header starts: after the Ethernet header of 14 bytes, and
  after a VLAN header (4 bytes) or a QinQ header (8 bytes) behind it.\<close>

definition field_format_ipv4 :: "rte_acl_field_def list" where
  "field_format_ipv4 = [
     \<lparr>fd_type = RTE_ACL_FIELD_TYPE_BITMASK, fd_size = 1, fd_field_index = 0, fd_input_index = 0, fd_offset = 14 + 9\<rparr>,
     \<lparr>fd_type = RTE_ACL_FIELD_TYPE_MASK, fd_size = 4, fd_field_index = 1, fd_input_index = 1, fd_offset = 14 + 12\<rparr>,
     \<lparr>fd_type = RTE_ACL_FIELD_TYPE_MASK, fd_size = 4, fd_field_index = 2, fd_input_index = 2, fd_offset = 14 + 16\<rparr>,
     \<lparr>fd_type = RTE_ACL_FIELD_TYPE_RANGE, fd_size = 2, fd_field_index = 3, fd_input_index = 3, fd_offset = 14 + 20 + 0\<rparr>,
     \<lparr>fd_type = RTE_ACL_FIELD_TYPE_RANGE, fd_size = 2, fd_field_index = 4, fd_input_index = 3, fd_offset = 14 + 20 + 2\<rparr>]"

definition field_format_vlan_ipv4 :: "rte_acl_field_def list" where
  "field_format_vlan_ipv4 = [
     \<lparr>fd_type = RTE_ACL_FIELD_TYPE_BITMASK, fd_size = 1, fd_field_index = 0, fd_input_index = 0, fd_offset = 14 + 4 + 9\<rparr>,
     \<lparr>fd_type = RTE_ACL_FIELD_TYPE_MASK, fd_size = 4, fd_field_index = 1, fd_input_index = 1, fd_offset = 14 + 4 + 12\<rparr>,
     \<lparr>fd_type = RTE_ACL_FIELD_TYPE_MASK, fd_size = 4, fd_field_index = 2, fd_input_index = 2, fd_offset = 14 + 4 + 16\<rparr>,
     \<lparr>fd_type = RTE_ACL_FIELD_TYPE_RANGE, fd_size = 2, fd_field_index = 3, fd_input_index = 3, fd_offset = 14 + 4 + 20 + 0\<rparr>,
     \<lparr>fd_type = RTE_ACL_FIELD_TYPE_RANGE, fd_size = 2, fd_field_index = 4, fd_input_index = 3, fd_offset = 14 + 4 + 20 + 2\<rparr>]"

definition field_format_qinq_ipv4 :: "rte_acl_field_def list" where
  "field_format_qinq_ipv4 = [
     \<lparr>fd_type = RTE_ACL_FIELD_TYPE_BITMASK, fd_size = 1, fd_field_index = 0, fd_input_index = 0, fd_offset = 14 + 8 + 9\<rparr>,
     \<lparr>fd_type = RTE_ACL_FIELD_TYPE_MASK, fd_size = 4, fd_field_index = 1, fd_input_index = 1, fd_offset = 14 + 8 + 12\<rparr>,
     \<lparr>fd_type = RTE_ACL_FIELD_TYPE_MASK, fd_size = 4, fd_field_index = 2, fd_input_index = 2, fd_offset = 14 + 8 + 16\<rparr>,
     \<lparr>fd_type = RTE_ACL_FIELD_TYPE_RANGE, fd_size = 2, fd_field_index = 3, fd_input_index = 3, fd_offset = 14 + 8 + 20 + 0\<rparr>,
     \<lparr>fd_type = RTE_ACL_FIELD_TYPE_RANGE, fd_size = 2, fd_field_index = 4, fd_input_index = 3, fd_offset = 14 + 8 + 20 + 2\<rparr>]"

section \<open>Structures\<close>

type_synonym 'rt fw_world = "(rte_acl_field_def list, 'rt) world"

type_synonym 'rt fw_pl =
  "('rt fw_world, port_arg, rte_acl_field_def list rte_table_acl_params option, nat, acl_key, nat) rte_pipeline"

abbreviation (input) PIPELINE_MAX_PORT_IN :: nat where "PIPELINE_MAX_PORT_IN \<equiv> 64"
abbreviation (input) PIPELINE_MAX_PORT_OUT :: nat where "PIPELINE_MAX_PORT_OUT \<equiv> 64"
abbreviation (input) PIPELINE_MAX_TABLES :: nat where "PIPELINE_MAX_TABLES \<equiv> 16"
abbreviation (input) PIPELINE_MAX_MSGQ :: nat where "PIPELINE_MAX_MSGQ \<equiv> 16"
abbreviation (input) PIPELINE_NAME_SIZE :: nat where "PIPELINE_NAME_SIZE \<equiv> 64"

text \<open>\<open>struct pipeline\<close>; a message queue is the number of a ring, or None for NULL. The arrays of function
  pointers \<open>handlers\<close> and \<open>custom_handlers\<close> are always the two tables below.\<close>

record 'rt pipeline =
  be_p :: "'rt fw_pl"
  be_port_in_id :: "nat list"
  be_port_out_id :: "nat list"
  be_table_id :: "nat list"
  be_msgq_in :: "nat option list"
  be_msgq_out :: "nat option list"
  be_n_ports_in :: nat
  be_n_ports_out :: nat
  be_n_tables :: nat
  be_n_msgq :: nat
  be_name :: string
  be_log_level :: nat

record 'rt pipeline_firewall = "'rt pipeline" +
  fw_n_rules :: nat
  fw_n_rule_fields :: nat
  fw_field_format :: "rte_acl_field_def list"

section \<open>Messages\<close>

record pipeline_firewall_key_ipv4_5tuple =
  k_src_ip :: u32
  k_src_ip_mask :: u32
  k_dst_ip :: u32
  k_dst_ip_mask :: u32
  k_src_port_from :: u16
  k_src_port_to :: u16
  k_dst_port_from :: u16
  k_dst_port_to :: u16
  k_proto :: u8
  k_proto_mask :: u8

record pipeline_firewall_key =
  key_type :: nat
  key_ipv4_5tuple :: pipeline_firewall_key_ipv4_5tuple

abbreviation (input) PIPELINE_FIREWALL_IPV4_5TUPLE :: nat where "PIPELINE_FIREWALL_IPV4_5TUPLE \<equiv> 0"

text \<open>
  A request is its type, its second word (\<open>id\<close>, \<open>port_id\<close> or \<open>subtype\<close>) and the rest of its structure; a
  handler that finds a structure of another kind reads past its end. A bulk request points to arrays.
\<close>

datatype fw_body =
    No_Body
  | Add_Body pipeline_firewall_key int nat
  | Del_Body pipeline_firewall_key
  | Add_Bulk_Body "pipeline_firewall_key list" nat "u32 list" "nat list" "bool list" "nat option list"
  | Del_Bulk_Body "pipeline_firewall_key list" nat "bool list"
  | Add_Default_Body nat

record fw_req =
  rq_type :: nat
  rq_word :: nat
  rq_body :: fw_body

text \<open>What a response holds behind its status.\<close>

datatype fw_out =
    Out_None
  | Out_Port_Stats "port_stats option"
  | Out_Table_Stats "table_stats option"
  | Out_Add "(bool \<times> nat) option"
  | Out_Del "bool option"
  | Out_Add_Bulk "bool list" "nat option list"
  | Out_Del_Bulk "bool list"
  | Out_Default "rte_pipeline_table_entry option"

record fw_rsp =
  rs_status :: int
  rs_out :: fw_out

definition rsp_status :: "int \<Rightarrow> fw_rsp" where
  "rsp_status st = \<lparr>rs_status = st, rs_out = Out_None\<rparr>"

type_synonym 'rt fw_handler =
  "'rt pipeline_firewall \<Rightarrow> fw_req \<Rightarrow> 'rt fw_world \<Rightarrow> (fw_rsp \<times> 'rt pipeline_firewall \<times> 'rt fw_world) res"

section \<open>Common handlers\<close>

definition pipeline_msg_req_ping_handler :: "'rt fw_handler" where
  "pipeline_msg_req_ping_handler p req g = Inr (rsp_status 0, p, g)"

definition pipeline_msg_req_invalid_handler :: "'rt fw_handler" where
  "pipeline_msg_req_invalid_handler p req g = Inr (rsp_status (- 1), p, g)"

text \<open>The statistics are stored behind the status of the response; they are only used when it is 0.\<close>

definition pipeline_msg_req_stats_port_in_handler :: "'rt fw_handler" where
  "pipeline_msg_req_stats_port_in_handler p req g =
     (if rq_word req \<ge> be_n_ports_in p then Inr (rsp_status (- 1), p, g)
      else rbind (arr_at (be_port_in_id p) (rq_word req)) (\<lambda>port_id.
        rbind (rte_pipeline_port_in_stats_read (Some (be_p p)) port_id (Some ((0, 0), 0)) True g) (\<lambda>(st, stats, q, g).
        Inr (\<lparr>rs_status = st, rs_out = (if st = 0 then Out_Port_Stats stats else Out_None)\<rparr>, p\<lparr>be_p := the q\<rparr>, g))))"

definition pipeline_msg_req_stats_port_out_handler :: "'rt fw_handler" where
  "pipeline_msg_req_stats_port_out_handler p req g =
     (if rq_word req \<ge> be_n_ports_out p then Inr (rsp_status (- 1), p, g)
      else rbind (arr_at (be_port_out_id p) (rq_word req)) (\<lambda>port_id.
        rbind (rte_pipeline_port_out_stats_read (Some (be_p p)) port_id (Some ((0, 0), 0)) True g) (\<lambda>(st, stats, q, g).
        Inr (\<lparr>rs_status = st, rs_out = (if st = 0 then Out_Port_Stats stats else Out_None)\<rparr>, p\<lparr>be_p := the q\<rparr>, g))))"

definition pipeline_msg_req_stats_table_handler :: "'rt fw_handler" where
  "pipeline_msg_req_stats_table_handler p req g =
     (if rq_word req \<ge> be_n_tables p then Inr (rsp_status (- 1), p, g)
      else rbind (arr_at (be_table_id p) (rq_word req)) (\<lambda>table_id.
        rbind (rte_pipeline_table_stats_read (Some (be_p p)) table_id (Some ((0, 0), 0, 0, 0, 0)) True g) (\<lambda>(st, stats, q, g).
        Inr (\<lparr>rs_status = st, rs_out = (if st = 0 then Out_Table_Stats stats else Out_None)\<rparr>, p\<lparr>be_p := the q\<rparr>, g))))"

definition pipeline_msg_req_port_in_enable_handler :: "'rt fw_handler" where
  "pipeline_msg_req_port_in_enable_handler p req g =
     (if rq_word req \<ge> be_n_ports_in p then Inr (rsp_status (- 1), p, g)
      else rbind (arr_at (be_port_in_id p) (rq_word req)) (\<lambda>port_id.
        case rte_pipeline_port_in_enable (Some (be_p p)) port_id of
          (st, q) \<Rightarrow> Inr (rsp_status st, p\<lparr>be_p := the q\<rparr>, g)))"

definition pipeline_msg_req_port_in_disable_handler :: "'rt fw_handler" where
  "pipeline_msg_req_port_in_disable_handler p req g =
     (if rq_word req \<ge> be_n_ports_in p then Inr (rsp_status (- 1), p, g)
      else rbind (arr_at (be_port_in_id p) (rq_word req)) (\<lambda>port_id.
        case rte_pipeline_port_in_disable (Some (be_p p)) port_id of
          (st, q) \<Rightarrow> Inr (rsp_status st, p\<lparr>be_p := the q\<rparr>, g)))"

section \<open>Firewall handlers\<close>

text \<open>Storing the low \<open>n\<close> bits of a field's union.\<close>

definition store_low :: "nat \<Rightarrow> u64 \<Rightarrow> u64 \<Rightarrow> u64" where
  "store_low n v w = (w AND NOT (mask n)) OR (v AND mask n)"

definition store_field :: "nat \<Rightarrow> u64 \<Rightarrow> u64 \<Rightarrow> rte_acl_field \<Rightarrow> rte_acl_field" where
  "store_field n v m f = \<lparr>af_value = store_low n v (af_value f), af_mask_range = store_low n m (af_mask_range f)\<rparr>"

text \<open>The assignments of the five fields, as all four handlers have them; \<open>fv\<close> is the array of field values
  before.\<close>

definition store_5tuple :: "pipeline_firewall_key_ipv4_5tuple \<Rightarrow> rte_acl_field list \<Rightarrow> rte_acl_field list" where
  "store_5tuple k fv = fv[
     0 := store_field 8 (ucast (k_proto k)) (ucast (k_proto_mask k)) (fv ! 0),
     1 := store_field 32 (ucast (k_src_ip k)) (ucast (k_src_ip_mask k)) (fv ! 1),
     2 := store_field 32 (ucast (k_dst_ip k)) (ucast (k_dst_ip_mask k)) (fv ! 2),
     3 := store_field 16 (ucast (k_src_port_from k)) (ucast (k_src_port_to k)) (fv ! 3),
     4 := store_field 16 (ucast (k_dst_port_from k)) (ucast (k_dst_port_to k)) (fv ! 4)]"

definition zero_fields :: "rte_acl_field list" where
  "zero_fields = replicate RTE_ACL_MAX_FIELDS \<lparr>af_value = 0, af_mask_range = 0\<rparr>"

definition port_entry :: "nat \<Rightarrow> rte_pipeline_table_entry" where
  "port_entry port_id = \<lparr>pte_action = ACTION_PORT, pte_id = port_id, pte_data = []\<rparr>"

text \<open>The port is looked up before the type of the key is tested, and without testing its number.\<close>

definition pipeline_firewall_msg_req_add_handler :: "'rt fw_handler" where
  "pipeline_firewall_msg_req_add_handler p req g =
     (case rq_body req of Add_Body key priority port_id \<Rightarrow>
        rbind (arr_at (be_port_out_id p) port_id) (\<lambda>out_id.
        if key_type key \<noteq> PIPELINE_FIREWALL_IPV4_5TUPLE then Inr (rsp_status (- 1), p, g)
        else rbind (arr_at (be_table_id p) 0) (\<lambda>table_id.
          rbind (rte_pipeline_table_entry_add (Some (be_p p)) table_id
              (Some (Add_Key \<lparr>rap_priority = priority, rap_field_value = store_5tuple (key_ipv4_5tuple key) zero_fields\<rparr>))
              (Some (port_entry out_id)) g) (\<lambda>(st, out, q, g).
          Inr (\<lparr>rs_status = st, rs_out = Out_Add out\<rparr>, p\<lparr>be_p := the q\<rparr>, g))))
      | _ \<Rightarrow> Inl OutOfBounds)"

definition pipeline_firewall_msg_req_del_handler :: "'rt fw_handler" where
  "pipeline_firewall_msg_req_del_handler p req g =
     (case rq_body req of Del_Body key \<Rightarrow>
        if key_type key \<noteq> PIPELINE_FIREWALL_IPV4_5TUPLE then Inr (rsp_status (- 1), p, g)
        else rbind (arr_at (be_table_id p) 0) (\<lambda>table_id.
          rbind (rte_pipeline_table_entry_delete (Some (be_p p)) table_id
              (Some (Delete_Key (store_5tuple (key_ipv4_5tuple key) zero_fields))) g) (\<lambda>(st, out, g).
          Inr (\<lparr>rs_status = st, rs_out = Out_Del (map_option fst out)\<rparr>, p, g)))
      | _ \<Rightarrow> Inl OutOfBounds)"

text \<open>
  The bulk handlers build their parameters in blocks of \<open>rte_zmalloc\<close>, which holds what the heap left
  there. \<open>ba_entry\<close> tells which entry allocations succeed, \<open>ba_param\<close> is the block of field values for
  each key. A key of another type frees all \<open>n_keys\<close> pointers, those that were not set yet too. None is
  the response of status -1.
\<close>

record bulk_alloc =
  ba_entry :: "nat \<Rightarrow> bool"
  ba_param :: "nat \<Rightarrow> rte_acl_field list option"

fun add_bulk_params ::
  "bulk_alloc \<Rightarrow> ('rt, 'z) pipeline_scheme \<Rightarrow> pipeline_firewall_key list \<Rightarrow> u32 list \<Rightarrow> nat list \<Rightarrow> nat \<Rightarrow> nat list \<Rightarrow>
   (rte_table_acl_rule_add_params \<times> rte_pipeline_table_entry) list option res" where
  "add_bulk_params ba p keys priorities port_ids n_keys [] = Inr (Some [])"
| "add_bulk_params ba p keys priorities port_ids n_keys (i # is) =
     (if \<not> ba_entry ba i then Inr None
      else case ba_param ba i of None \<Rightarrow> Inr None
      | Some fv \<Rightarrow>
          rbind (arr_at port_ids i) (\<lambda>port_id. rbind (arr_at (be_port_out_id p) port_id) (\<lambda>out_id.
          rbind (arr_at keys i) (\<lambda>key.
          if key_type key \<noteq> PIPELINE_FIREWALL_IPV4_5TUPLE then (if i + 1 < n_keys then Inl BadFree else Inr None)
          else rbind (arr_at priorities i) (\<lambda>pri.
            rbind (add_bulk_params ba p keys priorities port_ids n_keys is) (\<lambda>ps.
            Inr (map_option ((#) (\<lparr>rap_priority = sint pri, rap_field_value = store_5tuple (key_ipv4_5tuple key) fv\<rparr>,
                port_entry out_id)) ps)))))))"

definition pipeline_firewall_msg_req_add_bulk_handler :: "bulk_alloc \<Rightarrow> 'rt fw_handler" where
  "pipeline_firewall_msg_req_add_bulk_handler ba p req g =
     (case rq_body req of Add_Bulk_Body keys n_keys priorities port_ids keys_found entries_ptr \<Rightarrow>
        rbind (add_bulk_params ba p keys priorities port_ids n_keys [0 ..< n_keys]) (\<lambda>ps.
        case ps of None \<Rightarrow> Inr (rsp_status (- 1), p, g)
        | Some ps \<Rightarrow> rbind (arr_at (be_table_id p) 0) (\<lambda>table_id.
            rbind (rte_pipeline_table_entry_add_bulk (Some (be_p p)) table_id (Some (map (\<lambda>(r, e). Some (Add_Key r)) ps))
                (Some (map (\<lambda>(r, e). Some e) ps)) keys_found entries_ptr g) (\<lambda>(st, kf, ptrs, q, g).
            Inr (\<lparr>rs_status = st, rs_out = Out_Add_Bulk kf ptrs\<rparr>, p\<lparr>be_p := the q\<rparr>, g))))
      | _ \<Rightarrow> Inl OutOfBounds)"

fun del_bulk_params ::
  "bulk_alloc \<Rightarrow> pipeline_firewall_key list \<Rightarrow> nat \<Rightarrow> nat list \<Rightarrow> rte_acl_field list list option res" where
  "del_bulk_params ba keys n_keys [] = Inr (Some [])"
| "del_bulk_params ba keys n_keys (i # is) =
     (case ba_param ba i of None \<Rightarrow> Inr None
      | Some fv \<Rightarrow>
          rbind (arr_at keys i) (\<lambda>key.
          if key_type key \<noteq> PIPELINE_FIREWALL_IPV4_5TUPLE then (if i + 1 < n_keys then Inl BadFree else Inr None)
          else rbind (del_bulk_params ba keys n_keys is) (\<lambda>ps.
            Inr (map_option ((#) (store_5tuple (key_ipv4_5tuple key) fv)) ps))))"

definition pipeline_firewall_msg_req_del_bulk_handler :: "bulk_alloc \<Rightarrow> 'rt fw_handler" where
  "pipeline_firewall_msg_req_del_bulk_handler ba p req g =
     (case rq_body req of Del_Bulk_Body keys n_keys keys_found \<Rightarrow>
        rbind (del_bulk_params ba keys n_keys [0 ..< n_keys]) (\<lambda>ps.
        case ps of None \<Rightarrow> Inr (rsp_status (- 1), p, g)
        | Some ps \<Rightarrow> rbind (arr_at (be_table_id p) 0) (\<lambda>table_id.
            rbind (rte_pipeline_table_entry_delete_bulk (Some (be_p p)) table_id
                (Some (map (\<lambda>fv. Some (Delete_Key fv)) ps)) keys_found g) (\<lambda>(st, kf, g).
            Inr (\<lparr>rs_status = st, rs_out = Out_Del_Bulk kf\<rparr>, p, g))))
      | _ \<Rightarrow> Inl OutOfBounds)"

definition pipeline_firewall_msg_req_add_default_handler :: "'rt fw_handler" where
  "pipeline_firewall_msg_req_add_default_handler p req g =
     (case rq_body req of Add_Default_Body port_id \<Rightarrow>
        rbind (arr_at (be_port_out_id p) port_id) (\<lambda>out_id. rbind (arr_at (be_table_id p) 0) (\<lambda>table_id.
        case rte_pipeline_table_default_entry_add (Some (be_p p)) table_id (Some (port_entry out_id)) of
          (st, q) \<Rightarrow> Inr (\<lparr>rs_status = st,
            rs_out = Out_Default (if st = 0 then Some (port_entry out_id) else None)\<rparr>, p\<lparr>be_p := the q\<rparr>, g)))
      | _ \<Rightarrow> Inl OutOfBounds)"

definition pipeline_firewall_msg_req_del_default_handler :: "'rt fw_handler" where
  "pipeline_firewall_msg_req_del_default_handler p req g =
     rbind (arr_at (be_table_id p) 0) (\<lambda>table_id.
     case rte_pipeline_table_default_entry_delete (Some (be_p p)) table_id of
       (st, _, q) \<Rightarrow> Inr (rsp_status st, p\<lparr>be_p := the q\<rparr>, g))"

text \<open>The two tables of handlers, indexed by type and by subtype.\<close>

definition custom_handlers :: "bulk_alloc \<Rightarrow> 'rt fw_handler list" where
  "custom_handlers ba = [pipeline_firewall_msg_req_add_handler, pipeline_firewall_msg_req_del_handler,
     pipeline_firewall_msg_req_add_bulk_handler ba, pipeline_firewall_msg_req_del_bulk_handler ba,
     pipeline_firewall_msg_req_add_default_handler, pipeline_firewall_msg_req_del_default_handler]"

definition pipeline_firewall_msg_req_custom_handler :: "bulk_alloc \<Rightarrow> 'rt fw_handler" where
  "pipeline_firewall_msg_req_custom_handler ba p req g =
     (if rq_word req < length (custom_handlers ba :: 'rt fw_handler list) then (custom_handlers ba ! rq_word req) p req g
      else pipeline_msg_req_invalid_handler p req g)"

definition handlers :: "bulk_alloc \<Rightarrow> 'rt fw_handler list" where
  "handlers ba = [pipeline_msg_req_ping_handler, pipeline_msg_req_stats_port_in_handler,
     pipeline_msg_req_stats_port_out_handler, pipeline_msg_req_stats_table_handler,
     pipeline_msg_req_port_in_enable_handler, pipeline_msg_req_port_in_disable_handler,
     pipeline_firewall_msg_req_custom_handler ba]"

section \<open>Message queues\<close>

record fw_msgs =
  req_rings :: "fw_req rte_ring list"
  rsp_rings :: "fw_rsp rte_ring list"

definition msg_ring :: "nat option list \<Rightarrow> nat \<Rightarrow> nat res" where
  "msg_ring qs i = rbind (arr_at qs i) (\<lambda>q. case q of None \<Rightarrow> Inl NullDeref | Some r \<Rightarrow> Inr r)"

definition pipeline_msg_recv ::
  "('rt, 'z) pipeline_scheme \<Rightarrow> nat \<Rightarrow> fw_msgs \<Rightarrow> (fw_req option \<times> fw_msgs) res" where
  "pipeline_msg_recv p msgq_id ms =
     rbind (msg_ring (be_msgq_in p) msgq_id) (\<lambda>k. rbind (arr_at (req_rings ms) k) (\<lambda>r.
     rbind (rte_ring_sc_dequeue r) (\<lambda>(status, msg, r).
     Inr (if status \<noteq> 0 then None else msg, ms\<lparr>req_rings := (req_rings ms)[k := r]\<rparr>))))"

text \<open>The loop of \<open>pipeline_msg_send\<close> tries again while the ring is full. \<open>env\<close> is what the reader at the
  other end does to the ring between two attempts; \<open>fuel\<close> bounds the number of attempts.\<close>

primrec send_loop ::
  "nat \<Rightarrow> (nat \<Rightarrow> fw_rsp rte_ring \<Rightarrow> fw_rsp rte_ring) \<Rightarrow> fw_rsp \<Rightarrow> fw_rsp rte_ring \<Rightarrow> fw_rsp rte_ring res" where
  "send_loop 0 env msg r = Inl OutOfFuel"
| "send_loop (Suc n) env msg r =
     rbind (rte_ring_sp_enqueue msg r) (\<lambda>(status, r).
     if status = - ENOBUFS then send_loop n env msg (env n r) else Inr r)"

definition pipeline_msg_send ::
  "nat \<Rightarrow> (nat \<Rightarrow> fw_rsp rte_ring \<Rightarrow> fw_rsp rte_ring) \<Rightarrow> ('rt, 'z) pipeline_scheme \<Rightarrow> nat \<Rightarrow> fw_rsp \<Rightarrow> fw_msgs \<Rightarrow>
   fw_msgs res" where
  "pipeline_msg_send fuel env p msgq_id msg ms =
     rbind (msg_ring (be_msgq_out p) msgq_id) (\<lambda>k. rbind (arr_at (rsp_rings ms) k) (\<lambda>r.
     rbind (send_loop fuel env msg r) (\<lambda>r. Inr (ms\<lparr>rsp_rings := (rsp_rings ms)[k := r]\<rparr>))))"

text \<open>\<open>pipeline_msg_req_handle\<close>: the inner loop ends when its queue is empty; \<open>fuel\<close> bounds the messages taken
  from one queue.\<close>

definition handle_req :: "bulk_alloc \<Rightarrow> 'rt fw_handler" where
  "handle_req ba p req g =
     (if rq_type req < length (handlers ba :: 'rt fw_handler list) then (handlers ba ! rq_type req) p req g
      else pipeline_msg_req_invalid_handler p req g)"

primrec msg_loop ::
  "nat \<Rightarrow> nat \<Rightarrow> (nat \<Rightarrow> fw_rsp rte_ring \<Rightarrow> fw_rsp rte_ring) \<Rightarrow> bulk_alloc \<Rightarrow> nat \<Rightarrow>
   'rt pipeline_firewall \<times> fw_msgs \<times> 'rt fw_world \<Rightarrow> ('rt pipeline_firewall \<times> fw_msgs \<times> 'rt fw_world) res" where
  "msg_loop 0 sf env ba msgq_id s = Inl OutOfFuel"
| "msg_loop (Suc n) sf env ba msgq_id s = (case s of (p, ms, g) \<Rightarrow>
     rbind (pipeline_msg_recv p msgq_id ms) (\<lambda>(req, ms).
     case req of None \<Rightarrow> Inr (p, ms, g)
     | Some req \<Rightarrow> rbind (handle_req ba p req g) (\<lambda>(rsp, p, g).
         rbind (pipeline_msg_send sf env p msgq_id rsp ms) (\<lambda>ms. msg_loop n sf env ba msgq_id (p, ms, g)))))"

definition pipeline_msg_req_handle where
  "pipeline_msg_req_handle fuel sf env ba s =
     rfold (\<lambda>msgq_id s. msg_loop fuel sf env ba msgq_id s) [0 ..< be_n_msgq (fst s)] s"

definition pipeline_firewall_timer ::
  "nat \<Rightarrow> nat \<Rightarrow> (nat \<Rightarrow> fw_rsp rte_ring \<Rightarrow> fw_rsp rte_ring) \<Rightarrow> bulk_alloc \<Rightarrow>
   'rt pipeline_firewall \<times> fw_msgs \<times> 'rt fw_world \<Rightarrow> ('rt pipeline_firewall \<times> fw_msgs \<times> 'rt fw_world) res" where
  "pipeline_firewall_timer fuel sf env ba s =
     rbind (pipeline_msg_req_handle fuel sf env ba s) (\<lambda>(p, ms, g).
     rbind (rte_pipeline_flush (Some (be_p p)) g) (\<lambda>(_, g). Inr (p, ms, g)))"

definition pipeline_firewall_free :: "'rt pipeline_firewall option \<Rightarrow> 'rt fw_world \<Rightarrow> (int \<times> 'rt fw_world) res" where
  "pipeline_firewall_free p g = (case p of None \<Rightarrow> Inr (- 1, g)
     | Some p \<Rightarrow> rbind (rte_pipeline_free (Some (be_p p)) g) (\<lambda>(_, g). Inr (0, g)))"

end
