(* ===== verification/Firewall_Init.thy ===== *)
theory Firewall_Init
  imports Firewall_BE
begin

text \<open>
  Starting and running the firewall: \<open>pipeline_firewall_parse_args\<close> and \<open>ecall_pipeline_firewall_init\<close> of
  src/Enclave/ip_pipeline/pipeline_firewall_be.c, the selection of port operations in
  src/App/ip_pipeline/pipeline_be.h as compiled for the enclave, and \<open>ecall_firewall_thread\<close> of
  src/Enclave/firewall_thread.c.
\<close>

section \<open>Parameters\<close>

datatype pipeline_port_in_type =
    PIPELINE_PORT_IN_ETHDEV_READER | PIPELINE_PORT_IN_RING_READER | PIPELINE_PORT_IN_RING_MULTI_READER
  | PIPELINE_PORT_IN_RING_READER_IPV4_FRAG | PIPELINE_PORT_IN_RING_READER_IPV6_FRAG | PIPELINE_PORT_IN_SCHED_READER
  | PIPELINE_PORT_IN_FD_READER | PIPELINE_PORT_IN_KNI_READER | PIPELINE_PORT_IN_SOURCE

datatype pipeline_port_out_type =
    PIPELINE_PORT_OUT_ETHDEV_WRITER | PIPELINE_PORT_OUT_ETHDEV_WRITER_NODROP | PIPELINE_PORT_OUT_RING_WRITER
  | PIPELINE_PORT_OUT_RING_MULTI_WRITER | PIPELINE_PORT_OUT_RING_WRITER_NODROP
  | PIPELINE_PORT_OUT_RING_MULTI_WRITER_NODROP | PIPELINE_PORT_OUT_RING_WRITER_IPV4_RAS
  | PIPELINE_PORT_OUT_RING_WRITER_IPV6_RAS | PIPELINE_PORT_OUT_SCHED_WRITER | PIPELINE_PORT_OUT_FD_WRITER
  | PIPELINE_PORT_OUT_KNI_WRITER | PIPELINE_PORT_OUT_KNI_WRITER_NODROP | PIPELINE_PORT_OUT_SINK

text \<open>The union of parameters is what the member of the port's type holds.\<close>

record pipeline_port_in_params =
  in_type :: pipeline_port_in_type
  in_params :: port_arg
  in_burst_size :: nat

record pipeline_port_out_params =
  out_type :: pipeline_port_out_type
  out_params :: port_arg

record pipeline_params =
  prm_name :: string
  prm_port_in :: "pipeline_port_in_params list"
  prm_port_out :: "pipeline_port_out_params list"
  prm_msgq_in :: "nat option list"
  prm_msgq_out :: "nat option list"
  prm_n_ports_in :: nat
  prm_n_ports_out :: nat
  prm_n_msgq :: nat
  prm_socket_id :: int
  prm_args :: "(string \<times> string) list"
  prm_log_level :: nat

text \<open>
  What the functions that allocate find: the arrays of the back end's own block (which is not cleared),
  the blocks of ports, of the pipeline, of the default entry and of the table, and for retrying writers the
  number of attempts of the model and what the reader does to a ring between them.
\<close>

record 'rt fw_alloc =
  a_block :: "(nat list \<times> nat list \<times> nat list \<times> nat option list \<times> nat option list) option"
  a_run :: "nat rte_run option"
  a_reader :: "'rt fw_world \<Rightarrow> rte_port_ring_reader option"
  a_writer :: "'rt fw_world \<Rightarrow> nat rte_port_ring_writer option"
  a_nodrop :: "'rt fw_world \<Rightarrow> nat rte_port_ring_writer_nodrop option"
  a_sink :: "'rt fw_world \<Rightarrow> (u64 \<times> u64) option"
  a_entry :: "rte_pipeline_table_entry option"
  a_table :: "'rt fw_world \<Rightarrow> (rte_acl_rule option list \<times> rte_pipeline_table_entry list \<times> u64 \<times> u64) option"
  a_ctx :: "'rt fw_world \<Rightarrow> (nat \<times> rte_acl_rule list) option"
  a_stats :: u64
  a_nodrop_fuel :: nat
  a_nodrop_env :: "nat \<Rightarrow> nat rte_ring \<Rightarrow> nat rte_ring"

section \<open>Selection of port operations\<close>

text \<open>All members of the union start at the same address.\<close>

definition pipeline_port_in_params_convert :: "pipeline_port_in_params \<Rightarrow> port_arg" where
  "pipeline_port_in_params_convert pp = in_params pp"

definition pipeline_port_in_params_get_ops ::
  "'rt fw_alloc \<Rightarrow> pipeline_port_in_params \<Rightarrow> ('rt fw_world, port_arg, nat, nat) rte_port_in_ops option" where
  "pipeline_port_in_params_get_ops al pp = (case in_type pp of
     PIPELINE_PORT_IN_RING_READER \<Rightarrow> Some (rte_port_ring_reader_ops (a_reader al))
   | PIPELINE_PORT_IN_RING_MULTI_READER \<Rightarrow> Some (rte_port_ring_multi_reader_ops (a_reader al))
   | _ \<Rightarrow> None)"

definition pipeline_port_out_params_convert :: "pipeline_port_out_params \<Rightarrow> port_arg" where
  "pipeline_port_out_params_convert pp = out_params pp"

definition pipeline_port_out_params_get_ops ::
  "(nat \<Rightarrow> (rte_acl_field_def list, 'rt) enclave \<Rightarrow> (rte_acl_field_def list, 'rt) enclave res) \<Rightarrow> 'rt fw_alloc \<Rightarrow>
   pipeline_port_out_params \<Rightarrow> ('rt fw_world, port_arg, nat, nat) rte_port_out_ops option" where
  "pipeline_port_out_params_get_ops free al pp = (case out_type pp of
     PIPELINE_PORT_OUT_RING_WRITER \<Rightarrow> Some (rte_port_ring_writer_ops free (a_writer al))
   | PIPELINE_PORT_OUT_RING_MULTI_WRITER \<Rightarrow> Some (rte_port_ring_multi_writer_ops free (a_writer al))
   | PIPELINE_PORT_OUT_RING_WRITER_NODROP \<Rightarrow>
       Some (rte_port_ring_writer_nodrop_ops (a_nodrop_fuel al) (a_nodrop_env al) free (a_nodrop al))
   | PIPELINE_PORT_OUT_RING_MULTI_WRITER_NODROP \<Rightarrow>
       Some (rte_port_ring_multi_writer_nodrop_ops (a_nodrop_fuel al) (a_nodrop_env al) free (a_nodrop al))
   | PIPELINE_PORT_OUT_SINK \<Rightarrow> Some (rte_port_sink_ops free (a_sink al))
   | _ \<Rightarrow> None)"

section \<open>Arguments\<close>

record fw_args =
  fa_n_rules :: nat
  fa_n_rule_fields :: nat
  fa_field_format :: "rte_acl_field_def list"

definition fw_args0 :: fw_args where
  "fw_args0 = \<lparr>fa_n_rules = 4 * 1024, fa_n_rule_fields = length field_format_ipv4, fa_field_format = field_format_ipv4\<rparr>"

text \<open>One iteration of the loop; the two flags tell which arguments were present. None is the return of -1.\<close>

definition parse_arg :: "string \<times> string \<Rightarrow> bool \<times> bool \<times> fw_args \<Rightarrow> (bool \<times> bool \<times> fw_args) option" where
  "parse_arg arg = (\<lambda>(n_rules_present, pkt_type_present, a).
     (if fst arg = ''n_rules'' then
        (if n_rules_present then None
         else case parser_read_uint32 (snd arg) of Inl _ \<Rightarrow> None
              | Inr v \<Rightarrow> Some (True, pkt_type_present, a\<lparr>fa_n_rules := unat v\<rparr>))
      else if fst arg = ''pkt_type'' then
        (if pkt_type_present then None
         else if snd arg = ''ipv4'' then Some (n_rules_present, True,
           a\<lparr>fa_n_rule_fields := length field_format_ipv4, fa_field_format := field_format_ipv4\<rparr>)
         else if snd arg = ''vlan_ipv4'' then Some (n_rules_present, True,
           a\<lparr>fa_n_rule_fields := length field_format_vlan_ipv4, fa_field_format := field_format_vlan_ipv4\<rparr>)
         else if snd arg = ''qinq_ipv4'' then Some (n_rules_present, True,
           a\<lparr>fa_n_rule_fields := length field_format_qinq_ipv4, fa_field_format := field_format_qinq_ipv4\<rparr>)
         else None)
      else None))"

primrec parse_args_loop :: "(string \<times> string) list \<Rightarrow> bool \<times> bool \<times> fw_args \<Rightarrow> fw_args option" where
  "parse_args_loop [] s = Some (snd (snd s))"
| "parse_args_loop (arg # args) s = (case parse_arg arg s of None \<Rightarrow> None | Some s \<Rightarrow> parse_args_loop args s)"

definition pipeline_firewall_parse_args :: "pipeline_params \<Rightarrow> fw_args option" where
  "pipeline_firewall_parse_args params = parse_args_loop (prm_args params) (False, False, fw_args0)"

section \<open>Initialisation\<close>

text \<open>
  The compiled-in features: the work before the checks (\<open>init_copy_mempool\<close>, \<open>cm_init\<close>), the action of
  input port 0 and the action of the output ports 0 and 1.
\<close>

record 'rt fw_build =
  bd_pre :: "'rt fw_world \<Rightarrow> 'rt fw_world res"
  bd_in_action :: "(nat \<Rightarrow> nat rte_run \<Rightarrow> 'rt fw_world \<Rightarrow> (nat rte_run \<times> 'rt fw_world) res) option"
  bd_out_action :: "(u64 \<Rightarrow> nat rte_run \<Rightarrow> 'rt fw_world \<Rightarrow> (nat rte_run \<times> 'rt fw_world) res) option"

text \<open>The default build copies headers; with \<open>ENABLE_INPUT_SKETCH\<close> it also keeps the sketch.\<close>

definition header_copy_build :: "bool \<Rightarrow> bool \<Rightarrow> (nat \<Rightarrow> u32) \<Rightarrow> (nat \<Rightarrow> u32) \<Rightarrow> 'rt fw_build" where
  "header_copy_build asserts sketch ra rb = \<lparr>
     bd_pre = (\<lambda>g. Inr (if sketch then g\<lparr>rest := (rest g)\<lparr>input_cm := cm_init ra rb\<rparr>\<rparr> else g)),
     bd_in_action = Some (header_copy_action asserts sketch), bd_out_action = None\<rparr>"

type_synonym 'rt fw_stage = "(bool \<times> 'rt pipeline_firewall \<times> 'rt fw_world) res"

text \<open>The loops over the ports; False is a status that is not 0, at which the loop ends.\<close>

primrec create_ports_in ::
  "'rt fw_build \<Rightarrow> 'rt fw_alloc \<Rightarrow> pipeline_params \<Rightarrow> nat list \<Rightarrow> 'rt pipeline_firewall \<Rightarrow> 'rt fw_world \<Rightarrow> 'rt fw_stage" where
  "create_ports_in bd al params [] p g = Inr (True, p, g)"
| "create_ports_in bd al params (i # is) p g =
     rbind (arr_at (prm_port_in params) i) (\<lambda>pp.
     rbind (rte_pipeline_port_in_create (Some (be_p p)) (Some \<lparr>pip_ops = pipeline_port_in_params_get_ops al pp,
         pip_arg_create = pipeline_port_in_params_convert pp, pip_action = (if i = 0 then bd_in_action bd else None),
         pip_burst_size = in_burst_size pp\<rparr>) True (a_stats al) g) (\<lambda>(status, pid, q, g).
     let p = p\<lparr>be_p := the q\<rparr> in
     if status \<noteq> 0 then Inr (False, p, g)
     else create_ports_in bd al params is (p\<lparr>be_port_in_id := (be_port_in_id p)[i := the pid]\<rparr>) g))"

primrec create_ports_out ::
  "(nat \<Rightarrow> (rte_acl_field_def list, 'rt) enclave \<Rightarrow> (rte_acl_field_def list, 'rt) enclave res) \<Rightarrow> 'rt fw_build \<Rightarrow>
   'rt fw_alloc \<Rightarrow> pipeline_params \<Rightarrow> nat list \<Rightarrow> 'rt pipeline_firewall \<Rightarrow> 'rt fw_world \<Rightarrow> 'rt fw_stage" where
  "create_ports_out free bd al params [] p g = Inr (True, p, g)"
| "create_ports_out free bd al params (i # is) p g =
     rbind (arr_at (prm_port_out params) i) (\<lambda>pp.
     rbind (rte_pipeline_port_out_create (Some (be_p p)) (Some \<lparr>pop_ops = pipeline_port_out_params_get_ops free al pp,
         pop_arg_create = pipeline_port_out_params_convert pp,
         pop_action = (if i = 0 \<or> i = 1 then bd_out_action bd else None)\<rparr>) True (a_stats al) g) (\<lambda>(status, pid, q, g).
     let p = p\<lparr>be_p := the q\<rparr> in
     if status \<noteq> 0 then Inr (False, p, g)
     else create_ports_out free bd al params is (p\<lparr>be_port_out_id := (be_port_out_id p)[i := the pid]\<rparr>) g))"

definition create_table ::
  "(rte_acl_field_def list, 'rt, nat \<Rightarrow> u8) acl_lib \<Rightarrow> 'rt fw_alloc \<Rightarrow> pipeline_params \<Rightarrow> 'rt pipeline_firewall \<Rightarrow>
   'rt fw_world \<Rightarrow> 'rt fw_stage" where
  "create_table lib al params p g =
     rbind (rte_pipeline_table_create (Some (be_p p)) (Some \<lparr>ptp_ops = Some (rte_table_acl_ops lib (a_table al) (a_ctx al)),
         ptp_arg_create = Some \<lparr>tap_name = Some (prm_name params), tap_n_rules = fw_n_rules p,
           tap_n_rule_fields = fw_n_rule_fields p, tap_field_format = fw_field_format p\<rparr>,
         ptp_action_hit = None, ptp_action_miss = None, ptp_action_data_size = 0\<rparr>) True (a_entry al) (a_stats al) g)
       (\<lambda>(status, tid, q, g).
     let p = p\<lparr>be_p := the q\<rparr> in
     if status \<noteq> 0 then Inr (False, p, g) else Inr (True, p\<lparr>be_table_id := (be_table_id p)[0 := the tid]\<rparr>, g))"

primrec connect_ports :: "nat list \<Rightarrow> 'rt pipeline_firewall \<Rightarrow> 'rt fw_world \<Rightarrow> 'rt fw_stage" where
  "connect_ports [] p g = Inr (True, p, g)"
| "connect_ports (i # is) p g =
     rbind (arr_at (be_port_in_id p) i) (\<lambda>port_id. rbind (arr_at (be_table_id p) 0) (\<lambda>table_id.
     case rte_pipeline_port_in_connect_to_table (Some (be_p p)) port_id table_id of (status, q) \<Rightarrow>
       if status \<noteq> 0 then Inr (False, p\<lparr>be_p := the q\<rparr>, g) else connect_ports is (p\<lparr>be_p := the q\<rparr>) g))"

primrec enable_ports :: "nat list \<Rightarrow> 'rt pipeline_firewall \<Rightarrow> 'rt fw_world \<Rightarrow> 'rt fw_stage" where
  "enable_ports [] p g = Inr (True, p, g)"
| "enable_ports (i # is) p g =
     rbind (arr_at (be_port_in_id p) i) (\<lambda>port_id.
     case rte_pipeline_port_in_enable (Some (be_p p)) port_id of (status, q) \<Rightarrow>
       if status \<noteq> 0 then Inr (False, p\<lparr>be_p := the q\<rparr>, g) else enable_ports is (p\<lparr>be_p := the q\<rparr>) g)"

text \<open>After each stage: continue, or free the pipeline and return NULL.\<close>

definition stage ::
  "'rt fw_stage \<Rightarrow> ('rt pipeline_firewall \<Rightarrow> 'rt fw_world \<Rightarrow> ('rt pipeline_firewall option \<times> 'rt fw_world) res) \<Rightarrow>
   ('rt pipeline_firewall option \<times> 'rt fw_world) res" where
  "stage s k = rbind s (\<lambda>(ok, p, g). if ok then k p g
     else rbind (rte_pipeline_free (Some (be_p p)) g) (\<lambda>(_, g). Inr (None, g)))"

definition copy_msgqs :: "pipeline_params \<Rightarrow> 'rt pipeline_firewall \<Rightarrow> 'rt pipeline_firewall res" where
  "copy_msgqs params p =
     (if prm_n_msgq params > PIPELINE_MAX_MSGQ then Inl OutOfBounds
      else Inr (p\<lparr>be_n_msgq := prm_n_msgq params,
        be_msgq_in := take (prm_n_msgq params) (prm_msgq_in params) @ drop (prm_n_msgq params) (be_msgq_in p),
        be_msgq_out := take (prm_n_msgq params) (prm_msgq_out params) @ drop (prm_n_msgq params) (be_msgq_out p)\<rparr>))"

definition ecall_pipeline_firewall_init ::
  "(nat \<Rightarrow> (rte_acl_field_def list, 'rt) enclave \<Rightarrow> (rte_acl_field_def list, 'rt) enclave res) \<Rightarrow>
   (rte_acl_field_def list, 'rt, nat \<Rightarrow> u8) acl_lib \<Rightarrow> 'rt fw_build \<Rightarrow> 'rt fw_alloc \<Rightarrow> pipeline_params option \<Rightarrow>
   'rt fw_world \<Rightarrow> ('rt pipeline_firewall option \<times> 'rt fw_world) res" where
  "ecall_pipeline_firewall_init free lib bd al params g =
     rbind (bd_pre bd g) (\<lambda>g.
     case params of None \<Rightarrow> Inr (None, g)
     | Some params \<Rightarrow>
         if prm_n_ports_in params = 0 \<or> prm_n_ports_out params = 0 then Inr (None, g)
         else case a_block al of None \<Rightarrow> Inr (None, g)
         | Some (in_id, out_id, tab_id, q_in, q_out) \<Rightarrow>
             if length (prm_name params) + 1 > PIPELINE_NAME_SIZE then Inl OutOfBounds
             else case pipeline_firewall_parse_args params of None \<Rightarrow> Inr (None, g)
             | Some a \<Rightarrow> (case rte_pipeline_create (Some \<lparr>pp_name = Some (prm_name params),
                   pp_socket_id = prm_socket_id params, pp_offset_port_id = 0\<rparr>) (a_run al) of None \<Rightarrow> Inr (None, g)
               | Some q \<Rightarrow>
                   let p = \<lparr>be_p = q, be_port_in_id = in_id, be_port_out_id = out_id, be_table_id = tab_id,
                     be_msgq_in = q_in, be_msgq_out = q_out, be_n_ports_in = prm_n_ports_in params,
                     be_n_ports_out = prm_n_ports_out params, be_n_tables = 1, be_n_msgq = 0,
                     be_name = prm_name params, be_log_level = prm_log_level params,
                     fw_n_rules = fa_n_rules a, fw_n_rule_fields = fa_n_rule_fields a, fw_field_format = fa_field_format a\<rparr>;
                     ins = [0 ..< prm_n_ports_in params]; outs = [0 ..< prm_n_ports_out params]
                   in stage (create_ports_in bd al params ins p g) (\<lambda>p g.
                      stage (create_ports_out free bd al params outs p g) (\<lambda>p g.
                      stage (create_table lib al params p g) (\<lambda>p g.
                      stage (connect_ports ins p g) (\<lambda>p g.
                      stage (enable_ports ins p g) (\<lambda>p g.
                      if rte_pipeline_check (Some (be_p p)) < 0
                      then rbind (rte_pipeline_free (Some (be_p p)) g) (\<lambda>(_, g). Inr (None, g))
                      else rbind (copy_msgqs params p) (\<lambda>p. Inr (Some p, g)))))))))"

section \<open>Main loop\<close>

text \<open>
  \<open>ecall_firewall_thread\<close>: the list holds, for each iteration that finds \<open>running\<close> set, what the other
  threads did to the message rings and to the machine before it. The timer runs in every 16th iteration.
\<close>

definition thread_iter :: "('s \<Rightarrow> 's res) \<Rightarrow> ('s \<Rightarrow> 's res) \<Rightarrow> u32 \<Rightarrow> 's \<Rightarrow> 's res" where
  "thread_iter run timer i s = rbind (run s) (\<lambda>s. if i AND 0xF = 0 then timer s else Inr s)"

fun thread_loop :: "('s \<Rightarrow> 's res) \<Rightarrow> ('s \<Rightarrow> 's res) \<Rightarrow> u32 \<Rightarrow> ('s \<Rightarrow> 's) list \<Rightarrow> 's \<Rightarrow> 's res" where
  "thread_loop run timer i [] s = Inr s"
| "thread_loop run timer i (ev # evs) s =
     rbind (thread_iter run timer i (ev s)) (thread_loop run timer (i + 1) evs)"

definition run_pipeline ::
  "nat \<Rightarrow> ('rt fw_world, nat) mbuf_ops \<Rightarrow> 'rt pipeline_firewall \<times> fw_msgs \<times> 'rt fw_world \<Rightarrow>
   ('rt pipeline_firewall \<times> fw_msgs \<times> 'rt fw_world) res" where
  "run_pipeline n mo s = (case s of (p, ms, g) \<Rightarrow>
     rbind (rte_pipeline_run n mo (be_p p) g) (\<lambda>(_, q, g). Inr (p\<lparr>be_p := q\<rparr>, ms, g)))"

definition ecall_firewall_thread ::
  "nat \<Rightarrow> ('rt fw_world, nat) mbuf_ops \<Rightarrow> nat \<Rightarrow> nat \<Rightarrow> (nat \<Rightarrow> fw_rsp rte_ring \<Rightarrow> fw_rsp rte_ring) \<Rightarrow> bulk_alloc \<Rightarrow>
   ('rt pipeline_firewall \<times> fw_msgs \<times> 'rt fw_world \<Rightarrow> 'rt pipeline_firewall \<times> fw_msgs \<times> 'rt fw_world) list \<Rightarrow>
   'rt pipeline_firewall \<times> fw_msgs \<times> 'rt fw_world \<Rightarrow> ('rt pipeline_firewall \<times> fw_msgs \<times> 'rt fw_world) res" where
  "ecall_firewall_thread n mo fuel sf env ba evs s =
     thread_loop (run_pipeline n mo) (pipeline_firewall_timer fuel sf env ba) 0 evs s"

end
