(* ===== verification/Table_Acl_Bulk.thy ===== *)
theory Table_Acl_Bulk
  imports Table_Acl_Correct
begin

text \<open>
  The bulk operations of the ACL table (src/Enclave/dpdk/librte_table/rte_table_acl.c). They work on the
  table in one pass over the keys, build the context once, and commit or roll back. The specification of
  an addition is a function on maps: a key that was there takes the last entry given for it, a new key the
  first one, since the entries of new rules are stored after the pass.
\<close>

section \<open>Adding\<close>

type_synonym 'k entry_map = "'k \<Rightarrow> (int \<times> rte_pipeline_table_entry) option"

fun bulk_map :: "'k entry_map \<Rightarrow> 'k set \<Rightarrow> ('k \<times> int \<times> rte_pipeline_table_entry) list \<Rightarrow> 'k entry_map" where
  "bulk_map m new [] = m"
| "bulk_map m new ((k, pri, e) # xs) =
     (case m k of None \<Rightarrow> bulk_map (m(k \<mapsto> (pri, e))) (insert k new) xs
      | Some (q, _) \<Rightarrow> if k \<in> new then bulk_map m new xs else bulk_map (m(k \<mapsto> (q, e))) new xs)"

text \<open>What the pass may have done to the table: rules were put at positions that were free and are noted in
  \<open>rule_pos\<close>, and entries of rules that were there were overwritten by entries of the request.\<close>

definition new_rules :: "'r option list \<Rightarrow> 'r option list \<Rightarrow> nat list \<Rightarrow> bool" where
  "new_rules L0 L rp \<longleftrightarrow> length L = length L0 \<and>
     (\<forall>p < length L. L ! p \<noteq> L0 ! p \<longrightarrow> p \<in> set rp \<and> p \<noteq> 0) \<and>
     (\<forall>p \<in> set rp. p \<noteq> 0 \<longrightarrow> p < length L \<and> L0 ! p = None \<and> L ! p \<noteq> None)"

definition overwritten :: "'r option list \<Rightarrow> 'e list \<Rightarrow> 'e set \<Rightarrow> 'e list \<Rightarrow> bool" where
  "overwritten L0 A0 es A \<longleftrightarrow> length A = length A0 \<and>
     (\<forall>p < length A. L0 ! p \<noteq> None \<longrightarrow> A ! p = A0 ! p \<or> A ! p \<in> es)"

definition extended ::
  "'cfg rte_table_acl \<Rightarrow> rte_pipeline_table_entry set \<Rightarrow> 'cfg rte_table_acl \<Rightarrow> nat list \<Rightarrow> bool" where
  "extended acl0 es acl rp \<longleftrightarrow>
     (\<exists>L A. acl = acl0\<lparr>acl_rule_list := L, acl_action_table := A\<rparr> \<and> new_rules (acl_rule_list acl0) L rp \<and>
        overwritten (acl_rule_list acl0) (acl_action_table acl0) es A)"

lemma overwritten_refl: "overwritten L0 A0 es A0"
  by (simp add: overwritten_def)

lemma overwritten_update: "overwritten L0 A0 es A \<Longrightarrow> e \<in> es \<Longrightarrow> overwritten L0 A0 es (A[j := e])"
proof -
  assume a: "overwritten L0 A0 es A" "e \<in> es"
  have "A[j := e] ! p = A0 ! p \<or> A[j := e] ! p \<in> es" if "p < length A" "L0 ! p \<noteq> None" for p
    using a that unfolding overwritten_def by (cases "p = j") simp_all
  then show ?thesis using a(1) by (simp add: overwritten_def)
qed

lemma new_rules_update:
  assumes "new_rules L0 L rp" and i: "i < length rp" "rp ! i = 0" and p: "p \<noteq> 0" "p < length L" "L ! p = None"
  shows "new_rules L0 (L[p := Some r]) (rp[i := p])"
proof -
  have len: "length L = length L0" and ch: "\<And>q. q < length L \<Longrightarrow> L ! q \<noteq> L0 ! q \<Longrightarrow> q \<in> set rp \<and> q \<noteq> 0"
    and new: "\<And>q. q \<in> set rp \<Longrightarrow> q \<noteq> 0 \<Longrightarrow> q < length L \<and> L0 ! q = None \<and> L ! q \<noteq> None"
    using assms(1) unfolding new_rules_def by blast+
  have none: "L0 ! p = None"
    using ch [OF p(2)] new [of p] p(3) by metis
  have keep: "q \<in> set (rp[i := p])" if q: "q \<in> set rp" "q \<noteq> 0" for q
  proof -
    obtain k where k: "k < length rp" "rp ! k = q" using q(1) by (auto simp: in_set_conv_nth)
    then have "k \<noteq> i" using q(2) i(2) by auto
    then have "rp[i := p] ! k = q" using k by simp
    then show ?thesis using k by (metis length_list_update nth_mem)
  qed
  have pin: "p \<in> set (rp[i := p])" using i(1) by (rule set_update_memI)
  have sub: "q = p \<or> q \<in> set rp" if "q \<in> set (rp[i := p])" for q
    using that set_update_subset_insert [of rp i p] by auto
  have ch': "q \<in> set (rp[i := p]) \<and> q \<noteq> 0" if q: "q < length L" "L[p := Some r] ! q \<noteq> L0 ! q" for q
  proof (cases "q = p")
    case False
    then have "L ! q \<noteq> L0 ! q" using q(2) by simp
    then show ?thesis using ch [OF q(1)] keep by blast
  qed (use pin p in simp)
  have new': "q < length L \<and> L0 ! q = None \<and> L[p := Some r] ! q \<noteq> None" if q: "q \<in> set (rp[i := p])" "q \<noteq> 0" for q
  proof (cases "q = p")
    case False
    then show ?thesis using sub [OF q(1)] new [OF _ q(2)] by simp
  qed (use none p in simp)
  show ?thesis unfolding new_rules_def length_list_update using len ch' new' by blast
qed

lemma extended_refl: "set rp \<subseteq> {0} \<Longrightarrow> extended acl es acl rp"
  unfolding extended_def
  by (rule exI [of _ "acl_rule_list acl"], rule exI [of _ "acl_action_table acl"])
    (auto simp: new_rules_def overwritten_refl)

lemma extended_fields:
  assumes "extended acl0 es acl rp"
  shows "acl_n_rules acl = acl_n_rules acl0" "length (acl_rule_list acl) = length (acl_rule_list acl0)"
    "length (acl_action_table acl) = length (acl_action_table acl0)" "acl_num_fields acl = acl_num_fields acl0"
    "acl_rule_size acl = acl_rule_size acl0" "acl_name_id acl = acl_name_id acl0" "acl_name0 acl = acl_name0 acl0"
    "acl_name1 acl = acl_name1 acl0" "acl_cfg acl = acl_cfg acl0" "acl_ctx acl = acl_ctx acl0"
  using assms by (auto simp: extended_def new_rules_def overwritten_def)

lemma extended_pos:
  assumes "extended acl0 es acl rp" and "p \<in> set rp" and "p \<noteq> 0"
  shows "p < length (acl_rule_list acl)"
proof -
  obtain L A where x: "acl = acl0\<lparr>acl_rule_list := L, acl_action_table := A\<rparr>" "new_rules (acl_rule_list acl0) L rp"
    using assms(1) unfolding extended_def by blast
  have "p < length L" using x(2) assms(2,3) unfolding new_rules_def by blast
  then show ?thesis by (simp add: x(1))
qed

lemma extended_set_entry:
  assumes "extended acl0 es acl rp" and "e \<in> es"
  shows "extended acl0 es (set_entry j e acl) rp"
proof -
  obtain L A where x: "acl = acl0\<lparr>acl_rule_list := L, acl_action_table := A\<rparr>" "new_rules (acl_rule_list acl0) L rp"
      "overwritten (acl_rule_list acl0) (acl_action_table acl0) es A"
    using assms(1) unfolding extended_def by blast
  have "set_entry j e acl = acl0\<lparr>acl_rule_list := L, acl_action_table := A[j := e]\<rparr>" by (simp add: x(1) set_entry_def)
  then show ?thesis unfolding extended_def using x(2) overwritten_update [OF x(3) assms(2)] by blast
qed

lemma extended_set_rule:
  assumes "extended acl0 es acl rp" and i: "i < length rp" "rp ! i = 0" and p: "p \<noteq> 0" "p < length (acl_rule_list acl0)"
    and free: "acl_rule_list acl ! p = None"
  shows "extended acl0 es (set_rule p (Some r) acl) (rp[i := p])"
proof -
  obtain L A where x: "acl = acl0\<lparr>acl_rule_list := L, acl_action_table := A\<rparr>" "new_rules (acl_rule_list acl0) L rp"
      "overwritten (acl_rule_list acl0) (acl_action_table acl0) es A"
    using assms(1) unfolding extended_def by blast
  have "p < length L" "L ! p = None" using x(1,2) p(2) free by (simp_all add: new_rules_def)
  then have "new_rules (acl_rule_list acl0) (L[p := Some r]) (rp[i := p])"
    by (rule new_rules_update [OF x(2) i p(1)])
  moreover have "set_rule p (Some r) acl = acl0\<lparr>acl_rule_list := L[p := Some r], acl_action_table := A\<rparr>"
    by (simp add: x(1) set_rule_def)
  ultimately show ?thesis unfolding extended_def using x(3) by blast
qed

lemma add_bulk_loop_extended:
  assumes "add_bulk_loop l i (acl, kf, ptrs, rp) = (err, acl', kf', ptrs', rp')"
    and "extended acl0 es acl rp" and len0: "length (acl_rule_list acl0) = acl_n_rules acl0" "0 < acl_n_rules acl0"
    and "i + length l = length rp" and "\<forall>k \<ge> i. k < length rp \<longrightarrow> rp ! k = 0" and "snd ` set l \<subseteq> es"
  shows "extended acl0 es acl' rp' \<and> length rp' = length rp"
  using assms(1,2,5-)
proof (induction l arbitrary: i acl kf ptrs rp)
  case (Cons x l)
  obtain rule e where x: "x = (rule, e)" by (cases x)
  note f = extended_fields [OF Cons.prems(2)]
  have e: "e \<in> es" "snd ` set l \<subseteq> es" using Cons.prems(5) x by auto
  have i: "i < length rp" "rp ! i = 0" "Suc i + length l = length rp" using Cons.prems(3,4) by simp_all
  have z: "\<forall>k \<ge> Suc i. k < length (rp[i := p]) \<longrightarrow> rp[i := p] ! k = 0" for p using Cons.prems(4) by simp
  have "length (acl_rule_list acl) = acl_n_rules acl" "0 < acl_n_rules acl" using f len0 by simp_all
  from table_search_len [OF this, of "rule_key acl (rap_field_value rule)"]
  show ?case
  proof (elim disjE exE conjE)
    fix j r assume s: "table_search acl (rule_key acl (rap_field_value rule)) = Inl j"
    have "extended acl0 es (set_entry j e acl) rp" by (rule extended_set_entry [OF Cons.prems(2) e(1)])
    then show ?thesis
      using Cons.IH [of "Suc i" "set_entry j e acl" "kf[i := True]" "ptrs[i := Some j]" rp]
        Cons.prems(1,4) x s i(3) e(2) by simp
  next
    fix p assume s: "table_search acl (rule_key acl (rap_field_value rule)) = Inr (Some p)"
      and p: "1 \<le> p" "p < acl_n_rules acl" "acl_rule_list acl ! p = None"
    have "extended acl0 es (set_rule p (Some (new_rule acl rule p)) acl) (rp[i := p])"
      by (rule extended_set_rule [OF Cons.prems(2) i(1,2) _ _ p(3)]) (use p f len0 in simp_all)
    then show ?thesis
      using Cons.IH [of "Suc i" "set_rule p (Some (new_rule acl rule p)) acl" kf ptrs "rp[i := p]"]
        Cons.prems(1) z [of p] x s i(3) e(2) by simp
  next
    assume s: "table_search acl (rule_key acl (rap_field_value rule)) = Inr None"
    then show ?thesis using Cons.prems(1,2) x by simp
  qed
qed simp

lemma clear_rules_list:
  "clear_rules rp acl = acl\<lparr>acl_rule_list := acl_rule_list (clear_rules rp acl)\<rparr> \<and>
   length (acl_rule_list (clear_rules rp acl)) = length (acl_rule_list acl) \<and>
   (\<forall>p < length (acl_rule_list acl). acl_rule_list (clear_rules rp acl) ! p =
      (if p \<in> set rp \<and> p \<noteq> 0 then None else acl_rule_list acl ! p))"
proof (induction rp arbitrary: acl)
  case (Cons j rp)
  let ?b = "if j = 0 then acl else set_rule j None acl"
  have c: "clear_rules (j # rp) acl = clear_rules rp ?b" by (simp add: clear_rules_def)
  show ?case unfolding c using Cons.IH [of ?b] by (cases "j = 0") (auto simp: set_rule_def nth_list_update)
qed (simp add: clear_rules_def)

text \<open>Rolling back takes the rules away again; the overwritten entries stay.\<close>

lemma clear_extended:
  assumes "extended acl0 es acl rp"
  shows "\<exists>A. clear_rules rp acl = acl0\<lparr>acl_action_table := A\<rparr> \<and>
    overwritten (acl_rule_list acl0) (acl_action_table acl0) es A"
proof -
  obtain L A where x: "acl = acl0\<lparr>acl_rule_list := L, acl_action_table := A\<rparr>" "new_rules (acl_rule_list acl0) L rp"
      "overwritten (acl_rule_list acl0) (acl_action_table acl0) es A"
    using assms unfolding extended_def by blast
  note c = clear_rules_list [of rp acl]
  have "acl_rule_list (clear_rules rp acl) = acl_rule_list acl0"
  proof (rule nth_equalityI)
    fix p assume "p < length (acl_rule_list (clear_rules rp acl))"
    then have p: "p < length L" using c x(1) by simp
    then have "acl_rule_list (clear_rules rp acl) ! p = (if p \<in> set rp \<and> p \<noteq> 0 then None else L ! p)"
      using c x(1) by simp
    also have "\<dots> = acl_rule_list acl0 ! p" using x(2) p unfolding new_rules_def by metis
    finally show "acl_rule_list (clear_rules rp acl) ! p = acl_rule_list acl0 ! p" .
  qed (use c x(1,2) in \<open>simp add: new_rules_def\<close>)
  then have "clear_rules rp acl = acl0\<lparr>acl_action_table := A\<rparr>" using c x(1) by simp
  then show ?thesis using x(3) by blast
qed

text \<open>The rules that the pass puts into the table stay there.\<close>

lemma add_bulk_loop_keeps:
  assumes "add_bulk_loop l i (acl, kf, ptrs, rp) = (err, acl', kf', ptrs', rp')"
    and "length (acl_rule_list acl) = acl_n_rules acl" "0 < acl_n_rules acl" and "acl_rule_list acl ! q = Some r"
  shows "acl_rule_list acl' ! q = Some r"
  using assms
proof (induction l arbitrary: i acl kf ptrs rp)
  case (Cons x l)
  obtain rule e where x: "x = (rule, e)" by (cases x)
  from table_search_len [OF Cons.prems(2,3), of "rule_key acl (rap_field_value rule)"]
  show ?case
  proof (elim disjE exE conjE)
    fix j r' assume "table_search acl (rule_key acl (rap_field_value rule)) = Inl j"
    then show ?thesis using Cons.IH [of "Suc i" "set_entry j e acl"] Cons.prems x by simp
  next
    fix p assume s: "table_search acl (rule_key acl (rap_field_value rule)) = Inr (Some p)" "acl_rule_list acl ! p = None"
    then have "p \<noteq> q" using Cons.prems(4) by auto
    then show ?thesis
      using Cons.IH [of "Suc i" "set_rule p (Some (new_rule acl rule p)) acl"] Cons.prems x s by simp
  next
    assume "table_search acl (rule_key acl (rap_field_value rule)) = Inr None"
    then show ?thesis using Cons.prems x by simp
  qed
qed simp

text \<open>The table as it will be once the entries of the new rules are stored: it differs from the table of the
  pass in the action table, at the positions of the new rules.\<close>

definition ahead ::
  "rte_pipeline_table_entry list \<Rightarrow> rte_acl_field list set \<Rightarrow> 'cfg rte_table_acl \<Rightarrow> nat list \<Rightarrow> 'cfg rte_table_acl \<Rightarrow> bool" where
  "ahead es new acl rp V \<longleftrightarrow> V = acl\<lparr>acl_action_table := acl_action_table V\<rparr> \<and> acl_ok V \<and>
     length (acl_action_table acl) = acl_n_rules acl \<and>
     (\<forall>p r. rule_in V p r \<longrightarrow> (p \<in> set rp \<longleftrightarrow> ar_field r \<in> new) \<and>
        (p \<notin> set rp \<longrightarrow> acl_action_table V ! p = acl_action_table acl ! p)) \<and>
     (\<forall>k < length rp. rp ! k \<noteq> 0 \<longrightarrow> acl_action_table V ! (rp ! k) = es ! k \<and> acl_rule_list V ! (rp ! k) \<noteq> None)"

lemma aheadI:
  assumes "V = acl\<lparr>acl_action_table := acl_action_table V\<rparr>" and "acl_ok V"
    and "length (acl_action_table acl) = acl_n_rules acl"
    and "\<And>p r. rule_in V p r \<Longrightarrow> (p \<in> set rp \<longleftrightarrow> ar_field r \<in> new) \<and>
        (p \<notin> set rp \<longrightarrow> acl_action_table V ! p = acl_action_table acl ! p)"
    and "\<And>k. k < length rp \<Longrightarrow> rp ! k \<noteq> 0 \<Longrightarrow>
        acl_action_table V ! (rp ! k) = es ! k \<and> acl_rule_list V ! (rp ! k) \<noteq> None"
  shows "ahead es new acl rp V"
  unfolding ahead_def using assms by blast

lemma ahead_at:
  assumes "ahead es new acl rp V"
  shows "rule_in V p r \<Longrightarrow> p \<in> set rp \<longleftrightarrow> ar_field r \<in> new"
    and "rule_in V p r \<Longrightarrow> p \<notin> set rp \<Longrightarrow> acl_action_table V ! p = acl_action_table acl ! p"
    and "k < length rp \<Longrightarrow> rp ! k \<noteq> 0 \<Longrightarrow> acl_action_table V ! (rp ! k) = es ! k \<and> acl_rule_list V ! (rp ! k) \<noteq> None"
    and "V = acl\<lparr>acl_action_table := acl_action_table V\<rparr>"
  using assms unfolding ahead_def by blast+

lemma aheadD:
  assumes "ahead es new acl rp V"
  shows "acl_ok V" "acl_n_rules V = acl_n_rules acl" "acl_rule_list V = acl_rule_list acl" "acl_num_fields V = acl_num_fields acl"
    "acl_rule_size V = acl_rule_size acl" "acl_name0 V = acl_name0 acl" "acl_name1 V = acl_name1 acl"
    "table_search acl key = table_search V key" "rule_key acl fv = rule_key V fv" "new_rule acl rule q = new_rule V rule q"
    "length (acl_action_table V) = acl_n_rules acl" "length (acl_rule_list acl) = acl_n_rules acl" "0 < acl_n_rules acl"
    "length (acl_action_table acl) = acl_n_rules acl"
proof -
  have v: "V = acl\<lparr>acl_action_table := acl_action_table V\<rparr>" "acl_ok V" using assms unfolding ahead_def by blast+
  show "length (acl_action_table acl) = acl_n_rules acl" using assms unfolding ahead_def by blast
  show f: "acl_n_rules V = acl_n_rules acl" "acl_rule_list V = acl_rule_list acl" "acl_num_fields V = acl_num_fields acl"
    "acl_rule_size V = acl_rule_size acl" "acl_name0 V = acl_name0 acl" "acl_name1 V = acl_name1 acl"
    by (subst v(1), simp)+
  show "acl_ok V" by (rule v)
  show "length (acl_action_table V) = acl_n_rules acl" "length (acl_rule_list acl) = acl_n_rules acl" "0 < acl_n_rules acl"
    using v(2) f by (simp_all add: acl_ok_def)
  show "table_search acl key = table_search V key" "rule_key acl fv = rule_key V fv" "new_rule acl rule q = new_rule V rule q"
    using f by (simp_all add: table_search_def rule_key_def new_rule_def)
qed

lemma ahead_found_new:
  assumes a: "ahead es new acl rp V" and r: "rule_in V j r" and new: "ar_field r \<in> new"
  shows "ahead es new (set_entry j e acl) rp V"
proof (rule aheadI)
  note f = aheadD [OF a]
  show "V = (set_entry j e acl)\<lparr>acl_action_table := acl_action_table V\<rparr>"
    by (subst ahead_at(4) [OF a]) (simp add: set_entry_def)
  show "acl_ok V" "length (acl_action_table (set_entry j e acl)) = acl_n_rules (set_entry j e acl)" using f by simp_all
  fix p s assume s: "rule_in V p s"
  have "p \<noteq> j" if "p \<notin> set rp" using that ahead_at(1) [OF a r] new by blast
  then show "(p \<in> set rp \<longleftrightarrow> ar_field s \<in> new) \<and>
      (p \<notin> set rp \<longrightarrow> acl_action_table V ! p = acl_action_table (set_entry j e acl) ! p)"
    using ahead_at(1,2) [OF a s] by auto
qed (use ahead_at(3) [OF a] in blast)

lemma ahead_found_old:
  assumes a: "ahead es new acl rp V" and r: "rule_in V j r" and old: "ar_field r \<notin> new"
  shows "ahead es new (set_entry j e acl) rp (set_entry j e V)"
    and "acl_map (set_entry j e V) = (acl_map V)(ar_field r \<mapsto> (ar_priority r, e))"
proof -
  note f = aheadD [OF a]
  show "acl_map (set_entry j e V) = (acl_map V)(ar_field r \<mapsto> (ar_priority r, e))"
    by (rule acl_map_overwrite(2) [OF f(1) r])
  have j: "j \<notin> set rp" using ahead_at(1) [OF a r] old by blast
  have jn: "j < acl_n_rules acl" using r f(2) by (simp add: rule_in_def)
  show "ahead es new (set_entry j e acl) rp (set_entry j e V)"
  proof (rule aheadI)
    show "set_entry j e V = (set_entry j e acl)\<lparr>acl_action_table := acl_action_table (set_entry j e V)\<rparr>"
      by (subst ahead_at(4) [OF a]) (simp add: set_entry_def)
    show "acl_ok (set_entry j e V)" by (rule acl_map_overwrite(1) [OF f(1) r])
    show "length (acl_action_table (set_entry j e acl)) = acl_n_rules (set_entry j e acl)" using f(14) by simp
  next
    fix p s assume "rule_in (set_entry j e V) p s"
    then have s: "rule_in V p s" using rule_in_cong [of "set_entry j e V" V] by simp
    then show "(p \<in> set rp \<longleftrightarrow> ar_field s \<in> new) \<and>
        (p \<notin> set rp \<longrightarrow> acl_action_table (set_entry j e V) ! p = acl_action_table (set_entry j e acl) ! p)"
      using ahead_at(1,2) [OF a s] jn f(11,14) by (cases "p = j") simp_all
  next
    fix k assume k: "k < length rp" "rp ! k \<noteq> 0"
    then have "rp ! k \<noteq> j" using j nth_mem by blast
    then show "acl_action_table (set_entry j e V) ! (rp ! k) = es ! k \<and> acl_rule_list (set_entry j e V) ! (rp ! k) \<noteq> None"
      using ahead_at(3) [OF a k] by simp
  qed
qed

lemma ahead_new:
  assumes a: "ahead es new acl rp V" and p: "1 \<le> p" "p < acl_n_rules V" "acl_rule_list V ! p = None"
    and key: "\<forall>i r. rule_in V i r \<longrightarrow> ar_field r \<noteq> rule_key V (rap_field_value rule)"
    and check: "acl_check_rule (new_rule V rule p) = 0" and i: "i < length rp" "rp ! i = 0" "es ! i = e"
    and W: "W = set_entry p e (set_rule p (Some (new_rule V rule p)) V)"
  shows "ahead es (insert (rule_key V (rap_field_value rule)) new) (set_rule p (Some (new_rule V rule p)) acl) (rp[i := p]) W"
    and "acl_map W = (acl_map V)(rule_key V (rap_field_value rule) \<mapsto> (RTE_ACL_MAX_PRIORITY - rap_priority rule, e))"
proof -
  let ?q = "new_rule V rule p" and ?key = "rule_key V (rap_field_value rule)"
  note f = aheadD [OF a]
  have q: "ar_userdata ?q = p" "\<forall>i r. rule_in V i r \<longrightarrow> ar_field r \<noteq> ar_field ?q" using key by simp_all
  have w: "acl_ok W" "acl_map W = (acl_map V)(ar_field ?q \<mapsto> (ar_priority ?q, e))"
    by (rule acl_map_insert [OF f(1) p q(2,1) check, of W e]; simp add: W)+
  then show "acl_map W = (acl_map V)(?key \<mapsto> (RTE_ACL_MAX_PRIORITY - rap_priority rule, e))" by simp
  have ri: "rule_in W k r \<longleftrightarrow> (if k = p then ?q = r else rule_in V k r)" for k r
    using rule_in_cong [of W "set_rule p (Some ?q) V"] rule_in_set_rule [OF f(1) p(1,2)] W by simp
  have np: "p \<notin> set rp"
  proof
    assume "p \<in> set rp"
    then obtain k where "k < length rp" "rp ! k = p" by (auto simp: in_set_conv_nth)
    then show False using ahead_at(3) [OF a, of k] p(1,3) by simp
  qed
  have mem: "k \<in> set (rp[i := p]) \<longleftrightarrow> k = p \<or> k \<in> set rp" if "k \<noteq> 0" for k
  proof -
    have "k \<in> set (rp[i := p])" if k: "k \<in> set rp"
    proof -
      obtain n where n: "n < length rp" "rp ! n = k" using k by (auto simp: in_set_conv_nth)
      then have "rp[i := p] ! n = k" using i(2) \<open>k \<noteq> 0\<close> by (cases "n = i") auto
      then show ?thesis using n by (metis length_list_update nth_mem)
    qed
    then show ?thesis using set_update_subset_insert [of rp i p] set_update_memI [OF i(1)] by auto
  qed
  have len: "p < length (acl_action_table V)" "p < length (acl_rule_list V)" using p(2) f by simp_all
  show "ahead es (insert ?key new) (set_rule p (Some ?q) acl) (rp[i := p]) W"
  proof (rule aheadI)
    show "W = (set_rule p (Some ?q) acl)\<lparr>acl_action_table := acl_action_table W\<rparr>"
    proof -
      have "set_rule p (Some x) V = (set_rule p (Some x) acl)\<lparr>acl_action_table := acl_action_table V\<rparr>" for x
        by (subst ahead_at(4) [OF a]) (simp add: set_rule_def)
      then show ?thesis by (simp add: W set_entry_def)
    qed
    show "acl_ok W" by (rule w)
    show "length (acl_action_table (set_rule p (Some ?q) acl)) = acl_n_rules (set_rule p (Some ?q) acl)" using f(14) by simp
  next
    fix k r assume r: "rule_in W k r"
    show "(k \<in> set (rp[i := p]) \<longleftrightarrow> ar_field r \<in> insert ?key new) \<and>
        (k \<notin> set (rp[i := p]) \<longrightarrow> acl_action_table W ! k = acl_action_table (set_rule p (Some ?q) acl) ! k)"
    proof (cases "k = p")
      case True
      then have "?q = r" using r by (simp add: ri)
      then show ?thesis using True mem [of p] p(1) by auto
    next
      case False
      then have rv: "rule_in V k r" using r by (simp add: ri)
      then have "k \<noteq> 0" "ar_field r \<noteq> ?key" using key by (auto simp: rule_in_def)
      then show ?thesis using False mem [of k] ahead_at(1,2) [OF a rv] by (simp add: W)
    qed
  next
    fix k assume k: "k < length (rp[i := p])" "rp[i := p] ! k \<noteq> 0"
    show "acl_action_table W ! (rp[i := p] ! k) = es ! k \<and> acl_rule_list W ! (rp[i := p] ! k) \<noteq> None"
    proof (cases "k = i")
      case True
      then show ?thesis using i len by (simp add: W)
    next
      case False
      then have k': "k < length rp" "rp ! k \<noteq> 0" using k by simp_all
      then have "rp ! k \<noteq> p" using np nth_mem by blast
      then show ?thesis using ahead_at(3) [OF a k'] False by (simp add: W)
    qed
  qed
qed

text \<open>A pass that finds room for every key computes the map of the specification.\<close>

lemma add_bulk_loop_map:
  assumes "add_bulk_loop l i (acl, kf, ptrs, rp) = (False, acl', kf', ptrs', rp')"
    and "ahead es new acl rp V" and check: "\<forall>r q. acl_rule_list acl' ! q = Some r \<longrightarrow> 1 \<le> q \<longrightarrow> q < N \<longrightarrow> acl_check_rule r = 0"
    and "acl_n_rules acl = N" and "i + length l = length rp" and "\<forall>k \<ge> i. k < length rp \<longrightarrow> rp ! k = 0" and "map snd l = drop i es"
  shows "\<exists>new' V'. ahead es new' acl' rp' V' \<and> acl_map V' = bulk_map (acl_map V) new
    (map (\<lambda>(rule, e). (rule_key acl (rap_field_value rule), RTE_ACL_MAX_PRIORITY - rap_priority rule, e)) l)"
  using assms(1,2,4-)
proof (induction l arbitrary: i acl kf ptrs rp new V)
  case (Cons x l)
  obtain rule e where x: "x = (rule, e)" by (cases x)
  note f = aheadD [OF Cons.prems(2)]
  let ?key = "rule_key acl (rap_field_value rule)"
  have i: "i < length rp" "rp ! i = 0" "Suc i + length l = length rp" using Cons.prems(4,5) by simp_all
  have "i < length es" using Cons.prems(6) by (metis drop_all list.distinct(1) list.simps(9) not_le)
  then have "drop i es = es ! i # drop (Suc i) es" by (simp add: Cons_nth_drop_Suc)
  then have es: "es ! i = e" "map snd l = drop (Suc i) es" using Cons.prems(6) x by simp_all
  have z: "\<forall>k \<ge> Suc i. k < length (rp[i := p]) \<longrightarrow> rp[i := p] ! k = 0" for p using Cons.prems(5) by simp
  from table_search_cases [OF f(1), of ?key] show ?case
  proof (elim disjE exE conjE)
    fix j r assume s: "table_search V ?key = Inl j" "rule_in V j r" "ar_field r = ?key"
    then have m: "acl_map V ?key = Some (ar_priority r, acl_action_table V ! j)"
      using acl_map_Some [OF f(1)] by blast
    have loop: "add_bulk_loop l (Suc i) (set_entry j e acl, kf[i := True], ptrs[i := Some j], rp) = (False, acl', kf', ptrs', rp')"
      using Cons.prems(1) x s(1) f(8) by simp
    have rk: "rule_key (set_entry j e acl) fv = rule_key acl fv" for fv by (simp add: rule_key_def)
    show ?thesis
    proof (cases "?key \<in> new")
      case True
      then have "ahead es new (set_entry j e acl) rp V" using ahead_found_new [OF Cons.prems(2) s(2)] s(3) by simp
      from Cons.IH [OF loop this _ i(3) _ es(2)] Cons.prems(3,5) show ?thesis using x m True by (simp add: rk)
    next
      case False
      then have upd: "ahead es new (set_entry j e acl) rp (set_entry j e V)"
          "acl_map (set_entry j e V) = (acl_map V)(?key \<mapsto> (ar_priority r, e))"
        using ahead_found_old [OF Cons.prems(2) s(2)] s(3) by simp_all
      from Cons.IH [OF loop upd(1) _ i(3) _ es(2)] Cons.prems(3,5) show ?thesis
        unfolding upd(2) rk using x m False by (simp add: fun_upd_def)
    qed
  next
    fix p assume s: "table_search V ?key = Inr (Some p)" and p: "1 \<le> p" "p < acl_n_rules V" "acl_rule_list V ! p = None"
      and no: "\<forall>i r. rule_in V i r \<longrightarrow> ar_field r \<noteq> ?key"
    then have m: "acl_map V ?key = None" by (simp add: acl_map_def)
    let ?acl = "set_rule p (Some (new_rule V rule p)) acl"
    have loop: "add_bulk_loop l (Suc i) (?acl, kf, ptrs, rp[i := p]) = (False, acl', kf', ptrs', rp')"
      using Cons.prems(1) x s f(8,10) by simp
    have "acl_rule_list ?acl ! p = Some (new_rule V rule p)" using p(2) f(2,12) by simp
    then have "acl_rule_list acl' ! p = Some (new_rule V rule p)"
      using add_bulk_loop_keeps [OF loop] f(12,13) by simp
    then have c: "acl_check_rule (new_rule V rule p) = 0" using check p(1,2) Cons.prems(3) f(2) by simp
    note n = ahead_new [OF Cons.prems(2) p no [unfolded f(9)] c i(1,2) es(1) refl]
    have rk: "rule_key ?acl fv = rule_key acl fv" for fv by (simp add: rule_key_def)
    have "Suc i + length l = length (rp[i := p])" using i(3) by simp
    from Cons.IH [OF loop n(1) _ this z es(2)] Cons.prems(3) show ?thesis unfolding n(2) rk
      using x m f(9) by (simp add: fun_upd_def)
  next
    assume "table_search V ?key = Inr None"
    then show ?thesis using Cons.prems(1) x f(8) by simp
  qed
qed auto

text \<open>Storing the entries of the new rules.\<close>

lemma clear_rules_flip: "flip_name (clear_rules rp (flip_name acl)) = clear_rules rp acl"
proof -
  have "clear_rules rp (flip_name acl) = flip_name (clear_rules rp acl)"
  proof (induction rp arbitrary: acl)
    case (Cons j rp)
    have "set_rule j None (flip_name acl) = flip_name (set_rule j None acl)" by (simp add: set_rule_def flip_name_def)
    then show ?case using Cons.IH [of acl] Cons.IH [of "set_rule j None acl"] by (simp add: clear_rules_def)
  qed (simp add: clear_rules_def)
  then show ?thesis by (simp add: flip_name_def)
qed

lemma commit_entries_at:
  assumes "\<And>k. k < length rp \<Longrightarrow> rp ! k \<noteq> 0 \<Longrightarrow> X (rp ! k) = es ! k \<and> rp ! k < length (acl_action_table acl)"
  shows "\<exists>A kf' ptrs'. commit_entries es rp kf ptrs acl = (kf', ptrs', acl\<lparr>acl_action_table := A\<rparr>) \<and>
    length A = length (acl_action_table acl) \<and>
    (\<forall>p < length A. A ! p = (if p \<in> set rp \<and> p \<noteq> 0 then X p else acl_action_table acl ! p))"
proof -
  let ?f = "\<lambda>i (kf, ptrs, acl). if rp ! i = 0 then (kf, ptrs, acl)
        else (kf[i := False], ptrs[i := Some (rp ! i)], set_entry (rp ! i) (es ! i) acl)"
  have "\<exists>A kf' ptrs'. fold ?f [0 ..< n] (kf, ptrs, acl) = (kf', ptrs', acl\<lparr>acl_action_table := A\<rparr>) \<and>
      length A = length (acl_action_table acl) \<and>
      (\<forall>p < length A. A ! p = (if p \<in> set (take n rp) \<and> p \<noteq> 0 then X p else acl_action_table acl ! p))"
    if "n \<le> length rp" for n
    using that
  proof (induction n)
    case 0
    show ?case by (rule exI [of _ "acl_action_table acl"]) simp
  next
    case (Suc n)
    then obtain A kf' ptrs' where A: "fold ?f [0 ..< n] (kf, ptrs, acl) = (kf', ptrs', acl\<lparr>acl_action_table := A\<rparr>)"
        "length A = length (acl_action_table acl)"
        "\<forall>p < length A. A ! p = (if p \<in> set (take n rp) \<and> p \<noteq> 0 then X p else acl_action_table acl ! p)"
      by auto
    have n: "n < length rp" using Suc.prems by simp
    have t: "set (take (Suc n) rp) = insert (rp ! n) (set (take n rp))" using n by (simp add: take_Suc_conv_app_nth)
    show ?case
    proof (cases "rp ! n = 0")
      case True
      then show ?thesis using A t by (intro exI [of _ A]) auto
    next
      case False
      note x = assms [OF n False]
      have "A[rp ! n := es ! n] ! p = (if p \<in> set (take (Suc n) rp) \<and> p \<noteq> 0 then X p else acl_action_table acl ! p)"
        if "p < length A" for p
        using A(3) that x t False by (cases "p = rp ! n") simp_all
      then show ?thesis using A(1,2) False by (intro exI [of _ "A[rp ! n := es ! n]"]) (auto simp: set_entry_def)
    qed
  qed
  from this [of "length rp"] show ?thesis by (simp add: commit_entries_def)
qed

text \<open>Tables with the same rules whose entries agree at the rules are the same map.\<close>

lemma acl_map_cong_entries:
  assumes "acl_ok a" and "acl_ok b" and "acl_rule_list a = acl_rule_list b" and "acl_n_rules a = acl_n_rules b"
    and "\<And>i r. rule_in b i r \<Longrightarrow> acl_action_table a ! i = acl_action_table b ! i"
  shows "acl_map a = acl_map b"
proof (rule acl_map_eqI [OF assms(1)])
  fix key pri e
  have "rule_in a i r = rule_in b i r" for i r by (rule rule_in_cong [OF assms(3,4)])
  then show "acl_map b key = Some (pri, e) \<longleftrightarrow>
      (\<exists>i r. rule_in a i r \<and> ar_field r = key \<and> ar_priority r = pri \<and> acl_action_table a ! i = e)"
    using acl_map_Some [OF assms(2)] assms(5) by metis
qed

lemma overwritten_ok:
  assumes ok: "acl_ok acl" and syn: "synced lib acl hp" and A: "length A = length (acl_action_table acl)"
  shows "acl_ok (acl\<lparr>acl_action_table := A\<rparr>)" and "synced lib (acl\<lparr>acl_action_table := A\<rparr>) hp"
proof -
  show "acl_ok (acl\<lparr>acl_action_table := A\<rparr>)" by (rule acl_ok_cong [OF ok]) (simp_all add: A)
  have "active (acl\<lparr>acl_action_table := A\<rparr>) = active acl" by (rule active_cong) simp
  moreover have "cur_name (acl\<lparr>acl_action_table := A\<rparr>) = cur_name acl" by (simp add: cur_name_def)
  ultimately show "synced lib (acl\<lparr>acl_action_table := A\<rparr>) hp"
    using syn unfolding synced_def by (simp cong: option.case_cong)
qed

text \<open>The request as the specification sees it.\<close>

definition bulk_request ::
  "'cfg rte_table_acl \<Rightarrow> (rte_table_acl_rule_add_params \<times> rte_pipeline_table_entry) list \<Rightarrow>
   (rte_acl_field list \<times> int \<times> rte_pipeline_table_entry) list" where
  "bulk_request acl l =
     map (\<lambda>(rule, e). (rule_key acl (rap_field_value rule), RTE_ACL_MAX_PRIORITY - rap_priority rule, e)) l"

lemma bulk_pass:
  assumes ok: "acl_ok acl" and l: "length l = n"
    and run: "add_bulk_loop l 0 (acl, kf, ptrs, replicate n 0) = (err, acl1, kf1, ptrs1, rp)"
  shows "extended acl (snd ` set l) acl1 rp" and "length rp = n"
    and "\<not> err \<Longrightarrow> \<forall>r q. acl_rule_list acl1 ! q = Some r \<longrightarrow> 1 \<le> q \<longrightarrow> q < acl_n_rules acl \<longrightarrow> acl_check_rule r = 0 \<Longrightarrow>
      \<exists>new V. ahead (map snd l) new acl1 rp V \<and> acl_map V = bulk_map (acl_map acl) {} (bulk_request acl l)"
proof -
  have len: "length (acl_rule_list acl) = acl_n_rules acl" "0 < acl_n_rules acl" "length (acl_action_table acl) = acl_n_rules acl"
    using ok by (simp_all add: acl_ok_def)
  have e0: "extended acl (snd ` set l) acl (replicate n 0)" by (rule extended_refl) auto
  show "extended acl (snd ` set l) acl1 rp" "length rp = n"
    using add_bulk_loop_extended [OF run e0 len(1,2)] l by simp_all
  assume "\<not> err" and c: "\<forall>r q. acl_rule_list acl1 ! q = Some r \<longrightarrow> 1 \<le> q \<longrightarrow> q < acl_n_rules acl \<longrightarrow> acl_check_rule r = 0"
  then have run': "add_bulk_loop l 0 (acl, kf, ptrs, replicate n 0) = (False, acl1, kf1, ptrs1, rp)" using run by simp
  have "ahead (map snd l) {} acl (replicate n 0) acl"
    by (rule aheadI) (use ok len in \<open>auto simp: rule_in_def\<close>)
  from add_bulk_loop_map [OF run' this c] show
    "\<exists>new V. ahead (map snd l) new acl1 rp V \<and> acl_map V = bulk_map (acl_map acl) {} (bulk_request acl l)"
    using l by (simp add: bulk_request_def)
qed

lemma acl_entry_add_bulk_spec:
  assumes ok: "acl_ok acl" and syn: "synced lib acl hp" and alloc: "alloc_ok acl alloc"
    and len: "length ptrs = length l"
    and run: "rte_table_acl_entry_add_bulk lib alloc (Some acl) (map (Some \<circ> fst) l) (map (Some \<circ> snd) l) kf ptrs hp =
      (st, kf', ptrs', Some acl', hp')"
  shows "acl_ok acl' \<and> synced lib acl' hp' \<and>
    (st = 0 \<longrightarrow> acl_map acl' = bulk_map (acl_map acl) {} (bulk_request acl l)) \<and>
    (st \<noteq> 0 \<longrightarrow> ctxs hp' = ctxs hp \<and> (\<exists>A. acl' = acl\<lparr>acl_action_table := A\<rparr> \<and>
      overwritten (acl_rule_list acl) (acl_action_table acl) (snd ` set l) A))"
proof -
  let ?keys = "map (Some \<circ> fst) l" and ?ents = "map (Some \<circ> snd) l" and ?n = "length l"
  have tm: "map the ?keys = map fst l" "map the ?ents = map snd l" by (simp_all add: comp_def)
  have same: "acl_ok acl' \<and> synced lib acl' hp' \<and> (\<exists>A. acl' = acl\<lparr>acl_action_table := A\<rparr> \<and>
      overwritten (acl_rule_list acl) (acl_action_table acl) (snd ` set l) A)" if "acl' = acl" "hp' = hp"
    using that ok syn by (auto intro!: exI [of _ "acl_action_table acl"] overwritten_refl)
  show ?thesis
  proof (cases "?n = 0 \<or> list_ex bulk_arg_bad (zip ?keys (zip ?ents ptrs))")
    case True
    then have "rte_table_acl_entry_add_bulk lib alloc (Some acl) ?keys ?ents kf ptrs hp = (- EINVAL, kf, ptrs, Some acl, hp)"
      by (elim disjE) (simp_all add: rte_table_acl_entry_add_bulk_def)
    then have "st \<noteq> 0" "ctxs hp' = ctxs hp" "acl' = acl" "hp' = hp" using run by simp_all
    then show ?thesis using same by blast
  next
    case False
    obtain err acl1 kf1 ptrs1 rp where pass:
        "add_bulk_loop l 0 (acl, replicate ?n False, ptrs, replicate ?n 0) = (err, acl1, kf1, ptrs1, rp)"
      by (metis prod_cases5)
    note b = bulk_pass [OF ok refl pass]
    obtain A where A: "clear_rules rp acl1 = acl\<lparr>acl_action_table := A\<rparr>"
        "overwritten (acl_rule_list acl) (acl_action_table acl) (snd ` set l) A"
      using clear_extended [OF b(1)] by blast
    have back1: "acl_ok (acl\<lparr>acl_action_table := A\<rparr>)" "synced lib acl h \<Longrightarrow> synced lib (acl\<lparr>acl_action_table := A\<rparr>) h" for h
      using overwritten_ok [OF ok _, of lib h A] overwritten_ok(1) [OF ok syn, of A] A(2) by (simp_all add: overwritten_def)
    note f = extended_fields [OF b(1)]
    have commit: "acl_ok d \<and> acl_map d = bulk_map (acl_map acl) {} (bulk_request acl l)"
      if V: "ahead (map snd l) new acl1 rp V" "acl_map V = bulk_map (acl_map acl) {} (bulk_request acl l)"
        and d: "d = acl1\<lparr>acl_name_id := nid, acl_ctx := cx, acl_action_table := A'\<rparr>" and lA: "length A' = acl_n_rules acl"
        and at: "\<And>p r. rule_in V p r \<Longrightarrow> A' ! p = acl_action_table V ! p"
      for d nid cx A' new V
    proof -
      note v = aheadD [OF V(1)]
      have okd: "acl_ok d" by (rule acl_ok_cong [OF v(1)]) (use v lA f in \<open>simp_all add: d\<close>)
      moreover have "acl_map d = acl_map V"
        by (rule acl_map_cong_entries [OF okd v(1)]) (use v at in \<open>simp_all add: d\<close>)
      ultimately show ?thesis using V(2) by simp
    qed
    have main: "(st, kf', ptrs', Some acl', hp') =
        (if err then (- ENOSPC, kf1, ptrs1, Some (clear_rules rp acl1), hp)
         else if list_all (\<lambda>j. j = 0) rp then (0, kf1, ptrs1, Some acl1, hp)
         else (case rte_table_acl_build lib alloc (flip_name acl1) hp of
            (None, hp) \<Rightarrow> (- EINVAL, kf1, ptrs1, Some (flip_name (clear_rules rp (flip_name acl1))), hp)
          | (Some c, hp) \<Rightarrow> (case commit_entries (map snd l) rp kf1 ptrs1 ((flip_name acl1)\<lparr>acl_ctx := c\<rparr>) of
              (kf1, ptrs1, acl') \<Rightarrow> (0, kf1, ptrs1, Some acl', rte_acl_free (acl_ctx acl) hp))))"
      using False pass unfolding run [symmetric] rte_table_acl_entry_add_bulk_def tm zip_map_fst_snd
      by (simp add: Let_def)
    consider (full) err | (found) "\<not> err" "list_all (\<lambda>j. j = 0) rp" | (build) "\<not> err" "\<not> list_all (\<lambda>j. j = 0) rp" by blast
    then show ?thesis
    proof cases
      case full
      then have res: "st = - ENOSPC" "acl' = acl\<lparr>acl_action_table := A\<rparr>" "hp' = hp"
        using main A(1) by simp_all
      have "st \<noteq> 0" "ctxs hp' = ctxs hp" using res by simp_all
      moreover have "acl_ok acl'" "synced lib acl' hp'" unfolding res using back1 syn by blast+
      ultimately show ?thesis using res(2) A(2) by blast
    next
      case found
      then have res: "st = 0" "acl' = acl1" "hp' = hp" using main by simp_all
      obtain L A1 where x: "acl1 = acl\<lparr>acl_rule_list := L, acl_action_table := A1\<rparr>" "new_rules (acl_rule_list acl) L rp"
        using b(1) unfolding extended_def by blast
      have "L = acl_rule_list acl"
        using x(2) found(2) unfolding new_rules_def list_all_iff by (intro nth_equalityI) auto
      then have rl: "acl_rule_list acl1 = acl_rule_list acl" using x(1) by simp
      have "\<forall>r q. acl_rule_list acl1 ! q = Some r \<longrightarrow> 1 \<le> q \<longrightarrow> q < acl_n_rules acl \<longrightarrow> acl_check_rule r = 0"
        unfolding rl using ok by (auto simp: acl_ok_def rule_in_def)
      then obtain new V where V: "ahead (map snd l) new acl1 rp V" "acl_map V = bulk_map (acl_map acl) {} (bulk_request acl l)"
        using b(3) [OF found(1)] by blast
      have "acl_action_table acl1 ! p = acl_action_table V ! p" if "rule_in V p r" for p r
      proof -
        have "p \<notin> set rp" using that found(2) by (auto simp: rule_in_def list_all_iff)
        then show ?thesis using ahead_at(2) [OF V(1) that] by simp
      qed
      then have "acl_ok acl1 \<and> acl_map acl1 = bulk_map (acl_map acl) {} (bulk_request acl l)"
        using aheadD(14) [OF V(1)] f(1)
        by (intro commit [OF V, where nid = "acl_name_id acl1" and cx = "acl_ctx acl1" and A' = "acl_action_table acl1"]) simp_all
      moreover have "acl1 = acl\<lparr>acl_action_table := A1\<rparr>" using x(1) \<open>L = acl_rule_list acl\<close> by simp
      then have "synced lib acl1 hp" using overwritten_ok(2) [OF ok syn, of A1] f(3) by simp
      ultimately show ?thesis using res by simp
    next
      case build
      have bl: "length (acl_rule_list (flip_name acl1)) = acl_n_rules (flip_name acl1)" using f ok by (simp add: acl_ok_def)
      from rebuild [OF ok syn alloc bl] f consider
        (fail) hp1 where "rte_table_acl_build lib alloc (flip_name acl1) hp = (None, hp1)" "synced lib acl hp1" "ctxs hp1 = ctxs hp"
        | (built) c hp1 where "rte_table_acl_build lib alloc (flip_name acl1) hp = (Some c, hp1)"
          "\<forall>r \<in> set (active (flip_name acl1)). acl_check_rule r = 0"
          "\<forall>d. acl_rule_list d = acl_rule_list acl1 \<longrightarrow> acl_ctx d = c \<longrightarrow> acl_cfg d = acl_cfg acl1 \<longrightarrow>
             acl_name_id d = (\<not> acl_name_id acl1) \<longrightarrow> acl_name0 d = acl_name0 acl1 \<longrightarrow> acl_name1 d = acl_name1 acl1 \<longrightarrow>
             synced lib d (rte_acl_free (acl_ctx acl) hp1)"
        by auto
      then show ?thesis
      proof cases
        case fail
        then have res: "st = - EINVAL" "acl' = acl\<lparr>acl_action_table := A\<rparr>" "hp' = hp1"
          using main build A(1) clear_rules_flip [of rp acl1] by simp_all
        have "st \<noteq> 0" "ctxs hp' = ctxs hp" using res fail by simp_all
        moreover have "acl_ok acl'" "synced lib acl' hp'" unfolding res using back1 fail(2) by blast+
        ultimately show ?thesis using res(2) A(2) by blast
      next
        case built
        have "\<forall>r q. acl_rule_list acl1 ! q = Some r \<longrightarrow> 1 \<le> q \<longrightarrow> q < acl_n_rules acl \<longrightarrow> acl_check_rule r = 0"
        proof (intro allI impI)
          fix r q assume q: "acl_rule_list acl1 ! q = Some r" "1 \<le> q" "q < acl_n_rules acl"
          have "drop 1 (acl_rule_list acl1) ! (q - 1) = Some r" "q - 1 < length (drop 1 (acl_rule_list acl1))"
            using q f ok by (auto simp: acl_ok_def)
          then have "Some r \<in> set (drop 1 (acl_rule_list acl1))" by (metis nth_mem)
          then have "r \<in> set (active (flip_name acl1))" by (force simp: active_def)
          then show "acl_check_rule r = 0" using built(2) by blast
        qed
        then obtain new V where V: "ahead (map snd l) new acl1 rp V" "acl_map V = bulk_map (acl_map acl) {} (bulk_request acl l)"
          using b(3) [OF build(1)] by blast
        note v = aheadD [OF V(1)]
        let ?b = "(flip_name acl1)\<lparr>acl_ctx := c\<rparr>"
        have "acl_action_table V ! (rp ! k) = map snd l ! k \<and> rp ! k < length (acl_action_table ?b)"
          if k: "k < length rp" "rp ! k \<noteq> 0" for k
        proof -
          have "rp ! k < length (acl_rule_list acl1)" using extended_pos [OF b(1) nth_mem [OF k(1)] k(2)] .
          then show ?thesis using ahead_at(3) [OF V(1) k] v(12,14) by simp
        qed
        then obtain A' kf2 ptrs2 where co: "commit_entries (map snd l) rp kf1 ptrs1 ?b = (kf2, ptrs2, ?b\<lparr>acl_action_table := A'\<rparr>)"
            "length A' = length (acl_action_table ?b)"
            "\<forall>p < length A'. A' ! p = (if p \<in> set rp \<and> p \<noteq> 0 then acl_action_table V ! p else acl_action_table ?b ! p)"
          using commit_entries_at [of rp "(!) (acl_action_table V)" "map snd l" ?b kf1 ptrs1] by blast
        have res: "st = 0" "acl' = ?b\<lparr>acl_action_table := A'\<rparr>" "hp' = rte_acl_free (acl_ctx acl) hp1"
          using main build built(1) co(1) by simp_all
        have "A' ! p = acl_action_table V ! p" if p: "rule_in V p r" for p r
        proof -
          have "p < length A'" "p \<noteq> 0" using p co(2) v(2,14) by (simp_all add: rule_in_def)
          then show ?thesis using co(3) ahead_at(2) [OF V(1) p] by simp
        qed
        then have "acl_ok acl' \<and> acl_map acl' = bulk_map (acl_map acl) {} (bulk_request acl l)"
          using co(2) v(14) f(1)
          by (intro commit [OF V, where nid = "\<not> acl_name_id acl1" and cx = c and A' = A']) (simp_all add: res(2) flip_name_def)
        moreover have "synced lib acl' hp'" using built(3) unfolding res(3) by (simp add: res(2))
        ultimately show ?thesis using res(1) by simp
      qed
    qed
  qed
qed

text \<open>A pass finds room for every key if the keys of the table and of the request fit into it.\<close>

lemma add_bulk_loop_room:
  assumes "acl_ok acl" and "\<forall>(rule, e) \<in> set l. 0 \<le> rap_priority rule \<and> rap_priority rule \<le> RTE_ACL_MAX_PRIORITY"
    and "card (dom (acl_map acl) \<union> (\<lambda>(rule, e). rule_key acl (rap_field_value rule)) ` set l) < acl_n_rules acl"
  shows "\<exists>acl' kf' ptrs' rp'. add_bulk_loop l i (acl, kf, ptrs, rp) = (False, acl', kf', ptrs', rp') \<and> acl_ok acl'"
  using assms
proof (induction l arbitrary: i acl kf ptrs rp)
  case (Cons x l)
  obtain rule e where x: "x = (rule, e)" by (cases x)
  let ?key = "rule_key acl (rap_field_value rule)" and ?keys = "\<lambda>acl. (\<lambda>(rule, e). rule_key acl (rap_field_value rule)) ` set l"
  note ok = Cons.prems(1)
  have pri: "0 \<le> rap_priority rule" "rap_priority rule \<le> RTE_ACL_MAX_PRIORITY"
      "\<forall>(rule, e) \<in> set l. 0 \<le> rap_priority rule \<and> rap_priority rule \<le> RTE_ACL_MAX_PRIORITY"
    using Cons.prems(2) x by auto
  have room: "card (insert ?key (dom (acl_map acl)) \<union> ?keys acl) < acl_n_rules acl"
    using Cons.prems(3) x by (simp add: insert_commute)
  have fin: "finite (dom (acl_map acl))" by (rule finite_dom_acl_map [OF ok])
  from table_search_cases [OF ok, of ?key] show ?case
  proof (elim disjE exE conjE)
    fix j r assume s: "table_search acl ?key = Inl j" "rule_in acl j r" "ar_field r = ?key"
    let ?acl = "set_entry j e acl"
    have "dom (acl_map ?acl) = insert ?key (dom (acl_map acl))"
      using acl_map_overwrite(2) [OF ok s(2)] s(3) by simp
    then have "card (dom (acl_map ?acl) \<union> ?keys ?acl) < acl_n_rules ?acl" using room by (simp add: rule_key_def)
    from Cons.IH [OF acl_map_overwrite(1) [OF ok s(2)] pri(3) this] show ?thesis using x s(1) by simp
  next
    fix p assume s: "table_search acl ?key = Inr (Some p)" and p: "1 \<le> p" "p < acl_n_rules acl" "acl_rule_list acl ! p = None"
      and no: "\<forall>i r. rule_in acl i r \<longrightarrow> ar_field r \<noteq> ?key"
    let ?q = "new_rule acl rule p" and ?acl = "set_rule p (Some (new_rule acl rule p)) acl"
    have c: "acl_check_rule ?q = 0" using pri by (simp add: acl_check_rule_def new_rule_def)
    have e: "?acl = set_entry p (acl_action_table acl ! p) ?acl" by (simp add: set_entry_def set_rule_def)
    have w: "acl_ok ?acl" "acl_map ?acl = (acl_map acl)(ar_field ?q \<mapsto> (ar_priority ?q, acl_action_table acl ! p))"
      by (rule acl_map_insert [OF ok p _ _ c, of ?acl "acl_action_table acl ! p"]; use no e in simp)+
    have "card (dom (acl_map ?acl) \<union> ?keys ?acl) < acl_n_rules ?acl" using room w(2) by (simp add: rule_key_def)
    from Cons.IH [OF w(1) pri(3) this] show ?thesis using x s by simp
  next
    assume f: "\<forall>i. 1 \<le> i \<longrightarrow> i < acl_n_rules acl \<longrightarrow> (\<exists>r. rule_in acl i r)" "\<forall>i r. rule_in acl i r \<longrightarrow> ar_field r \<noteq> ?key"
    then have "card (insert ?key (dom (acl_map acl))) = Suc (acl_n_rules acl - 1)"
      using full_iff [OF ok] acl_map_None [OF ok, of ?key] fin by (simp add: card_insert_if domIff)
    moreover have "card (insert ?key (dom (acl_map acl))) \<le> card (insert ?key (dom (acl_map acl)) \<union> ?keys acl)"
      using fin by (intro card_mono) auto
    ultimately show ?thesis using room by simp
  qed
qed simp

lemma acl_entry_add_bulk_succeeds:
  assumes ok: "acl_ok acl" and syn: "synced lib acl hp" and alloc: "alloc_ok acl alloc" and cb: "can_build lib alloc (acl_cfg acl)"
    and len: "length ptrs = length l" and ne: "l \<noteq> []" "None \<notin> set ptrs"
    and pri: "\<forall>(rule, e) \<in> set l. 0 \<le> rap_priority rule \<and> rap_priority rule \<le> RTE_ACL_MAX_PRIORITY"
    and room: "card (dom (acl_map acl) \<union> (\<lambda>(rule, e). rule_key acl (rap_field_value rule)) ` set l) < acl_n_rules acl"
  shows "fst (rte_table_acl_entry_add_bulk lib alloc (Some acl) (map (Some \<circ> fst) l) (map (Some \<circ> snd) l) kf ptrs hp) = 0"
proof -
  let ?keys = "map (Some \<circ> fst) l" and ?ents = "map (Some \<circ> snd) l" and ?n = "length l"
  have tm: "map the ?keys = map fst l" "map the ?ents = map snd l" by (simp_all add: comp_def)
  have good: "\<not> list_ex bulk_arg_bad (zip ?keys (zip ?ents ptrs))"
    using pri ne(2) len by (auto simp: list_ex_iff bulk_arg_bad_def set_zip in_set_conv_nth split: prod.splits)
      (metis (no_types, lifting) case_prodD fst_conv linorder_not_less nth_mem prod.collapse)
  obtain acl1 kf1 ptrs1 rp where pass:
      "add_bulk_loop l 0 (acl, replicate ?n False, ptrs, replicate ?n 0) = (False, acl1, kf1, ptrs1, rp)" "acl_ok acl1"
    using add_bulk_loop_room [OF ok pri room] by blast
  note f = extended_fields [OF bulk_pass(1) [OF ok refl pass(1)]]
  have "length (acl_rule_list (flip_name acl1)) = acl_n_rules (flip_name acl1)" using pass(2) by (simp add: acl_ok_def)
  from rebuild [OF ok syn alloc this] f cb active_ok [OF pass(2)]
  obtain c hp1 where "rte_table_acl_build lib alloc (flip_name acl1) hp = (Some c, hp1)"
    by (auto simp: active_flip)
  then show ?thesis
    using ne(1) good pass(1) unfolding rte_table_acl_entry_add_bulk_def tm zip_map_fst_snd
    by (simp add: Let_def split: prod.split)
qed

text \<open>With distinct keys, adding in bulk is adding one after the other.\<close>

definition add_one :: "'k \<times> int \<times> rte_pipeline_table_entry \<Rightarrow> 'k entry_map \<Rightarrow> 'k entry_map" where
  "add_one = (\<lambda>(k, pri, e) m. m(k \<mapsto> (case m k of None \<Rightarrow> pri | Some (q, _) \<Rightarrow> q, e)))"

lemma bulk_map_distinct:
  "distinct (map fst xs) \<Longrightarrow> new \<inter> fst ` set xs = {} \<Longrightarrow> bulk_map m new xs = fold add_one xs m"
proof (induction xs arbitrary: m new)
  case (Cons x xs)
  obtain k pri e where x: "x = (k, pri, e)" by (cases x)
  have d: "distinct (map fst xs)" "new \<inter> fst ` set xs = {}" "insert k new \<inter> fst ` set xs = {}" "k \<notin> new" using Cons.prems x by auto
  show ?case using Cons.IH [OF d(1,2)] Cons.IH [OF d(1,3)] d(4) by (cases "m k") (auto simp: x add_one_def simp del: fun_upd_apply)
qed simp

text \<open>C28. Adding rules in bulk, with one rebuild of the context, implements this map: a key that was in the
  table keeps its priority and takes the last entry that the request has for it; a new key takes the
  priority and the entry of its first occurrence. For distinct keys this is what adding the rules one after the
  other gives; for a new key that the request repeats it is not, since the later entries are ignored. The
  invariant holds again in every case. On failure (bad
  argument, table full, build refused) no rule was added or lost and no context leaked; but the entries of
  keys that were there may have been overwritten, since only the new rules are rolled back. With memory and a
  compiler that accepts the rules, a request with priorities in range succeeds if the keys of the table and
  of the request fit into the table together.\<close>

theorem acl_entry_add_bulk_refines:
  assumes ok: "acl_ok acl" and syn: "synced lib acl hp" and alloc: "alloc_ok acl alloc"
    and len: "length ptrs = length l"
    and run: "rte_table_acl_entry_add_bulk lib alloc (Some acl) (map (Some \<circ> fst) l) (map (Some \<circ> snd) l) kf ptrs hp =
      (st, kf', ptrs', Some acl', hp')"
  shows "acl_ok acl' \<and> synced lib acl' hp' \<and>
    (st = 0 \<longrightarrow> acl_map acl' = bulk_map (acl_map acl) {} (bulk_request acl l)) \<and>
    (st = 0 \<and> distinct (map fst (bulk_request acl l)) \<longrightarrow> acl_map acl' = fold add_one (bulk_request acl l) (acl_map acl)) \<and>
    (st \<noteq> 0 \<longrightarrow> ctxs hp' = ctxs hp \<and> (\<exists>A. acl' = acl\<lparr>acl_action_table := A\<rparr> \<and>
      overwritten (acl_rule_list acl) (acl_action_table acl) (snd ` set l) A)) \<and>
    (can_build lib alloc (acl_cfg acl) \<and> l \<noteq> [] \<and> None \<notin> set ptrs \<and>
       (\<forall>(rule, e) \<in> set l. 0 \<le> rap_priority rule \<and> rap_priority rule \<le> RTE_ACL_MAX_PRIORITY) \<and>
       card (dom (acl_map acl) \<union> (\<lambda>(rule, e). rule_key acl (rap_field_value rule)) ` set l) < acl_n_rules acl \<longrightarrow> st = 0)"
  using acl_entry_add_bulk_spec [OF assms] acl_entry_add_bulk_succeeds [OF ok syn alloc _ len, where kf = kf] run
    bulk_map_distinct [of "bulk_request acl l" "{}" "acl_map acl"] by auto

section \<open>Deleting\<close>

text \<open>What a pass of the deletion leaves: the removed rules are exactly those in \<open>hits\<close>.\<close>

definition removed ::
  "rte_acl_rule option list \<Rightarrow> (nat \<times> rte_acl_rule) option list \<Rightarrow> rte_acl_rule option list \<Rightarrow> bool" where
  "removed L0 hits L \<longleftrightarrow> length L = length L0 \<and>
     (\<forall>p < length L0. L ! p = L0 ! p \<or> (\<exists>r. Some (p, r) \<in> set hits)) \<and>
     (\<forall>p r. Some (p, r) \<in> set hits \<longrightarrow> p < length L0 \<and> L0 ! p = Some r)"

lemma delete_bulk_pass:
  assumes "delete_bulk_loop ks i kf acl = (hits, kf', acl1)" and "acl_ok acl"
  shows "acl_ok acl1 \<and> (\<exists>L. acl1 = acl\<lparr>acl_rule_list := L\<rparr> \<and> removed (acl_rule_list acl) hits L) \<and>
    acl_map acl1 = acl_map acl |` (- (rule_key acl ` set ks))"
  using assms
proof (induction ks arbitrary: i kf acl hits kf' acl1)
  case Nil
  then show ?case by (auto simp: removed_def intro!: exI [of _ "acl_rule_list acl"])
next
  case (Cons k ks)
  let ?key = "rule_key acl k"
  obtain hit acl2 where d: "delete_search ?key acl = (hit, acl2)" by (cases "delete_search ?key acl")
  obtain hits2 kf2 acl3 where loop:
      "delete_bulk_loop ks (i + 1) (if hit = None then kf[i := False] else kf) acl2 = (hits2, kf2, acl3)"
    by (metis prod_cases3)
  have res: "hits = hit # hits2" "acl1 = acl3" using Cons.prems(1) d loop by simp_all
  show ?case
  proof (cases "table_search acl ?key")
    case (Inr v)
    then have h: "hit = None" "acl2 = acl" using d delete_search_eq [OF Cons.prems(2), of ?key] by simp_all
    have m: "acl_map acl ?key = None" using Inr by (simp add: acl_map_def)
    note ih = Cons.IH [OF loop] Cons.prems(2)
    have "removed (acl_rule_list acl) hits L" if "removed (acl_rule_list acl) hits2 L" for L
      using that by (simp add: removed_def res h)
    moreover have "acl_map acl |` (- (rule_key acl ` set ks)) = acl_map acl |` (- (rule_key acl ` set (k # ks)))"
      using m by (auto simp: restrict_map_def fun_eq_iff)
    ultimately show ?thesis using ih h res by (auto simp: restrict_map_def)
  next
    case (Inl p)
    then obtain r where r: "rule_in acl p r" "ar_field r = ?key" using table_search_cases [OF Cons.prems(2), of ?key] by auto
    then have p: "acl_rule_list acl ! p = Some r" "p < length (acl_rule_list acl)"
      using Cons.prems(2) by (simp_all add: rule_in_def acl_ok_def)
    have h: "hit = Some (p, r)" "acl2 = set_rule p None acl"
      using d delete_search_eq [OF Cons.prems(2), of ?key] Inl p by simp_all
    have ok2: "acl_ok acl2" and m2: "acl_map acl2 = (acl_map acl)(?key := None)"
      using acl_map_remove [OF Cons.prems(2) r(1), of acl2] r(2) h(2) by simp_all
    obtain L where ih: "acl_ok acl3" "acl3 = acl2\<lparr>acl_rule_list := L\<rparr>" "removed (acl_rule_list acl2) hits2 L"
        "acl_map acl3 = acl_map acl2 |` (- (rule_key acl2 ` set ks))"
      using Cons.IH [OF loop ok2] by blast
    have "removed (acl_rule_list acl) hits L"
      unfolding removed_def
    proof (intro conjI allI impI)
      show "length L = length (acl_rule_list acl)" using ih(3) h(2) by (simp add: removed_def)
    next
      fix q assume "q < length (acl_rule_list acl)"
      then show "L ! q = acl_rule_list acl ! q \<or> (\<exists>r. Some (q, r) \<in> set hits)"
        using ih(3) h res(1) by (cases "q = p") (auto simp: removed_def)
    next
      fix q s assume s: "Some (q, s) \<in> set hits"
      have "q < length (acl_rule_list acl) \<and> acl_rule_list acl ! q = Some s"
      proof (cases "(q, s) = (p, r)")
        case False
        then have "Some (q, s) \<in> set hits2" using s res(1) h(1) by auto
        then have q: "q < length (acl_rule_list acl)" "(acl_rule_list acl)[p := None] ! q = Some s"
          using ih(3) h(2) unfolding removed_def by auto
        then have "q \<noteq> p" using p(2) by auto
        then show ?thesis using q by simp
      qed (use p in simp)
      then show "q < length (acl_rule_list acl)" "acl_rule_list acl ! q = Some s" by simp_all
    qed
    moreover have "acl1 = acl\<lparr>acl_rule_list := L\<rparr>" using ih(2) res(2) h(2) by (simp add: set_rule_def)
    moreover have "rule_key acl2 = rule_key acl" by (rule ext) (simp add: h(2) rule_key_def)
    then have "acl_map acl1 = acl_map acl |` (- (rule_key acl ` set (k # ks)))"
      using ih(4) m2 res(2) by (auto simp: restrict_map_def fun_eq_iff)
    ultimately show ?thesis using ih(1) res(2) by blast
  qed
qed

lemma restore_rules_at:
  assumes "\<And>p r. Some (p, r) \<in> set hits \<Longrightarrow> p < length (acl_rule_list acl) \<and> L0 ! p = Some r"
  shows "\<exists>L. restore_rules hits acl = acl\<lparr>acl_rule_list := L\<rparr> \<and> length L = length (acl_rule_list acl) \<and>
    (\<forall>p < length L. L ! p = (if \<exists>r. Some (p, r) \<in> set hits then L0 ! p else acl_rule_list acl ! p))"
  using assms
proof (induction hits arbitrary: acl)
  case Nil
  show ?case by (rule exI [of _ "acl_rule_list acl"]) (simp add: restore_rules_def)
next
  case (Cons hit hits)
  show ?case
  proof (cases hit)
    case None
    then have "restore_rules (hit # hits) acl = restore_rules hits acl" by (simp add: restore_rules_def)
    then show ?thesis using Cons None by auto
  next
    case (Some pr)
    obtain q r where pr: "pr = (q, r)" by (cases pr)
    have q: "q < length (acl_rule_list acl)" "L0 ! q = Some r" using Cons.prems [of q r] Some pr by simp_all
    have s: "restore_rules (hit # hits) acl = restore_rules hits (set_rule q (Some r) acl)"
      using Some pr by (simp add: restore_rules_def)
    have "p < length (acl_rule_list (set_rule q (Some r) acl)) \<and> L0 ! p = Some s" if "Some (p, s) \<in> set hits" for p s
      using Cons.prems [of p s] that by simp
    note ih = Cons.IH [of "set_rule q (Some r) acl", OF this]
    obtain L where L: "restore_rules hits (set_rule q (Some r) acl) = (set_rule q (Some r) acl)\<lparr>acl_rule_list := L\<rparr>"
        "length L = length (acl_rule_list acl)"
        "\<forall>p < length L. L ! p = (if \<exists>r. Some (p, r) \<in> set hits then L0 ! p else (acl_rule_list acl)[q := Some r] ! p)"
      using ih unfolding set_rule_simps length_list_update by blast
    have "L ! p = (if \<exists>r. Some (p, r) \<in> set (hit # hits) then L0 ! p else acl_rule_list acl ! p)" if "p < length L" for p
      using L(3) that q Some pr L(2) by (cases "p = q") (simp_all, blast)
    then show ?thesis using L(1,2) s by (intro exI [of _ L]) (simp add: set_rule_def)
  qed
qed

lemma restore_removed:
  assumes "acl1 = acl\<lparr>acl_rule_list := L\<rparr>" and rem: "removed (acl_rule_list acl) hits L"
  shows "flip_name (restore_rules hits (flip_name acl1)) = acl"
proof -
  have "p < length (acl_rule_list (flip_name acl1)) \<and> acl_rule_list acl ! p = Some r" if "Some (p, r) \<in> set hits" for p r
    using assms that by (simp add: removed_def)
  from restore_rules_at [of hits "flip_name acl1" "acl_rule_list acl", OF this] obtain L' where
      L': "restore_rules hits (flip_name acl1) = (flip_name acl1)\<lparr>acl_rule_list := L'\<rparr>"
        "length L' = length L"
        "\<forall>p < length L'. L' ! p = (if \<exists>r. Some (p, r) \<in> set hits then acl_rule_list acl ! p else L ! p)"
    using assms(1) by auto
  have "L' = acl_rule_list acl"
  proof (rule nth_equalityI)
    show "length L' = length (acl_rule_list acl)" using L'(2) rem by (simp add: removed_def)
    fix p assume p: "p < length L'"
    then have "L ! p = acl_rule_list acl ! p \<or> (\<exists>r. Some (p, r) \<in> set hits)"
      using L'(2) rem by (simp add: removed_def)
    then show "L' ! p = acl_rule_list acl ! p" using L'(3) p by auto
  qed
  then show ?thesis using L'(1) assms(1) by (simp add: flip_name_def)
qed

lemma acl_entry_delete_bulk_spec:
  assumes ok: "acl_ok acl" and syn: "synced lib acl hp" and alloc: "alloc_ok acl alloc"
    and run: "rte_table_acl_entry_delete_bulk lib alloc (Some acl) (map Some ks) kf hp = (st, kf', Some acl', hp')"
  shows "acl_ok acl' \<and> synced lib acl' hp' \<and>
    (st = 0 \<longrightarrow> acl_map acl' = acl_map acl |` (- (rule_key acl ` set ks))) \<and>
    (st \<noteq> 0 \<longrightarrow> acl' = acl \<and> ctxs hp' = ctxs hp) \<and>
    (can_build lib alloc (acl_cfg acl) \<longrightarrow> (st = 0 \<longleftrightarrow> ks \<noteq> []))"
proof (cases "ks = []")
  case True
  then have "st = - EINVAL" "acl' = acl" "hp' = hp" using run by (simp_all add: rte_table_acl_entry_delete_bulk_def)
  then show ?thesis using ok syn True by simp
next
  case False
  obtain hits kf1 acl1 where pass: "delete_bulk_loop ks 0 kf acl = (hits, kf1, acl1)" by (metis prod_cases3)
  obtain L where p: "acl_ok acl1" "acl1 = acl\<lparr>acl_rule_list := L\<rparr>" "removed (acl_rule_list acl) hits L"
      "acl_map acl1 = acl_map acl |` (- (rule_key acl ` set ks))"
    using delete_bulk_pass [OF pass ok] by blast
  have tm: "map the (map Some ks) = ks" "\<not> list_ex (\<lambda>k. k = None) (map Some ks)" by (simp_all add: comp_def list_ex_iff)
  have main: "(st, kf', Some acl', hp') = (if list_all (\<lambda>h. h = None) hits then (0, kf1, Some acl1, hp)
      else (case rte_table_acl_build lib alloc (flip_name acl1) hp of
         (None, hp) \<Rightarrow> (- EINVAL, kf1, Some (flip_name (restore_rules hits (flip_name acl1))), hp)
       | (Some c, hp) \<Rightarrow> (0, map (\<lambda>(h, kf). if h = None then kf else True) (zip hits kf1),
             Some ((flip_name acl1)\<lparr>acl_ctx := c\<rparr>), rte_acl_free (acl_ctx acl) hp)))"
    using False pass tm(2) unfolding run [symmetric] rte_table_acl_entry_delete_bulk_def tm(1) by (simp add: Let_def)
  show ?thesis
  proof (cases "list_all (\<lambda>h. h = None) hits")
    case True
    then have res: "st = 0" "acl' = acl1" "hp' = hp" using main by simp_all
    have "\<not> Some x \<in> set hits" for x using True by (auto simp: list_all_iff)
    then have "L = acl_rule_list acl"
      using p(3) unfolding removed_def by (intro nth_equalityI) auto
    then have "acl1 = acl" using p(2) by simp
    then show ?thesis using res p(1,4) syn \<open>ks \<noteq> []\<close> by simp
  next
    case False
    have bl: "length (acl_rule_list (flip_name acl1)) = acl_n_rules (flip_name acl1)" using p(1) by (simp add: acl_ok_def)
    from rebuild [OF ok syn alloc bl] active_ok [OF p(1)] p(2) consider
      (fail) hp1 where "rte_table_acl_build lib alloc (flip_name acl1) hp = (None, hp1)" "synced lib acl hp1" "ctxs hp1 = ctxs hp"
        "\<not> can_build lib alloc (acl_cfg acl)"
      | (built) c hp1 where "rte_table_acl_build lib alloc (flip_name acl1) hp = (Some c, hp1)"
        "\<forall>d. acl_rule_list d = acl_rule_list acl1 \<longrightarrow> acl_ctx d = c \<longrightarrow> acl_cfg d = acl_cfg acl1 \<longrightarrow>
           acl_name_id d = (\<not> acl_name_id acl1) \<longrightarrow> acl_name0 d = acl_name0 acl1 \<longrightarrow> acl_name1 d = acl_name1 acl1 \<longrightarrow>
           synced lib d (rte_acl_free (acl_ctx acl) hp1)"
      by (auto simp: active_flip)
    then show ?thesis
    proof cases
      case fail
      then have "st = - EINVAL" "acl' = acl" "hp' = hp1" using main False restore_removed [OF p(2,3)] by simp_all
      then show ?thesis using ok fail by simp
    next
      case built
      let ?d = "(flip_name acl1)\<lparr>acl_ctx := c\<rparr>"
      have res: "st = 0" "acl' = ?d" "hp' = rte_acl_free (acl_ctx acl) hp1" using main False built(1) by simp_all
      have okd: "acl_ok ?d" by (rule acl_ok_cong [OF p(1)]) simp_all
      moreover have "acl_map ?d = acl_map acl1" by (rule acl_map_cong_entries [OF okd p(1)]) simp_all
      moreover have "synced lib ?d hp'" using built(2) res(3) by simp
      ultimately show ?thesis using res p(4) \<open>ks \<noteq> []\<close> by simp
    qed
  qed
qed

text \<open>C29. Deleting in bulk removes exactly the keys of the request from the map, with one rebuild of the
  context, or it changes nothing: when the context cannot be built, every removed rule is back at its
  position and the contexts are as before. With memory and a compiler that accepts the remaining rules, a
  request that names a key succeeds.\<close>

theorem acl_entry_delete_bulk_refines:
  assumes ok: "acl_ok acl" and syn: "synced lib acl hp" and alloc: "alloc_ok acl alloc"
    and run: "rte_table_acl_entry_delete_bulk lib alloc (Some acl) (map Some ks) kf hp = (st, kf', Some acl', hp')"
  shows "acl_ok acl' \<and> synced lib acl' hp' \<and>
    (st = 0 \<longrightarrow> acl_map acl' = acl_map acl |` (- (rule_key acl ` set ks))) \<and>
    (st \<noteq> 0 \<longrightarrow> acl' = acl \<and> ctxs hp' = ctxs hp) \<and>
    (can_build lib alloc (acl_cfg acl) \<longrightarrow> (st = 0 \<longleftrightarrow> ks \<noteq> []))"
  using assms by (rule acl_entry_delete_bulk_spec)

section \<open>Witnesses\<close>

text \<open>One request that gives two entries for one new key: the first one stays.\<close>

definition demo_bulk :: "(rte_table_acl_rule_add_params \<times> rte_pipeline_table_entry) list" where
  "demo_bulk = [(demo_rule 5 0, demo_entry 7), (demo_rule 5 1, demo_entry 8)]"

lemma demo_add_bulk:
  "\<exists>kf' ptrs'. rte_table_acl_entry_add_bulk plain_lib demo_alloc (Some demo0) (map (Some \<circ> fst) demo_bulk)
     (map (Some \<circ> snd) demo_bulk) [False, False] [Some 0, Some 0] demo_heap0 = (0, kf', ptrs', Some demo1, demo_heap1)"
  by (simp add: demo_bulk_def bulk_arg_bad_def rte_table_acl_entry_add_bulk_def table_search_def rte_table_acl_build_def
      rte_acl_create_def commit_entries_def
      acl_params_def rte_acl_add_rules_def acl_add_rules_def acl_check_rule_def rte_acl_build_def ctx_at_def ctx_set_def
      rte_acl_free_def demo0_def demo1_def demo_heap0_def demo_heap1_def demo_ctx1_def demo_alloc_def demo_rule_def
      plain_lib_def new_rule_def rule_key_def flip_name_def set_rule_def set_entry_def Let_def numeral_3_eq_3 numeral_2_eq_2
      upt_rec)

theorem acl_entry_add_bulk_refines_witness:
  "acl_map demo1 [demo_field 5] = Some (RTE_ACL_MAX_PRIORITY, demo_entry 7)"
proof -
  obtain kf' ptrs' where "rte_table_acl_entry_add_bulk plain_lib demo_alloc (Some demo0) (map (Some \<circ> fst) demo_bulk)
     (map (Some \<circ> snd) demo_bulk) [False, False] [Some 0, Some 0] demo_heap0 = (0, kf', ptrs', Some demo1, demo_heap1)"
    using demo_add_bulk by blast
  from acl_entry_add_bulk_refines [OF demo0_ok _ this] have
    "acl_map demo1 = bulk_map (acl_map demo0) {} (bulk_request demo0 demo_bulk)" by (simp add: demo_bulk_def)
  then show ?thesis
    using demo0_map by (simp add: demo_bulk_def bulk_request_def demo_rule_def rule_key_def demo0_def)
qed

lemma demo_delete_bulk:
  "\<exists>kf'. rte_table_acl_entry_delete_bulk plain_lib demo_alloc (Some demo1) (map Some [[demo_field 5], [demo_field 6]])
     [False, False] demo_heap1 =
     (0, kf', Some (demo1\<lparr>acl_rule_list := [None, None, None], acl_name_id := True, acl_ctx := None\<rparr>), demo_heap1\<lparr>ctxs := [], fresh := 2\<rparr>)"
  by (simp add: rte_table_acl_entry_delete_bulk_def delete_search_def rte_table_acl_build_def rte_acl_create_def
      acl_params_def rte_acl_free_def demo0_def demo1_def demo_heap1_def demo_ctx1_def demo_alloc_def demo_rule_def
      plain_lib_def new_rule_def rule_key_def flip_name_def set_rule_def set_entry_def Let_def numeral_3_eq_3)

theorem acl_entry_delete_bulk_refines_witness:
  "acl_map (demo1\<lparr>acl_rule_list := [None, None, None], acl_name_id := True, acl_ctx := None\<rparr>) [demo_field 5] = None \<and>
   acl_map demo1 [demo_field 5] \<noteq> None"
proof -
  obtain kf' where "rte_table_acl_entry_delete_bulk plain_lib demo_alloc (Some demo1) (map Some [[demo_field 5], [demo_field 6]])
     [False, False] demo_heap1 =
     (0, kf', Some (demo1\<lparr>acl_rule_list := [None, None, None], acl_name_id := True, acl_ctx := None\<rparr>), demo_heap1\<lparr>ctxs := [], fresh := 2\<rparr>)"
    using demo_delete_bulk by blast
  from acl_entry_delete_bulk_refines [OF demo1_ok this] have
    "acl_map (demo1\<lparr>acl_rule_list := [None, None, None], acl_name_id := True, acl_ctx := None\<rparr>) =
      acl_map demo1 |` (- (rule_key demo1 ` {[demo_field 5], [demo_field 6]}))" by simp
  moreover have "rule_key demo1 [v] = [v]" for v by (simp add: rule_key_def demo1_def demo0_def)
  moreover have "acl_map demo1 [demo_field 5] \<noteq> None"
    by (simp add: acl_map_def table_search_def demo1_def demo0_def rule_key_def demo_rule_def numeral_3_eq_3)
  ultimately show ?thesis by simp
qed

end
