(* ===== verification/Table_Acl_Found.thy ===== *)
theory Table_Acl_Found
  imports Table_Acl_Bulk
begin

text \<open>
  What the bulk operations of the ACL table report: for a request with distinct keys, \<open>keys_found\<close> tells after
  success which keys were in the table before, and every entry has a position; after a failed addition of new
  keys only, the pointers are as they were.
\<close>

section \<open>Adding\<close>

definition has :: "'cfg rte_table_acl \<Rightarrow> rte_acl_field list \<Rightarrow> bool" where
  "has acl k \<longleftrightarrow> (\<exists>i r. rule_in acl i r \<and> ar_field r = k)"

lemma has_map: "acl_ok acl \<Longrightarrow> has acl k \<longleftrightarrow> acl_map acl k \<noteq> None"
  using acl_map_None [of acl k] by (auto simp: has_def)

lemma has_set_entry [simp]: "has (set_entry p e acl) k = has acl k"
  by (simp add: has_def rule_in_def set_entry_def)

lemma has_set_rule:
  assumes "1 \<le> p" "p < acl_n_rules acl" "length (acl_rule_list acl) = acl_n_rules acl" and "acl_rule_list acl ! p = None"
  shows "has (set_rule p (Some r) acl) k \<longleftrightarrow> k = ar_field r \<or> has acl k"
proof -
  have "rule_in (set_rule p (Some r) acl) i q \<longleftrightarrow> (if i = p then q = r else rule_in acl i q)" for i q
    using assms by (auto simp: rule_in_def set_rule_def)
  moreover have "\<not> rule_in acl p q" for q using assms(4) by (simp add: rule_in_def)
  ultimately show ?thesis unfolding has_def by metis
qed

lemma rule_key_set [simp]: "rule_key (set_entry p e acl) = rule_key acl" "rule_key (set_rule p r acl) = rule_key acl"
  by (simp_all add: rule_key_def set_entry_def set_rule_def fun_eq_iff)

abbreviation param_key :: "'cfg rte_table_acl \<Rightarrow> rte_table_acl_rule_add_params \<times> rte_pipeline_table_entry \<Rightarrow> rte_acl_field list" where
  "param_key acl x \<equiv> rule_key acl (rap_field_value (fst x))"

lemma add_bulk_loop_found:
  assumes "add_bulk_loop l i (acl, kf, ptrs, rp) = (err, acl1, kf1, ptrs1, rp1)"
    and "length (acl_rule_list acl) = acl_n_rules acl" "0 < acl_n_rules acl" and "distinct (map (param_key acl) l)"
    and "length kf = i + length l" "length ptrs = i + length l" "length rp = i + length l"
    and "\<forall>j < length l. \<not> kf ! (i + j) \<and> rp ! (i + j) = 0"
  shows "length kf1 = i + length l \<and> length ptrs1 = i + length l \<and> length rp1 = i + length l \<and>
    (\<forall>j < i. kf1 ! j = kf ! j \<and> ptrs1 ! j = ptrs ! j \<and> rp1 ! j = rp ! j) \<and>
    (\<not> err \<longrightarrow> (\<forall>j < length l. kf1 ! (i + j) = has acl (param_key acl (l ! j)) \<and> (rp1 ! (i + j) = 0 \<longleftrightarrow> kf1 ! (i + j)) \<and>
       (kf1 ! (i + j) \<longrightarrow> ptrs1 ! (i + j) \<noteq> None))) \<and>
    ((\<forall>x \<in> set l. \<not> has acl (param_key acl x)) \<longrightarrow> ptrs1 = ptrs \<and> acl_action_table acl1 = acl_action_table acl)"
  using assms
proof (induction l arbitrary: i acl kf ptrs rp)
  case Nil
  then show ?case by simp
next
  case (Cons x l)
  obtain rule e where x: "x = (rule, e)" by (cases x)
  let ?k = "rule_key acl (rap_field_value rule)"
  have z: "\<not> kf ! i" "rp ! i = 0" using Cons.prems(8) by force+
  have dist: "?k \<notin> param_key acl ` set l" "distinct (map (param_key acl) l)" using Cons.prems(4) x by simp_all
  from table_search_len [OF Cons.prems(2,3), of ?k] show ?case
  proof (elim disjE exE conjE)
    fix p r assume s: "table_search acl ?k = Inl p" "rule_in acl p r" "ar_field r = ?k"
    then have h: "has acl ?k" by (auto simp: has_def)
    have a: "add_bulk_loop l (i + 1) (set_entry p e acl, kf[i := True], ptrs[i := Some p], rp) = (err, acl1, kf1, ptrs1, rp1)"
      using Cons.prems(1) x s(1) by simp
    have u: "\<forall>j < length l. \<not> kf[i := True] ! (i + 1 + j) \<and> rp ! (i + 1 + j) = 0"
      using Cons.prems(8) by (auto dest: spec [of _ "Suc _"])
    from Cons.IH [OF a] Cons.prems(2-7) dist(2) u
    have IH: "length kf1 = i + 1 + length l" "length ptrs1 = i + 1 + length l" "length rp1 = i + 1 + length l"
      "\<forall>j < i + 1. kf1 ! j = kf[i := True] ! j \<and> ptrs1 ! j = ptrs[i := Some p] ! j \<and> rp1 ! j = rp ! j"
      "\<not> err \<longrightarrow> (\<forall>j < length l. kf1 ! (i + 1 + j) = has acl (param_key acl (l ! j)) \<and> (rp1 ! (i + 1 + j) = 0 \<longleftrightarrow> kf1 ! (i + 1 + j)) \<and>
       (kf1 ! (i + 1 + j) \<longrightarrow> ptrs1 ! (i + 1 + j) \<noteq> None))"
      by simp_all
    show ?thesis
    proof (intro conjI impI allI)
      fix j assume "\<not> err" "j < length (x # l)"
      then show "kf1 ! (i + j) = has acl (param_key acl ((x # l) ! j))" "(rp1 ! (i + j) = 0) = kf1 ! (i + j)"
        using IH(4,5) h x z Cons.prems(5) by (cases j; force)+
      assume "kf1 ! (i + j)"
      then show "ptrs1 ! (i + j) \<noteq> None" using IH(4,5) \<open>\<not> err\<close> \<open>j < length (x # l)\<close> Cons.prems(6) by (cases j) force+
    next
      assume "\<forall>y \<in> set (x # l). \<not> has acl (param_key acl y)"
      then show "ptrs1 = ptrs" "acl_action_table acl1 = acl_action_table acl" using h x by simp_all
    qed (use IH in auto)
  next
    fix p assume s: "table_search acl ?k = Inr (Some p)" and p: "1 \<le> p" "p < acl_n_rules acl" "acl_rule_list acl ! p = None"
      and no: "\<forall>i r. rule_in acl i r \<longrightarrow> ar_field r \<noteq> ?k"
    let ?acl = "set_rule p (Some (new_rule acl rule p)) acl"
    have h: "\<not> has acl ?k" using no by (auto simp: has_def)
    have a: "add_bulk_loop l (i + 1) (?acl, kf, ptrs, rp[i := p]) = (err, acl1, kf1, ptrs1, rp1)" using Cons.prems(1) x s by simp
    have hs: "has ?acl (param_key acl y) = has acl (param_key acl y)" if "y \<in> set l" for y
    proof -
      have "param_key acl y \<noteq> ?k" using dist(1) that by (metis image_eqI)
      then show ?thesis using has_set_rule [OF p(1,2) Cons.prems(2) p(3), of "new_rule acl rule p"] by simp
    qed
    have u: "\<forall>j < length l. \<not> kf ! (i + 1 + j) \<and> rp[i := p] ! (i + 1 + j) = 0"
      using Cons.prems(8) by (auto dest: spec [of _ "Suc _"])
    from Cons.IH [OF a] Cons.prems(2-7) dist(2) u
    have IH: "length kf1 = i + 1 + length l" "length ptrs1 = i + 1 + length l" "length rp1 = i + 1 + length l"
      "\<forall>j < i + 1. kf1 ! j = kf ! j \<and> ptrs1 ! j = ptrs ! j \<and> rp1 ! j = rp[i := p] ! j"
      "\<not> err \<longrightarrow> (\<forall>j < length l. kf1 ! (i + 1 + j) = has ?acl (param_key acl (l ! j)) \<and> (rp1 ! (i + 1 + j) = 0 \<longleftrightarrow> kf1 ! (i + 1 + j)) \<and>
       (kf1 ! (i + 1 + j) \<longrightarrow> ptrs1 ! (i + 1 + j) \<noteq> None))"
      "(\<forall>x \<in> set l. \<not> has ?acl (param_key acl x)) \<longrightarrow> ptrs1 = ptrs \<and> acl_action_table acl1 = acl_action_table acl"
      by simp_all
    show ?thesis
    proof (intro conjI impI allI)
      fix j assume "\<not> err" "j < length (x # l)"
      then have "kf1 ! (i + j) = has acl (param_key acl ((x # l) ! j)) \<and> (rp1 ! (i + j) = 0) = kf1 ! (i + j) \<and>
          (kf1 ! (i + j) \<longrightarrow> ptrs1 ! (i + j) \<noteq> None)"
      proof (cases j)
        case 0
        have "i < i + 1" by simp
        then have "kf1 ! i = kf ! i" "rp1 ! i = rp[i := p] ! i" using IH(4) by blast+
        then show ?thesis using 0 h x z(1) p(1) Cons.prems(7) by simp
      next
        case (Suc j')
        then have j': "j' < length l" using \<open>j < length (x # l)\<close> by simp
        show ?thesis using IH(5) \<open>\<not> err\<close> j' hs [OF nth_mem [OF j']] Suc by simp
      qed
      then show "kf1 ! (i + j) = has acl (param_key acl ((x # l) ! j))" "(rp1 ! (i + j) = 0) = kf1 ! (i + j)"
        "kf1 ! (i + j) \<Longrightarrow> ptrs1 ! (i + j) \<noteq> None" by blast+
    next
      assume "\<forall>y \<in> set (x # l). \<not> has acl (param_key acl y)"
      then show "ptrs1 = ptrs" "acl_action_table acl1 = acl_action_table acl" using IH(6) hs by simp_all
    qed (use IH in auto)
  next
    assume "table_search acl ?k = Inr None"
    then show ?thesis using Cons.prems x by auto
  qed
qed

lemma commit_entries_found:
  assumes "commit_entries es rp kf ptrs acl = (kf', ptrs', acl')" and "length kf = length rp" "length ptrs = length rp"
  shows "length kf' = length rp \<and> length ptrs' = length rp \<and>
    (\<forall>j < length rp. kf' ! j = (rp ! j = 0 \<and> kf ! j) \<and> ptrs' ! j = (if rp ! j = 0 then ptrs ! j else Some (rp ! j)))"
proof -
  let ?f = "\<lambda>i (kf, ptrs, acl). if rp ! i = 0 then (kf, ptrs, acl)
        else (kf[i := False], ptrs[i := Some (rp ! i)], set_entry (rp ! i) (es ! i) acl)"
  have "\<exists>kf' ptrs' acl'. fold ?f [0 ..< n] (kf, ptrs, acl) = (kf', ptrs', acl') \<and> length kf' = length rp \<and> length ptrs' = length rp \<and>
      (\<forall>j < length rp. (j < n \<longrightarrow> kf' ! j = (rp ! j = 0 \<and> kf ! j) \<and> ptrs' ! j = (if rp ! j = 0 then ptrs ! j else Some (rp ! j))) \<and>
        (n \<le> j \<longrightarrow> kf' ! j = kf ! j \<and> ptrs' ! j = ptrs ! j))" if "n \<le> length rp" for n
    using that
  proof (induction n)
    case 0
    then show ?case using assms(2,3) by simp
  next
    case (Suc n)
    then obtain kf1 ptrs1 acl1 where IH: "fold ?f [0 ..< n] (kf, ptrs, acl) = (kf1, ptrs1, acl1)" "length kf1 = length rp" "length ptrs1 = length rp"
        "\<forall>j < length rp. (j < n \<longrightarrow> kf1 ! j = (rp ! j = 0 \<and> kf ! j) \<and> ptrs1 ! j = (if rp ! j = 0 then ptrs ! j else Some (rp ! j))) \<and>
          (n \<le> j \<longrightarrow> kf1 ! j = kf ! j \<and> ptrs1 ! j = ptrs ! j)" by auto
    show ?case using IH Suc.prems by (cases "rp ! n = 0") (auto simp: less_Suc_eq nth_list_update)
  qed
  from this [of "length rp"] show ?thesis using assms(1) by (auto simp: commit_entries_def)
qed

lemma clear_rules_actions [simp]: "acl_action_table (clear_rules rp acl) = acl_action_table acl"
proof (induction rp arbitrary: acl)
  case (Cons j rp)
  have "clear_rules (j # rp) acl = clear_rules rp (if j = 0 then acl else set_rule j None acl)" by (simp add: clear_rules_def)
  then show ?case using Cons.IH by simp
qed (simp add: clear_rules_def)

text \<open>The answer of an addition.\<close>

lemma acl_entry_add_bulk_found:
  assumes ok: "acl_ok acl" and len: "length ptrs = length l" and dist: "distinct (map (param_key acl) l)"
    and run: "rte_table_acl_entry_add_bulk lib alloc (Some acl) (map (Some \<circ> fst) l) (map (Some \<circ> snd) l) kf ptrs hp =
      (st, kf', ptrs', Some acl', hp')"
  shows "st = 0 \<Longrightarrow> kf' = map (\<lambda>x. acl_map acl (param_key acl x) \<noteq> None) l \<and> length ptrs' = length l \<and> None \<notin> set ptrs'"
    and "\<forall>x \<in> set l. acl_map acl (param_key acl x) = None \<Longrightarrow> st \<noteq> 0 \<Longrightarrow>
      ptrs' = ptrs \<and> acl_action_table acl' = acl_action_table acl"
proof -
  let ?keys = "map (Some \<circ> fst) l" and ?ents = "map (Some \<circ> snd) l" and ?n = "length l"
  have tm: "map the ?keys = map fst l" "map the ?ents = map snd l" by (simp_all add: comp_def)
  obtain err acl1 kf1 ptrs1 rp where pass: "add_bulk_loop l 0 (acl, replicate ?n False, ptrs, replicate ?n 0) = (err, acl1, kf1, ptrs1, rp)"
    by (metis prod_cases5)
  have "length (acl_rule_list acl) = acl_n_rules acl" "0 < acl_n_rules acl" using ok by (simp_all add: acl_ok_def)
  from add_bulk_loop_found [OF pass this dist] len
  have f: "length kf1 = ?n" "length ptrs1 = ?n" "length rp = ?n"
      "\<not> err \<longrightarrow> (\<forall>j < ?n. kf1 ! j = (acl_map acl (param_key acl (l ! j)) \<noteq> None) \<and> (rp ! j = 0 \<longleftrightarrow> kf1 ! j) \<and> (kf1 ! j \<longrightarrow> ptrs1 ! j \<noteq> None))"
      "(\<forall>x \<in> set l. acl_map acl (param_key acl x) = None) \<longrightarrow> ptrs1 = ptrs \<and> acl_action_table acl1 = acl_action_table acl"
    by (simp_all add: has_map [OF ok])
  obtain b hp1 where b: "rte_table_acl_build lib alloc (flip_name acl1) hp = (b, hp1)" by (cases "rte_table_acl_build lib alloc (flip_name acl1) hp")
  obtain kf2 ptrs2 acl2 where co: "commit_entries (map snd l) rp kf1 ptrs1 ((flip_name acl1)\<lparr>acl_ctx := the b\<rparr>) = (kf2, ptrs2, acl2)"
    by (metis prod_cases3)
  note c = commit_entries_found [OF co f(1) [folded f(3)] f(2) [folded f(3)]]
  have main: "(st, kf', ptrs', acl_action_table acl') = (if ?n = 0 \<or> list_ex bulk_arg_bad (zip ?keys (zip ?ents ptrs))
      then (- EINVAL, kf, ptrs, acl_action_table acl)
      else if err then (- ENOSPC, kf1, ptrs1, acl_action_table acl1)
      else if list_all (\<lambda>j. j = 0) rp then (0, kf1, ptrs1, acl_action_table acl1)
      else if b = None then (- EINVAL, kf1, ptrs1, acl_action_table acl1) else (0, kf2, ptrs2, acl_action_table acl2))"
    using run pass b co unfolding rte_table_acl_entry_add_bulk_def tm zip_map_fst_snd by (auto simp: Let_def split: if_splits option.splits)
  show "kf' = map (\<lambda>x. acl_map acl (param_key acl x) \<noteq> None) l \<and> length ptrs' = length l \<and> None \<notin> set ptrs'" if "st = 0"
  proof (cases "list_all (\<lambda>j. j = 0) rp")
    case True
    then have r: "\<not> err" "kf' = kf1" "ptrs' = ptrs1" using main that by (simp_all split: if_splits)
    then show ?thesis using f True by (auto simp: list_all_length in_set_conv_nth intro!: nth_equalityI)
  next
    case False
    then have r: "\<not> err" "kf' = kf2" "ptrs' = ptrs2" using main that by (simp_all split: if_splits)
    then show ?thesis using f(3,4) c by (auto simp: in_set_conv_nth intro!: nth_equalityI split: if_splits)
  qed
  show "ptrs' = ptrs \<and> acl_action_table acl' = acl_action_table acl" if "\<forall>x \<in> set l. acl_map acl (param_key acl x) = None" "st \<noteq> 0"
    using main that f(5) by (simp split: if_splits)
qed

section \<open>Deleting\<close>

lemma delete_bulk_loop_found:
  assumes "delete_bulk_loop ks i kf acl = (hits, kf', acl1)" and "acl_ok acl" and "distinct (map (rule_key acl) ks)"
    and "length kf = i + length ks"
  shows "length kf' = i + length ks \<and> length hits = length ks \<and>
    (\<forall>j < length ks. (hits ! j \<noteq> None \<longleftrightarrow> acl_map acl (rule_key acl (ks ! j)) \<noteq> None) \<and> (hits ! j = None \<longrightarrow> \<not> kf' ! (i + j))) \<and>
    (\<forall>j < i. kf' ! j = kf ! j)"
  using assms
proof (induction ks arbitrary: i kf acl hits)
  case (Cons k ks)
  let ?key = "rule_key acl k"
  obtain hit acl2 where d: "delete_search ?key acl = (hit, acl2)" by (cases "delete_search ?key acl")
  obtain hits2 where loop: "delete_bulk_loop ks (i + 1) (if hit = None then kf[i := False] else kf) acl2 = (hits2, kf', acl1)"
      "hits = hit # hits2" using Cons.prems(1) d by (auto split: prod.splits)
  have one: "delete_bulk_loop [k] 0 [False] acl = ([hit], if hit = None then [False][0 := False] else [False], acl2)" using d by simp
  then have a: "acl_ok acl2" "acl_map acl2 = acl_map acl |` (- {?key})" using delete_bulk_pass [OF one Cons.prems(2)] by simp_all
  have rk: "rule_key acl2 = rule_key acl" using d delete_search_eq [OF Cons.prems(2), of ?key] by (auto split: sum.splits)
  have hit: "hit \<noteq> None \<longleftrightarrow> acl_map acl ?key \<noteq> None"
    using d delete_search_eq [OF Cons.prems(2), of ?key] by (auto simp: acl_map_def split: sum.splits)
  have other: "acl_map acl2 (rule_key acl2 (ks ! j)) = acl_map acl (rule_key acl (ks ! j))" if "j < length ks" for j
  proof -
    have "rule_key acl (ks ! j) \<noteq> ?key" using Cons.prems(3) nth_mem [OF that] by (simp add: image_iff) metis
    then show ?thesis using a(2) rk by (simp add: restrict_map_def)
  qed
  from Cons.IH [OF loop(1) a(1)] Cons.prems(3,4) rk
  have IH: "length kf' = i + 1 + length ks" "length hits2 = length ks"
      "\<forall>j < length ks. (hits2 ! j \<noteq> None \<longleftrightarrow> acl_map acl (rule_key acl (ks ! j)) \<noteq> None) \<and> (hits2 ! j = None \<longrightarrow> \<not> kf' ! (i + 1 + j))"
      "\<forall>j < i + 1. kf' ! j = (if hit = None then kf[i := False] else kf) ! j"
    using other by (auto simp: rk)
  show ?case
  proof (intro conjI allI impI)
    fix j assume j: "j < length (k # ks)"
    show "(hits ! j \<noteq> None) = (acl_map acl (rule_key acl ((k # ks) ! j)) \<noteq> None)"
      using j IH(3) hit loop(2) by (cases j) auto
    assume "hits ! j = None"
    then show "\<not> kf' ! (i + j)" using j IH(3,4) loop(2) Cons.prems(4) by (cases j) auto
  next
    fix j assume "j < i"
    then show "kf' ! j = kf ! j" using IH(4) by auto
  qed (use IH loop(2) in simp_all)
qed simp

lemma acl_entry_delete_bulk_found:
  assumes ok: "acl_ok acl" and dist: "distinct (map (rule_key acl) ks)" and len: "length kf = length ks"
    and run: "rte_table_acl_entry_delete_bulk lib alloc (Some acl) (map Some ks) kf hp = (0, kf', t, hp')"
  shows "kf' = map (\<lambda>k. acl_map acl (rule_key acl k) \<noteq> None) ks"
proof -
  obtain hits kf1 acl1 where pass: "delete_bulk_loop ks 0 kf acl = (hits, kf1, acl1)" by (metis prod_cases3)
  note f = delete_bulk_loop_found [OF pass ok dist] 
  have tm: "map the (map Some ks) = ks" by (simp add: comp_def)
  have "kf' = (if list_all (\<lambda>h. h = None) hits then kf1 else map (\<lambda>(h, kf). if h = None then kf else True) (zip hits kf1))"
    using run pass unfolding rte_table_acl_entry_delete_bulk_def tm by (auto simp: Let_def split: if_splits option.splits prod.splits)
  then show ?thesis using f len by (auto simp: list_all_length intro!: nth_equalityI)
qed

end
