(* ===== verification/Firewall_Correct.thy ===== *)
theory Firewall_Correct
  imports Firewall_Init Table_Acl_Found
begin

text \<open>
  Correctness of the firewall back end. The invariant \<open>fw_inv\<close> puts together the filter's invariant, the
  chain of enabled ports, and that the numbers in the back end's arrays are the pipeline's. Every request
  keeps it; adding, deleting and the defaults change the rule map and the default entry as specified.
\<close>

section \<open>Pipelines that differ in counters and next pointers\<close>

definition core_in :: "('g, 'a, 'h, 'm) rte_port_in \<Rightarrow> ('g, 'a, 'h, 'm) rte_port_in" where
  "core_in port = port\<lparr>pin_next := None, pin_n_pkts_dropped_by_ah := 0\<rparr>"

definition core_out :: "('g, 'a, 'h, 'm) rte_port_out \<Rightarrow> ('g, 'a, 'h, 'm) rte_port_out" where
  "core_out port = port\<lparr>pout_n_pkts_dropped_by_ah := 0\<rparr>"

definition core_table :: "('g, 't, 'h, 'k, 'm) rte_table \<Rightarrow> ('g, 't, 'h, 'k, 'm) rte_table" where
  "core_table t = t\<lparr>default_entry := zero_entry, n_pkts_dropped_by_lkp_hit_ah := 0, n_pkts_dropped_by_lkp_miss_ah := 0,
     n_pkts_dropped_lkp_hit := 0, n_pkts_dropped_lkp_miss := 0\<rparr>"

definition same_core ::
  "('g, 'a, 't, 'h, 'k, 'm) rte_pipeline \<Rightarrow> ('g, 'a, 't, 'h, 'k, 'm) rte_pipeline \<Rightarrow> bool" where
  "same_core p q \<longleftrightarrow> map core_in (ports_in q) = map core_in (ports_in p) \<and>
     map core_out (ports_out q) = map core_out (ports_out p) \<and> map core_table (tables q) = map core_table (tables p)"

lemma core_inD:
  "core_in a = core_in b \<Longrightarrow> pin_ops a = pin_ops b \<and> pin_action a = pin_action b \<and> pin_burst_size a = pin_burst_size b \<and>
     pin_table_id a = pin_table_id b \<and> pin_h a = pin_h b"
  by (cases a, cases b) (simp add: core_in_def)

lemma core_outD:
  "core_out a = core_out b \<Longrightarrow> pout_ops a = pout_ops b \<and> pout_action a = pout_action b \<and> pout_h a = pout_h b"
  by (cases a, cases b) (simp add: core_out_def)

lemma core_tableD:
  "core_table a = core_table b \<Longrightarrow> tbl_ops a = tbl_ops b \<and> tbl_action_hit a = tbl_action_hit b \<and>
     tbl_action_miss a = tbl_action_miss b \<and> table_next_id a = table_next_id b \<and> h_table a = h_table b"
  by (cases a, cases b) (simp add: core_table_def)

lemma core_simps [simp]:
  "core_in (port\<lparr>pin_next := n\<rparr>) = core_in port" "core_in (port\<lparr>pin_n_pkts_dropped_by_ah := c\<rparr>) = core_in port"
  "core_out (port'\<lparr>pout_n_pkts_dropped_by_ah := c\<rparr>) = core_out port'" "core_table (t\<lparr>default_entry := e\<rparr>) = core_table t"
  "core_table (t\<lparr>n_pkts_dropped_by_lkp_hit_ah := 0, n_pkts_dropped_by_lkp_miss_ah := 0,
     n_pkts_dropped_lkp_hit := 0, n_pkts_dropped_lkp_miss := 0\<rparr>) = core_table t"
  by (simp_all add: core_in_def core_out_def core_table_def)

lemma map_update_same: "f y = f (xs ! i) \<Longrightarrow> map f (xs[i := y]) = map f xs"
  by (simp add: map_update) (metis list_update_beyond list_update_id map_update not_le nth_map)

lemma map_eq_ball:
  assumes "map f xs = map f ys" and "\<forall>y \<in> set ys. P y" and "\<And>a b. f a = f b \<Longrightarrow> P b \<Longrightarrow> P a"
  shows "\<forall>x \<in> set xs. P x"
proof
  fix x assume "x \<in> set xs"
  then have "f x \<in> set (map f ys)" using assms(1) by (metis image_eqI set_map)
  then show "P x" using assms(2,3) by auto
qed

lemma same_core_refl [simp]: "same_core p p"
  by (simp add: same_core_def)

lemma same_coreD:
  assumes "same_core p q"
  shows "length (ports_in q) = length (ports_in p)" "length (ports_out q) = length (ports_out p)"
    "length (tables q) = length (tables p)"
  using assms unfolding same_core_def by (metis length_map)+

lemma same_core_table:
  assumes "same_core p q" and "t < length (tables p)"
  shows "core_table (tables q ! t) = core_table (tables p ! t)"
proof -
  have "map core_table (tables q) ! t = map core_table (tables p) ! t" using assms(1) by (simp add: same_core_def)
  then show ?thesis using assms(2) same_coreD(3) [OF assms(1)] by simp
qed

lemma entry_ok_core:
  assumes "same_core p q" and "t < length (tables p)"
  shows "entry_ok q meta t e = entry_ok p meta t e"
  using same_coreD [OF assms(1)] core_tableD [OF same_core_table [OF assms]]
  by (simp add: entry_ok_def split: rte_pipeline_action.split)

lemma tables_ok_core:
  assumes "same_core p q"
  shows "tables_ok lib p as hp \<Longrightarrow> tables_ok lib q as hp"
  using core_tableD [OF same_core_table [OF assms]] entry_ok_core [OF assms] same_coreD(3) [OF assms]
  unfolding tables_ok_def acl_table_def by metis

lemma filter_inv_core:
  assumes inv: "filter_inv K outside fuel lib mt asserts sketch p g" and core: "same_core p q"
    and de: "\<forall>t < length (tables p). entry_ok p False t (default_entry (tables q ! t))"
  shows "filter_inv K outside fuel lib mt asserts sketch q g"
proof -
  note len = same_coreD [OF core]
  have "\<forall>port \<in> set (ports_in q). (ring_port_in asserts sketch port \<and>
      pin_h port < length (readers g) \<and> readers g ! pin_h port \<noteq> None) \<and>
      pin_burst_size port \<le> RTE_PORT_IN_BURST_SIZE_MAX \<and> pin_table_id port < length (tables p)" (is "\<forall>port \<in> _. ?P port")
  proof (rule map_eq_ball [of core_in _ "ports_in p"])
    fix a b :: "(('a, 'b) world, port_arg, nat, nat) rte_port_in" assume "core_in a = core_in b"
    from core_inD [OF this] show "?P b \<Longrightarrow> ?P a" by (simp add: ring_port_in_def)
  qed (use core inv in \<open>auto simp: same_core_def filter_inv_def topology_ok_def\<close>)
  moreover have "\<forall>port \<in> set (ports_out q). port_out_ok outside fuel g port \<and> pout_action port = None"
      (is "\<forall>port \<in> _. ?R port")
  proof (rule map_eq_ball [of core_out _ "ports_out p"])
    fix a b :: "(('a, 'b) world, port_arg, nat, nat) rte_port_out" assume "core_out a = core_out b"
    from core_outD [OF this] show "?R b \<Longrightarrow> ?R a" by (simp add: port_out_ok_def)
  qed (use core inv in \<open>auto simp: same_core_def filter_inv_def topology_ok_def no_out_action_def list_all_iff\<close>)
  moreover have "no_table_action (tables q ! t) \<and> entry_ok q False t (default_entry (tables q ! t))" if "t < length (tables q)" for t
  proof -
    have t: "t < length (tables p)" using that len by simp
    then have "no_table_action (tables p ! t)" using inv by (simp add: filter_inv_def topology_ok_def)
    then show ?thesis using t de entry_ok_core [OF core t] core_tableD [OF same_core_table [OF core t]]
      by (simp add: no_table_action_def)
  qed
  moreover have "mem_ok (pool_ok outside (\<lambda>as hp pkt. tables_ok lib q as hp \<and> ipv4_only asserts pkt \<and> K as hp pkt)) g"
    using inv tables_ok_core [OF core] by (simp add: filter_inv_def mem_ok_def pool_ok_def)
  ultimately show ?thesis
    using inv len by (simp add: filter_inv_def topology_ok_def no_out_action_def list_all_iff)
qed

section \<open>The invariant\<close>

text \<open>What is fixed while the firewall runs: which memory is outside, the bound on the segments of an mbuf, the
  classifier with its matching relation, the build options, the number of rule positions and the
  allocators of tables and contexts.\<close>

record 'rt fw_setup =
  su_outside :: "nat \<Rightarrow> bool"
  su_fuel :: nat
  su_lib :: "(rte_acl_field_def list, 'rt, nat \<Rightarrow> u8) acl_lib"
  su_match :: "rte_acl_field_def list \<Rightarrow> rte_acl_rule \<Rightarrow> (nat \<Rightarrow> u8) \<Rightarrow> bool"
  su_asserts :: bool
  su_sketch :: bool
  su_n_rules :: nat
  su_table :: "'rt fw_world \<Rightarrow> (rte_acl_rule option list \<times> rte_pipeline_table_entry list \<times> u64 \<times> u64) option"
  su_ctx :: "'rt fw_world \<Rightarrow> (nat \<times> rte_acl_rule list) option"

definition ids_ok :: "'rt pipeline_firewall \<Rightarrow> bool" where
  "ids_ok p \<longleftrightarrow> be_n_ports_in p = length (ports_in (be_p p)) \<and> be_n_ports_out p = length (ports_out (be_p p)) \<and>
     be_n_tables p = 1 \<and> length (tables (be_p p)) = 1 \<and>
     be_n_ports_in p \<le> length (be_port_in_id p) \<and> be_n_ports_out p \<le> length (be_port_out_id p) \<and> be_table_id p \<noteq> [] \<and>
     (\<forall>i < be_n_ports_in p. be_port_in_id p ! i = i) \<and> (\<forall>i < be_n_ports_out p. be_port_out_id p ! i = i) \<and>
     be_table_id p ! 0 = 0"

definition acl_sized :: "nat \<Rightarrow> nat \<Rightarrow> 'cfg rte_table_acl option list \<Rightarrow> bool" where
  "acl_sized h n as \<longleftrightarrow> (\<forall>acl. as ! h = Some acl \<longrightarrow> acl_n_rules acl = n)"

definition fw_inv :: "'rt fw_setup \<Rightarrow> 'rt pipeline_firewall \<Rightarrow> 'rt fw_world \<Rightarrow> bool" where
  "fw_inv S p g \<longleftrightarrow> filter_inv (\<lambda>as hp pkt. acl_sized (h_table (tables (be_p p) ! 0)) (su_n_rules S) as) (su_outside S)
       (Suc (su_fuel S)) (su_lib S) (su_match S) (su_asserts S) (su_sketch S) (be_p p) g \<and>
     port_chain (be_p p) \<and> ids_ok p \<and> tbl_ops (tables (be_p p) ! 0) = rte_table_acl_ops (su_lib S) (su_table S) (su_ctx S) \<and>
     (\<forall>g n mem. su_ctx S g = Some (n, mem) \<longrightarrow> n = 0 \<and> length mem = su_n_rules S)"

text \<open>The table of the firewall, and what the invariant says of it.\<close>

definition fw_acl :: "'rt pipeline_firewall \<Rightarrow> 'rt fw_world \<Rightarrow> rte_acl_field_def list rte_table_acl" where
  "fw_acl p g = the (acls (rest g) ! h_table (tables (be_p p) ! 0))"

lemma fw_aclD:
  assumes "fw_inv S p g"
  shows "at (acls (rest g)) (h_table (tables (be_p p) ! 0)) = Inr (fw_acl p g)" "acl_ok (fw_acl p g)"
    "synced (su_lib S) (fw_acl p g) (acl_hp (rest g))" "acl_n_rules (fw_acl p g) = su_n_rules S"
    "\<And>i r. rule_in (fw_acl p g) i r \<Longrightarrow> entry_ok (be_p p) False 0 (acl_action_table (fw_acl p g) ! i)"
    "alloc_ok (fw_acl p g) (su_ctx S g')" "h_table (tables (be_p p) ! 0) < length (acls (rest g))"
    "acls (rest g) ! h_table (tables (be_p p) ! 0) = Some (fw_acl p g)"
proof -
  let ?h = "h_table (tables (be_p p) ! 0)"
  have t: "tables_ok (su_lib S) (be_p p) (acls (rest g)) (acl_hp (rest g))" "acl_sized ?h (su_n_rules S) (acls (rest g))"
    using assms by (auto simp: fw_inv_def filter_inv_def mem_ok_def pool_ok_def)
  have "0 < length (tables (be_p p))" using assms by (simp add: fw_inv_def ids_ok_def)
  then obtain acl where acl: "?h < length (acls (rest g))" "acls (rest g) ! ?h = Some acl" "acl_ok acl"
      "synced (su_lib S) acl (acl_hp (rest g))"
      "\<forall>i r. rule_in acl i r \<longrightarrow> entry_ok (be_p p) False 0 (acl_action_table acl ! i)"
    using t(1) unfolding tables_ok_def by blast
  have f: "fw_acl p g = acl" using acl(2) by (simp add: fw_acl_def)
  show "at (acls (rest g)) ?h = Inr (fw_acl p g)" "acl_ok (fw_acl p g)"
    "synced (su_lib S) (fw_acl p g) (acl_hp (rest g))" "?h < length (acls (rest g))"
    "acls (rest g) ! ?h = Some (fw_acl p g)" using acl f by (simp_all add: at_def)
  show n: "acl_n_rules (fw_acl p g) = su_n_rules S" using t(2) acl(2) f by (simp add: acl_sized_def)
  show "\<And>i r. rule_in (fw_acl p g) i r \<Longrightarrow> entry_ok (be_p p) False 0 (acl_action_table (fw_acl p g) ! i)"
    using acl(5) f by blast
  show "alloc_ok (fw_acl p g) (su_ctx S g')" using assms n by (simp add: fw_inv_def alloc_ok_def)
qed

text \<open>Changing the pipeline's counters, next pointers and default entries, and changing the memory.\<close>

lemma fw_inv_pipeline:
  assumes inv: "fw_inv S p g" and core: "same_core (be_p p) q" and chain: "port_chain q"
    and de: "entry_ok (be_p p) False 0 (default_entry (tables q ! 0))"
  shows "fw_inv S (p\<lparr>be_p := q\<rparr>) g"
proof -
  note len = same_coreD [OF core]
  have one: "length (tables (be_p p)) = 1" using inv by (simp add: fw_inv_def ids_ok_def)
  then have t: "h_table (tables q ! 0) = h_table (tables (be_p p) ! 0)" "tbl_ops (tables q ! 0) = tbl_ops (tables (be_p p) ! 0)"
    using core_tableD [OF same_core_table [OF core, of 0]] by simp_all
  have "filter_inv (\<lambda>as hp pkt. acl_sized (h_table (tables (be_p p) ! 0)) (su_n_rules S) as) (su_outside S)
       (Suc (su_fuel S)) (su_lib S) (su_match S) (su_asserts S) (su_sketch S) q g"
    by (rule filter_inv_core [OF _ core]) (use inv one de in \<open>simp_all add: fw_inv_def\<close>)
  then show ?thesis using inv chain len t by (simp add: fw_inv_def ids_ok_def)
qed

lemma fw_inv_world:
  assumes inv: "fw_inv S p g"
    and "mem_ok (pool_ok (su_outside S) (\<lambda>as hp pkt. tables_ok (su_lib S) (be_p p) as hp \<and> ipv4_only (su_asserts S) pkt \<and>
      acl_sized (h_table (tables (be_p p) ! 0)) (su_n_rules S) as)) g'"
    and "live (readers g) (readers g')" and "live (sinks g) (sinks g')" and "live (writers g) (writers g')"
  shows "fw_inv S p g'"
  using inv filter_inv_frame [OF _ assms(2-5)] unfolding fw_inv_def by blast

lemma fw_inv_mem:
  assumes "fw_inv S p g"
  shows "mem_ok (pool_ok (su_outside S) (\<lambda>as hp pkt. tables_ok (su_lib S) (be_p p) as hp \<and> ipv4_only (su_asserts S) pkt \<and>
      acl_sized (h_table (tables (be_p p) ! 0)) (su_n_rules S) as)) g"
  using assms by (simp add: fw_inv_def filter_inv_def)

section \<open>Requests keep the invariant\<close>

text \<open>What every handled request guarantees, whatever its answer: the invariant holds again, no packet moved,
  and of the back end's structure only the pipeline may have changed.\<close>

definition kept :: "'rt fw_setup \<Rightarrow> 'rt pipeline_firewall \<Rightarrow> 'rt fw_world \<Rightarrow> 'rt pipeline_firewall \<Rightarrow> 'rt fw_world \<Rightarrow> bool" where
  "kept S p g p' g' \<longleftrightarrow> fw_inv S p' g' \<and> mem_owned enclave_pool g' = mem_owned enclave_pool g \<and>
     p' = p\<lparr>be_p := be_p p'\<rparr> \<and> same_core (be_p p) (be_p p')"

lemma kept_refl: "fw_inv S p g \<Longrightarrow> kept S p g p g"
  by (simp add: kept_def)

lemma keptI:
  assumes "fw_inv S p g'" and "mem_owned enclave_pool g' = mem_owned enclave_pool g" and "same_core (be_p p) q"
    and "port_chain q" and "entry_ok (be_p p) False 0 (default_entry (tables q ! 0))"
  shows "kept S p g (p\<lparr>be_p := q\<rparr>) g'"
  using fw_inv_pipeline [OF assms(1,3-5)] assms(2,3) by (simp add: kept_def)

lemma fw_default_ok:
  assumes "fw_inv S p g"
  shows "entry_ok (be_p p) False 0 (default_entry (tables (be_p p) ! 0))"
  using assms by (simp add: fw_inv_def filter_inv_def topology_ok_def ids_ok_def)

lemma fw_chain: "fw_inv S p g \<Longrightarrow> port_chain (be_p p)"
  by (simp add: fw_inv_def)

lemma ids_okD:
  assumes "fw_inv S p g"
  shows "i < be_n_ports_in p \<Longrightarrow> arr_at (be_port_in_id p) i = Inr i \<and> i < length (ports_in (be_p p))"
    and "i < be_n_ports_out p \<Longrightarrow> arr_at (be_port_out_id p) i = Inr i \<and> i < length (ports_out (be_p p))"
    and "arr_at (be_table_id p) 0 = Inr 0" and "length (tables (be_p p)) = 1" and "be_n_tables p = 1"
  using assms by (auto simp: fw_inv_def ids_ok_def arr_at_def)

lemma ping_kept:
  "fw_inv S p g \<Longrightarrow> \<exists>p' g'. pipeline_msg_req_ping_handler p req g = Inr (rsp_status 0, p', g') \<and> kept S p g p' g'"
  "fw_inv S p g \<Longrightarrow> \<exists>p' g'. pipeline_msg_req_invalid_handler p req g = Inr (rsp_status (- 1), p', g') \<and> kept S p g p' g'"
  by (simp_all add: pipeline_msg_req_ping_handler_def pipeline_msg_req_invalid_handler_def kept_refl)

lemma stats_in_kept:
  assumes inv: "fw_inv S p g"
  shows "\<exists>rsp p' g'. pipeline_msg_req_stats_port_in_handler p req g = Inr (rsp, p', g') \<and> kept S p g p' g' \<and>
    rs_status rsp = (if rq_word req < be_n_ports_in p then 0 else - 1)"
proof (cases "rq_word req < be_n_ports_in p")
  case False
  then show ?thesis using kept_refl [OF inv] by (simp add: pipeline_msg_req_stats_port_in_handler_def rsp_status_def)
next
  case True
  let ?i = "rq_word req" and ?port = "ports_in (be_p p) ! rq_word req"
  have i: "arr_at (be_port_in_id p) ?i = Inr ?i" "?i < length (ports_in (be_p p))" using ids_okD(1) [OF inv True] by simp_all
  then have "?port \<in> set (ports_in (be_p p))" by simp
  then have port: "ring_port_in (su_asserts S) (su_sketch S) ?port" "pin_h ?port < length (readers g)"
      "readers g ! pin_h ?port \<noteq> None"
    using inv by (simp_all add: fw_inv_def filter_inv_def)
  then obtain r where r: "readers g ! pin_h ?port = Some r" by blast
  have ops: "pi_stats (pin_ops ?port) = Some rte_port_ring_reader_stats_read"
    using port(1) by (auto simp: ring_port_in_def rte_port_ring_reader_ops_def rte_port_ring_multi_reader_ops_def)
  let ?g = "g\<lparr>readers := (readers g)[pin_h ?port := Some (r\<lparr>rd_stats := (0, 0)\<rparr>)]\<rparr>"
  let ?q = "(be_p p)\<lparr>ports_in := (ports_in (be_p p))[?i := ?port\<lparr>pin_n_pkts_dropped_by_ah := 0\<rparr>]\<rparr>"
  have rd: "rd_ring r < length (rings g)"
    using enclave.mem_okD(4) [OF fw_inv_mem [OF inv] port(2) r] .
  have "fw_inv S p ?g"
    by (rule fw_inv_world [OF inv]) (use fw_inv_mem [OF inv] rd in \<open>auto simp: mem_ok_def intro!: list_all_list_update\<close>)
  moreover have "mem_owned enclave_pool ?g = mem_owned enclave_pool g" by (simp add: mem_owned_def)
  moreover have "same_core (be_p p) ?q" by (simp add: same_core_def map_update_same)
  moreover have "port_chain ?q"
  proof (rule port_chain_cong [OF fw_chain [OF inv]])
    fix k assume "k < length (ports_in (be_p p))"
    then show "pin_next (ports_in ?q ! k) = pin_next (ports_in (be_p p) ! k)" by (cases "k = ?i") simp_all
  qed simp_all
  ultimately have "kept S p g (p\<lparr>be_p := ?q\<rparr>) ?g" using fw_default_ok [OF inv] by (intro keptI) simp_all
  then show ?thesis using True i r ops port(2)
    by (simp add: pipeline_msg_req_stats_port_in_handler_def rte_pipeline_port_in_stats_read_def low_level_stats_def
        rte_port_ring_reader_stats_read_def at_def Let_def)
qed

lemma stats_out_kept:
  assumes inv: "fw_inv S p g"
  shows "\<exists>rsp p' g'. pipeline_msg_req_stats_port_out_handler p req g = Inr (rsp, p', g') \<and> kept S p g p' g' \<and>
    rs_status rsp = (if rq_word req < be_n_ports_out p then 0 else - 1)"
proof (cases "rq_word req < be_n_ports_out p")
  case False
  then show ?thesis using kept_refl [OF inv] by (simp add: pipeline_msg_req_stats_port_out_handler_def rsp_status_def)
next
  case True
  let ?i = "rq_word req" and ?port = "ports_out (be_p p) ! rq_word req"
  have i: "arr_at (be_port_out_id p) ?i = Inr ?i" "?i < length (ports_out (be_p p))" using ids_okD(2) [OF inv True] by simp_all
  then have "?port \<in> set (ports_out (be_p p))" by simp
  then have "port_out_ok (su_outside S) (Suc (su_fuel S)) g ?port" using inv by (simp add: fw_inv_def filter_inv_def)
  note mem = fw_inv_mem [OF inv]
  let ?q = "(be_p p)\<lparr>ports_out := (ports_out (be_p p))[?i := ?port\<lparr>pout_n_pkts_dropped_by_ah := 0\<rparr>]\<rparr>"
  have core: "same_core (be_p p) ?q" by (simp add: same_core_def map_update_same)
  have chain: "port_chain ?q" by (rule port_chain_cong [OF fw_chain [OF inv]]) simp_all
  have answer: ?thesis
    if f: "po_stats (pout_ops ?port) = Some f" "f (pout_h ?port) True g = Inr (0, st, g')" and k: "fw_inv S p g'"
      "mem_owned enclave_pool g' = mem_owned enclave_pool g" for f st g'
  proof -
    have "kept S p g (p\<lparr>be_p := ?q\<rparr>) g'" using fw_default_ok [OF inv] core chain k by (intro keptI) simp_all
    then show ?thesis using True i f
      by (simp add: pipeline_msg_req_stats_port_out_handler_def rte_pipeline_port_out_stats_read_def low_level_stats_def Let_def)
  qed
  show ?thesis
    using \<open>port_out_ok _ _ _ _\<close>
  proof (cases rule: port_out_okE)
    case (ring mp q)
    have "writer_ok (length (rings g)) q" using enclave.mem_okD(3) [OF mem ring(5,6)] .
    then have "writer_ok (length (rings g)) (q\<lparr>wr_stats := (0, 0)\<rparr>)" by (simp add: writer_ok_def)
    then have "fw_inv S p (g\<lparr>writers := (writers g)[pout_h ?port := Some (q\<lparr>wr_stats := (0, 0)\<rparr>)]\<rparr>)"
      by (intro fw_inv_world [OF inv]) (use mem in \<open>auto simp: mem_ok_def intro!: list_all_list_update\<close>)
    moreover have "map pending ((writers g)[pout_h ?port := Some (q\<lparr>wr_stats := (0, 0)\<rparr>)]) = map pending (writers g)"
      by (rule map_update_same) (simp add: ring(6) pending_def)
    ultimately show ?thesis using ring(5,6)
      by (intro answer [OF ring(4), where st = "wr_stats q" and g' = "g\<lparr>writers := (writers g)[pout_h ?port := Some (q\<lparr>wr_stats := (0, 0)\<rparr>)]\<rparr>"]) (simp_all add: rte_port_ring_writer_stats_read_def at_def mem_owned_def)
  next
    case (sink st)
    have "fw_inv S p (g\<lparr>sinks := (sinks g)[pout_h ?port := Some (0, 0)]\<rparr>)"
      by (intro fw_inv_world [OF inv]) (use mem in \<open>simp_all add: mem_ok_def\<close>)
    then show ?thesis using sink(5,6)
      by (intro answer [OF sink(4), where st = st and g' = "g\<lparr>sinks := (sinks g)[pout_h ?port := Some (0, 0)]\<rparr>"]) (simp_all add: rte_port_sink_stats_read_def at_def mem_owned_def)
  qed
qed

text \<open>Replacing the table behind the handle.\<close>

abbreviation fw_handle :: "'rt pipeline_firewall \<Rightarrow> nat" where
  "fw_handle p \<equiv> h_table (tables (be_p p) ! 0)"

lemma fw_inv_table:
  assumes inv: "fw_inv S p g" and acl: "acl_ok acl'" "synced (su_lib S) acl' hp'" "acl_n_rules acl' = su_n_rules S"
    "\<And>i r. rule_in acl' i r \<Longrightarrow> entry_ok (be_p p) False 0 (acl_action_table acl' ! i)"
  shows "fw_inv S p (acl_store (fw_handle p) (Some acl') hp' g)"
    and "mem_owned enclave_pool (acl_store (fw_handle p) (Some acl') hp' g) = mem_owned enclave_pool g"
    and "fw_acl p (acl_store (fw_handle p) (Some acl') hp' g) = acl'"
    and "acl_hp (rest (acl_store (fw_handle p) (Some acl') hp' g)) = hp'"
proof -
  note a = fw_aclD [OF inv]
  note mem = fw_inv_mem [OF inv]
  show "mem_owned enclave_pool (acl_store (fw_handle p) (Some acl') hp' g) = mem_owned enclave_pool g"
    by (simp add: mem_owned_def acl_store_def enclave_pool_def)
  show "acl_hp (rest (acl_store (fw_handle p) (Some acl') hp' g)) = hp'" by (simp add: acl_store_def)
  show "fw_acl p (acl_store (fw_handle p) (Some acl') hp' g) = acl'" using a(7) by (simp add: fw_acl_def acl_store_def)
  have "tables_ok (su_lib S) (be_p p) ((acls (rest g))[fw_handle p := Some acl']) hp'"
    unfolding tables_ok_def
  proof (intro allI impI exI [of _ acl'] conjI)
    fix t assume "t < length (tables (be_p p))"
    then have t: "t = 0" using ids_okD(4) [OF inv] by simp
    show "acl_table (su_lib S) (tables (be_p p) ! t)" using inv t by (auto simp: fw_inv_def acl_table_def)
    show "h_table (tables (be_p p) ! t) < length ((acls (rest g))[fw_handle p := Some acl'])"
      "(acls (rest g))[fw_handle p := Some acl'] ! h_table (tables (be_p p) ! t) = Some acl'" using a(7) t by simp_all
    show "entry_ok (be_p p) False t (acl_action_table acl' ! i)" if "rule_in acl' i r" for i r using acl(4) [OF that] t by simp
  qed (use acl in simp_all)
  moreover have "acl_sized (fw_handle p) (su_n_rules S) ((acls (rest g))[fw_handle p := Some acl'])"
    using acl(3) a(7) by (simp add: acl_sized_def)
  ultimately show "fw_inv S p (acl_store (fw_handle p) (Some acl') hp' g)"
    by (intro fw_inv_world [OF inv]) (use mem in \<open>simp_all add: mem_ok_def acl_store_def pool_ok_def\<close>)
qed

lemma fw_ops:
  assumes "fw_inv S p g"
  shows "tbl_ops (tables (be_p p) ! 0) = rte_table_acl_ops (su_lib S) (su_table S) (su_ctx S)"
  using assms by (simp add: fw_inv_def)

lemma stats_table_kept:
  assumes inv: "fw_inv S p g"
  shows "\<exists>rsp p' g'. pipeline_msg_req_stats_table_handler p req g = Inr (rsp, p', g') \<and> kept S p g p' g' \<and>
    rs_status rsp = (if rq_word req < be_n_tables p then 0 else - 1)"
proof (cases "rq_word req < be_n_tables p")
  case False
  then show ?thesis using kept_refl [OF inv] by (simp add: pipeline_msg_req_stats_table_handler_def rsp_status_def)
next
  case True
  then have w: "rq_word req = 0" using ids_okD(5) [OF inv] by simp
  note a = fw_aclD [OF inv]
  let ?t = "tables (be_p p) ! 0" and ?acl = "(fw_acl p g)\<lparr>acl_stats := (0, 0)\<rparr>"
  let ?q = "(be_p p)\<lparr>tables := (tables (be_p p))[0 := ?t\<lparr>n_pkts_dropped_by_lkp_hit_ah := 0, n_pkts_dropped_by_lkp_miss_ah := 0,
     n_pkts_dropped_lkp_hit := 0, n_pkts_dropped_lkp_miss := 0\<rparr>]\<rparr>"
  have f: "rule_in ?acl i r = rule_in (fw_acl p g) i r" for i r by (rule rule_in_cong) simp_all
  have "acl_ok ?acl" by (rule acl_ok_cong [OF a(2)]) simp_all
  moreover have "active ?acl = active (fw_acl p g)" "cur_name ?acl = cur_name (fw_acl p g)" by (simp_all add: active_def cur_name_def)
  then have "synced (su_lib S) ?acl (acl_hp (rest g))" using a(3) unfolding synced_def by (simp cong: option.case_cong)
  ultimately have "fw_inv S p (acl_store (fw_handle p) (Some ?acl) (acl_hp (rest g)) g)"
      "mem_owned enclave_pool (acl_store (fw_handle p) (Some ?acl) (acl_hp (rest g)) g) = mem_owned enclave_pool g"
    using a(4,5) f by (intro fw_inv_table [OF inv]; simp)+
  moreover have "same_core (be_p p) ?q" by (simp add: same_core_def map_update_same)
  moreover have "port_chain ?q" by (rule port_chain_cong [OF fw_chain [OF inv]]) simp_all
  ultimately have "kept S p g (p\<lparr>be_p := ?q\<rparr>) (acl_store (fw_handle p) (Some ?acl) (acl_hp (rest g)) g)"
    using fw_default_ok [OF inv] ids_okD(4) [OF inv] by (intro keptI) simp_all
  then show ?thesis using True w ids_okD(3,4) [OF inv] fw_ops [OF inv] a(1)
    by (simp add: pipeline_msg_req_stats_table_handler_def rte_pipeline_table_stats_read_def low_level_stats_def
        rte_table_acl_ops_def rte_table_acl_stats_read_def Let_def)
qed

text \<open>Enabling and disabling.\<close>

lemma set_port_next_core: "map core_in (set_port_next i n ps) = map core_in ps"
  by (simp add: set_port_next_def map_update_same)

lemma enable_core:
  "rte_pipeline_port_in_enable (Some p) i = (st, Some q) \<Longrightarrow> same_core p q \<and> tables q = tables p"
  "rte_pipeline_port_in_disable (Some p) i = (st, Some q) \<Longrightarrow> same_core p q \<and> tables q = tables p"
  by (auto simp: rte_pipeline_port_in_enable_def rte_pipeline_port_in_disable_def same_core_def set_port_next_core Let_def
      split: if_splits)

lemma enable_kept:
  assumes inv: "fw_inv S p g"
  shows "\<exists>rsp p' g'. pipeline_msg_req_port_in_enable_handler p req g = Inr (rsp, p', g') \<and> kept S p g p' g' \<and>
    rs_status rsp = (if rq_word req < be_n_ports_in p then 0 else - 1)"
proof (cases "rq_word req < be_n_ports_in p")
  case False
  then show ?thesis using kept_refl [OF inv] by (simp add: pipeline_msg_req_port_in_enable_handler_def rsp_status_def)
next
  case True
  note i = ids_okD(1) [OF inv True]
  obtain q where q: "rte_pipeline_port_in_enable (Some (be_p p)) (rq_word req) = (0, Some q)" "port_chain q"
    using port_chain_enable [OF fw_chain [OF inv], of "rq_word req"] i by auto
  have "kept S p g (p\<lparr>be_p := q\<rparr>) g"
    using enable_core(1) [OF q(1)] q(2) fw_default_ok [OF inv] inv by (intro keptI) simp_all
  then show ?thesis using True i q(1) by (simp add: pipeline_msg_req_port_in_enable_handler_def rsp_status_def)
qed

lemma disable_kept:
  assumes inv: "fw_inv S p g"
  shows "\<exists>rsp p' g'. pipeline_msg_req_port_in_disable_handler p req g = Inr (rsp, p', g') \<and> kept S p g p' g' \<and>
    rs_status rsp = (if rq_word req < be_n_ports_in p then 0 else - 1)"
proof (cases "rq_word req < be_n_ports_in p")
  case False
  then show ?thesis using kept_refl [OF inv] by (simp add: pipeline_msg_req_port_in_disable_handler_def rsp_status_def)
next
  case True
  note i = ids_okD(1) [OF inv True]
  obtain q where q: "rte_pipeline_port_in_disable (Some (be_p p)) (rq_word req) = (0, Some q)" "port_chain q"
    using port_chain_disable [OF fw_chain [OF inv], of "rq_word req"] i by auto
  have "kept S p g (p\<lparr>be_p := q\<rparr>) g"
    using enable_core(2) [OF q(1)] q(2) fw_default_ok [OF inv] inv by (intro keptI) simp_all
  then show ?thesis using True i q(1) by (simp add: pipeline_msg_req_port_in_disable_handler_def rsp_status_def)
qed

section \<open>Rules\<close>

text \<open>The sizes of a table never change.\<close>

definition same_sizes :: "'cfg rte_table_acl \<Rightarrow> 'cfg rte_table_acl \<Rightarrow> bool" where
  "same_sizes a b \<longleftrightarrow> acl_n_rules b = acl_n_rules a \<and> acl_num_fields b = acl_num_fields a \<and> acl_cfg b = acl_cfg a"

lemma entry_add_frame:
  assumes "rte_table_acl_entry_add lib alloc (Some acl) key e hp = (st, out, t, hp')"
  shows "\<exists>acl'. t = Some acl' \<and> same_sizes acl acl'"
  using assms by (auto simp: rte_table_acl_entry_add_def same_sizes_def Let_def split: option.splits if_splits sum.splits prod.splits)

lemma delete_search_frame:
  assumes "delete_search key acl = (hit, acl')"
  shows "same_sizes acl acl'"
proof -
  have "same_sizes acl (snd (fold (\<lambda>i (hit, acl). case acl_rule_list acl ! i of None \<Rightarrow> (hit, acl)
     | Some r \<Rightarrow> if ar_field r = key then (Some (i, r), set_rule i None acl) else (hit, acl)) xs (h, acl1)))"
    if "same_sizes acl acl1" for xs h acl1
    using that
  proof (induction xs arbitrary: h acl1)
    case (Cons x xs)
    then show ?case by (simp add: same_sizes_def split: option.split)
  qed simp
  from this [of acl "[1 ..< acl_n_rules acl]" None] show ?thesis
    using assms by (simp add: delete_search_def same_sizes_def)
qed

lemma entry_delete_frame:
  assumes "rte_table_acl_entry_delete lib alloc (Some acl) (Some fv) hp = (st, out, t, hp')"
  shows "\<exists>acl'. t = Some acl' \<and> same_sizes acl acl'"
proof -
  obtain hit acl1 where d: "delete_search (rule_key acl fv) acl = (hit, acl1)" by (cases "delete_search (rule_key acl fv) acl")
  show ?thesis using assms delete_search_frame [OF d] d
    by (auto simp: rte_table_acl_entry_delete_def same_sizes_def Let_def split: option.splits prod.splits)
qed

text \<open>A property of all entries of a table, by its map.\<close>

lemma entries_by_map:
  assumes "acl_ok acl"
  shows "(\<forall>i r. rule_in acl i r \<longrightarrow> E (acl_action_table acl ! i)) \<longleftrightarrow> (\<forall>k pri e. acl_map acl k = Some (pri, e) \<longrightarrow> E e)"
  unfolding acl_map_Some [OF assms] by blast

definition fw_map :: "'rt pipeline_firewall \<Rightarrow> 'rt fw_world \<Rightarrow> rte_acl_field list entry_map" where
  "fw_map p g = acl_map (fw_acl p g)"

definition fw_key :: "'rt pipeline_firewall \<Rightarrow> 'rt fw_world \<Rightarrow> pipeline_firewall_key_ipv4_5tuple \<Rightarrow> rte_acl_field list" where
  "fw_key p g k = rule_key (fw_acl p g) (store_5tuple k zero_fields)"

text \<open>The stored fields determine the key.\<close>

lemma store_low_ucast:
  "store_low 8 (ucast (x8 :: u8)) 0 = ucast x8" "store_low 16 (ucast (x16 :: u16)) 0 = ucast x16"
  "store_low 32 (ucast (x32 :: u32)) 0 = ucast x32"
  by (rule bit_word_eqI, auto simp: store_low_def bit_simps dest: bit_imp_le_length)+

lemma ucast_u64_inj:
  "(ucast (x8 :: u8) :: u64) = ucast y8 \<longleftrightarrow> x8 = y8" "(ucast (x16 :: u16) :: u64) = ucast y16 \<longleftrightarrow> x16 = y16"
  "(ucast (x32 :: u32) :: u64) = ucast y32 \<longleftrightarrow> x32 = y32"
proof -
  have d: "(ucast (ucast x8 :: u64) :: u8) = x8" "(ucast (ucast x16 :: u64) :: u16) = x16" "(ucast (ucast x32 :: u64) :: u32) = x32"
    for x8 :: u8 and x16 :: u16 and x32 :: u32 by (rule bit_word_eqI, auto simp: bit_simps dest: bit_imp_le_length)+
  show "(ucast (x8 :: u8) :: u64) = ucast y8 \<longleftrightarrow> x8 = y8" by (metis d(1))
  show "(ucast (x16 :: u16) :: u64) = ucast y16 \<longleftrightarrow> x16 = y16" by (metis d(2))
  show "(ucast (x32 :: u32) :: u64) = ucast y32 \<longleftrightarrow> x32 = y32" by (metis d(3))
qed

lemma store_5tuple_inj:
  "take 5 (store_5tuple k zero_fields) = take 5 (store_5tuple k' zero_fields) \<longleftrightarrow> k = k'"
proof
  have f: "take 5 (store_5tuple k zero_fields) = [
      \<lparr>af_value = ucast (k_proto k), af_mask_range = ucast (k_proto_mask k)\<rparr>,
      \<lparr>af_value = ucast (k_src_ip k), af_mask_range = ucast (k_src_ip_mask k)\<rparr>,
      \<lparr>af_value = ucast (k_dst_ip k), af_mask_range = ucast (k_dst_ip_mask k)\<rparr>,
      \<lparr>af_value = ucast (k_src_port_from k), af_mask_range = ucast (k_src_port_to k)\<rparr>,
      \<lparr>af_value = ucast (k_dst_port_from k), af_mask_range = ucast (k_dst_port_to k)\<rparr>]" for k
  proof -
    let ?z = "\<lparr>af_value = 0, af_mask_range = 0\<rparr> :: rte_acl_field"
    have z: "zero_fields = ?z # ?z # ?z # ?z # ?z # replicate 59 ?z" by (simp add: zero_fields_def eval_nat_numeral)
    have n4: "(4 :: nat) = Suc (Suc (Suc (Suc 0)))" by simp
    show ?thesis unfolding store_5tuple_def z
      by (simp add: store_field_def store_low_ucast n4 numeral_3_eq_3 numeral_2_eq_2)
  qed
  assume "take 5 (store_5tuple k zero_fields) = take 5 (store_5tuple k' zero_fields)"
  then show "k = k'" unfolding f by (cases k, cases k') (simp add: ucast_u64_inj)
qed simp

lemma fw_entries_ok:
  assumes "fw_inv S p g"
  shows "\<forall>k pri e. fw_map p g k = Some (pri, e) \<longrightarrow> entry_ok (be_p p) False 0 e"
  using fw_aclD(5) [OF assms] entries_by_map [OF fw_aclD(2) [OF assms], of "entry_ok (be_p p) False 0"]
  unfolding fw_map_def by blast

lemma port_entry_ok:
  "fw_inv S p g \<Longrightarrow> port < be_n_ports_out p \<Longrightarrow> entry_ok (be_p p) False 0 (port_entry port)"
  by (simp add: entry_ok_def port_entry_def fw_inv_def ids_ok_def)

lemma port_entry_simps [simp]: "\<not> tree_like t (port_entry port)" "set_next (port_entry port) t = t"
  by (simp_all add: tree_like_def set_next_def port_entry_def)

text \<open>The table after a change, from the specification of the change.\<close>

lemma fw_inv_changed:
  assumes inv: "fw_inv S p g" and acl: "acl_ok acl'" "synced (su_lib S) acl' hp'" "same_sizes (fw_acl p g) acl'"
    and E: "\<forall>k pri e. acl_map acl' k = Some (pri, e) \<longrightarrow> entry_ok (be_p p) False 0 e"
  shows "kept S p g p (acl_store (fw_handle p) (Some acl') hp' g)"
    and "fw_map p (acl_store (fw_handle p) (Some acl') hp' g) = acl_map acl'"
    and "acl_num_fields (fw_acl p (acl_store (fw_handle p) (Some acl') hp' g)) = acl_num_fields (fw_acl p g)"
proof -
  have n: "acl_n_rules acl' = su_n_rules S" using acl(3) fw_aclD(4) [OF inv] by (simp add: same_sizes_def)
  have e: "\<And>i r. rule_in acl' i r \<Longrightarrow> entry_ok (be_p p) False 0 (acl_action_table acl' ! i)"
    using E entries_by_map [OF acl(1), of "entry_ok (be_p p) False 0"] by blast
  note t = fw_inv_table [OF inv acl(1,2) n e]
  show "kept S p g p (acl_store (fw_handle p) (Some acl') hp' g)" using t(1,2) by (simp add: kept_def)
  show "fw_map p (acl_store (fw_handle p) (Some acl') hp' g) = acl_map acl'" using t(3) by (simp add: fw_map_def)
  show "acl_num_fields (fw_acl p (acl_store (fw_handle p) (Some acl') hp' g)) = acl_num_fields (fw_acl p g)"
    using t(3) acl(3) by (simp add: same_sizes_def)
qed

text \<open>The default entry.\<close>

definition fw_default :: "'rt pipeline_firewall \<Rightarrow> rte_pipeline_table_entry" where
  "fw_default p = default_entry (tables (be_p p) ! 0)"

lemma add_spec:
  assumes inv: "fw_inv S p g" and req: "rq_body req = Add_Body key pri port" and port: "port < be_n_ports_out p"
  shows "\<exists>rsp p' g'. pipeline_firewall_msg_req_add_handler p req g = Inr (rsp, p', g') \<and> kept S p g p' g' \<and>
    (rs_status rsp = 0 \<longrightarrow> key_type key = PIPELINE_FIREWALL_IPV4_5TUPLE \<and>
       fw_map p' g' = (fw_map p g)(fw_key p g (key_ipv4_5tuple key) \<mapsto>
         (case fw_map p g (fw_key p g (key_ipv4_5tuple key)) of None \<Rightarrow> RTE_ACL_MAX_PRIORITY - pri | Some (q, _) \<Rightarrow> q,
          port_entry port)) \<and>
       (\<exists>pos. rs_out rsp = Out_Add (Some (fw_map p g (fw_key p g (key_ipv4_5tuple key)) \<noteq> None, pos)))) \<and>
    (rs_status rsp \<noteq> 0 \<longrightarrow> fw_map p' g' = fw_map p g) \<and>
    (can_build (su_lib S) (su_ctx S g) (acl_cfg (fw_acl p g)) \<longrightarrow>
      (rs_status rsp = 0 \<longleftrightarrow> key_type key = PIPELINE_FIREWALL_IPV4_5TUPLE \<and> pri \<le> RTE_ACL_MAX_PRIORITY \<and>
        (fw_map p g (fw_key p g (key_ipv4_5tuple key)) \<noteq> None \<or>
         0 \<le> pri \<and> card (dom (fw_map p g)) \<noteq> acl_n_rules (fw_acl p g) - 1))) \<and>
    acl_num_fields (fw_acl p' g') = acl_num_fields (fw_acl p g) \<and> fw_default p' = fw_default p"
proof (cases "key_type key = PIPELINE_FIREWALL_IPV4_5TUPLE")
  case False
  then show ?thesis using kept_refl [OF inv] req ids_okD(2) [OF inv port]
    by (simp add: pipeline_firewall_msg_req_add_handler_def rsp_status_def)
next
  case True
  note a = fw_aclD [OF inv]
  let ?rule = "\<lparr>rap_priority = pri, rap_field_value = store_5tuple (key_ipv4_5tuple key) zero_fields\<rparr>"
  let ?key = "fw_key p g (key_ipv4_5tuple key)"
  obtain st out t hp' where run0: "rte_table_acl_entry_add (su_lib S) (su_ctx S g) (Some (fw_acl p g)) (Some ?rule)
      (Some (port_entry port)) (acl_hp (rest g)) = (st, out, t, hp')" by (metis prod_cases4)
  then obtain acl' where t: "t = Some acl'" "same_sizes (fw_acl p g) acl'" using entry_add_frame by blast
  have "?key = rule_key (fw_acl p g) (rap_field_value ?rule)" by (simp add: fw_key_def)
  note spec = acl_entry_add_spec [OF a(2,3,6) run0 [unfolded t(1)] this]
  have sp: "acl_ok acl'" "synced (su_lib S) acl' hp'"
      "st = 0 \<Longrightarrow> acl_map acl' = (fw_map p g)(?key \<mapsto>
        (case fw_map p g ?key of None \<Rightarrow> RTE_ACL_MAX_PRIORITY - pri | Some (pri, _) \<Rightarrow> pri, port_entry port)) \<and>
        (\<exists>pos. out = Some (fw_map p g ?key \<noteq> None, pos))"
      "st \<noteq> 0 \<Longrightarrow> acl' = fw_acl p g"
      "can_build (su_lib S) (su_ctx S g) (acl_cfg (fw_acl p g)) \<Longrightarrow> st = 0 \<longleftrightarrow> pri \<le> RTE_ACL_MAX_PRIORITY \<and>
        (fw_map p g ?key \<noteq> None \<or> 0 \<le> pri \<and> card (dom (fw_map p g)) \<noteq> acl_n_rules (fw_acl p g) - 1)"
    using spec unfolding fw_map_def rte_table_acl_rule_add_params.select_convs by blast+
  have "\<forall>k q e. acl_map acl' k = Some (q, e) \<longrightarrow> entry_ok (be_p p) False 0 e"
  proof (cases "st = 0")
    case True
    then show ?thesis using sp(3) fw_entries_ok [OF inv] port_entry_ok [OF inv port] by auto
  next
    case False
    then show ?thesis using sp(4) fw_entries_ok [OF inv] by (simp add: fw_map_def)
  qed
  note c = fw_inv_changed [OF inv sp(1,2) t(2) this]
  have "(be_p p)\<lparr>tables := (tables (be_p p))[0 := tables (be_p p) ! 0]\<rparr> = be_p p" by simp
  then have "pipeline_firewall_msg_req_add_handler p req g =
      Inr (\<lparr>rs_status = st, rs_out = Out_Add out\<rparr>, p, acl_store (fw_handle p) (Some acl') hp' g)"
    using True req ids_okD(2) [OF inv port] ids_okD(3,4) [OF inv] fw_ops [OF inv] a(1) run0 t(1)
    by (simp add: pipeline_firewall_msg_req_add_handler_def rte_pipeline_table_entry_add_def rte_table_acl_ops_def
        add_key_def Let_def)
  then show ?thesis using c sp(3-5) True by (auto simp: fw_map_def)
qed

lemma del_spec:
  assumes inv: "fw_inv S p g" and req: "rq_body req = Del_Body key"
  shows "\<exists>rsp p' g'. pipeline_firewall_msg_req_del_handler p req g = Inr (rsp, p', g') \<and> kept S p g p' g' \<and>
    (rs_status rsp = 0 \<longrightarrow> key_type key = PIPELINE_FIREWALL_IPV4_5TUPLE \<and>
       fw_map p' g' = (fw_map p g)(fw_key p g (key_ipv4_5tuple key) := None) \<and>
       rs_out rsp = Out_Del (Some (fw_map p g (fw_key p g (key_ipv4_5tuple key)) \<noteq> None))) \<and>
    (rs_status rsp \<noteq> 0 \<longrightarrow> fw_map p' g' = fw_map p g) \<and>
    (can_build (su_lib S) (su_ctx S g) (acl_cfg (fw_acl p g)) \<longrightarrow>
      (rs_status rsp = 0 \<longleftrightarrow> key_type key = PIPELINE_FIREWALL_IPV4_5TUPLE)) \<and>
    acl_num_fields (fw_acl p' g') = acl_num_fields (fw_acl p g) \<and> fw_default p' = fw_default p"
proof (cases "key_type key = PIPELINE_FIREWALL_IPV4_5TUPLE")
  case False
  then show ?thesis using kept_refl [OF inv] req by (simp add: pipeline_firewall_msg_req_del_handler_def rsp_status_def)
next
  case True
  note a = fw_aclD [OF inv]
  let ?fv = "store_5tuple (key_ipv4_5tuple key) zero_fields" and ?key = "fw_key p g (key_ipv4_5tuple key)"
  obtain st out t hp' where run0: "rte_table_acl_entry_delete (su_lib S) (su_ctx S g) (Some (fw_acl p g)) (Some ?fv)
      (acl_hp (rest g)) = (st, out, t, hp')" by (metis prod_cases4)
  then obtain acl' where t: "t = Some acl'" "same_sizes (fw_acl p g) acl'" using entry_delete_frame by blast
  have "?key = rule_key (fw_acl p g) ?fv" by (simp add: fw_key_def)
  note spec = acl_entry_delete_spec [OF a(2,3,6) run0 [unfolded t(1)] this]
  have sp: "acl_ok acl'" "synced (su_lib S) acl' hp'"
      "st = 0 \<Longrightarrow> acl_map acl' = (fw_map p g)(?key := None) \<and> out = Some (fw_map p g ?key \<noteq> None, map_option snd (fw_map p g ?key))"
      "st \<noteq> 0 \<Longrightarrow> acl' = fw_acl p g" "can_build (su_lib S) (su_ctx S g) (acl_cfg (fw_acl p g)) \<Longrightarrow> st = 0"
    using spec unfolding fw_map_def by blast+
  have "\<forall>k q e. acl_map acl' k = Some (q, e) \<longrightarrow> entry_ok (be_p p) False 0 e"
  proof (cases "st = 0")
    case True
    then show ?thesis using sp(3) fw_entries_ok [OF inv] by auto
  next
    case False
    then show ?thesis using sp(4) fw_entries_ok [OF inv] by (simp add: fw_map_def)
  qed
  note c = fw_inv_changed [OF inv sp(1,2) t(2) this]
  have "pipeline_firewall_msg_req_del_handler p req g =
      Inr (\<lparr>rs_status = st, rs_out = Out_Del (map_option fst out)\<rparr>, p, acl_store (fw_handle p) (Some acl') hp' g)"
    using True req ids_okD(3,4) [OF inv] fw_ops [OF inv] a(1) run0 t(1)
    by (simp add: pipeline_firewall_msg_req_del_handler_def rte_pipeline_table_entry_delete_def rte_table_acl_ops_def
        delete_key_def Let_def)
  then show ?thesis using c sp(3-5) True by (auto simp: fw_map_def)
qed

lemma default_kept:
  assumes inv: "fw_inv S p g" and e: "entry_ok (be_p p) False 0 e"
    and q: "q = (be_p p)\<lparr>tables := (tables (be_p p))[0 := (tables (be_p p) ! 0)\<lparr>default_entry := e\<rparr>]\<rparr>"
  shows "kept S p g (p\<lparr>be_p := q\<rparr>) g" and "fw_map (p\<lparr>be_p := q\<rparr>) g = fw_map p g" and "fw_default (p\<lparr>be_p := q\<rparr>) = e"
proof -
  have len: "tables (be_p p) \<noteq> []" using ids_okD(4) [OF inv] by auto
  have "port_chain q" by (rule port_chain_cong [OF fw_chain [OF inv]]) (simp_all add: q)
  moreover have "same_core (be_p p) q" by (simp add: same_core_def q map_update_same)
  ultimately show "kept S p g (p\<lparr>be_p := q\<rparr>) g" using e inv len by (intro keptI) (simp_all add: q)
  show "fw_map (p\<lparr>be_p := q\<rparr>) g = fw_map p g" "fw_default (p\<lparr>be_p := q\<rparr>) = e"
    using len by (simp_all add: fw_map_def fw_acl_def fw_default_def q)
qed

lemma add_default_spec:
  assumes inv: "fw_inv S p g" and req: "rq_body req = Add_Default_Body port" and port: "port < be_n_ports_out p"
  shows "\<exists>p'. pipeline_firewall_msg_req_add_default_handler p req g =
      Inr (\<lparr>rs_status = 0, rs_out = Out_Default (Some (port_entry port))\<rparr>, p', g) \<and> kept S p g p' g \<and>
    fw_map p' g = fw_map p g \<and> fw_default p' = port_entry port"
  using default_kept [OF inv port_entry_ok [OF inv port] refl] req ids_okD(2) [OF inv port] ids_okD(3,4) [OF inv]
  by (simp add: pipeline_firewall_msg_req_add_default_handler_def rte_pipeline_table_default_entry_add_def Let_def)

lemma del_default_spec:
  assumes inv: "fw_inv S p g"
  shows "\<exists>p'. pipeline_firewall_msg_req_del_default_handler p req g = Inr (rsp_status 0, p', g) \<and> kept S p g p' g \<and>
    fw_map p' g = fw_map p g \<and> pte_action (fw_default p') = ACTION_DROP"
proof -
  let ?e = "\<lparr>pte_action = ACTION_DROP, pte_id = 0, pte_data = replicate (length (pte_data (fw_default p))) 0\<rparr>"
  have "entry_ok (be_p p) False 0 ?e" by (simp add: entry_ok_def)
  from default_kept [OF inv this refl] show ?thesis using ids_okD(3,4) [OF inv]
    by (simp add: pipeline_firewall_msg_req_del_default_handler_def rte_pipeline_table_default_entry_delete_def Let_def fw_default_def)
qed

section \<open>Bulk requests\<close>

lemma keys_of_Some: "(\<And>x. x \<in> set xs \<Longrightarrow> f (c x) = Inr (d x)) \<Longrightarrow> keys_of f (map (\<lambda>x. Some (c x)) xs) = Inr (map (\<lambda>x. Some (d x)) xs)"
  by (induction xs) auto

lemma bulk_map_all:
  assumes "\<forall>k pri e. m k = Some (pri, e) \<longrightarrow> E e" and "\<forall>(k, pri, e) \<in> set xs. E e"
  shows "\<forall>k pri e. bulk_map m new xs k = Some (pri, e) \<longrightarrow> E e"
  using assms
proof (induction m new xs rule: bulk_map.induct)
  case (2 m new k pri e xs)
  have upd: "\<forall>j q f. (m(k \<mapsto> (x, e))) j = Some (q, f) \<longrightarrow> E f" for x using 2(4,5) by auto
  have xs: "\<forall>(k, pri, e) \<in> set xs. E e" using 2(5) by simp
  show ?case
  proof (cases "m k")
    case None
    then show ?thesis using 2(1) [OF None upd xs] by (simp add: fun_upd_def)
  next
    case (Some q)
    obtain q1 q2 where q: "q = (q1, q2)" by (cases q)
    show ?thesis
    proof (cases "k \<in> new")
      case True
      then show ?thesis using 2(2) [OF Some q [symmetric] True 2(4) xs] Some q by simp
    next
      case False
      then show ?thesis using 2(3) [OF Some q [symmetric] False upd xs] Some q by (simp add: fun_upd_def)
    qed
  qed
qed simp

lemma add_bulk_loop_frame:
  "add_bulk_loop l i s = (err, acl', rest') \<Longrightarrow> same_sizes (fst s) acl'"
proof (induction l i s rule: add_bulk_loop.induct)
  case (2 rule e l i acl kf ptrs rp)
  then show ?case by (auto simp: same_sizes_def split: sum.splits option.splits)
qed (auto simp: same_sizes_def)

lemma clear_rules_frame: "same_sizes acl (clear_rules rp acl)"
proof (induction rp arbitrary: acl)
  case (Cons j rp)
  have "clear_rules (j # rp) acl = clear_rules rp (if j = 0 then acl else set_rule j None acl)" by (simp add: clear_rules_def)
  then show ?case using Cons.IH [of acl] Cons.IH [of "set_rule j None acl"] by (simp add: same_sizes_def)
qed (simp add: clear_rules_def same_sizes_def)

lemma commit_entries_frame:
  assumes "commit_entries es rp kf ptrs acl = (kf', ptrs', acl')"
  shows "same_sizes acl acl'"
proof -
  have "same_sizes acl (snd (snd (fold (\<lambda>i (key_found, ptrs, acl). if rp ! i = 0 then (key_found, ptrs, acl)
        else (key_found[i := False], ptrs[i := Some (rp ! i)], set_entry (rp ! i) (es ! i) acl)) xs (kf, ptrs, acl1))))"
    if "same_sizes acl acl1" for xs kf ptrs acl1
    using that by (induction xs arbitrary: kf ptrs acl1) (simp_all add: same_sizes_def)
  from this [of acl "[0 ..< length rp]" kf ptrs] show ?thesis using assms by (simp add: commit_entries_def same_sizes_def)
qed

lemma entry_add_bulk_frame:
  assumes "rte_table_acl_entry_add_bulk lib alloc (Some acl) keys ents kf ptrs hp = (st, kf', ptrs', t, hp')"
  shows "\<exists>acl'. t = Some acl' \<and> same_sizes acl acl'"
proof -
  obtain err acl1 kf1 ptrs1 rp where pass: "add_bulk_loop (zip (map the keys) (map the ents)) 0
      (acl, replicate (length keys) False, ptrs, replicate (length keys) 0) = (err, acl1, kf1, ptrs1, rp)"
    by (metis prod_cases5)
  have s: "same_sizes acl acl1" using add_bulk_loop_frame [OF pass] by simp
  have c: "same_sizes acl1 (clear_rules rp acl1)" "same_sizes (flip_name acl1) (clear_rules rp (flip_name acl1))"
    by (rule clear_rules_frame)+
  have d: "same_sizes acl1 acl'" if "commit_entries (map the ents) rp kf1 ptrs1 ((flip_name acl1)\<lparr>acl_ctx := x\<rparr>) = (k, q, acl')"
    for x k q acl' using commit_entries_frame [OF that] by (simp add: same_sizes_def)
  show ?thesis
  proof (cases "length keys = 0 \<or> list_ex bulk_arg_bad (zip keys (zip ents ptrs))")
    case True
    then have "rte_table_acl_entry_add_bulk lib alloc (Some acl) keys ents kf ptrs hp = (- EINVAL, kf, ptrs, Some acl, hp)"
      by (elim disjE) (simp_all add: rte_table_acl_entry_add_bulk_def)
    then show ?thesis using assms by (auto simp: same_sizes_def)
  next
    case False
    obtain b hp1 where b: "rte_table_acl_build lib alloc (flip_name acl1) hp = (b, hp1)" by (cases "rte_table_acl_build lib alloc (flip_name acl1) hp")
    have main: "(st, kf', ptrs', t, hp') =
        (if err then (- ENOSPC, kf1, ptrs1, Some (clear_rules rp acl1), hp)
         else if list_all (\<lambda>j. j = 0) rp then (0, kf1, ptrs1, Some acl1, hp)
         else (case b of
            None \<Rightarrow> (- EINVAL, kf1, ptrs1, Some (flip_name (clear_rules rp (flip_name acl1))), hp1)
          | Some x \<Rightarrow> (case commit_entries (map the ents) rp kf1 ptrs1 ((flip_name acl1)\<lparr>acl_ctx := x\<rparr>) of
              (kf1, ptrs1, acl') \<Rightarrow> (0, kf1, ptrs1, Some acl', rte_acl_free (acl_ctx acl) hp1))))"
      using False pass b unfolding assms [symmetric] rte_table_acl_entry_add_bulk_def by (simp add: Let_def)
    show ?thesis
    proof (cases "err \<or> list_all (\<lambda>j. j = 0) rp \<or> b = None")
      case True
      then show ?thesis using main s c by (auto simp: same_sizes_def split: if_splits)
    next
      case False
      then obtain x where x: "b = Some x" by blast
      obtain k q acl' where co: "commit_entries (map the ents) rp kf1 ptrs1 ((flip_name acl1)\<lparr>acl_ctx := x\<rparr>) = (k, q, acl')"
        by (metis prod_cases3)
      then have "t = Some acl'" using main False x by simp
      then show ?thesis using d [OF co] s by (simp add: same_sizes_def)
    qed
  qed
qed

lemma delete_bulk_loop_frame:
  "delete_bulk_loop ks i kf acl = (hits, kf', acl') \<Longrightarrow> same_sizes acl acl'"
proof (induction ks arbitrary: i kf acl hits kf')
  case (Cons k ks)
  obtain hit acl2 where d: "delete_search (rule_key acl k) acl = (hit, acl2)" by (cases "delete_search (rule_key acl k) acl")
  obtain hits2 kf2 acl3 where loop:
      "delete_bulk_loop ks (i + 1) (if hit = None then kf[i := False] else kf) acl2 = (hits2, kf2, acl3)"
    by (metis prod_cases3)
  have "same_sizes acl2 acl3" if "acl3 = acl'" using Cons.IH [of "i + 1" _ acl2] loop that by blast
  then show ?case using Cons.prems d loop delete_search_frame [OF d] by (simp add: same_sizes_def)
qed (simp add: same_sizes_def)

lemma entry_delete_bulk_frame:
  assumes "rte_table_acl_entry_delete_bulk lib alloc (Some acl) (map Some ks) kf hp = (st, kf', t, hp')" and ok: "acl_ok acl"
    and "\<And>st kf' acl' hp'. rte_table_acl_entry_delete_bulk lib alloc (Some acl) (map Some ks) kf hp = (st, kf', Some acl', hp') \<Longrightarrow>
      st \<noteq> 0 \<Longrightarrow> acl' = acl"
  shows "\<exists>acl'. t = Some acl' \<and> same_sizes acl acl'"
proof -
  obtain hits kf1 acl1 where pass: "delete_bulk_loop ks 0 kf acl = (hits, kf1, acl1)" by (metis prod_cases3)
  have s: "same_sizes acl acl1" by (rule delete_bulk_loop_frame [OF pass])
  have tm: "map the (map Some ks) = ks" "\<not> list_ex (\<lambda>k. k = None) (map Some ks)" by (simp_all add: comp_def list_ex_iff)
  obtain b hp1 where b: "rte_table_acl_build lib alloc (flip_name acl1) hp = (b, hp1)" by (cases "rte_table_acl_build lib alloc (flip_name acl1) hp")
  have main: "(st, kf', t, hp') = (if ks = [] then (- EINVAL, kf, Some acl, hp)
      else if list_all (\<lambda>h. h = None) hits then (0, kf1, Some acl1, hp)
      else (case b of
         None \<Rightarrow> (- EINVAL, kf1, Some (flip_name (restore_rules hits (flip_name acl1))), hp1)
       | Some c \<Rightarrow> (0, map (\<lambda>(h, kf). if h = None then kf else True) (zip hits kf1),
             Some ((flip_name acl1)\<lparr>acl_ctx := c\<rparr>), rte_acl_free (acl_ctx acl) hp1)))"
    using pass b tm(2) unfolding assms(1) [symmetric] rte_table_acl_entry_delete_bulk_def tm(1) by (simp add: Let_def)
  have "\<exists>acl'. t = Some acl'" using main by (auto split: if_splits option.splits)
  then obtain acl' where t: "t = Some acl'" ..
  show ?thesis
  proof (cases "st = 0")
    case True
    then show ?thesis using main s t by (auto simp: same_sizes_def split: if_splits option.splits)
  next
    case False
    then have "acl' = acl" using assms(1,3) t by blast
    then show ?thesis using t by (simp add: same_sizes_def)
  qed
qed

definition bulk_keys_ok :: "pipeline_firewall_key list \<Rightarrow> nat \<Rightarrow> bool" where
  "bulk_keys_ok keys n_keys \<longleftrightarrow> n_keys \<le> length keys \<and> (\<forall>i < n_keys. key_type (keys ! i) = PIPELINE_FIREWALL_IPV4_5TUPLE)"

definition bulk_ports_ok :: "('rt, 'z) pipeline_scheme \<Rightarrow> u32 list \<Rightarrow> nat list \<Rightarrow> nat \<Rightarrow> bool" where
  "bulk_ports_ok p priorities port_ids n_keys \<longleftrightarrow> n_keys \<le> length priorities \<and> n_keys \<le> length port_ids \<and>
     (\<forall>i < n_keys. port_ids ! i < be_n_ports_out p)"

text \<open>The parameters that the bulk handlers build, in the memory they are given.\<close>

definition bulk_add_params ::
  "bulk_alloc \<Rightarrow> pipeline_firewall_key list \<Rightarrow> u32 list \<Rightarrow> nat list \<Rightarrow> nat list \<Rightarrow>
   (rte_table_acl_rule_add_params \<times> rte_pipeline_table_entry) list" where
  "bulk_add_params ba keys priorities port_ids is =
     map (\<lambda>i. (\<lparr>rap_priority = sint (priorities ! i), rap_field_value = store_5tuple (key_ipv4_5tuple (keys ! i)) (the (ba_param ba i))\<rparr>,
       port_entry (port_ids ! i))) is"

definition bulk_del_params :: "bulk_alloc \<Rightarrow> pipeline_firewall_key list \<Rightarrow> nat list \<Rightarrow> rte_acl_field list list" where
  "bulk_del_params ba keys is = map (\<lambda>i. store_5tuple (key_ipv4_5tuple (keys ! i)) (the (ba_param ba i))) is"

lemma add_bulk_params_ok:
  assumes inv: "fw_inv S p g" and "bulk_keys_ok keys n" and "bulk_ports_ok p priorities port_ids n" and "\<forall>i \<in> set is. i < n"
  shows "add_bulk_params ba p keys priorities port_ids n is =
    Inr (if \<forall>i \<in> set is. ba_entry ba i \<and> ba_param ba i \<noteq> None then Some (bulk_add_params ba keys priorities port_ids is) else None)"
  using assms(4)
proof (induction "is")
  case (Cons i "is")
  have i: "i < n" "i < length keys" "key_type (keys ! i) = 0" "i < length priorities" "i < length port_ids" "port_ids ! i < be_n_ports_out p"
    using Cons.prems assms(2,3) by (auto simp: bulk_keys_ok_def bulk_ports_ok_def)
  show ?case using Cons i ids_okD(2) [OF inv i(6)] by (auto simp: bulk_add_params_def arr_at_def split: option.split)
qed (simp add: bulk_add_params_def)

lemma rfold_no_tree:
  "\<forall>x \<in> set ps. \<exists>port. snd x = port_entry port \<Longrightarrow>
   rfold (\<lambda>e bad. if bad then Inr bad else case e of None \<Rightarrow> Inl NullDeref | Some e \<Rightarrow> Inr (tree_like t e))
     (map (\<lambda>x. Some (snd x)) ps) False = Inr False"
  by (induction ps) auto

lemma fold_no_next:
  "\<forall>x \<in> set ps. \<exists>port. snd x = port_entry port \<Longrightarrow> fold (\<lambda>e t. set_next (the e) t) (map (\<lambda>x. Some (snd x)) ps) t = t"
  by (induction ps) auto

lemma bulk_entries_ok:
  fixes st :: int
  assumes inv: "fw_inv S p g" and pp: "\<forall>x \<in> set ps. \<exists>port < be_n_ports_out p. snd x = port_entry port"
    and spec: "acl_ok acl'" "st = 0 \<Longrightarrow> acl_map acl' = bulk_map (fw_map p g) {} (bulk_request (fw_acl p g) ps)"
      "st \<noteq> 0 \<Longrightarrow> \<exists>A. acl' = (fw_acl p g)\<lparr>acl_action_table := A\<rparr> \<and>
        overwritten (acl_rule_list (fw_acl p g)) (acl_action_table (fw_acl p g)) (snd ` set ps) A"
  shows "\<forall>k q e. acl_map acl' k = Some (q, e) \<longrightarrow> entry_ok (be_p p) False 0 e"
proof -
  note a = fw_aclD [OF inv]
  have new: "entry_ok (be_p p) False 0 e" if "e \<in> snd ` set ps" for e
    using that pp port_entry_ok [OF inv] by fastforce
  show ?thesis
  proof (cases "st = 0")
    case True
    have "\<forall>(k, pri, e) \<in> set (bulk_request (fw_acl p g) ps). entry_ok (be_p p) False 0 e"
      using new by (force simp: bulk_request_def)
    then show ?thesis using bulk_map_all [OF fw_entries_ok [OF inv]] spec(2) [OF True] by simp
  next
    case False
    then obtain A where A: "acl' = (fw_acl p g)\<lparr>acl_action_table := A\<rparr>"
        "overwritten (acl_rule_list (fw_acl p g)) (acl_action_table (fw_acl p g)) (snd ` set ps) A"
      using spec(3) by blast
    have "entry_ok (be_p p) False 0 (acl_action_table acl' ! i)" if ri: "rule_in acl' i x" for i x
    proof -
      have old: "rule_in (fw_acl p g) i x" using ri A(1) by (simp add: rule_in_def)
      then have "i < length A" "acl_rule_list (fw_acl p g) ! i \<noteq> None"
        using A(2) a(2) by (auto simp: overwritten_def rule_in_def acl_ok_def)
      then have "A ! i = acl_action_table (fw_acl p g) ! i \<or> A ! i \<in> snd ` set ps" using A(2) unfolding overwritten_def by blast
      then show ?thesis using A(1) new a(5) [OF old] by auto
    qed
    then show ?thesis using entries_by_map [of acl' "entry_ok (be_p p) False 0"] spec(1) by blast
  qed
qed

text \<open>The handler runs the operation of the table on the parameters.\<close>

lemma add_bulk_run:
  assumes inv: "fw_inv S p g" and req: "rq_body req = Add_Bulk_Body keys n priorities port_ids kf ptrs"
    and r: "add_bulk_params ba p keys priorities port_ids n [0 ..< n] = Inr (Some ps)"
    and pe: "\<forall>x \<in> set ps. \<exists>port. snd x = port_entry port"
    and run: "rte_table_acl_entry_add_bulk (su_lib S) (su_ctx S g) (Some (fw_acl p g))
      (map (Some \<circ> fst) ps) (map (Some \<circ> snd) ps) kf ptrs (acl_hp (rest g)) = (st, kf', ptrs', Some acl', hp')"
  shows "pipeline_firewall_msg_req_add_bulk_handler ba p req g =
    Inr (\<lparr>rs_status = st, rs_out = Out_Add_Bulk kf' ptrs'\<rparr>, p, acl_store (fw_handle p) (Some acl') hp' g)"
proof -
  have q: "(be_p p)\<lparr>tables := (tables (be_p p))[0 := tables (be_p p) ! 0]\<rparr> = be_p p" by simp
  have maps: "map (\<lambda>(r, e). Some (Add_Key r)) ps = map (\<lambda>x. Some (Add_Key (fst x))) ps"
      "map (\<lambda>(r, e). Some e) ps = map (\<lambda>x. Some (snd x)) ps" by (auto simp: case_prod_beta)
  have ko: "keys_of add_key (map (\<lambda>x. Some (Add_Key (fst x))) ps) = Inr (map (\<lambda>x. Some (fst x)) ps)"
    by (rule keys_of_Some) (simp add: add_key_def)
  have "rte_pipeline_table_entry_add_bulk (Some (be_p p)) 0 (Some (map (\<lambda>x. Some (Add_Key (fst x))) ps))
      (Some (map (\<lambda>x. Some (snd x)) ps)) kf ptrs g =
      Inr (st, kf', ptrs', Some (be_p p), acl_store (fw_handle p) (Some acl') hp' g)"
    using ids_okD(4) [OF inv] fw_ops [OF inv] fw_aclD(1) [OF inv] run ko q
    by (simp add: rte_pipeline_table_entry_add_bulk_def rte_table_acl_ops_def rfold_no_tree [OF pe] fold_no_next [OF pe]
        Let_def comp_def)
  then show ?thesis using req r ids_okD(3) [OF inv] by (simp add: pipeline_firewall_msg_req_add_bulk_handler_def maps)
qed

text \<open>With status 0 the rules of the request are in the map. For distinct keys the answer then tells which were
  there before; and if none was, a failure leaves everything as it was.\<close>

lemma add_bulk_spec:
  assumes inv: "fw_inv S p g" and req: "rq_body req = Add_Bulk_Body keys n priorities port_ids kf ptrs"
    and keys: "bulk_keys_ok keys n" and ports: "bulk_ports_ok p priorities port_ids n" and ptrs: "length ptrs = n"
    and ps: "ps = bulk_add_params ba keys priorities port_ids [0 ..< n]"
  shows "\<exists>rsp p' g'. pipeline_firewall_msg_req_add_bulk_handler ba p req g = Inr (rsp, p', g') \<and> kept S p g p' g' \<and>
    (rs_status rsp = 0 \<longrightarrow> fw_map p' g' = bulk_map (fw_map p g) {} (bulk_request (fw_acl p g) ps)) \<and>
    (distinct (map (param_key (fw_acl p g)) ps) \<longrightarrow>
      (rs_status rsp = 0 \<longrightarrow> (\<exists>ptrs'. rs_out rsp = Out_Add_Bulk (map (\<lambda>x. fw_map p g (param_key (fw_acl p g) x) \<noteq> None) ps) ptrs' \<and>
         length ptrs' = n \<and> None \<notin> set ptrs')) \<and>
      (rs_status rsp \<noteq> 0 \<longrightarrow> (\<forall>x \<in> set ps. fw_map p g (param_key (fw_acl p g) x) = None) \<longrightarrow> fw_map p' g' = fw_map p g \<and>
         (rs_out rsp = Out_None \<or> (\<exists>kf'. rs_out rsp = Out_Add_Bulk kf' ptrs)))) \<and>
    (can_build (su_lib S) (su_ctx S g) (acl_cfg (fw_acl p g)) \<and> 0 < n \<and> None \<notin> set ptrs \<and>
       (\<forall>i < n. ba_entry ba i \<and> ba_param ba i \<noteq> None \<and> 0 \<le> sint (priorities ! i) \<and> sint (priorities ! i) \<le> RTE_ACL_MAX_PRIORITY) \<and>
       card (dom (fw_map p g) \<union> param_key (fw_acl p g) ` set ps) < su_n_rules S \<longrightarrow> rs_status rsp = 0) \<and>
    acl_num_fields (fw_acl p' g') = acl_num_fields (fw_acl p g) \<and> fw_default p' = fw_default p"
proof (cases "\<forall>i \<in> set [0 ..< n]. ba_entry ba i \<and> ba_param ba i \<noteq> None")
  case False
  have up: "\<forall>i \<in> set [0 ..< n]. i < n" by simp
  have "pipeline_firewall_msg_req_add_bulk_handler ba p req g = Inr (rsp_status (- 1), p, g)"
    unfolding pipeline_firewall_msg_req_add_bulk_handler_def req fw_body.case add_bulk_params_ok [OF inv keys ports up, of ba] if_not_P [OF False]
    by simp
  then show ?thesis using kept_refl [OF inv] False by (auto simp: rsp_status_def)
next
  case True
  have up: "\<forall>i \<in> set [0 ..< n]. i < n" by simp
  have r: "add_bulk_params ba p keys priorities port_ids n [0 ..< n] = Inr (Some ps)"
    unfolding add_bulk_params_ok [OF inv keys ports up, of ba] if_P [OF True] ps ..
  have ln: "length ps = n" by (simp add: ps bulk_add_params_def)
  have pp: "\<forall>x \<in> set ps. \<exists>port < be_n_ports_out p. snd x = port_entry port"
    using ports by (auto simp: ps bulk_add_params_def bulk_ports_ok_def)
  then have pe: "\<forall>x \<in> set ps. \<exists>port. snd x = port_entry port" by blast
  note a = fw_aclD [OF inv]
  obtain st kf' ptrs' t hp' where run0: "rte_table_acl_entry_add_bulk (su_lib S) (su_ctx S g) (Some (fw_acl p g))
      (map (Some \<circ> fst) ps) (map (Some \<circ> snd) ps) kf ptrs (acl_hp (rest g)) = (st, kf', ptrs', t, hp')"
    by (metis prod_cases5)
  then obtain acl' where t: "t = Some acl'" "same_sizes (fw_acl p g) acl'" using entry_add_bulk_frame by blast
  have len: "length ptrs = length ps" using ptrs ln by simp
  note run = run0 [unfolded t(1)]
  have sp: "acl_ok acl'" "synced (su_lib S) acl' hp'" "st = 0 \<Longrightarrow> acl_map acl' = bulk_map (fw_map p g) {} (bulk_request (fw_acl p g) ps)"
      "st \<noteq> 0 \<Longrightarrow> \<exists>A. acl' = (fw_acl p g)\<lparr>acl_action_table := A\<rparr> \<and>
        overwritten (acl_rule_list (fw_acl p g)) (acl_action_table (fw_acl p g)) (snd ` set ps) A"
    using acl_entry_add_bulk_spec [OF a(2,3,6) len run] by (simp_all add: fw_map_def)
  have "\<forall>k q e. acl_map acl' k = Some (q, e) \<longrightarrow> entry_ok (be_p p) False 0 e" by (rule bulk_entries_ok [OF inv pp sp(1,3,4)])
  note c = fw_inv_changed [OF inv sp(1,2) t(2) this]
  have same: "acl_map acl' = fw_map p g" if "st \<noteq> 0" "acl_action_table acl' = acl_action_table (fw_acl p g)"
    using sp(4) [OF that(1)] that(2) by (auto simp: fw_map_def)
  note fd = acl_entry_add_bulk_found [OF a(2) len _ run, folded fw_map_def]
  have ok: "st = 0" if "can_build (su_lib S) (su_ctx S g) (acl_cfg (fw_acl p g))" "0 < n" "None \<notin> set ptrs"
      "\<forall>i < n. ba_entry ba i \<and> ba_param ba i \<noteq> None \<and> 0 \<le> sint (priorities ! i) \<and> sint (priorities ! i) \<le> RTE_ACL_MAX_PRIORITY"
      "card (dom (fw_map p g) \<union> param_key (fw_acl p g) ` set ps) < su_n_rules S"
  proof -
    have "ps \<noteq> []" using that(2) ln by auto
    moreover have "\<forall>(rule, e) \<in> set ps. 0 \<le> rap_priority rule \<and> rap_priority rule \<le> RTE_ACL_MAX_PRIORITY"
      using that(4) by (auto simp: ps bulk_add_params_def)
    moreover have "(\<lambda>(rule, e). rule_key (fw_acl p g) (rap_field_value rule)) = (\<lambda>x :: _ \<times> rte_pipeline_table_entry. param_key (fw_acl p g) x)"
      by (auto simp: fun_eq_iff)
    ultimately show ?thesis using acl_entry_add_bulk_succeeds [OF a(2,3,6) that(1) len _ that(3), where kf = kf] that(5) a(4) run
      by (simp add: fw_map_def)
  qed
  show ?thesis unfolding add_bulk_run [OF inv req r pe run] using c sp(3) fd same ln ok by auto
qed

lemma del_bulk_params_ok:
  assumes "bulk_keys_ok keys n" and "\<forall>i \<in> set is. i < n"
  shows "del_bulk_params ba keys n is = Inr (if \<forall>i \<in> set is. ba_param ba i \<noteq> None then Some (bulk_del_params ba keys is) else None)"
  using assms(2)
proof (induction "is")
  case (Cons i "is")
  then have "i < length keys" "key_type (keys ! i) = 0" using assms(1) by (auto simp: bulk_keys_ok_def)
  then show ?case using Cons by (auto simp: bulk_del_params_def arr_at_def split: option.split)
qed (simp add: bulk_del_params_def)

lemma del_bulk_spec:
  assumes inv: "fw_inv S p g" and req: "rq_body req = Del_Bulk_Body keys n kf" and keys: "bulk_keys_ok keys n"
    and ps: "ps = bulk_del_params ba keys [0 ..< n]"
  shows "\<exists>rsp p' g'. pipeline_firewall_msg_req_del_bulk_handler ba p req g = Inr (rsp, p', g') \<and> kept S p g p' g' \<and>
    (rs_status rsp = 0 \<longrightarrow> fw_map p' g' = fw_map p g |` (- (rule_key (fw_acl p g) ` set ps)) \<and>
       (distinct (map (rule_key (fw_acl p g)) ps) \<longrightarrow> length kf = n \<longrightarrow>
          rs_out rsp = Out_Del_Bulk (map (\<lambda>k. fw_map p g (rule_key (fw_acl p g) k) \<noteq> None) ps))) \<and>
    (rs_status rsp \<noteq> 0 \<longrightarrow> fw_map p' g' = fw_map p g) \<and>
    (can_build (su_lib S) (su_ctx S g) (acl_cfg (fw_acl p g)) \<and> 0 < n \<and> (\<forall>i < n. ba_param ba i \<noteq> None) \<longrightarrow> rs_status rsp = 0) \<and>
    acl_num_fields (fw_acl p' g') = acl_num_fields (fw_acl p g) \<and> fw_default p' = fw_default p"
proof (cases "\<forall>i \<in> set [0 ..< n]. ba_param ba i \<noteq> None")
  case False
  have up: "\<forall>i \<in> set [0 ..< n]. i < n" by simp
  have "pipeline_firewall_msg_req_del_bulk_handler ba p req g = Inr (rsp_status (- 1), p, g)"
    unfolding pipeline_firewall_msg_req_del_bulk_handler_def req fw_body.case del_bulk_params_ok [OF keys up, of ba] if_not_P [OF False]
    by simp
  then show ?thesis using kept_refl [OF inv] False by (auto simp: rsp_status_def)
next
  case True
  have up: "\<forall>i \<in> set [0 ..< n]. i < n" by simp
  have r: "del_bulk_params ba keys n [0 ..< n] = Inr (Some ps)"
    unfolding del_bulk_params_ok [OF keys up, of ba] if_P [OF True] ps ..
  have ln: "length ps = n" by (simp add: ps bulk_del_params_def)
  note a = fw_aclD [OF inv]
  obtain st kf' t hp' where run0: "rte_table_acl_entry_delete_bulk (su_lib S) (su_ctx S g) (Some (fw_acl p g))
      (map Some ps) kf (acl_hp (rest g)) = (st, kf', t, hp')"
    by (metis prod_cases4)
  obtain acl' where t: "t = Some acl'" "same_sizes (fw_acl p g) acl'"
    using entry_delete_bulk_frame [OF run0 a(2)] acl_entry_delete_bulk_spec [OF a(2,3,6)] by blast
  note run = run0 [unfolded t(1)]
  have sp: "acl_ok acl'" "synced (su_lib S) acl' hp'" "st = 0 \<Longrightarrow> acl_map acl' = fw_map p g |` (- (rule_key (fw_acl p g) ` set ps))"
      "st \<noteq> 0 \<Longrightarrow> acl' = fw_acl p g" "can_build (su_lib S) (su_ctx S g) (acl_cfg (fw_acl p g)) \<Longrightarrow> ps \<noteq> [] \<Longrightarrow> st = 0"
    using acl_entry_delete_bulk_spec [OF a(2,3,6) run] by (simp_all add: fw_map_def)
  have "\<forall>k q e. acl_map acl' k = Some (q, e) \<longrightarrow> entry_ok (be_p p) False 0 e"
  proof (cases "st = 0")
    case True
    then show ?thesis using sp(3) fw_entries_ok [OF inv] by (auto simp: restrict_map_def)
  next
    case False
    then show ?thesis using sp(4) fw_entries_ok [OF inv] by (simp add: fw_map_def)
  qed
  note c = fw_inv_changed [OF inv sp(1,2) t(2) this]
  have ko: "keys_of delete_key (map (\<lambda>x. Some (Delete_Key x)) ps) = Inr (map (\<lambda>x. Some x) ps)"
    by (rule keys_of_Some) (simp add: delete_key_def)
  have "rte_pipeline_table_entry_delete_bulk (Some (be_p p)) 0 (Some (map (\<lambda>x. Some (Delete_Key x)) ps)) kf g =
      Inr (st, kf', acl_store (fw_handle p) (Some acl') hp' g)"
    using ids_okD(4) [OF inv] fw_ops [OF inv] a(1) run ko
    by (simp add: rte_pipeline_table_entry_delete_bulk_def rte_table_acl_ops_def Let_def)
  then have h: "pipeline_firewall_msg_req_del_bulk_handler ba p req g =
      Inr (\<lparr>rs_status = st, rs_out = Out_Del_Bulk kf'\<rparr>, p, acl_store (fw_handle p) (Some acl') hp' g)"
    using req r ids_okD(3) [OF inv] by (simp add: pipeline_firewall_msg_req_del_bulk_handler_def)
  have fd: "kf' = map (\<lambda>k. fw_map p g (rule_key (fw_acl p g) k) \<noteq> None) ps"
    if "st = 0" "distinct (map (rule_key (fw_acl p g)) ps)" "length kf = n"
    using acl_entry_delete_bulk_found [OF a(2) that(2) _ run [unfolded that(1)]] that(3) ln by (simp add: fw_map_def)
  have "st = 0" if "can_build (su_lib S) (su_ctx S g) (acl_cfg (fw_acl p g))" "0 < n" using sp(5) [OF that(1)] that(2) ln by auto
  then show ?thesis unfolding h using c sp(3,4) fd by (auto simp: fw_map_def)
qed

section \<open>Dispatch\<close>

text \<open>The requests that the handlers can process: the structure fits the type, the output ports exist, and bulk
  requests have arrays of their length and keys of the one known type.\<close>

definition req_ok :: "('rt, 'z) pipeline_scheme \<Rightarrow> fw_req \<Rightarrow> bool" where
  "req_ok p req \<longleftrightarrow> (rq_type req = 6 \<longrightarrow>
     (rq_word req = 0 \<longrightarrow> (\<exists>key pri port. rq_body req = Add_Body key pri port \<and> port < be_n_ports_out p)) \<and>
     (rq_word req = 1 \<longrightarrow> (\<exists>key. rq_body req = Del_Body key)) \<and>
     (rq_word req = 2 \<longrightarrow> (\<exists>keys n priorities port_ids kf ptrs.
        rq_body req = Add_Bulk_Body keys n priorities port_ids kf ptrs \<and> bulk_keys_ok keys n \<and>
        bulk_ports_ok p priorities port_ids n \<and> length ptrs = n)) \<and>
     (rq_word req = 3 \<longrightarrow> (\<exists>keys n kf. rq_body req = Del_Bulk_Body keys n kf \<and> bulk_keys_ok keys n)) \<and>
     (rq_word req = 4 \<longrightarrow> (\<exists>port. rq_body req = Add_Default_Body port \<and> port < be_n_ports_out p)))"

lemma handle_kept:
  assumes inv: "fw_inv S p g" and req: "req_ok p req"
  shows "\<exists>rsp p' g'. handle_req ba p req g = Inr (rsp, p', g') \<and> kept S p g p' g'"
proof -
  have custom: "\<exists>rsp p' g'. pipeline_firewall_msg_req_custom_handler ba p req g = Inr (rsp, p', g') \<and> kept S p g p' g'"
    if six: "rq_type req = 6"
  proof -
    note ch = pipeline_firewall_msg_req_custom_handler_def custom_handlers_def
    consider "rq_word req = 0" | "rq_word req = 1" | "rq_word req = 2" | "rq_word req = 3" | "rq_word req = 4"
      | "rq_word req = 5" | "rq_word req > 5" by linarith
    then show ?thesis
    proof cases
      case 1
      then obtain key pri port where "rq_body req = Add_Body key pri port" "port < be_n_ports_out p"
        using req six by (auto simp: req_ok_def)
      then show ?thesis using add_spec [OF inv] 1 unfolding ch by fastforce
    next
      case 2
      then obtain key where "rq_body req = Del_Body key" using req six by (auto simp: req_ok_def)
      then show ?thesis using del_spec [OF inv] 2 unfolding ch by fastforce
    next
      case 3
      then obtain keys n priorities port_ids kf ptrs where "rq_body req = Add_Bulk_Body keys n priorities port_ids kf ptrs"
          "bulk_keys_ok keys n" "bulk_ports_ok p priorities port_ids n" "length ptrs = n"
        using req six by (auto simp: req_ok_def)
      from add_bulk_spec [OF inv this refl, of ba] show ?thesis using 3 unfolding ch by (auto simp: numeral_2_eq_2)
    next
      case 4
      then obtain keys n kf where "rq_body req = Del_Bulk_Body keys n kf" "bulk_keys_ok keys n"
        using req six by (auto simp: req_ok_def)
      from del_bulk_spec [OF inv this refl, of ba] show ?thesis using 4 unfolding ch by (auto simp: numeral_3_eq_3)
    next
      case 5
      then obtain port where "rq_body req = Add_Default_Body port" "port < be_n_ports_out p"
        using req six by (auto simp: req_ok_def)
      from add_default_spec [OF inv this] show ?thesis using 5 unfolding ch by (auto simp: eval_nat_numeral)
    next
      case 6
      then show ?thesis using del_default_spec [OF inv, of req] unfolding ch by (auto simp: eval_nat_numeral)
    next
      case 7
      then show ?thesis using ping_kept(2) [OF inv, of req] unfolding ch by auto
    qed
  qed
  note hd = handle_req_def handlers_def
  consider "rq_type req = 0" | "rq_type req = 1" | "rq_type req = 2" | "rq_type req = 3" | "rq_type req = 4"
    | "rq_type req = 5" | "rq_type req = 6" | "rq_type req > 6" by linarith
  then show ?thesis
  proof cases
    case 1
    then show ?thesis using ping_kept(1) [OF inv, of req] unfolding hd by auto
  next
    case 2
    then show ?thesis using stats_in_kept [OF inv, of req] unfolding hd by auto
  next
    case 3
    then show ?thesis using stats_out_kept [OF inv, of req] unfolding hd by (auto simp: eval_nat_numeral)
  next
    case 4
    then show ?thesis using stats_table_kept [OF inv, of req] unfolding hd by (auto simp: eval_nat_numeral)
  next
    case 5
    then show ?thesis using enable_kept [OF inv, of req] unfolding hd by (auto simp: eval_nat_numeral)
  next
    case 6
    then show ?thesis using disable_kept [OF inv, of req] unfolding hd by (auto simp: eval_nat_numeral)
  next
    case 7
    then show ?thesis using custom unfolding hd by (auto simp: eval_nat_numeral)
  next
    case 8
    then show ?thesis using ping_kept(2) [OF inv, of req] unfolding hd by auto
  qed
qed

end
