(* ===== verification/Firewall_Thread.thy ===== *)
theory Firewall_Thread
  imports Firewall_Correct
begin

text \<open>
  The message queues and the main loop of the firewall: requests are answered once and in order
  (\<open>pipeline_msg_req_handle\<close> of src/Enclave/ip_pipeline/pipeline_common_be.c), and the loop of
  src/Enclave/firewall_thread.c runs without fault and conserves the packets.
\<close>

section \<open>Answering a queue\<close>

text \<open>The specification: the requests of a queue are handled one after the other.\<close>

fun handle_all ::
  "bulk_alloc \<Rightarrow> fw_req list \<Rightarrow> 'rt pipeline_firewall \<Rightarrow> 'rt fw_world \<Rightarrow>
   (fw_rsp list \<times> 'rt pipeline_firewall \<times> 'rt fw_world) res" where
  "handle_all ba [] p g = Inr ([], p, g)"
| "handle_all ba (req # reqs) p g = rbind (handle_req ba p req g) (\<lambda>(rsp, p, g).
     rbind (handle_all ba reqs p g) (\<lambda>(rsps, p, g). Inr (rsp # rsps, p, g)))"

text \<open>A queue of the back end: its two rings exist and are sound.\<close>

definition queue_rings :: "('rt, 'z) pipeline_scheme \<Rightarrow> fw_msgs \<Rightarrow> nat \<Rightarrow> nat \<Rightarrow> nat \<Rightarrow> bool" where
  "queue_rings p ms q i k \<longleftrightarrow> q < length (be_msgq_in p) \<and> be_msgq_in p ! q = Some i \<and> i < length (req_rings ms) \<and>
     ring_ok (req_rings ms ! i) \<and> q < length (be_msgq_out p) \<and> be_msgq_out p ! q = Some k \<and> k < length (rsp_rings ms) \<and>
     ring_ok (rsp_rings ms ! k)"

lemma kept_be:
  assumes "kept S p g p' g'"
  shows "be_msgq_in p' = be_msgq_in p" "be_msgq_out p' = be_msgq_out p" "be_n_msgq p' = be_n_msgq p"
    "be_n_ports_out p' = be_n_ports_out p" "fw_inv S p' g'" "mem_owned enclave_pool g' = mem_owned enclave_pool g"
    "queue_rings p' ms q i k = queue_rings p ms q i k" "req_ok p' req = req_ok p req"
proof -
  have p': "p' = p\<lparr>be_p := be_p p'\<rparr>" using assms by (simp add: kept_def)
  show f: "be_msgq_in p' = be_msgq_in p" "be_msgq_out p' = be_msgq_out p" "be_n_msgq p' = be_n_msgq p"
    "be_n_ports_out p' = be_n_ports_out p" by (subst p', simp)+
  show "fw_inv S p' g'" "mem_owned enclave_pool g' = mem_owned enclave_pool g" using assms by (simp_all add: kept_def)
  show "queue_rings p' ms q i k = queue_rings p ms q i k" "req_ok p' req = req_ok p req"
    using f by (simp_all add: queue_rings_def req_ok_def bulk_ports_ok_def)
qed

lemma kept_trans:
  assumes "kept S p g p1 g1" and "kept S p1 g1 p2 g2"
  shows "kept S p g p2 g2"
proof -
  have "p1 = p\<lparr>be_p := be_p p1\<rparr>" "p2 = p1\<lparr>be_p := be_p p2\<rparr>" using assms by (simp_all add: kept_def)
  then have "p2 = p\<lparr>be_p := be_p p2\<rparr>" by (metis pipeline.update_convs(1) pipeline.surjective pipeline.select_convs(1))
  then show ?thesis using assms by (simp add: kept_def same_core_def)
qed

lemma handle_all_kept:
  assumes "fw_inv S p g" and "\<forall>req \<in> set reqs. req_ok p req"
  shows "\<exists>rsps p' g'. handle_all ba reqs p g = Inr (rsps, p', g') \<and> kept S p g p' g' \<and> length rsps = length reqs"
  using assms
proof (induction reqs arbitrary: p g)
  case Nil
  then show ?case by (simp add: kept_refl)
next
  case (Cons req reqs)
  obtain rsp p1 g1 where r: "handle_req ba p req g = Inr (rsp, p1, g1)" "kept S p g p1 g1"
    using handle_kept [OF Cons.prems(1), of req ba] Cons.prems(2) by auto
  have "\<forall>req \<in> set reqs. req_ok p1 req" using Cons.prems(2) kept_be(8) [OF r(2)] by simp
  from Cons.IH [OF kept_be(5) [OF r(2)] this] obtain rsps p' g' where
      "handle_all ba reqs p1 g1 = Inr (rsps, p', g')" "kept S p1 g1 p' g'" "length rsps = length reqs" by blast
  then show ?case using r kept_trans [OF r(2)] by simp
qed

text \<open>A response answers a request if a sound firewall gave it for this request.\<close>

definition answer_of :: "'rt fw_setup \<Rightarrow> bulk_alloc \<Rightarrow> fw_req \<Rightarrow> fw_rsp \<Rightarrow> bool" where
  "answer_of S ba req rsp \<longleftrightarrow> (\<exists>p g p' g'. fw_inv S p g \<and> handle_req ba p req g = Inr (rsp, p', g'))"

lemma handle_all_answers:
  assumes "fw_inv S p g" and "\<forall>req \<in> set reqs. req_ok p req" and "handle_all ba reqs p g = Inr (rsps, p', g')"
  shows "list_all2 (answer_of S ba) reqs rsps"
  using assms
proof (induction reqs arbitrary: p g rsps)
  case (Cons req reqs)
  obtain rsp p1 g1 where r: "handle_req ba p req g = Inr (rsp, p1, g1)" "kept S p g p1 g1"
    using handle_kept [OF Cons.prems(1), of req ba] Cons.prems(2) by auto
  obtain rs where rs: "handle_all ba reqs p1 g1 = Inr (rs, p', g')" "rsps = rsp # rs"
    using Cons.prems(3) r(1) by (auto elim!: rbind_eq_InrE)
  have "\<forall>req \<in> set reqs. req_ok p1 req" using Cons.prems(2) kept_be(8) [OF r(2)] by simp
  from Cons.IH [OF kept_be(5) [OF r(2)] this rs(1)] show ?case using rs(2) r(1) Cons.prems(1) by (auto simp: answer_of_def)
qed simp

lemma recv_Nil:
  assumes "queue_rings p ms q i k" and "contents (req_rings ms ! i) = []"
  shows "\<exists>r. pipeline_msg_recv p q ms = Inr (None, ms\<lparr>req_rings := (req_rings ms)[i := r]\<rparr>) \<and> ring_ok r \<and> contents r = [] \<and>
    capacity r = capacity (req_rings ms ! i)"
  using assms single_ring.get_Nil [of "req_rings ms ! i"]
  by (auto simp: queue_rings_def pipeline_msg_recv_def msg_ring_def)

lemma recv_Cons:
  assumes "queue_rings p ms q i k" and "contents (req_rings ms ! i) = req # reqs"
  shows "\<exists>r. pipeline_msg_recv p q ms = Inr (Some req, ms\<lparr>req_rings := (req_rings ms)[i := r]\<rparr>) \<and> ring_ok r \<and> contents r = reqs \<and>
    capacity r = capacity (req_rings ms ! i)"
  using assms single_ring.get_Cons [of "req_rings ms ! i" req reqs]
  by (auto simp: queue_rings_def pipeline_msg_recv_def msg_ring_def)

lemma send_room:
  assumes "queue_rings p ms q i k" and "length (contents (rsp_rings ms ! k)) < capacity (rsp_rings ms ! k)"
  shows "\<exists>r. pipeline_msg_send (Suc sf) env p q rsp ms = Inr (ms\<lparr>rsp_rings := (rsp_rings ms)[k := r]\<rparr>) \<and> ring_ok r \<and>
    capacity r = capacity (rsp_rings ms ! k) \<and> contents r = contents (rsp_rings ms ! k) @ [rsp]"
  using assms single_ring.put_room [of "rsp_rings ms ! k" rsp]
  by (auto simp: queue_rings_def pipeline_msg_send_def msg_ring_def simp del: length_contents)

lemma msg_loop_answers:
  assumes "fw_inv S p g" and "queue_rings p ms q i k" and "contents (req_rings ms ! i) = reqs" and "\<forall>req \<in> set reqs. req_ok p req"
    and "length (contents (rsp_rings ms ! k)) + length reqs \<le> capacity (rsp_rings ms ! k)" and "length reqs < fuel"
  shows "\<exists>rsps p' g' ri ro. handle_all ba reqs p g = Inr (rsps, p', g') \<and> kept S p g p' g' \<and>
    msg_loop fuel (Suc sf) env ba q (p, ms, g) =
      Inr (p', ms\<lparr>req_rings := (req_rings ms)[i := ri], rsp_rings := (rsp_rings ms)[k := ro]\<rparr>, g') \<and>
    ring_ok ri \<and> contents ri = [] \<and> ring_ok ro \<and> contents ro = contents (rsp_rings ms ! k) @ rsps \<and>
    capacity ro = capacity (rsp_rings ms ! k) \<and> capacity ri = capacity (req_rings ms ! i)"
  using assms
proof (induction reqs arbitrary: p g ms fuel)
  case Nil
  obtain n where n: "fuel = Suc n" using Nil.prems(6) by (cases fuel) auto
  obtain r where r: "pipeline_msg_recv p q ms = Inr (None, ms\<lparr>req_rings := (req_rings ms)[i := r]\<rparr>)" "ring_ok r" "contents r = []"
      "capacity r = capacity (req_rings ms ! i)"
    using recv_Nil [OF Nil.prems(2,3)] by blast
  have "ms\<lparr>req_rings := (req_rings ms)[i := r]\<rparr> =
      ms\<lparr>req_rings := (req_rings ms)[i := r], rsp_rings := (rsp_rings ms)[k := rsp_rings ms ! k]\<rparr>" by simp
  moreover have "ring_ok (rsp_rings ms ! k)" using Nil.prems(2) by (simp add: queue_rings_def)
  ultimately show ?case using r kept_refl [OF Nil.prems(1)] n
    by (intro exI [of _ "[]"] exI [of _ p] exI [of _ g] exI [of _ r] exI [of _ "rsp_rings ms ! k"]) simp
next
  case (Cons req reqs)
  obtain n where n: "fuel = Suc n" "length reqs < n" using Cons.prems(6) by (cases fuel) auto
  obtain r where r: "pipeline_msg_recv p q ms = Inr (Some req, ms\<lparr>req_rings := (req_rings ms)[i := r]\<rparr>)" "ring_ok r" "contents r = reqs"
      "capacity r = capacity (req_rings ms ! i)"
    using recv_Cons [OF Cons.prems(2,3)] by blast
  let ?ms = "ms\<lparr>req_rings := (req_rings ms)[i := r]\<rparr>"
  obtain rsp p1 g1 where h: "handle_req ba p req g = Inr (rsp, p1, g1)" "kept S p g p1 g1"
    using handle_kept [OF Cons.prems(1), of req ba] Cons.prems(4) by auto
  note k = kept_be [OF h(2)]
  have q1: "queue_rings p1 ?ms q i k" using Cons.prems(2) r(2) k(1,2) by (simp add: queue_rings_def)
  obtain ro where s: "pipeline_msg_send (Suc sf) env p1 q rsp ?ms = Inr (?ms\<lparr>rsp_rings := (rsp_rings ?ms)[k := ro]\<rparr>)"
      "ring_ok ro" "capacity ro = capacity (rsp_rings ms ! k)" "contents ro = contents (rsp_rings ms ! k) @ [rsp]"
    using send_room [OF q1, of sf env rsp] Cons.prems(5) by (auto simp del: length_contents)
  let ?ms2 = "ms\<lparr>req_rings := (req_rings ms)[i := r], rsp_rings := (rsp_rings ms)[k := ro]\<rparr>"
  have idx: "i < length (req_rings ms)" "k < length (rsp_rings ms)" using Cons.prems(2) by (simp_all add: queue_rings_def)
  have "queue_rings p1 ?ms2 q i k" using q1 s(2) by (auto simp: queue_rings_def)
  moreover have "contents (req_rings ?ms2 ! i) = reqs" using idx r(3) by simp
  moreover have "\<forall>req \<in> set reqs. req_ok p1 req" using Cons.prems(4) k(8) by simp
  moreover have "length (contents (rsp_rings ?ms2 ! k)) + length reqs \<le> capacity (rsp_rings ?ms2 ! k)"
    using idx s(3,4) Cons.prems(5) by (simp del: length_contents)
  ultimately obtain rsps p' g' ri ro' where ih: "handle_all ba reqs p1 g1 = Inr (rsps, p', g')" "kept S p1 g1 p' g'"
      "msg_loop n (Suc sf) env ba q (p1, ?ms2, g1) =
        Inr (p', ?ms2\<lparr>req_rings := (req_rings ?ms2)[i := ri], rsp_rings := (rsp_rings ?ms2)[k := ro']\<rparr>, g')"
      "ring_ok ri" "contents ri = []" "ring_ok ro'" "contents ro' = contents (rsp_rings ?ms2 ! k) @ rsps"
      "capacity ro' = capacity (rsp_rings ?ms2 ! k)" "capacity ri = capacity (req_rings ?ms2 ! i)"
    using Cons.IH [OF k(5) _ _ _ _ n(2)] by blast
  have "msg_loop fuel (Suc sf) env ba q (p, ms, g) =
      Inr (p', ms\<lparr>req_rings := (req_rings ms)[i := ri], rsp_rings := (rsp_rings ms)[k := ro']\<rparr>, g')"
    using n(1) r(1) h(1) s(1) ih(3) by simp
  moreover have "contents ro' = contents (rsp_rings ms ! k) @ rsp # rsps" "capacity ro' = capacity (rsp_rings ms ! k)"
      "capacity ri = capacity (req_rings ms ! i)"
    using ih(7-9) idx s(3,4) r(4) by simp_all
  ultimately show ?case using h ih(1,4,5,6) kept_trans [OF h(2) ih(2)]
    by (intro exI [of _ "rsp # rsps"] exI [of _ p'] exI [of _ g'] exI [of _ ri] exI [of _ ro']) simp
qed

section \<open>All queues\<close>

text \<open>The queues have rings of their own. A queue is ready when its requests can be processed and the answers
  fit; \<open>fuel\<close> is more than any response ring holds.\<close>

definition queues_apart :: "('rt, 'z) pipeline_scheme \<Rightarrow> bool" where
  "queues_apart p \<longleftrightarrow> (\<forall>q < be_n_msgq p. \<forall>q' < be_n_msgq p. q \<noteq> q' \<longrightarrow>
     be_msgq_in p ! q \<noteq> be_msgq_in p ! q' \<and> be_msgq_out p ! q \<noteq> be_msgq_out p ! q')"

definition queue_ready :: "nat \<Rightarrow> ('rt, 'z) pipeline_scheme \<Rightarrow> fw_msgs \<Rightarrow> nat \<Rightarrow> bool" where
  "queue_ready fuel p ms q \<longleftrightarrow> (\<exists>i k. queue_rings p ms q i k \<and> (\<forall>req \<in> set (contents (req_rings ms ! i)). req_ok p req) \<and>
     length (contents (rsp_rings ms ! k)) + length (contents (req_rings ms ! i)) \<le> capacity (rsp_rings ms ! k) \<and>
     capacity (rsp_rings ms ! k) < fuel)"

definition queues_ok :: "nat \<Rightarrow> ('rt, 'z) pipeline_scheme \<Rightarrow> fw_msgs \<Rightarrow> bool" where
  "queues_ok fuel p ms \<longleftrightarrow> queues_apart p \<and> (\<forall>q < be_n_msgq p. queue_ready fuel p ms q)"

definition queue_empty :: "('rt, 'z) pipeline_scheme \<Rightarrow> fw_msgs \<Rightarrow> nat \<Rightarrow> bool" where
  "queue_empty p ms q \<longleftrightarrow> (\<exists>i. be_msgq_in p ! q = Some i \<and> contents (req_rings ms ! i) = [])"

text \<open>The requests that have left a queue are answered, in order, in its response ring.\<close>

definition answered :: "'rt fw_setup \<Rightarrow> bulk_alloc \<Rightarrow> ('rt, 'z) pipeline_scheme \<Rightarrow> fw_msgs \<Rightarrow> fw_msgs \<Rightarrow> nat \<Rightarrow> bool" where
  "answered S ba p ms ms' q \<longleftrightarrow> (\<forall>i k. queue_rings p ms q i k \<longrightarrow>
     (\<exists>reqs rsps. contents (req_rings ms ! i) = reqs @ contents (req_rings ms' ! i) \<and>
        contents (rsp_rings ms' ! k) = contents (rsp_rings ms ! k) @ rsps \<and> list_all2 (answer_of S ba) reqs rsps))"

lemma answered_refl [simp]: "answered S ba p ms ms q"
  by (auto simp: answered_def intro: exI [of _ "[]"])

lemma answered_trans:
  assumes "answered S ba p ms ms1 q" and "answered S ba p1 ms1 ms2 q" and "kept S p g p1 g1" and "queues_ok fuel p1 ms1" and "q < be_n_msgq p"
  shows "answered S ba p ms ms2 q"
  unfolding answered_def
proof (intro allI impI)
  fix i k assume r: "queue_rings p ms q i k"
  note b = kept_be [OF assms(3)]
  obtain i' k' where r1: "queue_rings p1 ms1 q i' k'" using assms(4,5) b(3) unfolding queues_ok_def queue_ready_def by metis
  then have "i' = i" "k' = k" using r b(1,2) by (simp_all add: queue_rings_def)
  then have r1: "queue_rings p1 ms1 q i k" using r1 by simp
  obtain reqs rsps where a: "contents (req_rings ms ! i) = reqs @ contents (req_rings ms1 ! i)"
      "contents (rsp_rings ms1 ! k) = contents (rsp_rings ms ! k) @ rsps" "list_all2 (answer_of S ba) reqs rsps"
    using assms(1) r unfolding answered_def by blast
  obtain reqs' rsps' where b: "contents (req_rings ms1 ! i) = reqs' @ contents (req_rings ms2 ! i)"
      "contents (rsp_rings ms2 ! k) = contents (rsp_rings ms1 ! k) @ rsps'" "list_all2 (answer_of S ba) reqs' rsps'"
    using assms(2) r1 unfolding answered_def by blast
  show "\<exists>reqs rsps. contents (req_rings ms ! i) = reqs @ contents (req_rings ms2 ! i) \<and>
      contents (rsp_rings ms2 ! k) = contents (rsp_rings ms ! k) @ rsps \<and> list_all2 (answer_of S ba) reqs rsps"
    using a b list_all2_appendI [OF a(3) b(3)] by (intro exI [of _ "reqs @ reqs'"] exI [of _ "rsps @ rsps'"]) simp
qed

lemma kept_queues:
  assumes "kept S p g p' g'"
  shows "queues_apart p' = queues_apart p" "queue_ready fuel p' ms q = queue_ready fuel p ms q"
    "queue_empty p' ms q = queue_empty p ms q" "queues_ok fuel p' ms = queues_ok fuel p ms"
  using kept_be [OF assms] by (simp_all add: queues_apart_def queue_ready_def queue_empty_def queues_ok_def)

lemma queue_untouched:
  assumes ok: "queues_apart p" and q: "q < be_n_msgq p" "queue_rings p ms q i k" and q': "q' < be_n_msgq p" "q' \<noteq> q"
    and ms': "ms' = ms\<lparr>req_rings := (req_rings ms)[i := ri], rsp_rings := (rsp_rings ms)[k := ro]\<rparr>"
  shows "queue_ready fuel p ms' q' = queue_ready fuel p ms q'" "queue_empty p ms' q' = queue_empty p ms q'"
    "answered S ba p ms ms' q'"
proof -
  have "be_msgq_in p ! q' \<noteq> Some i" "be_msgq_out p ! q' \<noteq> Some k"
    using ok q q' unfolding queues_apart_def queue_rings_def by metis+
  then have "i' \<noteq> i" if "be_msgq_in p ! q' = Some i'" for i' using that by auto
  moreover have "k' \<noteq> k" if "be_msgq_out p ! q' = Some k'" for k' using that \<open>be_msgq_out p ! q' \<noteq> Some k\<close> by auto
  ultimately show "queue_ready fuel p ms' q' = queue_ready fuel p ms q'" "queue_empty p ms' q' = queue_empty p ms q'"
      "answered S ba p ms ms' q'"
    by (auto simp: queue_ready_def queue_rings_def queue_empty_def answered_def ms' intro: exI [of _ "[]"])
qed

lemma msg_loop_queue:
  assumes inv: "fw_inv S p g" and qs: "queues_ok fuel p ms" and q: "q < be_n_msgq p"
  shows "\<exists>p' ms' g'. msg_loop fuel (Suc sf) env ba q (p, ms, g) = Inr (p', ms', g') \<and> kept S p g p' g' \<and>
    queues_ok fuel p' ms' \<and> queue_empty p' ms' q \<and>
    (\<forall>q' < be_n_msgq p. (queue_empty p ms q' \<longrightarrow> queue_empty p' ms' q') \<and> answered S ba p ms ms' q')"
proof -
  obtain i k where r: "queue_rings p ms q i k" "\<forall>req \<in> set (contents (req_rings ms ! i)). req_ok p req"
      "length (contents (rsp_rings ms ! k)) + length (contents (req_rings ms ! i)) \<le> capacity (rsp_rings ms ! k)"
      "capacity (rsp_rings ms ! k) < fuel"
    using qs q unfolding queues_ok_def queue_ready_def by blast
  have "length (contents (req_rings ms ! i)) < fuel" using r(3,4) by (simp del: length_contents)
  from msg_loop_answers [OF inv r(1) refl r(2,3) this]
  obtain rsps p' g' ri ro where h: "handle_all ba (contents (req_rings ms ! i)) p g = Inr (rsps, p', g')" "kept S p g p' g'"
      "msg_loop fuel (Suc sf) env ba q (p, ms, g) =
        Inr (p', ms\<lparr>req_rings := (req_rings ms)[i := ri], rsp_rings := (rsp_rings ms)[k := ro]\<rparr>, g')"
      "ring_ok ri" "contents ri = []" "ring_ok ro" "contents ro = contents (rsp_rings ms ! k) @ rsps"
      "capacity ro = capacity (rsp_rings ms ! k)" by blast
  let ?ms = "ms\<lparr>req_rings := (req_rings ms)[i := ri], rsp_rings := (rsp_rings ms)[k := ro]\<rparr>"
  have "length rsps = length (contents (req_rings ms ! i))"
    using handle_all_kept [OF inv r(2), of ba] h(1) by auto
  then have "queue_rings p ?ms q i k" "length (contents ro) \<le> capacity ro"
    using r(1,3) h(4,6,7,8) by (auto simp: queue_rings_def simp del: length_contents)
  then have "queue_ready fuel p ?ms q" using r(1,4) h(5,8)
    by (auto simp: queue_ready_def queue_rings_def simp del: length_contents)
  moreover have apart: "queues_apart p" using qs by (simp add: queues_ok_def)
  ultimately have "queues_ok fuel p ?ms"
    using qs queue_untouched(1) [OF apart q r(1) _ _ refl] unfolding queues_ok_def by metis
  moreover have e: "queue_empty p ?ms q" using r(1) h(5) by (auto simp: queue_empty_def queue_rings_def)
  moreover have "queue_empty p ?ms q'" if "q' < be_n_msgq p" "queue_empty p ms q'" for q'
    using that e queue_untouched(2) [OF apart q r(1) _ _ refl] by (cases "q' = q") simp_all
  moreover have "answered S ba p ms ?ms q'" if "q' < be_n_msgq p" for q'
  proof (cases "q' = q")
    case True
    have "list_all2 (answer_of S ba) (contents (req_rings ms ! i)) rsps" by (rule handle_all_answers [OF inv r(2) h(1)])
    then show ?thesis using True r(1) h(5,7) by (auto simp: answered_def queue_rings_def)
  next
    case False
    then show ?thesis using queue_untouched(3) [OF apart q r(1) that _ refl] by simp
  qed
  ultimately show ?thesis using h(2,3) kept_queues [OF h(2)] by blast
qed

lemma msg_queues:
  assumes "fw_inv S p g" and "queues_ok fuel p ms" and "\<forall>q \<in> set qs. q < be_n_msgq p"
  shows "\<exists>p' ms' g'. rfold (\<lambda>q s. msg_loop fuel (Suc sf) env ba q s) qs (p, ms, g) = Inr (p', ms', g') \<and>
    kept S p g p' g' \<and> queues_ok fuel p' ms' \<and>
    (\<forall>q < be_n_msgq p. (q \<in> set qs \<or> queue_empty p ms q \<longrightarrow> queue_empty p' ms' q) \<and> answered S ba p ms ms' q)"
  using assms
proof (induction qs arbitrary: p ms g)
  case Nil
  then show ?case by (simp add: kept_refl)
next
  case (Cons q qs)
  obtain p1 ms1 g1 where a: "msg_loop fuel (Suc sf) env ba q (p, ms, g) = Inr (p1, ms1, g1)" "kept S p g p1 g1"
      "queues_ok fuel p1 ms1" "queue_empty p1 ms1 q"
      "\<forall>q' < be_n_msgq p. (queue_empty p ms q' \<longrightarrow> queue_empty p1 ms1 q') \<and> answered S ba p ms ms1 q'"
    using msg_loop_queue [OF Cons.prems(1,2), of q sf env ba] Cons.prems(3) by auto
  note k = kept_be [OF a(2)]
  obtain p' ms' g' where b: "rfold (\<lambda>q s. msg_loop fuel (Suc sf) env ba q s) qs (p1, ms1, g1) = Inr (p', ms', g')"
      "kept S p1 g1 p' g'" "queues_ok fuel p' ms'"
      "\<forall>q < be_n_msgq p1. (q \<in> set qs \<or> queue_empty p1 ms1 q \<longrightarrow> queue_empty p' ms' q) \<and> answered S ba p1 ms1 ms' q"
    using Cons.IH [OF k(5) a(3)] Cons.prems(3) k(3) by auto
  have "\<forall>q' < be_n_msgq p. (q' \<in> set (q # qs) \<or> queue_empty p ms q' \<longrightarrow> queue_empty p' ms' q') \<and> answered S ba p ms ms' q'"
    using a(4,5) b(4) k(3) answered_trans [OF _ _ a(2,3)] by auto
  then show ?case using a(1) b(1,3) kept_trans [OF a(2) b(2)] by simp
qed

end
