(* ===== verification/Firewall_Loop.thy ===== *)
theory Firewall_Loop
  imports Firewall_Thread
begin

text \<open>
  The main loop of src/Enclave/firewall_thread.c among the other threads: the host puts packets and
  requests into rings and takes packets and responses out, between any two iterations. The loop never
  faults, keeps the firewall's invariant, loses no packet, and answers every request.
\<close>

section \<open>Flushing\<close>

definition flushed :: "('m, 'x) port_mem \<Rightarrow> nat \<Rightarrow> bool" where
  "flushed g h \<longleftrightarrow> (\<forall>w. writers g ! h = Some w \<longrightarrow> wr_tx_buf_count w = 0)"

lemma flush_port:
  assumes inv: "fw_inv S p g" and port: "port \<in> set (ports_out (be_p p))"
  shows "\<exists>g'. opt_call (po_flush (pout_ops port)) (pout_h port) g = Inr g' \<and> fw_inv S p g' \<and>
    mem_owned enclave_pool g' = mem_owned enclave_pool g \<and>
    (\<forall>h. flushed g h \<longrightarrow> flushed g' h) \<and> (po_flush (pout_ops port) \<noteq> Some (\<lambda>h g. Inr g) \<longrightarrow> flushed g' (pout_h port))"
proof -
  note mem = fw_inv_mem [OF inv]
  have "port_out_ok (su_outside S) (Suc (su_fuel S)) g port" using inv port by (simp add: fw_inv_def filter_inv_def)
  then show ?thesis
  proof (cases rule: port_out_okE)
    case (ring mp q)
    obtain g' q' where r: "writer_flush (enclave_free (su_outside S) (Suc (su_fuel S))) mp (pout_h port) g = Inr g'"
        "mem_ok (pool_ok (su_outside S) (\<lambda>as hp pkt. tables_ok (su_lib S) (be_p p) as hp \<and> ipv4_only (su_asserts S) pkt \<and>
           acl_sized (h_table (tables (be_p p) ! 0)) (su_n_rules S) as)) g'"
        "mem_owned enclave_pool g' = mem_owned enclave_pool g" "readers g' = readers g" "sinks g' = sinks g"
        "writers g' = (writers g)[pout_h port := Some q']" "wr_tx_buf_count q' = 0"
      using enclave.writer_flush_law [OF mem ring(5,6), of "su_fuel S" mp] by blast
    have "fw_inv S p g'" by (rule fw_inv_world [OF inv r(2)]) (simp_all add: r(4-6))
    moreover have "flushed g' h" if "flushed g h" for h
      using that r(6,7) ring(5) by (cases "h = pout_h port") (auto simp: flushed_def)
    moreover have "flushed g' (pout_h port)" using r(6,7) ring(5) by (simp add: flushed_def)
    ultimately show ?thesis using ring(3) r(1,3) by (simp add: opt_call_def)
  next
    case (sink st)
    then show ?thesis using inv by (simp add: opt_call_def)
  qed
qed

lemma flush_ports:
  assumes "fw_inv S p g" and "set ports \<subseteq> set (ports_out (be_p p))"
  shows "\<exists>g'. rfold (\<lambda>port. opt_call (po_flush (pout_ops port)) (pout_h port)) ports g = Inr g' \<and> fw_inv S p g' \<and>
    mem_owned enclave_pool g' = mem_owned enclave_pool g \<and> (\<forall>h. flushed g h \<longrightarrow> flushed g' h) \<and>
    (\<forall>port \<in> set ports. po_flush (pout_ops port) \<noteq> Some (\<lambda>h g. Inr g) \<longrightarrow> flushed g' (pout_h port))"
  using assms
proof (induction ports arbitrary: g)
  case (Cons port ports)
  then obtain g1 where a: "opt_call (po_flush (pout_ops port)) (pout_h port) g = Inr g1" "fw_inv S p g1"
      "mem_owned enclave_pool g1 = mem_owned enclave_pool g" "\<forall>h. flushed g h \<longrightarrow> flushed g1 h"
      "po_flush (pout_ops port) \<noteq> Some (\<lambda>h g. Inr g) \<longrightarrow> flushed g1 (pout_h port)"
    using flush_port [OF Cons.prems(1), of port] by auto
  from Cons.IH [OF a(2)] Cons.prems(2) obtain g' where
      "rfold (\<lambda>port. opt_call (po_flush (pout_ops port)) (pout_h port)) ports g1 = Inr g'" "fw_inv S p g'"
      "mem_owned enclave_pool g' = mem_owned enclave_pool g1" "\<forall>h. flushed g1 h \<longrightarrow> flushed g' h"
      "\<forall>port \<in> set ports. po_flush (pout_ops port) \<noteq> Some (\<lambda>h g. Inr g) \<longrightarrow> flushed g' (pout_h port)" by auto
  then show ?case using a by auto
qed simp

lemma flush_law:
  assumes "fw_inv S p g"
  shows "\<exists>g'. rte_pipeline_flush (Some (be_p p)) g = Inr (0, g') \<and> kept S p g p g' \<and>
    (\<forall>port \<in> set (ports_out (be_p p)). po_flush (pout_ops port) \<noteq> Some (\<lambda>h g. Inr g) \<longrightarrow> flushed g' (pout_h port))"
  using flush_ports [OF assms subset_refl] by (auto simp: rte_pipeline_flush_def kept_def)

section \<open>One iteration\<close>

definition thread_inv :: "'rt fw_setup \<Rightarrow> nat \<Rightarrow> 'rt pipeline_firewall \<times> fw_msgs \<times> 'rt fw_world \<Rightarrow> bool" where
  "thread_inv S fuel = (\<lambda>(p, ms, g). fw_inv S p g \<and> queues_ok fuel p ms)"

text \<open>What an iteration keeps: the invariant, the packets, and the emptiness of queues; it answers what it takes.\<close>

definition iter_kept where
  "iter_kept S ba fuel = (\<lambda>(p, ms, g) (p', ms', g'). kept S p g p' g' \<and> queues_ok fuel p' ms' \<and>
     (\<forall>q < be_n_msgq p. (queue_empty p ms q \<longrightarrow> queue_empty p' ms' q) \<and> answered S ba p ms ms' q))"

definition all_empty :: "'rt pipeline_firewall \<times> fw_msgs \<times> 'rt fw_world \<Rightarrow> bool" where
  "all_empty = (\<lambda>(p, ms, g). \<forall>q < be_n_msgq p. queue_empty p ms q)"

lemma iter_kept_trans:
  assumes "iter_kept S ba fuel s s1" and "iter_kept S ba fuel s1 s2"
  shows "iter_kept S ba fuel s s2"
proof -
  obtain p ms g p1 ms1 g1 p2 ms2 g2 where s: "s = (p, ms, g)" "s1 = (p1, ms1, g1)" "s2 = (p2, ms2, g2)"
    by (metis prod_cases3)
  have k: "kept S p g p1 g1" "kept S p1 g1 p2 g2" "queues_ok fuel p1 ms1" using assms by (simp_all add: s iter_kept_def)
  show ?thesis using assms kept_trans [OF k(1,2)] kept_be(3) [OF k(1)] answered_trans [OF _ _ k(1,3)] by (auto simp: s iter_kept_def)
qed

lemma iter_keptD:
  assumes "iter_kept S ba fuel s s'"
  shows "thread_inv S fuel s'" "all_empty s \<Longrightarrow> all_empty s'"
    "mem_owned enclave_pool (snd (snd s')) = mem_owned enclave_pool (snd (snd s))"
proof -
  obtain p ms g p1 ms1 g1 where s: "s = (p, ms, g)" "s' = (p1, ms1, g1)" by (metis prod_cases3)
  have k: "kept S p g p1 g1" "queues_ok fuel p1 ms1" "\<forall>q < be_n_msgq p. queue_empty p ms q \<longrightarrow> queue_empty p1 ms1 q"
    using assms by (simp_all add: s iter_kept_def)
  note b = kept_be [OF k(1)]
  show "thread_inv S fuel s'" "mem_owned enclave_pool (snd (snd s')) = mem_owned enclave_pool (snd (snd s))"
    using b(5,6) k(2) by (simp_all add: s thread_inv_def)
  show "all_empty s'" if "all_empty s" using that k(3) b(3) by (simp add: s all_empty_def)
qed

lemma run_kept:
  assumes inv: "fw_inv S p g" and n: "1 \<le> n"
  shows "\<exists>p' g'. run_pipeline n (world_mbuf_ops (su_outside S) (Suc (su_fuel S)) md) (p, ms, g) = Inr (p', ms, g') \<and>
    kept S p g p' g'"
proof -
  let ?K = "\<lambda>as hp pkt. acl_sized (h_table (tables (be_p p) ! 0)) (su_n_rules S) as"
  have f: "filter_inv ?K (su_outside S) (Suc (su_fuel S)) (su_lib S) (su_match S) (su_asserts S) (su_sketch S) (be_p p) g"
      "port_chain (be_p p)" "length (tables (be_p p)) \<le> n"
    using inv n by (simp_all add: fw_inv_def ids_ok_def)
  obtain r q g' where run: "rte_pipeline_run n (world_mbuf_ops (su_outside S) (Suc (su_fuel S)) md) (be_p p) g = Inr (r, q, g')"
      "filter_inv ?K (su_outside S) (Suc (su_fuel S)) (su_lib S) (su_match S) (su_asserts S) (su_sketch S) q g'"
      "port_chain q" "mem_owned enclave_pool g' = mem_owned enclave_pool g"
    using filter_run_law [OF f, of md] by blast
  obtain r' nx where q: "q = (be_p p)\<lparr>prun := r', port_in_next := nx\<rparr>" using run_frame [OF run(1)] by metis
  have "fw_inv S (p\<lparr>be_p := q\<rparr>) g'" using inv run(2,3) by (simp add: fw_inv_def ids_ok_def q)
  moreover have "same_core (be_p p) q" by (simp add: same_core_def q)
  ultimately show ?thesis using run(1,4) by (simp add: run_pipeline_def kept_def)
qed

lemma timer_kept:
  assumes "thread_inv S fuel s"
  shows "\<exists>s'. pipeline_firewall_timer fuel (Suc sf) env ba s = Inr s' \<and> iter_kept S ba fuel s s' \<and> all_empty s'"
proof -
  obtain p ms g where s: "s = (p, ms, g)" by (metis prod_cases3)
  have inv: "fw_inv S p g" "queues_ok fuel p ms" using assms by (simp_all add: s thread_inv_def)
  obtain p1 ms1 g1 where a: "rfold (\<lambda>q s. msg_loop fuel (Suc sf) env ba q s) [0 ..< be_n_msgq p] (p, ms, g) = Inr (p1, ms1, g1)"
      "kept S p g p1 g1" "queues_ok fuel p1 ms1"
      "\<forall>q < be_n_msgq p. (q \<in> set [0 ..< be_n_msgq p] \<or> queue_empty p ms q \<longrightarrow> queue_empty p1 ms1 q) \<and> answered S ba p ms ms1 q"
    using msg_queues [OF inv, of "[0 ..< be_n_msgq p]" sf env ba] by auto
  obtain g2 where b: "rte_pipeline_flush (Some (be_p p1)) g1 = Inr (0, g2)" "kept S p1 g1 p1 g2"
    using flush_law [OF kept_be(5) [OF a(2)]] by blast
  have "pipeline_firewall_timer fuel (Suc sf) env ba s = Inr (p1, ms1, g2)"
    using a(1) b(1) by (simp add: s pipeline_firewall_timer_def pipeline_msg_req_handle_def)
  moreover have "iter_kept S ba fuel s (p1, ms1, g2)" using kept_trans [OF a(2) b(2)] a(3,4) by (simp add: s iter_kept_def)
  moreover have "all_empty (p1, ms1, g2)" using a(4) kept_be(3) [OF a(2)] by (simp add: all_empty_def)
  ultimately show ?thesis by blast
qed

definition firewall_iter where
  "firewall_iter S n md fuel sf env ba =
     thread_iter (run_pipeline n (world_mbuf_ops (su_outside S) (Suc (su_fuel S)) md)) (pipeline_firewall_timer fuel sf env ba)"

lemma iter_ok:
  assumes inv: "thread_inv S fuel s" and n: "1 \<le> n"
  shows "\<exists>s'. firewall_iter S n md fuel (Suc sf) env ba i s = Inr s' \<and> iter_kept S ba fuel s s' \<and> (i AND 0xF = 0 \<longrightarrow> all_empty s')"
proof -
  obtain p ms g where s: "s = (p, ms, g)" by (metis prod_cases3)
  have i: "fw_inv S p g" "queues_ok fuel p ms" using inv by (simp_all add: s thread_inv_def)
  obtain p1 g1 where a: "run_pipeline n (world_mbuf_ops (su_outside S) (Suc (su_fuel S)) md) (p, ms, g) = Inr (p1, ms, g1)"
      "kept S p g p1 g1" using run_kept [OF i(1) n] by blast
  have k: "iter_kept S ba fuel s (p1, ms, g1)" using a(2) i(2) kept_queues [OF a(2)] by (simp add: s iter_kept_def)
  obtain s' where t: "pipeline_firewall_timer fuel (Suc sf) env ba (p1, ms, g1) = Inr s'" "iter_kept S ba fuel (p1, ms, g1) s'"
      "all_empty s'" using timer_kept [OF iter_keptD(1) [OF k]] by blast
  show ?thesis using a(1) k t iter_kept_trans [OF k t(2)] 
    by (cases s') (auto simp: s firewall_iter_def thread_iter_def)
qed

section \<open>The loop and the host\<close>

text \<open>
  The events: an iteration of the loop; a packet with its data that the host puts into ring \<open>r\<close>, and one it
  takes out; a request put into queue \<open>q\<close> and a response taken out. This is a host that keeps the rules: it sends
  requests that the handlers can process (\<open>req_ok\<close>: output ports and table positions that exist), only as many as the
  response ring can answer, and IPv4 packets if the enclave was compiled with assertions, which abort on others.
\<close>

datatype fw_event = Iterate | Arrive nat nat rte_mbuf | Depart nat nat | Request nat fw_req | Collect nat fw_rsp

inductive fw_step for S n md fuel sf env ba where
  iterate: "firewall_iter S n md fuel sf env ba i s = Inr s' \<Longrightarrow> fw_step S n md fuel sf env ba (i, s) Iterate (i + 1, s')"
| arrive: "r < length (rings g) \<Longrightarrow> rte_ring_sp_enqueue m (rings g ! r) = Inr (0, r') \<Longrightarrow>
    su_asserts S \<longrightarrow> be16 (mtod c) 12 = ETHER_TYPE_IPv4 \<Longrightarrow>
    fw_step S n md fuel sf env ba (i, p, ms, g) (Arrive r m c)
      (i, p, ms, g\<lparr>rings := (rings g)[r := r'], rest := (rest g)\<lparr>packet := (packet (rest g))(m := c)\<rparr>\<rparr>)"
| depart: "r < length (rings g) \<Longrightarrow> rte_ring_sc_dequeue (rings g ! r) = Inr (0, Some m, r') \<Longrightarrow>
    fw_step S n md fuel sf env ba (i, p, ms, g) (Depart r m) (i, p, ms, g\<lparr>rings := (rings g)[r := r']\<rparr>)"
| request: "q < be_n_msgq p \<Longrightarrow> queue_rings p ms q j k \<Longrightarrow> req_ok p req \<Longrightarrow>
    length (contents (rsp_rings ms ! k)) + length (contents (req_rings ms ! j)) < capacity (rsp_rings ms ! k) \<Longrightarrow>
    rte_ring_sp_enqueue req (req_rings ms ! j) = Inr (0, r') \<Longrightarrow>
    fw_step S n md fuel sf env ba (i, p, ms, g) (Request q req) (i, p, ms\<lparr>req_rings := (req_rings ms)[j := r']\<rparr>, g)"
| collect: "q < be_n_msgq p \<Longrightarrow> queue_rings p ms q j k \<Longrightarrow>
    rte_ring_sc_dequeue (rsp_rings ms ! k) = Inr (0, Some rsp, r') \<Longrightarrow>
    fw_step S n md fuel sf env ba (i, p, ms, g) (Collect q rsp) (i, p, ms\<lparr>rsp_rings := (rsp_rings ms)[k := r']\<rparr>, g)"

inductive fw_trace for S n md fuel sf env ba where
  stop: "fw_trace S n md fuel sf env ba s [] s"
| step: "fw_step S n md fuel sf env ba s e s1 \<Longrightarrow> fw_trace S n md fuel sf env ba s1 es s2 \<Longrightarrow>
    fw_trace S n md fuel sf env ba s (e # es) s2"

definition arrived :: "fw_event list \<Rightarrow> nat multiset" where
  "arrived es = mset (concat (map (\<lambda>e. case e of Arrive r m c \<Rightarrow> [m] | _ \<Rightarrow> []) es))"

definition departed :: "fw_event list \<Rightarrow> nat multiset" where
  "departed es = mset (concat (map (\<lambda>e. case e of Depart r m \<Rightarrow> [m] | _ \<Rightarrow> []) es))"

abbreviation owned where "owned s \<equiv> mem_owned enclave_pool (snd (snd (snd s)))"

lemma ring_update_owned:
  assumes "r < length (rings g)"
  shows "mem_owned pool (g\<lparr>rings := (rings g)[r := r']\<rparr>) + mset (contents (rings g ! r)) = mem_owned pool g + mset (contents r')"
  using sum_list_update_mset [OF assms, of "mset \<circ> contents" r'] by (simp add: mem_owned_def)

text \<open>The host's steps.\<close>

lemma arrive_ok:
  assumes inv: "fw_inv S p g" and r: "r < length (rings g)" "rte_ring_sp_enqueue m (rings g ! r) = Inr (0, r')"
    and c: "su_asserts S \<longrightarrow> be16 (mtod c) 12 = ETHER_TYPE_IPv4"
    and g': "g' = g\<lparr>rings := (rings g)[r := r'], rest := (rest g)\<lparr>packet := (packet (rest g))(m := c)\<rparr>\<rparr>"
  shows "fw_inv S p g'" "mem_owned enclave_pool g' = add_mset m (mem_owned enclave_pool g)"
proof -
  note mem = fw_inv_mem [OF inv]
  have ok: "ring_ok (rings g ! r)" using enclave.mem_okD(1) [OF mem] r(1) by (simp add: list_all_length)
  have r': "ring_ok r'" "contents r' = contents (rings g ! r) @ [m]"
    using single_ring.put_done [OF ok r(2)] by simp_all
  have "ipv4_only (su_asserts S) ((packet (rest g))(m := c))"
    using mem c by (auto simp: mem_ok_def pool_ok_def ipv4_only_def)
  then show "fw_inv S p g'" using mem r'(1)
    by (intro fw_inv_world [OF inv]) (auto simp: g' mem_ok_def pool_ok_def intro!: list_all_list_update)
  have "mem_owned enclave_pool g' = mem_owned enclave_pool (g\<lparr>rings := (rings g)[r := r']\<rparr>)"
    by (simp add: g' mem_owned_def enclave_pool_def)
  then show "mem_owned enclave_pool g' = add_mset m (mem_owned enclave_pool g)"
    using ring_update_owned [OF r(1), of enclave_pool r'] r'(2) by simp
qed

lemma depart_ok:
  assumes inv: "fw_inv S p g" and r: "r < length (rings g)" "rte_ring_sc_dequeue (rings g ! r) = Inr (0, Some m, r')"
    and g': "g' = g\<lparr>rings := (rings g)[r := r']\<rparr>"
  shows "fw_inv S p g'" "add_mset m (mem_owned enclave_pool g') = mem_owned enclave_pool g"
proof -
  note mem = fw_inv_mem [OF inv]
  have ok: "ring_ok (rings g ! r)" using enclave.mem_okD(1) [OF mem] r(1) by (simp add: list_all_length)
  have r': "ring_ok r'" "contents (rings g ! r) = m # contents r'"
    using single_ring.get_done [OF ok r(2)] by simp_all
  show "fw_inv S p g'" using mem r'(1)
    by (intro fw_inv_world [OF inv]) (auto simp: g' mem_ok_def intro!: list_all_list_update)
  show "add_mset m (mem_owned enclave_pool g') = mem_owned enclave_pool g"
    using ring_update_owned [OF r(1), of enclave_pool r'] r'(2) g' by simp
qed

lemma queue_changed:
  assumes qs: "queues_ok fuel p ms" and q: "q < be_n_msgq p" "queue_rings p ms q j k"
    and ms': "ms' = ms\<lparr>req_rings := (req_rings ms)[j := ri], rsp_rings := (rsp_rings ms)[k := ro]\<rparr>"
    and "ring_ok ri" "ring_ok ro" "\<forall>req \<in> set (contents ri). req_ok p req" "capacity ro = capacity (rsp_rings ms ! k)"
    and "length (contents ro) + length (contents ri) \<le> capacity ro"
  shows "queues_ok fuel p ms'"
proof -
  have "capacity (rsp_rings ms ! k) < fuel"
    using qs q unfolding queues_ok_def queue_ready_def queue_rings_def by force
  then have "queue_ready fuel p ms' q"
    using q(2) assms(5-9) unfolding queue_ready_def
    by (intro exI [of _ j] exI [of _ k]) (auto simp: ms' queue_rings_def simp del: length_contents)
  moreover have apart: "queues_apart p" using qs by (simp add: queues_ok_def)
  ultimately show ?thesis
    using qs queue_untouched(1) [OF apart q _ _ ms'] unfolding queues_ok_def by metis
qed

lemma queue_bounds:
  assumes qs: "queues_ok fuel p ms" and q: "q < be_n_msgq p" "queue_rings p ms q j k"
  shows "\<forall>req \<in> set (contents (req_rings ms ! j)). req_ok p req"
    "length (contents (rsp_rings ms ! k)) + length (contents (req_rings ms ! j)) \<le> capacity (rsp_rings ms ! k)"
    "ring_ok (req_rings ms ! j)" "ring_ok (rsp_rings ms ! k)"
  using assms unfolding queues_ok_def queue_ready_def queue_rings_def by force+

lemma request_queues:
  assumes qs: "queues_ok fuel p ms" and q: "q < be_n_msgq p" "queue_rings p ms q j k" and req: "req_ok p req"
    and room: "length (contents (rsp_rings ms ! k)) + length (contents (req_rings ms ! j)) < capacity (rsp_rings ms ! k)"
    and r: "rte_ring_sp_enqueue req (req_rings ms ! j) = Inr (0, r')"
  shows "queues_ok fuel p (ms\<lparr>req_rings := (req_rings ms)[j := r']\<rparr>)"
proof (rule queue_changed [OF qs q])
  note b = queue_bounds [OF qs q]
  show "ms\<lparr>req_rings := (req_rings ms)[j := r']\<rparr> =
      ms\<lparr>req_rings := (req_rings ms)[j := r'], rsp_rings := (rsp_rings ms)[k := rsp_rings ms ! k]\<rparr>" by simp
  have r': "ring_ok r'" "contents r' = contents (req_rings ms ! j) @ [req]"
    using single_ring.put_done [OF b(3) r] by simp_all
  show "ring_ok r'" "ring_ok (rsp_rings ms ! k)" using r'(1) b(4) by simp_all
  show "\<forall>req \<in> set (contents r'). req_ok p req" using r'(2) b(1) req by simp
  show "length (contents (rsp_rings ms ! k)) + length (contents r') \<le> capacity (rsp_rings ms ! k)"
    using room r'(2) by (simp del: length_contents)
qed simp

lemma collect_queues:
  assumes qs: "queues_ok fuel p ms" and q: "q < be_n_msgq p" "queue_rings p ms q j k"
    and r: "rte_ring_sc_dequeue (rsp_rings ms ! k) = Inr (0, Some rsp, r')"
  shows "queues_ok fuel p (ms\<lparr>rsp_rings := (rsp_rings ms)[k := r']\<rparr>)"
proof (rule queue_changed [OF qs q])
  note b = queue_bounds [OF qs q]
  show "ms\<lparr>rsp_rings := (rsp_rings ms)[k := r']\<rparr> =
      ms\<lparr>req_rings := (req_rings ms)[j := req_rings ms ! j], rsp_rings := (rsp_rings ms)[k := r']\<rparr>" by simp
  have r': "ring_ok r'" "contents (rsp_rings ms ! k) = rsp # contents r'" "capacity r' = capacity (rsp_rings ms ! k)"
    using single_ring.get_done [OF b(4) r] by simp_all
  show "ring_ok (req_rings ms ! j)" "ring_ok r'" using r'(1) b(3) by simp_all
  show "\<forall>req \<in> set (contents (req_rings ms ! j)). req_ok p req" using b(1) .
  show "capacity r' = capacity (rsp_rings ms ! k)" using r'(3) .
  show "length (contents r') + length (contents (req_rings ms ! j)) \<le> capacity r'"
    using b(2) r'(2,3) by (simp del: length_contents)
qed

section \<open>Safety of the loop\<close>

lemma step_kept:
  assumes "fw_step S n md fuel (Suc sf) env ba s e s'" and "thread_inv S fuel (snd s)" and "1 \<le> n"
  shows "thread_inv S fuel (snd s') \<and> owned s' + departed [e] = owned s + arrived [e]"
  using assms
proof (cases rule: fw_step.cases)
  case (iterate i s0 s1)
  then show ?thesis using iter_ok [of S fuel s0 n md sf env ba i] assms(2,3) iter_keptD [of S ba fuel s0 s1]
    by (auto simp: arrived_def departed_def)
next
  case (arrive r g m r' c i p ms)
  have inv: "fw_inv S p g" "queues_ok fuel p ms" using assms(2) arrive(1) by (simp_all add: thread_inv_def)
  show ?thesis using arrive_ok [OF inv(1) arrive(4-6) refl] inv(2) arrive(1-3)
    by (simp add: thread_inv_def arrived_def departed_def)
next
  case (depart r g m r' i p ms)
  have inv: "fw_inv S p g" "queues_ok fuel p ms" using assms(2) depart(1) by (simp_all add: thread_inv_def)
  show ?thesis using depart_ok [OF inv(1) depart(4,5) refl] inv(2) depart(1-3)
    by (simp add: thread_inv_def arrived_def departed_def)
next
  case (request q p ms j k req r' i g)
  have inv: "fw_inv S p g" "queues_ok fuel p ms" using assms(2) request(1) by (simp_all add: thread_inv_def)
  show ?thesis using request_queues [OF inv(2) request(4-8)] inv(1) request(1-3)
    by (simp add: thread_inv_def arrived_def departed_def)
next
  case (collect q p ms j k rsp r' i g)
  have inv: "fw_inv S p g" "queues_ok fuel p ms" using assms(2) collect(1) by (simp_all add: thread_inv_def)
  show ?thesis using collect_queues [OF inv(2) collect(4-6)] inv(1) collect(1-3)
    by (simp add: thread_inv_def arrived_def departed_def)
qed

lemma trace_kept:
  assumes "fw_trace S n md fuel (Suc sf) env ba s es s'" and "thread_inv S fuel (snd s)" and "1 \<le> n"
  shows "thread_inv S fuel (snd s') \<and> owned s' + departed es = owned s + arrived es"
  using assms
proof (induction rule: fw_trace.induct)
  case (stop s)
  then show ?case by (simp add: arrived_def departed_def)
next
  case (step s e s1 es s2)
  have a: "thread_inv S fuel (snd s1)" "owned s1 + departed [e] = owned s + arrived [e]"
    using step_kept [OF step(1) step.prems] by simp_all
  have b: "thread_inv S fuel (snd s2)" "owned s2 + departed es = owned s1 + arrived es"
    using step.IH [OF a(1) step.prems(2)] by simp_all
  have "departed (e # es) = departed [e] + departed es" "arrived (e # es) = arrived [e] + arrived es"
    by (simp_all add: departed_def arrived_def)
  moreover have "owned s2 + (departed [e] + departed es) = owned s + (arrived [e] + arrived es)"
  proof -
    have "owned s2 + (departed [e] + departed es) = owned s1 + arrived es + departed [e]"
      unfolding b(2) [symmetric] by (simp only: ac_simps)
    also have "\<dots> = owned s + arrived [e] + arrived es" unfolding a(2) [symmetric] by (simp only: ac_simps)
    finally show ?thesis by (simp only: ac_simps)
  qed
  ultimately show ?case using b(1) by simp
qed

section \<open>Every request is answered\<close>

lemma timer_due: "\<exists>j < 16. (i + of_nat j) AND 0xF = (0 :: u32)"
proof -
  have m: "w AND 0xF = 0 \<longleftrightarrow> unat w mod 16 = 0" for w :: u32
  proof -
    have "w AND 0xF = take_bit 4 w" by (simp add: take_bit_eq_mask mask_eq_exp_minus_1)
    then have "unat (w AND 0xF) = unat w mod 2 ^ 4" by (metis unsigned_take_bit_eq take_bit_eq_mod)
    then have "unat (w AND 0xF) = unat w mod 16" by simp
    then show ?thesis by (metis unat_eq_0)
  qed
  let ?j = "(16 - unat i mod 16) mod 16"
  have "unat (i + of_nat ?j) = (unat i + ?j) mod 2 ^ 32" by (simp add: unat_word_ariths unat_of_nat mod_add_right_eq)
  then have "unat (i + of_nat ?j) mod 16 = (unat i + ?j) mod 16" by (simp add: mod_mod_cancel)
  also have "\<dots> = (unat i mod 16 + (16 - unat i mod 16)) mod 16" by (simp only: mod_add_left_eq mod_add_right_eq)
  also have "\<dots> = 0" by simp
  finally have "(i + of_nat ?j) AND 0xF = 0" unfolding m .
  then show ?thesis by (intro exI [of _ ?j] conjI) simp_all
qed

lemma loop_kept:
  assumes "thread_inv S fuel s" and "1 \<le> n" and "\<forall>ev \<in> set evs. ev = id"
  shows "\<exists>s'. thread_loop (run_pipeline n (world_mbuf_ops (su_outside S) (Suc (su_fuel S)) md))
      (pipeline_firewall_timer fuel (Suc sf) env ba) i evs s = Inr s' \<and> iter_kept S ba fuel s s' \<and>
    (all_empty s \<or> (\<exists>j < length evs. (i + of_nat j) AND 0xF = 0) \<longrightarrow> all_empty s')"
  using assms
proof (induction evs arbitrary: s i)
  case Nil
  then show ?case using kept_refl by (cases s) (auto simp: iter_kept_def thread_inv_def)
next
  case (Cons ev evs)
  obtain s1 where a: "firewall_iter S n md fuel (Suc sf) env ba i s = Inr s1" "iter_kept S ba fuel s s1" "i AND 0xF = 0 \<longrightarrow> all_empty s1"
    using iter_ok [OF Cons.prems(1,2)] by blast
  have "ev s = s" using Cons.prems(3) by simp
  moreover have "\<forall>ev \<in> set evs. ev = id" using Cons.prems(3) by (meson list.set_intros(2))
  ultimately have e: "ev s = s" "\<forall>ev \<in> set evs. ev = id" .
  from Cons.IH [OF iter_keptD(1) [OF a(2)] Cons.prems(2) e(2), of "i + 1"] obtain s' where
      b: "thread_loop (run_pipeline n (world_mbuf_ops (su_outside S) (Suc (su_fuel S)) md))
        (pipeline_firewall_timer fuel (Suc sf) env ba) (i + 1) evs s1 = Inr s'" "iter_kept S ba fuel s1 s'"
      "all_empty s1 \<or> (\<exists>j < length evs. (i + 1 + of_nat j) AND 0xF = 0) \<longrightarrow> all_empty s'" by blast
  have "all_empty s'" if due: "all_empty s \<or> (\<exists>j < length (ev # evs). (i + of_nat j) AND 0xF = 0)"
  proof (cases "all_empty s1")
    case True
    then show ?thesis using b(3) by blast
  next
    case False
    then have "i AND 0xF \<noteq> 0" "\<not> all_empty s" using a(3) iter_keptD(2) [OF a(2)] by blast+
    then obtain j where j: "j < length (ev # evs)" "(i + of_nat j) AND 0xF = 0" using due by blast
    have "j \<noteq> 0"
    proof
      assume "j = 0"
      then have "i + of_nat j = i" by simp
      then show False using j(2) \<open>i AND 0xF \<noteq> 0\<close> by simp
    qed
    obtain j' where j': "j = Suc j'" using \<open>j \<noteq> 0\<close> not0_implies_Suc by blast
    have "j' < length evs" using j(1) unfolding j' by simp
    moreover have "(i + of_nat (Suc j')) AND 0xF = 0" using j(2) unfolding j' .
    moreover have e: "i + 1 + of_nat j' = i + of_nat (Suc j')" by simp
    ultimately have "\<exists>j < length evs. (i + 1 + of_nat j) AND 0xF = 0" unfolding e [symmetric] by blast
    then show ?thesis using b(3) by blast
  qed
  moreover have "thread_loop (run_pipeline n (world_mbuf_ops (su_outside S) (Suc (su_fuel S)) md))
      (pipeline_firewall_timer fuel (Suc sf) env ba) i (ev # evs) s = Inr s'"
    using a(1) b(1) e(1) by (simp add: firewall_iter_def)
  ultimately show ?case using iter_kept_trans [OF a(2) b(2)] by blast
qed

end
