(* ===== verification/Firewall_Boot.thy ===== *)
theory Firewall_Boot
  imports Firewall_Loop
begin

text \<open>
  \<open>ecall_pipeline_firewall_init\<close> of src/Enclave/ip_pipeline/pipeline_firewall_be.c builds a firewall that
  satisfies the invariant of theory Firewall_Correct: with sound parameters and memory it succeeds, all
  input ports are connected and enabled, and the rule table is empty.
\<close>

section \<open>Sound parameters\<close>

definition in_param_ok :: "('m, 'x) port_mem \<Rightarrow> pipeline_port_in_params \<Rightarrow> bool" where
  "in_param_ok g pp \<longleftrightarrow> 0 < in_burst_size pp \<and> in_burst_size pp \<le> RTE_PORT_IN_BURST_SIZE_MAX \<and>
     (\<exists>c r. in_params pp = Ring_Arg (Some c) \<and> conf_ring c = Some r \<and> r < length (rings g) \<and>
        in_type pp = (if ht_single (r_cons (rings g ! r)) then PIPELINE_PORT_IN_RING_READER
          else PIPELINE_PORT_IN_RING_MULTI_READER))"

text \<open>Ring writers that may drop, and sinks; dropless writers are not in the world of Filter_World.\<close>

definition out_param_ok :: "('m, 'x) port_mem \<Rightarrow> pipeline_port_out_params \<Rightarrow> bool" where
  "out_param_ok g pp \<longleftrightarrow>
     (\<exists>c r. out_params pp = Ring_Arg (Some c) \<and> conf_ring c = Some r \<and> r < length (rings g) \<and>
        conf_tx_burst_sz c \<le> RTE_PORT_IN_BURST_SIZE_MAX \<and>
        out_type pp = (if ht_single (r_prod (rings g ! r)) then PIPELINE_PORT_OUT_RING_WRITER
          else PIPELINE_PORT_OUT_RING_MULTI_WRITER)) \<or>
     (\<exists>f. out_params pp = Sink_Arg f \<and> f \<noteq> Some True \<and> out_type pp = PIPELINE_PORT_OUT_SINK)"

text \<open>The allocator delivers, and the block of the table is clear where the code relies on it.\<close>

definition alloc_clean :: "'rt fw_alloc \<Rightarrow> nat \<Rightarrow> bool" where
  "alloc_clean al n \<longleftrightarrow> (\<exists>in_id out_id tab_id q_in q_out. a_block al = Some (in_id, out_id, tab_id, q_in, q_out) \<and>
       length in_id = PIPELINE_MAX_PORT_IN \<and> length out_id = PIPELINE_MAX_PORT_OUT \<and> length tab_id = PIPELINE_MAX_TABLES \<and>
       length q_in = PIPELINE_MAX_MSGQ \<and> length q_out = PIPELINE_MAX_MSGQ) \<and>
     a_run al \<noteq> None \<and> a_entry al \<noteq> None \<and> (\<forall>g. a_reader al g \<noteq> None \<and> a_sink al g \<noteq> None) \<and>
     (\<forall>g. \<exists>w. a_writer al g = Some w \<and> length (wr_tx_buf w) = 2 * RTE_PORT_IN_BURST_SIZE_MAX) \<and>
     (\<forall>g. \<exists>acts st. a_table al g = Some (replicate n None, acts, st) \<and> length acts = n) \<and>
     (\<forall>g k mem. a_ctx al g = Some (k, mem) \<longrightarrow> k = 0 \<and> length mem = n)"

definition params_ok :: "('m, 'x) port_mem \<Rightarrow> pipeline_params \<Rightarrow> bool" where
  "params_ok g params \<longleftrightarrow> 0 < prm_n_ports_in params \<and> prm_n_ports_in params \<le> PIPELINE_MAX_PORT_IN \<and>
     prm_n_ports_in params \<le> length (prm_port_in params) \<and> 0 < prm_n_ports_out params \<and>
     prm_n_ports_out params \<le> PIPELINE_MAX_PORT_OUT \<and> prm_n_ports_out params \<le> length (prm_port_out params) \<and>
     (\<forall>i < prm_n_ports_in params. in_param_ok g (prm_port_in params ! i)) \<and>
     (\<forall>i < prm_n_ports_out params. out_param_ok g (prm_port_out params ! i)) \<and>
     prm_n_msgq params \<le> PIPELINE_MAX_MSGQ \<and> prm_n_msgq params \<le> length (prm_msgq_in params) \<and>
     prm_n_msgq params \<le> length (prm_msgq_out params) \<and> length (prm_name params) \<le> 29 \<and>
     0 \<le> prm_socket_id params \<and> prm_socket_id params < RTE_MAX_NUMA_NODES"

text \<open>No context carries one of the two names the table will use.\<close>

definition names_free :: "string \<Rightarrow> 'rt acl_heap \<Rightarrow> bool" where
  "names_free name hp \<longleftrightarrow> distinct (map fst (ctxs hp)) \<and>
     (\<forall>(i, x) \<in> set (ctxs hp). i < fresh hp \<and> ctx_name x \<notin> {name @ ''_a'', name @ ''_b''})"

section \<open>Creating the ports\<close>

definition boot_mem where
  "boot_mem outside asserts name g \<longleftrightarrow> mem_ok (pool_ok outside (\<lambda>as hp pkt. ipv4_only asserts pkt \<and> names_free name hp)) g"

definition ins_ok where
  "ins_ok asserts sketch g ports \<longleftrightarrow> (\<forall>port \<in> set ports. ring_port_in asserts sketch port \<and>
     pin_h port < length (readers g) \<and> readers g ! pin_h port \<noteq> None \<and> pin_burst_size port \<le> RTE_PORT_IN_BURST_SIZE_MAX \<and>
     pin_next port = None)"

definition outs_ok where
  "outs_ok outside fuel g ports \<longleftrightarrow> (\<forall>port \<in> set ports. port_out_ok outside fuel g port \<and> pout_action port = None)"

text \<open>What creating ports leaves as it is.\<close>

definition grown :: "'rt fw_world \<Rightarrow> 'rt fw_world \<Rightarrow> bool" where
  "grown g g' \<longleftrightarrow> rings g' = rings g \<and> live (readers g) (readers g') \<and> live (writers g) (writers g') \<and>
     live (sinks g) (sinks g') \<and> rest g' = rest g \<and> mem_owned enclave_pool g' = mem_owned enclave_pool g"

lemma live_trans: "live xs ys \<Longrightarrow> live ys zs \<Longrightarrow> live xs zs"
  unfolding live_def by blast

lemma grown_refl [simp]: "grown g g"
  by (simp add: grown_def)

lemma grown_trans: "grown g g1 \<Longrightarrow> grown g1 g2 \<Longrightarrow> grown g g2"
  using live_trans unfolding grown_def by metis

lemma param_ok_grown:
  "grown g g' \<Longrightarrow> in_param_ok g' pp = in_param_ok g pp" "grown g g' \<Longrightarrow> out_param_ok g' pp' = out_param_ok g pp'"
  by (simp_all add: grown_def in_param_ok_def out_param_ok_def)

lemma ins_ok_live:
  "ins_ok asserts sketch g ports \<Longrightarrow> live (readers g) (readers g') \<Longrightarrow> ins_ok asserts sketch g' ports"
  unfolding ins_ok_def live_def by blast

lemma outs_ok_live:
  "outs_ok outside fuel g ports \<Longrightarrow> live (writers g) (writers g') \<Longrightarrow> live (sinks g) (sinks g') \<Longrightarrow>
   outs_ok outside fuel g' ports"
  unfolding outs_ok_def using port_out_live by blast

lemma port_in_step:
  assumes g: "boot_mem outside asserts name g" and pp: "in_param_ok g pp" and al: "alloc_clean al n"
    and len: "length (ports_in q) < 64" and act: "act = None \<or> act = Some (header_copy_action asserts sketch)"
  shows "\<exists>port g'. rte_pipeline_port_in_create (Some q) (Some \<lparr>pip_ops = pipeline_port_in_params_get_ops al pp,
        pip_arg_create = pipeline_port_in_params_convert pp, pip_action = act, pip_burst_size = in_burst_size pp\<rparr>) True st g =
      Inr (0, Some (length (ports_in q)), Some (q\<lparr>ports_in := ports_in q @ [port]\<rparr>), g') \<and>
    boot_mem outside asserts name g' \<and> grown g g' \<and> ins_ok asserts sketch g' [port]"
proof -
  obtain c r where c: "in_params pp = Ring_Arg (Some c)" "conf_ring c = Some r" "r < length (rings g)"
      "in_type pp = (if ht_single (r_cons (rings g ! r)) then PIPELINE_PORT_IN_RING_READER else PIPELINE_PORT_IN_RING_MULTI_READER)"
      "0 < in_burst_size pp" "in_burst_size pp \<le> 64"
    using pp by (auto simp: in_param_ok_def)
  obtain rd where rd: "a_reader al g = Some rd" using al unfolding alloc_clean_def by blast
  let ?g = "g\<lparr>readers := readers g @ [Some (rd\<lparr>rd_ring := r\<rparr>)]\<rparr>"
  let ?ops = "if ht_single (r_cons (rings g ! r)) then rte_port_ring_reader_ops (a_reader al)
     else rte_port_ring_multi_reader_ops (a_reader al)"
  let ?port = "\<lparr>pin_ops = ?ops, pin_action = act, pin_burst_size = in_burst_size pp, pin_table_id = RTE_TABLE_INVALID,
     pin_h = length (readers g), pin_next = None, pin_n_pkts_dropped_by_ah = st\<rparr>"
  have ops: "pipeline_port_in_params_get_ops al pp = Some ?ops" using c(4) by (simp add: pipeline_port_in_params_get_ops_def)
  have cr: "the (pi_create ?ops) (Ring_Arg (Some c)) s g = Inr (Some (length (readers g)), ?g)" "pi_create ?ops \<noteq> None" "pi_rx ?ops \<noteq> None" for s
    using c(2,3) rd by (auto simp: rte_port_ring_reader_ops_def rte_port_ring_multi_reader_ops_def ring_create_def ring_at_def
        rte_port_ring_reader_create_def rte_port_ring_multi_reader_create_def rte_port_ring_reader_create_internal_def)
  have "rte_pipeline_port_in_create (Some q) (Some \<lparr>pip_ops = pipeline_port_in_params_get_ops al pp,
        pip_arg_create = pipeline_port_in_params_convert pp, pip_action = act, pip_burst_size = in_burst_size pp\<rparr>) True st g =
      Inr (0, Some (length (ports_in q)), Some (q\<lparr>ports_in := ports_in q @ [?port]\<rparr>), ?g)"
    using cr c(1,5,6) len unfolding ops
    by (simp add: rte_pipeline_port_in_create_def rte_pipeline_port_in_check_params_def pipeline_port_in_params_convert_def Let_def
        Option.is_none_def del: if_split)
  moreover have "boot_mem outside asserts name ?g" using g c(3) by (simp add: boot_mem_def mem_ok_def)
  moreover have "grown g ?g" by (simp add: grown_def mem_owned_def)
  moreover have "ins_ok asserts sketch ?g [?port]" using act c(6) by (auto simp: ins_ok_def ring_port_in_def)
  ultimately show ?thesis by (intro exI [of _ ?port] exI [of _ ?g]) simp
qed

lemma port_out_step:
  assumes g: "boot_mem outside asserts name g" and pp: "out_param_ok g pp" and al: "alloc_clean al n"
    and len: "length (ports_out q) < 64"
  shows "\<exists>port g'. rte_pipeline_port_out_create (Some q) (Some \<lparr>pop_ops = pipeline_port_out_params_get_ops (enclave_free outside fuel) al pp,
        pop_arg_create = pipeline_port_out_params_convert pp, pop_action = None\<rparr>) True st g =
      Inr (0, Some (length (ports_out q)), Some (q\<lparr>ports_out := ports_out q @ [port]\<rparr>), g') \<and>
    boot_mem outside asserts name g' \<and> grown g g' \<and> outs_ok outside fuel g' [port]"
proof -
  have created: ?thesis if ops: "pipeline_port_out_params_get_ops (enclave_free outside fuel) al pp = Some ops"
      and cr: "the (po_create ops) (out_params pp) (pl_socket_id q) g = Inr (Some h, g')"
        "po_create ops \<noteq> None \<and> po_tx ops \<noteq> None \<and> po_tx_bulk ops \<noteq> None"
      and ok: "boot_mem outside asserts name g'" "grown g g'"
      and port: "\<And>port. pout_ops port = ops \<Longrightarrow> pout_h port = h \<Longrightarrow> port_out_ok outside fuel g' port" for ops h g'
  proof (intro exI conjI)
    let ?port = "\<lparr>pout_ops = ops, pout_action = None, pout_h = h, pout_n_pkts_dropped_by_ah = st\<rparr>"
    show "rte_pipeline_port_out_create (Some q) (Some \<lparr>pop_ops = pipeline_port_out_params_get_ops (enclave_free outside fuel) al pp,
        pop_arg_create = pipeline_port_out_params_convert pp, pop_action = None\<rparr>) True st g =
      Inr (0, Some (length (ports_out q)), Some (q\<lparr>ports_out := ports_out q @ [?port]\<rparr>), g')"
      using cr len unfolding ops
      by (simp add: rte_pipeline_port_out_create_def rte_pipeline_port_out_check_params_def pipeline_port_out_params_convert_def Let_def
          Option.is_none_def)
    show "outs_ok outside fuel g' [?port]" using port [of ?port] by (simp add: outs_ok_def)
  qed (rule ok)+
  from pp show ?thesis unfolding out_param_ok_def
  proof (elim disjE exE conjE)
    fix c r assume c: "out_params pp = Ring_Arg (Some c)" "conf_ring c = Some r" "r < length (rings g)" "conf_tx_burst_sz c \<le> 64"
      "out_type pp = (if ht_single (r_prod (rings g ! r)) then PIPELINE_PORT_OUT_RING_WRITER else PIPELINE_PORT_OUT_RING_MULTI_WRITER)"
    obtain w where w: "a_writer al g = Some w" "length (wr_tx_buf w) = 128"
      using al unfolding alloc_clean_def by fastforce
    let ?mp = "\<not> ht_single (r_prod (rings g ! r))"
    let ?w = "w\<lparr>wr_ring := r, wr_tx_burst_sz := conf_tx_burst_sz c, wr_tx_buf_count := 0,
      wr_bsz_mask := bsz_mask_of (conf_tx_burst_sz c), wr_is_multi := ?mp\<rparr>"
    let ?g = "g\<lparr>writers := writers g @ [Some ?w]\<rparr>"
    have b: "boot_mem outside asserts name ?g" using g c(3,4) w(2) by (simp add: boot_mem_def mem_ok_def writer_ok_def)
    have gr: "grown g ?g" by (simp add: grown_def mem_owned_def pending_def)
    show ?thesis
    proof (cases "ht_single (r_prod (rings g ! r))")
      case True
      let ?ops = "rte_port_ring_writer_ops (enclave_free outside fuel) (a_writer al)"
      have cr: "the (po_create ?ops) (out_params pp) (pl_socket_id q) g = Inr (Some (length (writers g)), ?g)"
          "po_create ?ops \<noteq> None \<and> po_tx ?ops \<noteq> None \<and> po_tx_bulk ?ops \<noteq> None"
        using c w True by (simp_all add: rte_port_ring_writer_ops_def ring_create_def ring_at_def rte_port_ring_writer_create_def
            rte_port_ring_writer_create_internal_def writer_conf_bad_def)
      have "pipeline_port_out_params_get_ops (enclave_free outside fuel) al pp = Some ?ops"
        using c(5) True by (simp add: pipeline_port_out_params_get_ops_def)
      from created [OF this cr b gr] show ?thesis by (auto simp: port_out_ok_def)
    next
      case False
      let ?ops = "rte_port_ring_multi_writer_ops (enclave_free outside fuel) (a_writer al)"
      have cr: "the (po_create ?ops) (out_params pp) (pl_socket_id q) g = Inr (Some (length (writers g)), ?g)"
          "po_create ?ops \<noteq> None \<and> po_tx ?ops \<noteq> None \<and> po_tx_bulk ?ops \<noteq> None"
        using c w False by (simp_all add: rte_port_ring_multi_writer_ops_def ring_create_def ring_at_def rte_port_ring_multi_writer_create_def
            rte_port_ring_writer_create_internal_def writer_conf_bad_def)
      have "pipeline_port_out_params_get_ops (enclave_free outside fuel) al pp = Some ?ops"
        using c(5) False by (simp add: pipeline_port_out_params_get_ops_def)
      from created [OF this cr b gr] show ?thesis by (auto simp: port_out_ok_def)
    qed
  next
    fix f assume f: "out_params pp = Sink_Arg f" "f \<noteq> Some True" "out_type pp = PIPELINE_PORT_OUT_SINK"
    obtain st where st: "a_sink al g = Some st" using al unfolding alloc_clean_def by blast
    let ?g = "g\<lparr>sinks := sinks g @ [Some st]\<rparr>"
    have b: "boot_mem outside asserts name ?g" using g by (simp add: boot_mem_def mem_ok_def)
    have gr: "grown g ?g" by (simp add: grown_def mem_owned_def)
    let ?ops = "rte_port_sink_ops (enclave_free outside fuel) (a_sink al)"
    have cr: "the (po_create ?ops) (out_params pp) (pl_socket_id q) g = Inr (Some (length (sinks g)), ?g)"
        "po_create ?ops \<noteq> None \<and> po_tx ?ops \<noteq> None \<and> po_tx_bulk ?ops \<noteq> None"
      using f st by (simp_all add: rte_port_sink_ops_def rte_port_sink_create_def)
    have "pipeline_port_out_params_get_ops (enclave_free outside fuel) al pp = Some ?ops"
      using f(3) by (simp add: pipeline_port_out_params_get_ops_def)
    from created [OF this cr b gr] show ?thesis by (auto simp: port_out_ok_def)
  qed
qed

lemma id_snoc: "length ids = m \<Longrightarrow> k < m \<Longrightarrow> \<forall>i < k. ids ! i = i \<Longrightarrow> \<forall>i < Suc k. ids[k := k] ! i = i"
  by (auto simp: less_Suc_eq nth_list_update)

lemma create_ports_in_ok:
  assumes "boot_mem outside asserts name g" and "alloc_clean al n" and "bd_in_action bd = Some (header_copy_action asserts sketch)"
    and "k + d \<le> 64" and "k + d \<le> length (prm_port_in params)"
    and "\<forall>i < k + d. in_param_ok g (prm_port_in params ! i)"
    and "length (ports_in (be_p p)) = k" and "length (be_port_in_id p) = 64" and "\<forall>i < k. be_port_in_id p ! i = i"
    and "ins_ok asserts sketch g (ports_in (be_p p))"
  shows "\<exists>ps ids g'. create_ports_in bd al params [k ..< k + d] p g =
      Inr (True, p\<lparr>be_p := (be_p p)\<lparr>ports_in := ps\<rparr>, be_port_in_id := ids\<rparr>, g') \<and>
    boot_mem outside asserts name g' \<and> grown g g' \<and> length ps = k + d \<and> length ids = 64 \<and> (\<forall>i < k + d. ids ! i = i) \<and>
    ins_ok asserts sketch g' ps"
  using assms
proof (induction d arbitrary: k p g)
  case 0
  then show ?case
    by (intro exI [of _ "ports_in (be_p p)"] exI [of _ "be_port_in_id p"] exI [of _ g]) simp
next
  case (Suc d)
  have k: "k < length (prm_port_in params)" "in_param_ok g (prm_port_in params ! k)" "length (ports_in (be_p p)) < 64"
    using Suc.prems(4-7) by auto
  have act: "(if k = 0 then bd_in_action bd else None) = None \<or>
      (if k = 0 then bd_in_action bd else None) = Some (header_copy_action asserts sketch)" using Suc.prems(3) by simp
  obtain port g1 where a: "rte_pipeline_port_in_create (Some (be_p p)) (Some \<lparr>pip_ops = pipeline_port_in_params_get_ops al (prm_port_in params ! k),
        pip_arg_create = pipeline_port_in_params_convert (prm_port_in params ! k), pip_action = (if k = 0 then bd_in_action bd else None),
        pip_burst_size = in_burst_size (prm_port_in params ! k)\<rparr>) True (a_stats al) g =
      Inr (0, Some k, Some ((be_p p)\<lparr>ports_in := ports_in (be_p p) @ [port]\<rparr>), g1)"
      "boot_mem outside asserts name g1" "grown g g1" "ins_ok asserts sketch g1 [port]"
    using port_in_step [OF Suc.prems(1) k(2) Suc.prems(2) k(3) act] Suc.prems(7) by blast
  let ?p = "p\<lparr>be_p := (be_p p)\<lparr>ports_in := ports_in (be_p p) @ [port]\<rparr>, be_port_in_id := (be_port_in_id p)[k := k]\<rparr>"
  have "ins_ok asserts sketch g1 (ports_in (be_p p))" 
    by (rule ins_ok_live [OF Suc.prems(10)]) (use a(3) in \<open>simp add: grown_def\<close>)
  then have ins: "ins_ok asserts sketch g1 (ports_in (be_p ?p))" using a(4) by (auto simp: ins_ok_def)
  have prm: "\<forall>i < Suc k + d. in_param_ok g1 (prm_port_in params ! i)" using Suc.prems(6) param_ok_grown(1) [OF a(3)] by simp
  have ids: "\<forall>i < Suc k. be_port_in_id ?p ! i = i" using id_snoc [OF Suc.prems(8), of k] Suc.prems(4,9) by simp
  have "Suc k + d \<le> 64" "Suc k + d \<le> length (prm_port_in params)" "length (ports_in (be_p ?p)) = Suc k" "length (be_port_in_id ?p) = 64"
    using Suc.prems(4,5,7,8) by simp_all
  from Suc.IH [OF a(2) Suc.prems(2,3) this(1,2) prm this(3,4) ids ins] obtain ps ids g' where
      b: "create_ports_in bd al params [Suc k ..< Suc k + d] ?p g1 =
        Inr (True, ?p\<lparr>be_p := (be_p ?p)\<lparr>ports_in := ps\<rparr>, be_port_in_id := ids\<rparr>, g')"
      "boot_mem outside asserts name g'" "grown g1 g'" "length ps = Suc k + d" "length ids = 64" "\<forall>i < Suc k + d. ids ! i = i"
      "ins_ok asserts sketch g' ps" by blast
  have "[k ..< k + Suc d] = k # [Suc k ..< Suc k + d]" by (simp add: upt_conv_Cons)
  then have "create_ports_in bd al params [k ..< k + Suc d] p g =
      Inr (True, p\<lparr>be_p := (be_p p)\<lparr>ports_in := ps\<rparr>, be_port_in_id := ids\<rparr>, g')"
    using a(1) b(1) k(1) by (simp add: Let_def)
  then show ?case using b(2,4-7) grown_trans [OF a(3) b(3)] by auto
qed

lemma create_ports_out_ok:
  assumes "boot_mem outside asserts name g" and "alloc_clean al n" and "bd_out_action bd = None"
    and "k + d \<le> 64" and "k + d \<le> length (prm_port_out params)"
    and "\<forall>i < k + d. out_param_ok g (prm_port_out params ! i)"
    and "length (ports_out (be_p p)) = k" and "length (be_port_out_id p) = 64" and "\<forall>i < k. be_port_out_id p ! i = i"
    and "outs_ok outside fuel g (ports_out (be_p p))"
  shows "\<exists>ps ids g'. create_ports_out (enclave_free outside fuel) bd al params [k ..< k + d] p g =
      Inr (True, p\<lparr>be_p := (be_p p)\<lparr>ports_out := ps\<rparr>, be_port_out_id := ids\<rparr>, g') \<and>
    boot_mem outside asserts name g' \<and> grown g g' \<and> length ps = k + d \<and> length ids = 64 \<and> (\<forall>i < k + d. ids ! i = i) \<and>
    outs_ok outside fuel g' ps"
  using assms
proof (induction d arbitrary: k p g)
  case 0
  then show ?case
    by (intro exI [of _ "ports_out (be_p p)"] exI [of _ "be_port_out_id p"] exI [of _ g]) simp
next
  case (Suc d)
  have k: "k < length (prm_port_out params)" "out_param_ok g (prm_port_out params ! k)" "length (ports_out (be_p p)) < 64"
    using Suc.prems(4-7) by auto
  obtain port g1 where a: "rte_pipeline_port_out_create (Some (be_p p)) (Some \<lparr>pop_ops = pipeline_port_out_params_get_ops (enclave_free outside fuel) al (prm_port_out params ! k),
        pop_arg_create = pipeline_port_out_params_convert (prm_port_out params ! k), pop_action = None\<rparr>) True (a_stats al) g =
      Inr (0, Some k, Some ((be_p p)\<lparr>ports_out := ports_out (be_p p) @ [port]\<rparr>), g1)"
      "boot_mem outside asserts name g1" "grown g g1" "outs_ok outside fuel g1 [port]"
    using port_out_step [OF Suc.prems(1) k(2) Suc.prems(2) k(3)] Suc.prems(7) by blast
  let ?p = "p\<lparr>be_p := (be_p p)\<lparr>ports_out := ports_out (be_p p) @ [port]\<rparr>, be_port_out_id := (be_port_out_id p)[k := k]\<rparr>"
  have "outs_ok outside fuel g1 (ports_out (be_p p))" 
    by (rule outs_ok_live [OF Suc.prems(10)]) (use a(3) in \<open>simp_all add: grown_def\<close>)
  then have outs: "outs_ok outside fuel g1 (ports_out (be_p ?p))" using a(4) by (auto simp: outs_ok_def)
  have prm: "\<forall>i < Suc k + d. out_param_ok g1 (prm_port_out params ! i)" using Suc.prems(6) param_ok_grown(2) [OF a(3)] by simp
  have ids: "\<forall>i < Suc k. be_port_out_id ?p ! i = i" using id_snoc [OF Suc.prems(8), of k] Suc.prems(4,9) by simp
  have "Suc k + d \<le> 64" "Suc k + d \<le> length (prm_port_out params)" "length (ports_out (be_p ?p)) = Suc k" "length (be_port_out_id ?p) = 64"
    using Suc.prems(4,5,7,8) by simp_all
  from Suc.IH [OF a(2) Suc.prems(2,3) this(1,2) prm this(3,4) ids outs] obtain ps ids g' where
      b: "create_ports_out (enclave_free outside fuel) bd al params [Suc k ..< Suc k + d] ?p g1 =
        Inr (True, ?p\<lparr>be_p := (be_p ?p)\<lparr>ports_out := ps\<rparr>, be_port_out_id := ids\<rparr>, g')"
      "boot_mem outside asserts name g'" "grown g1 g'" "length ps = Suc k + d" "length ids = 64" "\<forall>i < Suc k + d. ids ! i = i"
      "outs_ok outside fuel g' ps" by blast
  have "[k ..< k + Suc d] = k # [Suc k ..< Suc k + d]" by (simp add: upt_conv_Cons)
  then have "create_ports_out (enclave_free outside fuel) bd al params [k ..< k + Suc d] p g =
      Inr (True, p\<lparr>be_p := (be_p p)\<lparr>ports_out := ps\<rparr>, be_port_out_id := ids\<rparr>, g')"
    using a(1) b(1) k(1) Suc.prems(3) by (simp add: Let_def)
  then show ?case using b(2,4-7) grown_trans [OF a(3) b(3)] by auto
qed

section \<open>The table and the links\<close>

lemma create_table_ok:
  assumes g: "boot_mem outside asserts name g" and al: "alloc_clean al (fw_n_rules p)" and tables: "tables (be_p p) = []"
    and p: "0 < fw_n_rules p" "0 < fw_n_rule_fields p" "fw_n_rule_fields p \<le> RTE_ACL_MAX_FIELDS" "be_table_id p \<noteq> []"
    and name: "prm_name params = name" "length name \<le> 29"
  shows "\<exists>t acl g'. create_table lib al params p g =
      Inr (True, p\<lparr>be_p := (be_p p)\<lparr>tables := [t]\<rparr>, be_table_id := (be_table_id p)[0 := 0]\<rparr>, g') \<and>
    tbl_ops t = rte_table_acl_ops lib (a_table al) (a_ctx al) \<and> no_table_action t \<and> pte_action (default_entry t) = ACTION_DROP \<and>
    h_table t = length (acls (rest g)) \<and> g' = g\<lparr>rest := (rest g)\<lparr>acls := acls (rest g) @ [Some acl]\<rparr>\<rparr> \<and>
    acl_ok acl \<and> synced lib acl (acl_hp (rest g)) \<and> acl_n_rules acl = fw_n_rules p \<and> acl_map acl = Map.empty \<and>
    (\<forall>i r. \<not> rule_in acl i r) \<and> acl_num_fields acl = fw_n_rule_fields p"
proof -
  obtain e0 where e0: "a_entry al = Some e0" using al unfolding alloc_clean_def by blast
  obtain acts st where tb: "a_table al g = Some (replicate (fw_n_rules p) None, acts, st)" "length acts = fw_n_rules p"
    using al unfolding alloc_clean_def by meson
  let ?prm = "\<lparr>tap_name = Some (prm_name params), tap_n_rules = fw_n_rules p, tap_n_rule_fields = fw_n_rule_fields p,
    tap_field_format = fw_field_format p\<rparr>"
  let ?acl = "\<lparr>acl_stats = st, acl_name0 = name @ ''_a'', acl_name1 = name @ ''_b'', acl_name_id = True,
    acl_cfg = fw_field_format p, acl_num_fields = fw_n_rule_fields p, acl_ctx = None, acl_n_rules = fw_n_rules p,
    acl_entry_size = 8, acl_rule_size = 16 + 16 * fw_n_rule_fields p, acl_rule_list = replicate (fw_n_rules p) None,
    acl_action_table = acts\<rparr>"
  have cr: "rte_table_acl_create (a_table al g) (Some ?prm) 8 = Some ?acl"
    using tb p name by (simp add: rte_table_acl_create_def)
  let ?t = "\<lparr>tbl_ops = rte_table_acl_ops lib (a_table al) (a_ctx al), tbl_action_hit = None, tbl_action_miss = None,
    default_entry = e0\<lparr>pte_action := ACTION_DROP\<rparr>, tbl_entry_size = 8, table_next_id = 0, table_next_id_valid = False,
    h_table = length (acls (rest g)), n_pkts_dropped_by_lkp_hit_ah = a_stats al, n_pkts_dropped_by_lkp_miss_ah = a_stats al,
    n_pkts_dropped_lkp_hit = a_stats al, n_pkts_dropped_lkp_miss = a_stats al\<rparr>"
  let ?g = "g\<lparr>rest := (rest g)\<lparr>acls := acls (rest g) @ [Some ?acl]\<rparr>\<rparr>"
  have none: "\<not> rule_in ?acl i r" for i r by (simp add: rule_in_def)
  have ok: "acl_ok ?acl" using p(1) tb(2) name(2) none unfolding acl_ok_def by simp
  have "active ?acl = []" by (simp add: active_def)
  moreover have "names_free name (acl_hp (rest g))" using g by (simp add: boot_mem_def mem_ok_def pool_ok_def)
  ultimately have "synced lib ?acl (acl_hp (rest g))" by (force simp: synced_def names_free_def)
  moreover have "acl_map ?acl k \<noteq> Some (pri, e)" for k pri e unfolding acl_map_Some [OF ok] using none by blast
  then have "acl_map ?acl = Map.empty" by (intro ext) (metis option.exhaust_sel prod.collapse)
  moreover have "create_table lib al params p g =
      Inr (True, p\<lparr>be_p := (be_p p)\<lparr>tables := [?t]\<rparr>, be_table_id := (be_table_id p)[0 := 0]\<rparr>, ?g)"
    using cr e0 tables by (simp add: create_table_def rte_pipeline_table_create_def rte_table_check_params_def rte_table_acl_ops_def
        Option.is_none_def Let_def)
  ultimately show ?thesis using ok none
    by (intro exI [of _ ?t] exI [of _ ?acl] exI [of _ ?g]) (simp add: no_table_action_def)
qed

lemma connect_ports_ok:
  assumes "\<forall>i \<in> set is. i < length (ports_in (be_p p)) \<and> i < length (be_port_in_id p) \<and> be_port_in_id p ! i = i"
    and "be_table_id p \<noteq> []" "be_table_id p ! 0 = 0" "tables (be_p p) \<noteq> []"
  shows "\<exists>ps. connect_ports is p g = Inr (True, p\<lparr>be_p := (be_p p)\<lparr>ports_in := ps\<rparr>\<rparr>, g) \<and> length ps = length (ports_in (be_p p)) \<and>
    (\<forall>i < length ps. ps ! i = (if i \<in> set is then (ports_in (be_p p) ! i)\<lparr>pin_table_id := 0\<rparr> else ports_in (be_p p) ! i))"
  using assms
proof (induction "is" arbitrary: p)
  case Nil
  then show ?case by (intro exI [of _ "ports_in (be_p p)"]) simp
next
  case (Cons i "is")
  let ?ps = "(ports_in (be_p p))[i := (ports_in (be_p p) ! i)\<lparr>pin_table_id := 0\<rparr>]"
  let ?p = "p\<lparr>be_p := (be_p p)\<lparr>ports_in := ?ps\<rparr>\<rparr>"
  obtain ps where ih: "connect_ports is ?p g = Inr (True, ?p\<lparr>be_p := (be_p ?p)\<lparr>ports_in := ps\<rparr>\<rparr>, g)" "length ps = length ?ps"
      "\<forall>j < length ps. ps ! j = (if j \<in> set is then (?ps ! j)\<lparr>pin_table_id := 0\<rparr> else ?ps ! j)"
    using Cons.IH [of ?p] Cons.prems by auto
  have "connect_ports (i # is) p g = Inr (True, p\<lparr>be_p := (be_p p)\<lparr>ports_in := ps\<rparr>\<rparr>, g)"
    using ih(1) Cons.prems by (simp add: rte_pipeline_port_in_connect_to_table_def)
  moreover have "ps ! j = (if j \<in> set (i # is) then (ports_in (be_p p) ! j)\<lparr>pin_table_id := 0\<rparr> else ports_in (be_p p) ! j)"
    if "j < length ps" for j
    using ih(2,3) that by (cases "j = i") auto
  ultimately show ?case using ih(2) by (intro exI [of _ ps]) simp
qed

lemma enable_ports_ok:
  assumes "port_chain (be_p p)"
    and "\<forall>i \<in> set is. i < length (ports_in (be_p p)) \<and> i < length (be_port_in_id p) \<and> be_port_in_id p ! i = i"
  shows "\<exists>q. enable_ports is p g = Inr (True, p\<lparr>be_p := q\<rparr>, g) \<and> port_chain q \<and> same_core (be_p p) q \<and> tables q = tables (be_p p) \<and>
    (\<forall>i. bit (enabled_port_in_mask q) i \<longleftrightarrow> bit (enabled_port_in_mask (be_p p)) i \<or> i \<in> set is)"
  using assms
proof (induction "is" arbitrary: p)
  case Nil
  then show ?case by (intro exI [of _ "be_p p"]) simp
next
  case (Cons i "is")
  have i: "i < length (ports_in (be_p p))" "i < length (be_port_in_id p)" "be_port_in_id p ! i = i" using Cons.prems(2) by simp_all
  obtain q where q: "rte_pipeline_port_in_enable (Some (be_p p)) i = (0, Some q)" "port_chain q"
      "enabled_port_in_mask q = enabled_port_in_mask (be_p p) OR bit1 i"
    using port_chain_enable [OF Cons.prems(1), of i] i(1) by auto
  note core = enable_core(1) [OF q(1)]
  have len: "length (ports_in q) = length (ports_in (be_p p))" using same_coreD(1) core by blast
  obtain q' where ih: "enable_ports is (p\<lparr>be_p := q\<rparr>) g = Inr (True, p\<lparr>be_p := q'\<rparr>, g)" "port_chain q'" "same_core q q'" "tables q' = tables q"
      "\<forall>j. bit (enabled_port_in_mask q') j \<longleftrightarrow> bit (enabled_port_in_mask q) j \<or> j \<in> set is"
    using Cons.IH [of "p\<lparr>be_p := q\<rparr>"] q(2) Cons.prems(2) len by auto
  have "i < 64" using i(1) Cons.prems(1) by (simp add: port_chain_def)
  then have "bit (enabled_port_in_mask q') j \<longleftrightarrow> bit (enabled_port_in_mask (be_p p)) j \<or> j \<in> set (i # is)" for j
    using ih(5) q(3) by (auto simp: bit_or_iff)
  then show ?case using ih core q(1) i by (intro exI [of _ q']) (simp add: same_core_def)
qed

section \<open>Arguments\<close>

text \<open>Every accepted argument list selects one of the three formats, each with five fields in the order of the
  5-tuple.\<close>

definition args_ok :: "fw_args \<Rightarrow> bool" where
  "args_ok a \<longleftrightarrow> fa_field_format a \<in> {field_format_ipv4, field_format_vlan_ipv4, field_format_qinq_ipv4} \<and> fa_n_rule_fields a = 5"

lemma parse_args_loop_ok: "parse_args_loop args s = Some a \<Longrightarrow> args_ok (snd (snd s)) \<Longrightarrow> args_ok a"
proof (induction args arbitrary: s)
  case (Cons arg args)
  then obtain s1 where s1: "parse_arg arg s = Some s1" "parse_args_loop args s1 = Some a" by (auto split: option.splits)
  have "args_ok (snd (snd s1))" using s1(1) Cons.prems(2)
    by (cases s) (auto simp: parse_arg_def args_ok_def field_format_ipv4_def field_format_vlan_ipv4_def field_format_qinq_ipv4_def
        split: if_splits sum.splits)
  then show ?case using Cons.IH [OF s1(2)] by simp
qed simp

lemma parse_args_ok: "pipeline_firewall_parse_args params = Some a \<Longrightarrow> args_ok a"
  using parse_args_loop_ok [of "prm_args params" "(False, False, fw_args0)" a]
  by (simp add: pipeline_firewall_parse_args_def args_ok_def fw_args0_def field_format_ipv4_def)

section \<open>Initialisation establishes the invariant\<close>

definition boot_setup where
  "boot_setup outside fuel lib mt asserts sketch n al = \<lparr>su_outside = outside, su_fuel = fuel, su_lib = lib, su_match = mt,
     su_asserts = asserts, su_sketch = sketch, su_n_rules = n, su_table = a_table al, su_ctx = a_ctx al\<rparr>"

lemma boot_filter:
  assumes mem: "boot_mem outside asserts name g" and con: "acl_contract mt lib"
    and ins: "\<forall>port \<in> set (ports_in q). ring_port_in asserts sketch port \<and> pin_h port < length (readers g) \<and>
      readers g ! pin_h port \<noteq> None \<and> pin_burst_size port \<le> RTE_PORT_IN_BURST_SIZE_MAX \<and> pin_table_id port = 0"
    and outs: "outs_ok outside fuel g (ports_out q)" "length (ports_out q) \<le> 64"
    and t: "tables q = [t]" "tbl_ops t = rte_table_acl_ops lib ta ca" "no_table_action t" "pte_action (default_entry t) = ACTION_DROP"
      "h_table t = length (acls (rest g))"
    and acl: "acl_ok acl" "synced lib acl (acl_hp (rest g))" "acl_n_rules acl = n" "\<forall>i r. \<not> rule_in acl i r"
  shows "filter_inv (\<lambda>as hp pkt. acl_sized (h_table (tables q ! 0)) n as) outside fuel lib mt asserts sketch q
    (g\<lparr>rest := (rest g)\<lparr>acls := acls (rest g) @ [Some acl]\<rparr>\<rparr>)"
proof -
  have "tables_ok lib q (acls (rest g) @ [Some acl]) (acl_hp (rest g))"
    using t acl unfolding tables_ok_def by (auto simp: acl_table_def)
  moreover have "acl_sized (h_table (tables q ! 0)) n (acls (rest g) @ [Some acl])" using t acl(3) by (simp add: acl_sized_def)
  ultimately have "mem_ok (pool_ok outside (\<lambda>as hp pkt. tables_ok lib q as hp \<and> ipv4_only asserts pkt \<and>
      acl_sized (h_table (tables q ! 0)) n as)) (g\<lparr>rest := (rest g)\<lparr>acls := acls (rest g) @ [Some acl]\<rparr>\<rparr>)"
    using mem by (simp add: boot_mem_def mem_ok_def pool_ok_def)
  moreover have "topology_ok q False"
    using ins outs t by (auto simp: topology_ok_def outs_ok_def no_out_action_def list_all_iff entry_ok_def)
  moreover have "\<forall>port \<in> set (ports_out q). port_out_ok outside fuel (g\<lparr>rest := (rest g)\<lparr>acls := acls (rest g) @ [Some acl]\<rparr>\<rparr>) port"
    using outs(1) by (simp add: outs_ok_def port_out_ok_def)
  ultimately show ?thesis using con ins by (simp add: filter_inv_def)
qed

text \<open>The last stages: the pipeline with all ports linked is enabled port by port, and the queues are stored.\<close>

lemma boot_done:
  assumes filt: "filter_inv (\<lambda>as hp pkt. acl_sized (h_table (tables q ! 0)) n as) outside (Suc fuel) lib mt asserts sketch q g"
    and core: "same_core q q'" and chain: "port_chain q'" and t: "tables q = [t]" "tables q' = [t]"
      "tbl_ops t = rte_table_acl_ops lib (a_table al) (a_ctx al)" and al: "alloc_clean al n"
    and p: "be_p p = q'" "be_n_ports_in p = length (ports_in q)" "be_n_ports_out p = length (ports_out q)" "be_n_tables p = 1"
      "length (be_port_in_id p) = 64" "length (be_port_out_id p) = 64" "be_table_id p \<noteq> []" "be_table_id p ! 0 = 0"
      "\<forall>i < be_n_ports_in p. be_port_in_id p ! i = i" "\<forall>i < be_n_ports_out p. be_port_out_id p ! i = i"
  shows "fw_inv (boot_setup outside fuel lib mt asserts sketch n al) p g"
proof -
  have "\<forall>i < length (tables q). entry_ok q False i (default_entry (tables q' ! i))"
    using filt t by (simp add: filter_inv_def topology_ok_def)
  from filter_inv_core [OF filt core this] have "filter_inv (\<lambda>as hp pkt. acl_sized (h_table (tables q' ! 0)) n as) outside (Suc fuel)
      lib mt asserts sketch q' g" using t by simp
  moreover have "length (ports_in q) \<le> 64" "length (ports_out q) \<le> 64"
    using chain filt same_coreD [OF core] by (simp_all add: port_chain_def filter_inv_def topology_ok_def)
  then have "ids_ok p" using p t same_coreD [OF core] by (simp add: ids_ok_def)
  moreover have "\<forall>g k mem. a_ctx al g = Some (k, mem) \<longrightarrow> k = 0 \<and> length mem = n" using al unfolding alloc_clean_def by blast
  ultimately show ?thesis using chain t p(1) by (simp add: fw_inv_def boot_setup_def)
qed

lemma boot_check:
  assumes "same_core q q'" and "\<forall>port \<in> set (ports_in q). pin_table_id port = 0" and "ports_in q \<noteq> []" "ports_out q \<noteq> []" "tables q \<noteq> []"
  shows "rte_pipeline_check (Some q') = 0"
proof -
  have "\<forall>port \<in> set (ports_in q'). pin_table_id port = 0"
  proof (rule map_eq_ball [of core_in _ "ports_in q"])
    fix a b :: "('a, 'b, 'd, 'f) rte_port_in" assume "core_in a = core_in b" "pin_table_id b = 0"
    then show "pin_table_id a = 0" using core_inD by metis
  qed (use assms(1,2) in \<open>simp_all add: same_core_def\<close>)
  then show ?thesis using assms(3-5) same_coreD [OF assms(1)]
    by (auto simp: rte_pipeline_check_def list_ex_iff)
qed

lemma take_nth_prefix: "n \<le> length xs \<Longrightarrow> q < n \<Longrightarrow> (take n xs @ ys) ! q = xs ! q"
  by (simp add: nth_append)

lemma init_law:
  assumes g: "boot_mem outside asserts (prm_name params) g" and prm: "params_ok g params" and con: "acl_contract mt lib"
    and a: "pipeline_firewall_parse_args params = Some a" "0 < fa_n_rules a" and al: "alloc_clean al (fa_n_rules a)"
  shows "\<exists>p g'. ecall_pipeline_firewall_init (enclave_free outside (Suc fuel)) lib (header_copy_build asserts sketch ra rb) al
      (Some params) g = Inr (Some p, g') \<and>
    fw_inv (boot_setup outside fuel lib mt asserts sketch (fa_n_rules a) al) p g' \<and> fw_map p g' = Map.empty \<and>
    mem_owned enclave_pool g' = mem_owned enclave_pool g \<and>
    (\<forall>i. bit (enabled_port_in_mask (be_p p)) i \<longleftrightarrow> i < prm_n_ports_in params) \<and>
    be_n_ports_out p = prm_n_ports_out params \<and> be_n_msgq p = prm_n_msgq params \<and>
    (\<forall>q < prm_n_msgq params. q < length (be_msgq_in p) \<and> q < length (be_msgq_out p) \<and>
       be_msgq_in p ! q = prm_msgq_in params ! q \<and> be_msgq_out p ! q = prm_msgq_out params ! q) \<and>
    acl_num_fields (fw_acl p g') = 5 \<and> pte_action (fw_default p) = ACTION_DROP"
proof -
  let ?bd = "header_copy_build asserts sketch ra rb :: 'a fw_build" and ?n = "prm_n_ports_in params" and ?m = "prm_n_ports_out params"
  let ?S = "boot_setup outside fuel lib mt asserts sketch (fa_n_rules a) al"
  have P: "0 < ?n" "?n \<le> 64" "?n \<le> length (prm_port_in params)" "0 < ?m" "?m \<le> 64" "?m \<le> length (prm_port_out params)"
      "\<forall>i < ?n. in_param_ok g (prm_port_in params ! i)" "\<forall>i < ?m. out_param_ok g (prm_port_out params ! i)"
      "prm_n_msgq params \<le> 16" "prm_n_msgq params \<le> length (prm_msgq_in params)"
      "prm_n_msgq params \<le> length (prm_msgq_out params)" "length (prm_name params) \<le> 29"
      "0 \<le> prm_socket_id params" "prm_socket_id params < RTE_MAX_NUMA_NODES"
    using prm by (simp_all add: params_ok_def)
  obtain in_id out_id tab_id q_in q_out run where blk: "a_block al = Some (in_id, out_id, tab_id, q_in, q_out)"
      "length in_id = 64" "length out_id = 64" "length tab_id = 16" "length q_in = 16" "length q_out = 16" "a_run al = Some run"
    using al unfolding alloc_clean_def by blast
  have tab: "tab_id \<noteq> []" "tab_id[0 := 0] ! 0 = 0" using blk(4) by auto
  define g0 where "g0 = (if sketch then g\<lparr>rest := (rest g)\<lparr>input_cm := cm_init ra rb\<rparr>\<rparr> else g)"
  have g0: "boot_mem outside asserts (prm_name params) g0" "rings g0 = rings g" "mem_owned enclave_pool g0 = mem_owned enclave_pool g"
    using g by (simp_all add: g0_def boot_mem_def mem_ok_def pool_ok_def mem_owned_def enclave_pool_def)
  let ?q0 = "\<lparr>pl_name = take 123 (prm_name params), pl_socket_id = prm_socket_id params, offset_port_id = 0, ports_in = [],
    ports_out = [], tables = [], enabled_port_in_mask = 0, port_in_next = None, prun = run\<lparr>pkts_mask := 0\<rparr>\<rparr> :: 'a fw_pl"
  let ?p0 = "\<lparr>be_p = ?q0, be_port_in_id = in_id, be_port_out_id = out_id, be_table_id = tab_id, be_msgq_in = q_in, be_msgq_out = q_out,
    be_n_ports_in = ?n, be_n_ports_out = ?m, be_n_tables = 1, be_n_msgq = 0, be_name = prm_name params,
    be_log_level = prm_log_level params, fw_n_rules = fa_n_rules a, fw_n_rule_fields = fa_n_rule_fields a,
    fw_field_format = fa_field_format a\<rparr> :: 'a pipeline_firewall"
  have "\<forall>i < 0 + ?n. in_param_ok g0 (prm_port_in params ! i)" using P(7) g0(2) by (simp add: in_param_ok_def)
  then obtain ins iids g1 where 1: "create_ports_in ?bd al params [0 ..< ?n] ?p0 g0 =
        Inr (True, ?p0\<lparr>be_p := ?q0\<lparr>ports_in := ins\<rparr>, be_port_in_id := iids\<rparr>, g1)" "boot_mem outside asserts (prm_name params) g1"
      "grown g0 g1" "length ins = ?n" "length iids = 64" "\<forall>i < ?n. iids ! i = i" "ins_ok asserts sketch g1 ins"
    using create_ports_in_ok [OF g0(1) al, of ?bd sketch 0 ?n params ?p0] P(2,3) blk(2)
    by (auto simp: header_copy_build_def ins_ok_def)
  let ?p1 = "?p0\<lparr>be_p := ?q0\<lparr>ports_in := ins\<rparr>, be_port_in_id := iids\<rparr>"
  have "\<forall>i < 0 + ?m. out_param_ok g1 (prm_port_out params ! i)"
    using P(8) g0(2) param_ok_grown(2) [OF 1(3)] by (simp add: out_param_ok_def)
  then obtain outs oids g2 where 2: "create_ports_out (enclave_free outside (Suc fuel)) ?bd al params [0 ..< ?m] ?p1 g1 =
        Inr (True, ?p1\<lparr>be_p := (be_p ?p1)\<lparr>ports_out := outs\<rparr>, be_port_out_id := oids\<rparr>, g2)"
      "boot_mem outside asserts (prm_name params) g2" "grown g1 g2" "length outs = ?m" "length oids = 64"
      "\<forall>i < ?m. oids ! i = i" "outs_ok outside (Suc fuel) g2 outs"
    using create_ports_out_ok [OF 1(2) al, of ?bd 0 ?m params ?p1 "Suc fuel"] P(5,6) blk(3)
    by (auto simp: header_copy_build_def outs_ok_def)
  let ?p2 = "?p1\<lparr>be_p := (be_p ?p1)\<lparr>ports_out := outs\<rparr>, be_port_out_id := oids\<rparr>"
  have al2: "alloc_clean al (fw_n_rules ?p2)" "0 < fw_n_rules ?p2" "0 < fw_n_rule_fields ?p2" "fw_n_rule_fields ?p2 \<le> 64"
      "be_table_id ?p2 \<noteq> []" "tables (be_p ?p2) = []"
    using al a(2) parse_args_ok [OF a(1)] blk(4) by (auto simp: args_ok_def)
  obtain t acl where 3: "create_table lib al params ?p2 g2 =
        Inr (True, ?p2\<lparr>be_p := (be_p ?p2)\<lparr>tables := [t]\<rparr>, be_table_id := (be_table_id ?p2)[0 := 0]\<rparr>,
          g2\<lparr>rest := (rest g2)\<lparr>acls := acls (rest g2) @ [Some acl]\<rparr>\<rparr>)"
      "tbl_ops t = rte_table_acl_ops lib (a_table al) (a_ctx al)" "no_table_action t" "pte_action (default_entry t) = ACTION_DROP"
      "h_table t = length (acls (rest g2))" "acl_ok acl" "synced lib acl (acl_hp (rest g2))" "acl_n_rules acl = fa_n_rules a"
      "acl_map acl = Map.empty" "\<forall>i r. \<not> rule_in acl i r" "acl_num_fields acl = fa_n_rule_fields a"
    using create_table_ok [OF 2(2) al2(1,6,2-5) refl P(12), of lib] by auto
  let ?g3 = "g2\<lparr>rest := (rest g2)\<lparr>acls := acls (rest g2) @ [Some acl]\<rparr>\<rparr>"
  let ?p3 = "?p2\<lparr>be_p := (be_p ?p2)\<lparr>tables := [t]\<rparr>, be_table_id := (be_table_id ?p2)[0 := 0]\<rparr>"
  obtain ps where 4: "connect_ports [0 ..< ?n] ?p3 ?g3 = Inr (True, ?p3\<lparr>be_p := (be_p ?p3)\<lparr>ports_in := ps\<rparr>\<rparr>, ?g3)" "length ps = ?n"
      "\<forall>i < ?n. ps ! i = (ins ! i)\<lparr>pin_table_id := 0\<rparr>"
    using connect_ports_ok [of "[0 ..< ?n]" ?p3 ?g3] 1(4-6) P(2) blk(4) tab by auto
  let ?p4 = "?p3\<lparr>be_p := (be_p ?p3)\<lparr>ports_in := ps\<rparr>\<rparr>"
  have chain: "port_chain (be_p ?p4)" using P(2) 4(2) by (simp add: port_chain_def)
  have ids4: "\<forall>i \<in> set [0 ..< ?n]. i < length (ports_in (be_p ?p4)) \<and> i < length (be_port_in_id ?p4) \<and> be_port_in_id ?p4 ! i = i"
    using 1(5,6) 4(2) P(2) by simp
  obtain q where 5: "enable_ports [0 ..< ?n] ?p4 ?g3 = Inr (True, ?p4\<lparr>be_p := q\<rparr>, ?g3)" "port_chain q" "same_core (be_p ?p4) q"
      "tables q = [t]" "\<forall>i. bit (enabled_port_in_mask q) i \<longleftrightarrow> i < ?n"
    using enable_ports_ok [OF chain ids4, of ?g3] by auto
  have pin: "\<forall>port \<in> set (ports_in (be_p ?p4)). ring_port_in asserts sketch port \<and> pin_h port < length (readers g2) \<and>
      readers g2 ! pin_h port \<noteq> None \<and> pin_burst_size port \<le> RTE_PORT_IN_BURST_SIZE_MAX \<and> pin_table_id port = 0"
  proof
    fix port assume "port \<in> set (ports_in (be_p ?p4))"
    then obtain i where i: "i < ?n" "port = (ins ! i)\<lparr>pin_table_id := 0\<rparr>" using 4(2,3) by (auto simp: in_set_conv_nth)
    have "ins_ok asserts sketch g2 ins" by (rule ins_ok_live [OF 1(7)]) (use 2(3) in \<open>simp add: grown_def\<close>)
    moreover have "ins ! i \<in> set ins" using i(1) 1(4) by simp
    ultimately show "ring_port_in asserts sketch port \<and> pin_h port < length (readers g2) \<and>
      readers g2 ! pin_h port \<noteq> None \<and> pin_burst_size port \<le> RTE_PORT_IN_BURST_SIZE_MAX \<and> pin_table_id port = 0"
      using i(2) unfolding ins_ok_def by (simp add: ring_port_in_def)
  qed
  have filt: "filter_inv (\<lambda>as hp pkt. acl_sized (h_table (tables (be_p ?p4) ! 0)) (fa_n_rules a) as) outside (Suc fuel) lib mt
      asserts sketch (be_p ?p4) ?g3"
    by (rule boot_filter [OF 2(2) con pin _ _ _ 3(2-8) 3(10)]) (use 2(4,7) P(5) in simp_all)
  let ?k = "prm_n_msgq params"
  let ?p5 = "?p4\<lparr>be_p := q, be_n_msgq := ?k, be_msgq_in := take ?k (prm_msgq_in params) @ drop ?k q_in,
    be_msgq_out := take ?k (prm_msgq_out params) @ drop ?k q_out\<rparr>"
  have inv: "fw_inv ?S ?p5 ?g3"
    by (rule boot_done [OF filt 5(3,2) _ 5(4) 3(2) al]) (use 1(4-6) 2(4-6) 4(2) blk(4) tab in simp_all)
  have chk: "rte_pipeline_check (Some q) = 0"
    by (rule boot_check [OF 5(3)]) (use pin 4(2) 2(4) P(1,4) in auto)
  have pre: "bd_pre ?bd g = Inr g0" by (simp add: header_copy_build_def g0_def)
  have "rte_pipeline_create (Some \<lparr>pp_name = Some (prm_name params), pp_socket_id = prm_socket_id params, pp_offset_port_id = 0\<rparr>) (a_run al) = Some ?q0"
    using blk(7) P(13,14) by (simp add: rte_pipeline_create_def rte_pipeline_check_params_def)
  then have "ecall_pipeline_firewall_init (enclave_free outside (Suc fuel)) lib ?bd al (Some params) g = Inr (Some ?p5, ?g3)"
    using pre P(1,4,9,12) blk(1) a(1) 1(1) 2(1) 3(1) 4(1) 5(1) chk
    by (simp add: ecall_pipeline_firewall_init_def stage_def copy_msgqs_def Let_def)
  moreover have "fw_map ?p5 ?g3 = Map.empty" using 3(5,9) 5(4) by (simp add: fw_map_def fw_acl_def)
  moreover have "acl_num_fields (fw_acl ?p5 ?g3) = 5"
    using 3(5,11) 5(4) parse_args_ok [OF a(1)] by (simp add: fw_acl_def args_ok_def)
  moreover have "pte_action (fw_default ?p5) = ACTION_DROP" using 3(4) 5(4) by (simp add: fw_default_def)
  moreover have "mem_owned enclave_pool ?g3 = mem_owned enclave_pool g"
  proof -
    have "mem_owned enclave_pool ?g3 = mem_owned enclave_pool g2" by (simp add: mem_owned_def enclave_pool_def)
    then show ?thesis using 1(3) 2(3) g0(3) by (simp add: grown_def)
  qed
  moreover have "\<forall>i < ?k. i < length (be_msgq_in ?p5) \<and> i < length (be_msgq_out ?p5) \<and> be_msgq_in ?p5 ! i = prm_msgq_in params ! i \<and>
      be_msgq_out ?p5 ! i = prm_msgq_out params ! i" using P(10,11) by (simp add: take_nth_prefix)
  ultimately show ?thesis using inv 5(5) by (intro exI [of _ ?p5] exI [of _ ?g3]) simp
qed

end
