(* ===== verification/Firewall_Props.thy ===== *)
theory Firewall_Props
  imports Firewall_Boot
begin

text \<open>
  The properties of the firewall as a whole, each with a concrete firewall for which it is evaluated: one
  that \<open>ecall_pipeline_firewall_init\<close> builds, with a classifier that compares every rule.
\<close>

section \<open>A concrete firewall\<close>

text \<open>Reading a field of a packet: big-endian, at the offset of the field's definition.\<close>

definition field_at :: "rte_acl_field_def \<Rightarrow> (nat \<Rightarrow> u8) \<Rightarrow> nat" where
  "field_at fd d = fold (\<lambda>i v. v * 256 + unat (d (fd_offset fd + i))) [0 ..< fd_size fd] 0"

definition field_match :: "rte_acl_field_def \<Rightarrow> rte_acl_field \<Rightarrow> (nat \<Rightarrow> u8) \<Rightarrow> bool" where
  "field_match fd f d = (case fd_type fd of
     RTE_ACL_FIELD_TYPE_MASK \<Rightarrow> field_at fd d div 2 ^ (8 * fd_size fd - unat (af_mask_range f)) =
       unat (af_value f) div 2 ^ (8 * fd_size fd - unat (af_mask_range f))
   | RTE_ACL_FIELD_TYPE_RANGE \<Rightarrow> unat (af_value f) \<le> field_at fd d \<and> field_at fd d \<le> unat (af_mask_range f)
   | RTE_ACL_FIELD_TYPE_BITMASK \<Rightarrow> of_nat (field_at fd d) AND af_mask_range f = af_value f AND af_mask_range f)"

definition rule_match :: "rte_acl_field_def list \<Rightarrow> rte_acl_rule \<Rightarrow> (nat \<Rightarrow> u8) \<Rightarrow> bool" where
  "rule_match cfg r d = list_all (\<lambda>(fd, f). field_match fd f d) (zip cfg (ar_field r))"

text \<open>A classifier for any matching relation.\<close>

primrec best_rule :: "(rte_acl_rule \<Rightarrow> bool) \<Rightarrow> rte_acl_rule list \<Rightarrow> rte_acl_rule option" where
  "best_rule P [] = None"
| "best_rule P (r # rs) = (case best_rule P rs of None \<Rightarrow> if P r then Some r else None
     | Some s \<Rightarrow> if P r \<and> ar_priority s \<le> ar_priority r then Some r else Some s)"

definition best_lib :: "('cfg \<Rightarrow> rte_acl_rule \<Rightarrow> 'd \<Rightarrow> bool) \<Rightarrow> ('cfg, rte_acl_rule list \<times> 'cfg, 'd) acl_lib" where
  "best_lib mt = \<lparr>al_build = (\<lambda>rules cfg. Some (rules, cfg)),
     al_classify = (\<lambda>(rules, cfg) d. case best_rule (\<lambda>r. mt cfg r d) rules of None \<Rightarrow> 0 | Some r \<Rightarrow> ar_userdata r)\<rparr>"

lemma best_rule:
  "(case best_rule P rs of None \<Rightarrow> \<forall>r \<in> set rs. \<not> P r
    | Some r \<Rightarrow> r \<in> set rs \<and> P r \<and> (\<forall>s \<in> set rs. P s \<longrightarrow> ar_priority s \<le> ar_priority r))"
  by (induction rs) (fastforce split: option.splits)+

lemma best_contract: "acl_contract mt (best_lib mt)"
  unfolding acl_contract_def best_lib_def
proof (clarsimp, goal_cases)
  case (1 rules cfg d)
  then show ?case using best_rule [where P = "\<lambda>r. mt cfg r d" and rs = rules]
    by (cases "best_rule (\<lambda>r. mt cfg r d) rules") fastforce+
qed

text \<open>The memory before, the parameters, and what the allocator delivers: one ring with a packet to read from,
  one full ring to write to, one pair of message rings with two requests waiting.\<close>

type_synonym demo_rt = "rte_acl_rule list \<times> rte_acl_field_def list"

definition fw_world0 :: "demo_rt fw_world" where
  "fw_world0 = \<lparr>rings = [full_ring, full_ring], readers = [], writers = [], nodrops = [], sinks = [],
     rest = \<lparr>mbufs = \<lparr>segs = (\<lambda>_. None), returned = [], ocalls = []\<rparr>,
       packet = (\<lambda>_. \<lparr>mtod = (\<lambda>_. 5), pkt_len = 60\<rparr>), headers = (\<lambda>_. undefined), input_cm = cm_init (\<lambda>_. 3) (\<lambda>_. 4),
       acls = [], acl_hp = \<lparr>ctxs = [], fresh = 0\<rparr>\<rparr>\<rparr>"

definition fw_params :: pipeline_params where
  "fw_params = \<lparr>prm_name = ''PIPELINE1'',
     prm_port_in = [\<lparr>in_type = PIPELINE_PORT_IN_RING_READER, in_params = Ring_Arg (Some \<lparr>conf_ring = Some 0,
       conf_tx_burst_sz = 0, conf_n_retries = 0\<rparr>), in_burst_size = 32\<rparr>],
     prm_port_out = [\<lparr>out_type = PIPELINE_PORT_OUT_RING_WRITER, out_params = Ring_Arg (Some \<lparr>conf_ring = Some 1,
       conf_tx_burst_sz = 32, conf_n_retries = 0\<rparr>)\<rparr>, \<lparr>out_type = PIPELINE_PORT_OUT_SINK, out_params = Sink_Arg None\<rparr>],
     prm_msgq_in = [Some 0], prm_msgq_out = [Some 0], prm_n_ports_in = 1, prm_n_ports_out = 2, prm_n_msgq = 1,
     prm_socket_id = 0, prm_args = [(''pkt_type'', ''vlan_ipv4'')], prm_log_level = 0\<rparr>"

definition fw_alloc0 :: "demo_rt fw_alloc" where
  "fw_alloc0 = \<lparr>a_block = Some (replicate 64 7, replicate 64 7, replicate 16 7, replicate 16 None, replicate 16 None),
     a_run = Some \<lparr>pkts = (\<lambda>_. 0), entries = (\<lambda>_. None), action_mask0 = (\<lambda>_. 0), action_mask1 = (\<lambda>_. 0), pkts_mask = 0\<rparr>,
     a_reader = (\<lambda>_. Some \<lparr>rd_stats = (0, 0), rd_ring = 0\<rparr>), a_writer = (\<lambda>_. Some host_writer), a_nodrop = (\<lambda>_. None),
     a_sink = (\<lambda>_. Some (0, 0)), a_entry = Some zero_entry,
     a_table = (\<lambda>_. Some (replicate 4096 None, replicate 4096 zero_entry, 0, 0)),
     a_ctx = (\<lambda>_. Some (0, replicate 4096 \<lparr>ar_category_mask = 0, ar_priority = 0, ar_userdata = 0, ar_field = []\<rparr>)),
     a_stats = 0, a_nodrop_fuel = 0, a_nodrop_env = (\<lambda>_ r. r)\<rparr>"

definition fw_key0 :: pipeline_firewall_key where
  "fw_key0 = \<lparr>key_type = 0, key_ipv4_5tuple = \<lparr>k_src_ip = 0x0A000000, k_src_ip_mask = 8, k_dst_ip = 0, k_dst_ip_mask = 0,
     k_src_port_from = 0, k_src_port_to = 65535, k_dst_port_from = 80, k_dst_port_to = 80, k_proto = 6, k_proto_mask = 0xFF\<rparr>\<rparr>"

definition ping_req :: fw_req where
  "ping_req = \<lparr>rq_type = 0, rq_word = 0, rq_body = No_Body\<rparr>"

definition add_req :: fw_req where
  "add_req = \<lparr>rq_type = 6, rq_word = 0, rq_body = Add_Body fw_key0 1 1\<rparr>"

definition fw_msgs0 :: fw_msgs where
  "fw_msgs0 = \<lparr>req_rings = [\<lparr>r_name = ''q'', r_flags = 3, r_size = 4, r_mask = 3,
       r_prod = \<lparr>ht_head = 2, ht_tail = 2, ht_single = True\<rparr>, r_cons = \<lparr>ht_head = 0, ht_tail = 0, ht_single = True\<rparr>,
       r_slots = [ping_req, add_req, ping_req, ping_req]\<rparr>],
     rsp_rings = [\<lparr>r_name = ''s'', r_flags = 3, r_size = 4, r_mask = 3,
       r_prod = \<lparr>ht_head = 0, ht_tail = 0, ht_single = True\<rparr>, r_cons = \<lparr>ht_head = 0, ht_tail = 0, ht_single = True\<rparr>,
       r_slots = replicate 4 (rsp_status 0)\<rparr>]\<rparr>"

definition fw_setup0 :: "demo_rt fw_setup" where
  "fw_setup0 = boot_setup (\<lambda>_. True) 0 (best_lib rule_match) rule_match False True 4096 fw_alloc0"

definition fw_init0 :: "(demo_rt pipeline_firewall option \<times> demo_rt fw_world) res" where
  "fw_init0 = ecall_pipeline_firewall_init (enclave_free (\<lambda>_. True) (Suc 0)) (best_lib rule_match)
     (header_copy_build False True (\<lambda>_. 3) (\<lambda>_. 4)) fw_alloc0 (Some fw_params) fw_world0"

lemma fw_world0_boot: "boot_mem (\<lambda>_. True) False (prm_name fw_params) fw_world0"
  by (simp add: boot_mem_def mem_ok_def fw_world0_def full_ring_ok pool_ok_def simple_segs_def ipv4_only_def names_free_def)

lemma fw_params_ok: "params_ok fw_world0 fw_params"
proof -
  have "\<forall>i < prm_n_ports_out fw_params. out_param_ok fw_world0 (prm_port_out fw_params ! i)"
  proof (intro allI impI)
    fix i assume "i < prm_n_ports_out fw_params"
    then have "i = 0 \<or> i = 1" by (auto simp: fw_params_def)
    then show "out_param_ok fw_world0 (prm_port_out fw_params ! i)"
    proof
      assume "i = 0"
      then show ?thesis unfolding out_param_ok_def
        by (intro disjI1 exI [of _ "\<lparr>conf_ring = Some 1, conf_tx_burst_sz = 32, conf_n_retries = 0\<rparr>"] exI [of _ 1])
          (simp add: fw_params_def fw_world0_def full_ring_def)
    next
      assume "i = 1"
      then show ?thesis by (simp add: out_param_ok_def fw_params_def)
    qed
  qed
  then show ?thesis by (simp add: params_ok_def) (simp add: fw_params_def in_param_ok_def fw_world0_def full_ring_def)
qed

lemma fw_args0_ok: "pipeline_firewall_parse_args fw_params =
    Some \<lparr>fa_n_rules = 4096, fa_n_rule_fields = 5, fa_field_format = field_format_vlan_ipv4\<rparr>"
  by (simp add: pipeline_firewall_parse_args_def fw_params_def parse_arg_def fw_args0_def field_format_vlan_ipv4_def)

lemma fw_alloc0_clean: "alloc_clean fw_alloc0 4096"
  by (simp add: alloc_clean_def fw_alloc0_def host_writer_def)

lemma fw_msgs0_rings:
  "ring_ok (req_rings fw_msgs0 ! 0)" "contents (req_rings fw_msgs0 ! 0) = [ping_req, add_req]"
  "ring_ok (rsp_rings fw_msgs0 ! 0)" "contents (rsp_rings fw_msgs0 ! 0) = []" "capacity (rsp_rings fw_msgs0 ! 0) = 3"
  "length (req_rings fw_msgs0) = 1" "length (rsp_rings fw_msgs0) = 1"
  by (auto simp: ring_ok_def fw_msgs0_def contents_def capacity_def slot_of_def upt_rec intro!: exI [of _ 2])

section \<open>Initialisation\<close>

text \<open>C2. Initialisation is correct. For parameters that name existing rings with the matching single or multiple
  producer and consumer flags (readers, and writers that may drop, or sinks), sound burst sizes, at most 64 ports of each kind and 16 message queues and
  arguments that parse, with memory available and cleared where the code relies on it,
  \<open>ecall_pipeline_firewall_init\<close> succeeds: the firewall satisfies the invariant on which everything else
  rests, its rule table of five fields is empty, packets without a rule are dropped, exactly its input ports are enabled, its queues are those of the
  parameters, and no packet moved.\<close>

theorem firewall_init_establishes_invariant:
  assumes "boot_mem outside asserts (prm_name params) g" and "params_ok g params" and "acl_contract mt lib"
    and "pipeline_firewall_parse_args params = Some a" "0 < fa_n_rules a" and "alloc_clean al (fa_n_rules a)"
  shows "\<exists>p g'. ecall_pipeline_firewall_init (enclave_free outside (Suc fuel)) lib (header_copy_build asserts sketch ra rb) al
      (Some params) g = Inr (Some p, g') \<and>
    fw_inv (boot_setup outside fuel lib mt asserts sketch (fa_n_rules a) al) p g' \<and> fw_map p g' = Map.empty \<and>
    mem_owned enclave_pool g' = mem_owned enclave_pool g \<and>
    (\<forall>i. bit (enabled_port_in_mask (be_p p)) i \<longleftrightarrow> i < prm_n_ports_in params) \<and>
    be_n_ports_out p = prm_n_ports_out params \<and> be_n_msgq p = prm_n_msgq params \<and>
    (\<forall>q < prm_n_msgq params. q < length (be_msgq_in p) \<and> q < length (be_msgq_out p) \<and>
       be_msgq_in p ! q = prm_msgq_in params ! q \<and> be_msgq_out p ! q = prm_msgq_out params ! q) \<and>
    acl_num_fields (fw_acl p g') = 5 \<and> pte_action (fw_default p) = ACTION_DROP"
  using assms by (rule init_law)

theorem firewall_init_establishes_invariant_witness:
  "\<exists>p g'. fw_init0 = Inr (Some p, g') \<and> fw_inv fw_setup0 p g' \<and> fw_map p g' = Map.empty"
  using firewall_init_establishes_invariant [OF fw_world0_boot fw_params_ok best_contract [of rule_match] fw_args0_ok,
      of fw_alloc0 0 True "\<lambda>_. 3" "\<lambda>_. 4"] fw_alloc0_clean
  by (auto simp: fw_init0_def fw_setup0_def)

text \<open>The concrete firewall, ready to run.\<close>

lemma demo_can_build: "can_build (su_lib fw_setup0) (su_ctx fw_setup0 g) cfg"
  by (simp add: can_build_def fw_setup0_def boot_setup_def best_lib_def fw_alloc0_def)

lemma su_n_rules0: "su_n_rules fw_setup0 = 4096"
  by (simp add: fw_setup0_def boot_setup_def)

lemma demo_init:
  obtains p g where "fw_init0 = Inr (Some p, g)" "fw_inv fw_setup0 p g" "fw_map p g = Map.empty" "be_n_ports_out p = 2" "be_n_msgq p = 1"
    "length (be_msgq_in p) > 0" "length (be_msgq_out p) > 0" "be_msgq_in p ! 0 = Some 0" "be_msgq_out p ! 0 = Some 0"
    "acl_num_fields (fw_acl p g) = 5" "pte_action (fw_default p) = ACTION_DROP"
  using init_law [OF fw_world0_boot fw_params_ok best_contract [of rule_match] fw_args0_ok,
      of fw_alloc0 0 True "\<lambda>_. 3" "\<lambda>_. 4"] fw_alloc0_clean
  by (auto simp: fw_init0_def fw_setup0_def fw_params_def)

lemma demo_ready:
  obtains p g where "fw_init0 = Inr (Some p, g)" "fw_inv fw_setup0 p g" "fw_map p g = Map.empty" "thread_inv fw_setup0 4 (p, fw_msgs0, g)"
    "be_n_ports_out p = 2" "be_n_msgq p = 1" "queue_rings p fw_msgs0 0 0 0" "\<forall>req \<in> {ping_req, add_req}. req_ok p req"
proof -
  obtain p g where a: "fw_init0 = Inr (Some p, g)" "fw_inv fw_setup0 p g" "fw_map p g = Map.empty" "be_n_ports_out p = 2" "be_n_msgq p = 1"
      "length (be_msgq_in p) > 0" "length (be_msgq_out p) > 0" "be_msgq_in p ! 0 = Some 0" "be_msgq_out p ! 0 = Some 0"
    by (rule demo_init)
  have q: "queue_rings p fw_msgs0 0 0 0" using a(6-9) fw_msgs0_rings by (simp add: queue_rings_def)
  have r: "\<forall>req \<in> {ping_req, add_req}. req_ok p req" using a(4) by (simp add: req_ok_def ping_req_def add_req_def)
  have "queue_ready 4 p fw_msgs0 0" unfolding queue_ready_def
    using q r fw_msgs0_rings by (intro exI [of _ 0]) (auto simp del: length_contents)
  then have "queues_ok 4 p fw_msgs0" using a(5) by (simp add: queues_ok_def queues_apart_def)
  then have "thread_inv fw_setup0 4 (p, fw_msgs0, g)" using a(2) by (simp add: thread_inv_def)
  from that [OF a(1-3) this a(4,5) q r] show ?thesis .
qed



text \<open>C6. Liveness of the request handling: wherever the loop counter stands, sixteen iterations of the main
  loop run to their end and answer every request. Each request ring is empty then, and its response ring has,
  behind what was in it, one response for each request that was waiting, in order, each of them given by the
  dispatcher of a sound firewall for this request.\<close>

theorem requests_served_within_16:
  assumes "thread_inv S fuel (p, ms, g)" and "1 \<le> n"
  shows "\<exists>p' ms' g'. thread_loop (run_pipeline n (world_mbuf_ops (su_outside S) (Suc (su_fuel S)) md))
      (pipeline_firewall_timer fuel (Suc sf) env ba) i (replicate 16 id) (p, ms, g) = Inr (p', ms', g') \<and>
    thread_inv S fuel (p', ms', g') \<and> (\<forall>q < be_n_msgq p. queue_empty p' ms' q) \<and>
    (\<forall>q < be_n_msgq p. \<forall>j k. queue_rings p ms q j k \<longrightarrow> contents (req_rings ms' ! j) = [] \<and>
      (\<exists>rsps. contents (rsp_rings ms' ! k) = contents (rsp_rings ms ! k) @ rsps \<and>
        list_all2 (answer_of S ba) (contents (req_rings ms ! j)) rsps))"
proof -
  have ids: "\<forall>ev \<in> set (replicate 16 (id :: 'a pipeline_firewall \<times> fw_msgs \<times> 'a fw_world \<Rightarrow> _)). ev = id" by simp
  obtain s' where a: "thread_loop (run_pipeline n (world_mbuf_ops (su_outside S) (Suc (su_fuel S)) md))
        (pipeline_firewall_timer fuel (Suc sf) env ba) i (replicate 16 id) (p, ms, g) = Inr s'" "iter_kept S ba fuel (p, ms, g) s'"
      "all_empty (p, ms, g) \<or> (\<exists>j < length (replicate 16 (id :: 'a pipeline_firewall \<times> fw_msgs \<times> 'a fw_world \<Rightarrow> _)). (i + of_nat j) AND 0xF = 0) \<longrightarrow> all_empty s'"
    using loop_kept [OF assms ids, of md sf env ba i] by blast
  obtain p' ms' g' where s': "s' = (p', ms', g')" by (metis prod_cases3)
  have k: "kept S p g p' g'" "\<forall>q < be_n_msgq p. answered S ba p ms ms' q" using a(2) by (simp_all add: iter_kept_def s')
  have "all_empty s'" using a(3) timer_due [of i] by (simp only: length_replicate) blast
  then have e: "\<forall>q < be_n_msgq p. queue_empty p' ms' q" using kept_be(3) [OF k(1)] by (simp add: s' all_empty_def)
  have "contents (req_rings ms' ! j) = [] \<and> (\<exists>rsps. contents (rsp_rings ms' ! l) = contents (rsp_rings ms ! l) @ rsps \<and>
      list_all2 (answer_of S ba) (contents (req_rings ms ! j)) rsps)" if q: "q < be_n_msgq p" "queue_rings p ms q j l" for q j l
  proof -
    have "be_msgq_in p' ! q = Some j" using q(2) kept_be(1) [OF k(1)] by (simp add: queue_rings_def)
    then have z: "contents (req_rings ms' ! j) = []" using e q(1) by (auto simp: queue_empty_def)
    then show ?thesis using k(2) q unfolding answered_def by fastforce
  qed
  then show ?thesis using a(1) iter_keptD(1) [OF a(2)] e unfolding s' by blast
qed

theorem requests_served_within_16_witness:
  "\<exists>p g. fw_init0 = Inr (Some p, g) \<and>
     (\<exists>p' ms' g' rsps. thread_loop (run_pipeline 1 (world_mbuf_ops (su_outside fw_setup0) (Suc (su_fuel fw_setup0)) (\<lambda>_ _ _. 0)))
        (pipeline_firewall_timer 4 (Suc 0) (\<lambda>_ r. r) \<lparr>ba_entry = (\<lambda>_. True), ba_param = (\<lambda>_. None)\<rparr>) 5 (replicate 16 id)
        (p, fw_msgs0, g) = Inr (p', ms', g') \<and> queue_empty p' ms' 0 \<and>
        contents (rsp_rings ms' ! 0) = contents (rsp_rings fw_msgs0 ! 0) @ rsps \<and>
        list_all2 (answer_of fw_setup0 \<lparr>ba_entry = (\<lambda>_. True), ba_param = (\<lambda>_. None)\<rparr>) [ping_req, add_req] rsps)"
proof -
  obtain p g where d: "fw_init0 = Inr (Some p, g)" "thread_inv fw_setup0 4 (p, fw_msgs0, g)" "be_n_msgq p = 1" "queue_rings p fw_msgs0 0 0 0"
    by (rule demo_ready)
  have q: "0 < be_n_msgq p" using d(3) by simp
  from requests_served_within_16 [OF d(2) le_refl, of "\<lambda>_ _ _. 0" 0 "\<lambda>_ r. r" "\<lparr>ba_entry = (\<lambda>_. True), ba_param = (\<lambda>_. None)\<rparr>" 5]
  show ?thesis using d(1,4) q fw_msgs0_rings by metis
qed

section \<open>Requests\<close>

text \<open>C4. Every request is answered and keeps the invariant: for any request whose structure fits its type, with
  output ports that exist and, in bulk requests, arrays of the stated length and keys of the known type,
  whatever its type, subtype, key, priority and position, the dispatcher and the handler return, no packet
  moves, the invariant holds again, and of the back end's structure only the pipeline may have changed.\<close>

theorem request_keeps_invariant:
  assumes "fw_inv S p g" and "req_ok p req"
  shows "\<exists>rsp p' g'. handle_req ba p req g = Inr (rsp, p', g') \<and> fw_inv S p' g' \<and>
    mem_owned enclave_pool g' = mem_owned enclave_pool g \<and> p' = p\<lparr>be_p := be_p p'\<rparr>"
  using handle_kept [OF assms, of ba] unfolding kept_def by blast

theorem request_keeps_invariant_witness:
  "\<exists>p g rsp p' g'. fw_init0 = Inr (Some p, g) \<and>
     handle_req \<lparr>ba_entry = (\<lambda>_. True), ba_param = (\<lambda>_. None)\<rparr> p add_req g = Inr (rsp, p', g') \<and> fw_inv fw_setup0 p' g'"
proof -
  obtain p g where d: "fw_init0 = Inr (Some p, g)" "fw_inv fw_setup0 p g" "\<forall>req \<in> {ping_req, add_req}. req_ok p req"
    by (rule demo_ready)
  have "req_ok p add_req" using d(3) by simp
  from request_keeps_invariant [OF d(2) this] show ?thesis using d(1) by blast
qed

text \<open>C3. An add request refines the update of a finite map from 5-tuples to ports. If it is answered with status 0
  the firewall's rule map is the old one with the key of the 5-tuple mapped to the requested output port,
  and the answer tells whether the key was present; a new rule gets the priority that the request gives
  (counted from the top), a rule that was present keeps its old priority. With any other status the map is
  as before. When memory is delivered and the compiler accepts the rules, the request is answered with
  status 0 exactly if the key is an IPv4 5-tuple, the priority is in range and the rule is present or the
  table is not full.\<close>

theorem add_request_refines_map:
  assumes "fw_inv S p g" and "rq_type req = 6" "rq_word req = 0" "rq_body req = Add_Body key pri port" and "port < be_n_ports_out p"
  shows "\<exists>rsp p' g'. handle_req ba p req g = Inr (rsp, p', g') \<and> fw_inv S p' g' \<and>
    (rs_status rsp = 0 \<longrightarrow> key_type key = PIPELINE_FIREWALL_IPV4_5TUPLE \<and>
       fw_map p' g' = (fw_map p g)(fw_key p g (key_ipv4_5tuple key) \<mapsto>
         (case fw_map p g (fw_key p g (key_ipv4_5tuple key)) of None \<Rightarrow> RTE_ACL_MAX_PRIORITY - pri | Some (q, _) \<Rightarrow> q,
          port_entry port)) \<and>
       (\<exists>pos. rs_out rsp = Out_Add (Some (fw_map p g (fw_key p g (key_ipv4_5tuple key)) \<noteq> None, pos)))) \<and>
    (rs_status rsp \<noteq> 0 \<longrightarrow> fw_map p' g' = fw_map p g) \<and>
    (can_build (su_lib S) (su_ctx S g) (acl_cfg (fw_acl p g)) \<longrightarrow>
      (rs_status rsp = 0 \<longleftrightarrow> key_type key = PIPELINE_FIREWALL_IPV4_5TUPLE \<and> pri \<le> RTE_ACL_MAX_PRIORITY \<and>
        (fw_map p g (fw_key p g (key_ipv4_5tuple key)) \<noteq> None \<or> 0 \<le> pri \<and> card (dom (fw_map p g)) \<noteq> su_n_rules S - 1)))"
proof -
  have "handle_req ba p req g = pipeline_firewall_msg_req_add_handler p req g"
    using assms(2,3) by (simp add: handle_req_def handlers_def pipeline_firewall_msg_req_custom_handler_def custom_handlers_def)
  then show ?thesis using add_spec [OF assms(1,4,5)] unfolding kept_def fw_aclD(4) [OF assms(1)] by metis
qed

theorem add_request_refines_map_witness:
  "\<exists>p g rsp p' g'. fw_init0 = Inr (Some p, g) \<and>
     handle_req \<lparr>ba_entry = (\<lambda>_. True), ba_param = (\<lambda>_. None)\<rparr> p add_req g = Inr (rsp, p', g') \<and> fw_inv fw_setup0 p' g' \<and>
     rs_status rsp = 0 \<and>
     fw_map p' g' = [fw_key p g (key_ipv4_5tuple fw_key0) \<mapsto> (RTE_ACL_MAX_PRIORITY - 1, port_entry 1)]"
proof -
  obtain p g where d: "fw_init0 = Inr (Some p, g)" "fw_inv fw_setup0 p g" "fw_map p g = Map.empty" "be_n_ports_out p = 2"
    by (rule demo_ready)
  have "rq_type add_req = 6" "rq_word add_req = 0" "rq_body add_req = Add_Body fw_key0 1 1" "1 < be_n_ports_out p"
    using d(4) by (simp_all add: add_req_def)
  from add_request_refines_map [OF d(2) this, of "\<lparr>ba_entry = (\<lambda>_. True), ba_param = (\<lambda>_. None)\<rparr>"]
  show ?thesis using d(1,3) demo_can_build by (fastforce simp: fw_key0_def su_n_rules0)
qed

text \<open>C7. A delete request refines the removal from the map: with status 0 the key of the 5-tuple has no rule
  any more, all other rules are as before, and the answer tells whether there was one; with any other
  status the map is as before. When memory is delivered and the compiler accepts the remaining rules, every
  IPv4 5-tuple is answered with status 0.\<close>

theorem delete_request_refines_map:
  assumes "fw_inv S p g" and "rq_type req = 6" "rq_word req = 1" "rq_body req = Del_Body key"
  shows "\<exists>rsp p' g'. handle_req ba p req g = Inr (rsp, p', g') \<and> fw_inv S p' g' \<and>
    (rs_status rsp = 0 \<longrightarrow> key_type key = PIPELINE_FIREWALL_IPV4_5TUPLE \<and>
       fw_map p' g' = (fw_map p g)(fw_key p g (key_ipv4_5tuple key) := None) \<and>
       rs_out rsp = Out_Del (Some (fw_map p g (fw_key p g (key_ipv4_5tuple key)) \<noteq> None))) \<and>
    (rs_status rsp \<noteq> 0 \<longrightarrow> fw_map p' g' = fw_map p g) \<and>
    (can_build (su_lib S) (su_ctx S g) (acl_cfg (fw_acl p g)) \<longrightarrow>
      (rs_status rsp = 0 \<longleftrightarrow> key_type key = PIPELINE_FIREWALL_IPV4_5TUPLE))"
proof -
  have "handle_req ba p req g = pipeline_firewall_msg_req_del_handler p req g"
    using assms(2,3) by (simp add: handle_req_def handlers_def pipeline_firewall_msg_req_custom_handler_def custom_handlers_def)
  then show ?thesis using del_spec [OF assms(1,4)] unfolding kept_def by metis
qed

theorem delete_request_refines_map_witness:
  "\<exists>p g rsp p' g'. fw_init0 = Inr (Some p, g) \<and>
     handle_req \<lparr>ba_entry = (\<lambda>_. True), ba_param = (\<lambda>_. None)\<rparr> p \<lparr>rq_type = 6, rq_word = 1, rq_body = Del_Body fw_key0\<rparr> g =
       Inr (rsp, p', g') \<and> rs_status rsp = 0 \<and> rs_out rsp = Out_Del (Some False) \<and> fw_map p' g' = Map.empty"
proof -
  obtain p g where d: "fw_init0 = Inr (Some p, g)" "fw_inv fw_setup0 p g" "fw_map p g = Map.empty" by (rule demo_ready)
  from delete_request_refines_map [OF d(2), of "\<lparr>rq_type = 6, rq_word = 1, rq_body = Del_Body fw_key0\<rparr>" fw_key0]
  show ?thesis using d(1,3) demo_can_build by (fastforce simp: fw_key0_def)
qed

text \<open>C31. Default entries: an add-default request for an existing port is answered with 0 and the new entry, and from
  then on packets without a matching rule take that port; a delete-default request restores dropping. The
  rules are untouched by both.\<close>

theorem default_requests:
  assumes "fw_inv S p g" and "rq_type req = 6"
    and "rq_word req = 4 \<and> rq_body req = Add_Default_Body port \<and> port < be_n_ports_out p \<or> rq_word req = 5"
  shows "\<exists>rsp p'. handle_req ba p req g = Inr (rsp, p', g) \<and> rs_status rsp = 0 \<and> fw_inv S p' g \<and> fw_map p' g = fw_map p g \<and>
    (if rq_word req = 4 then fw_default p' = port_entry port \<and> rs_out rsp = Out_Default (Some (port_entry port))
     else pte_action (fw_default p') = ACTION_DROP)"
proof (cases "rq_word req = 4")
  case True
  then have "handle_req ba p req g = pipeline_firewall_msg_req_add_default_handler p req g"
    using assms(2) by (simp add: handle_req_def handlers_def pipeline_firewall_msg_req_custom_handler_def custom_handlers_def eval_nat_numeral)
  then show ?thesis using True add_default_spec [OF assms(1), of req port] assms(3) by (auto simp: kept_def)
next
  case False
  then have "rq_word req = 5" using assms(3) by blast
  then have "handle_req ba p req g = pipeline_firewall_msg_req_del_default_handler p req g"
    using assms(2) by (simp add: handle_req_def handlers_def pipeline_firewall_msg_req_custom_handler_def custom_handlers_def eval_nat_numeral)
  then show ?thesis using False del_default_spec [OF assms(1), of req] by (auto simp: kept_def rsp_status_def)
qed

theorem default_requests_witness:
  "\<exists>p g rsp p'. fw_init0 = Inr (Some p, g) \<and>
     handle_req \<lparr>ba_entry = (\<lambda>_. True), ba_param = (\<lambda>_. None)\<rparr> p \<lparr>rq_type = 6, rq_word = 4, rq_body = Add_Default_Body 1\<rparr> g =
       Inr (rsp, p', g) \<and> fw_default p' = port_entry 1"
proof -
  obtain p g where d: "fw_init0 = Inr (Some p, g)" "fw_inv fw_setup0 p g" "be_n_ports_out p = 2" by (rule demo_ready)
  from default_requests [OF d(2), of "\<lparr>rq_type = 6, rq_word = 4, rq_body = Add_Default_Body 1\<rparr>" 1]
  show ?thesis using d(1,3) by fastforce
qed

text \<open>The port number of an add request is not checked: a number from 64 on makes the handler read past the
  array of output ports, before the type of the key is even looked at.\<close>

theorem add_request_port_unchecked:
  assumes "rq_type req = 6" "rq_word req = 0" "rq_body req = Add_Body key pri port" and "length (be_port_out_id p) \<le> port"
  shows "handle_req ba p req g = Inl OutOfBounds"
  using assms by (simp add: handle_req_def handlers_def pipeline_firewall_msg_req_custom_handler_def custom_handlers_def
      pipeline_firewall_msg_req_add_handler_def arr_at_def)

theorem add_request_port_unchecked_witness:
  "\<exists>p g. fw_init0 = Inr (Some p, g) \<and> handle_req \<lparr>ba_entry = (\<lambda>_. True), ba_param = (\<lambda>_. None)\<rparr> p
     \<lparr>rq_type = 6, rq_word = 0, rq_body = Add_Body fw_key0 1 (length (be_port_out_id p))\<rparr> g = Inl OutOfBounds"
proof -
  obtain p g where d: "fw_init0 = Inr (Some p, g)" by (rule demo_ready)
  show ?thesis
    using d add_request_port_unchecked [of "\<lparr>rq_type = 6, rq_word = 0, rq_body = Add_Body fw_key0 1 (length (be_port_out_id p))\<rparr>"
        fw_key0 1 "length (be_port_out_id p)" p] by force
qed

text \<open>A bulk delete request in which a key other than the last has an unknown type frees pointers that were
  never set: the error path releases all \<open>n_keys\<close> of them, whichever key failed.\<close>

theorem bulk_bad_key_frees_garbage:
  assumes "rq_type req = 6" "rq_word req = 3" "rq_body req = Del_Bulk_Body keys n kf" and "1 < n" "keys \<noteq> []"
    and "key_type (keys ! 0) \<noteq> PIPELINE_FIREWALL_IPV4_5TUPLE" and "ba_param ba 0 \<noteq> None"
  shows "handle_req ba p req g = Inl BadFree"
proof -
  obtain m where n: "n = Suc (Suc m)" using assms(4) by (metis One_nat_def Suc_less_eq2 not0_implies_Suc less_nat_zero_code)
  have "[0 ..< n] = 0 # [Suc 0 ..< n]" by (simp add: n upt_conv_Cons)
  then have "del_bulk_params ba keys n [0 ..< n] = Inl BadFree" using assms(4-7) by (auto split: option.split)
  then show ?thesis using assms(1-3) by (simp add: handle_req_def handlers_def pipeline_firewall_msg_req_custom_handler_def
      custom_handlers_def pipeline_firewall_msg_req_del_bulk_handler_def eval_nat_numeral)
qed

definition bad_bulk_req :: fw_req where
  "bad_bulk_req = \<lparr>rq_type = 6, rq_word = 3, rq_body = Del_Bulk_Body [fw_key0\<lparr>key_type := 1\<rparr>, fw_key0] 2 [False, False]\<rparr>"

theorem bulk_bad_key_frees_garbage_witness:
  "\<exists>p g. fw_init0 = Inr (Some p, g) \<and>
     handle_req \<lparr>ba_entry = (\<lambda>_. True), ba_param = (\<lambda>_. Some zero_fields)\<rparr> p bad_bulk_req g = Inl BadFree"
proof -
  obtain p g where d: "fw_init0 = Inr (Some p, g)" by (rule demo_ready)
  have "handle_req \<lparr>ba_entry = (\<lambda>_. True), ba_param = (\<lambda>_. Some zero_fields)\<rparr> p bad_bulk_req g = Inl BadFree"
    by (rule bulk_bad_key_frees_garbage [of _ "[fw_key0\<lparr>key_type := 1\<rparr>, fw_key0]" 2 "[False, False]"])
      (simp_all add: bad_bulk_req_def)
  with d show ?thesis by blast
qed

section \<open>Message queues\<close>

text \<open>C5. The requests of a queue are answered once each and in order, if they are well-formed and the response ring has
  room for the answers: handling a queue takes out all its requests,
  processes them one after the other, and appends exactly one answer per request, in the order of the
  requests, behind the answers that wait already; one more step than there are requests is enough.\<close>

theorem queue_answered_in_order:
  assumes "fw_inv S p g" and "queue_rings p ms q i k" and "\<forall>req \<in> set (contents (req_rings ms ! i)). req_ok p req"
    and "length (contents (rsp_rings ms ! k)) + length (contents (req_rings ms ! i)) \<le> capacity (rsp_rings ms ! k)"
    and "length (contents (req_rings ms ! i)) < fuel"
  shows "\<exists>rsps p' g' ri ro. handle_all ba (contents (req_rings ms ! i)) p g = Inr (rsps, p', g') \<and>
    length rsps = length (contents (req_rings ms ! i)) \<and>
    msg_loop fuel (Suc sf) env ba q (p, ms, g) =
      Inr (p', ms\<lparr>req_rings := (req_rings ms)[i := ri], rsp_rings := (rsp_rings ms)[k := ro]\<rparr>, g') \<and>
    contents ri = [] \<and> contents ro = contents (rsp_rings ms ! k) @ rsps \<and> fw_inv S p' g'"
proof -
  obtain rsps p' g' ri ro where a: "handle_all ba (contents (req_rings ms ! i)) p g = Inr (rsps, p', g')" "kept S p g p' g'"
      "msg_loop fuel (Suc sf) env ba q (p, ms, g) =
        Inr (p', ms\<lparr>req_rings := (req_rings ms)[i := ri], rsp_rings := (rsp_rings ms)[k := ro]\<rparr>, g')"
      "contents ri = []" "contents ro = contents (rsp_rings ms ! k) @ rsps"
    using msg_loop_answers [OF assms(1,2) refl assms(3-5), of ba sf env] by blast
  moreover have "length rsps = length (contents (req_rings ms ! i))" using handle_all_kept [OF assms(1,3), of ba] a(1) by auto
  ultimately show ?thesis using kept_be(5) [OF a(2)] by blast
qed

theorem queue_answered_in_order_witness:
  "\<exists>p g rsps p' ms' g'. fw_init0 = Inr (Some p, g) \<and> length rsps = 2 \<and>
     handle_all \<lparr>ba_entry = (\<lambda>_. True), ba_param = (\<lambda>_. None)\<rparr> [ping_req, add_req] p g = Inr (rsps, p', g') \<and>
     msg_loop 4 (Suc 0) (\<lambda>_ r. r) \<lparr>ba_entry = (\<lambda>_. True), ba_param = (\<lambda>_. None)\<rparr> 0 (p, fw_msgs0, g) = Inr (p', ms', g') \<and>
     contents (rsp_rings ms' ! 0) = rsps"
proof -
  obtain p g where d: "fw_init0 = Inr (Some p, g)" "fw_inv fw_setup0 p g" "queue_rings p fw_msgs0 0 0 0"
      "\<forall>req \<in> {ping_req, add_req}. req_ok p req" by (rule demo_ready)
  note r = fw_msgs0_rings
  have "\<forall>req \<in> set (contents (req_rings fw_msgs0 ! 0)). req_ok p req"
      "length (contents (rsp_rings fw_msgs0 ! 0)) + length (contents (req_rings fw_msgs0 ! 0)) \<le> capacity (rsp_rings fw_msgs0 ! 0)"
      "length (contents (req_rings fw_msgs0 ! 0)) < 4" unfolding r using d(4) by simp_all
  from queue_answered_in_order [OF d(2,3) this, of "\<lparr>ba_entry = (\<lambda>_. True), ba_param = (\<lambda>_. None)\<rparr>" 0 "\<lambda>_ r. r"]
  show ?thesis using d(1) unfolding r(2,4) using r(7) by fastforce
qed

text \<open>Sending a response blocks the packet thread when the response ring is full and nobody reads it: however
  many attempts are allowed, the loop of \<open>pipeline_msg_send\<close> does not end.\<close>

theorem send_blocks_on_full_ring:
  assumes "ring_ok r" and "length (contents r) = capacity r"
  shows "send_loop fuel (\<lambda>_ r. r) msg r = Inl OutOfFuel"
  using assms
proof (induction fuel arbitrary: r)
  case (Suc fuel)
  obtain r' where "rte_ring_sp_enqueue msg r = Inr (- ENOBUFS, r')" "ring_ok r'" "capacity r' = capacity r" "contents r' = contents r"
    using single_ring.put_full [OF Suc.prems(1,2)] by blast
  then show ?case using Suc.IH [of r'] Suc.prems(2) by (simp del: length_contents)
qed simp

definition full_rsp_ring :: "fw_rsp rte_ring" where
  "full_rsp_ring = \<lparr>r_name = ''f'', r_flags = 3, r_size = 2, r_mask = 1,
     r_prod = \<lparr>ht_head = 1, ht_tail = 1, ht_single = True\<rparr>, r_cons = \<lparr>ht_head = 0, ht_tail = 0, ht_single = True\<rparr>,
     r_slots = [rsp_status 0, rsp_status 0]\<rparr>"

theorem send_blocks_on_full_ring_witness: "send_loop 1000000 (\<lambda>_ r. r) (rsp_status 0) full_rsp_ring = Inl OutOfFuel"
  by (rule send_blocks_on_full_ring)
    (auto simp: ring_ok_def full_rsp_ring_def contents_def capacity_def slot_of_def intro!: exI [of _ 1])

section \<open>Keys and arguments\<close>

text \<open>C32. Different 5-tuples are different rules: the five fields that the single-rule handlers store into their
  cleared parameters determine every member of the key, so no two 5-tuples share a position in the rule
  map, and none of the members is truncated by the width of its field.\<close>

theorem store_5tuple_injective:
  "take 5 (store_5tuple k zero_fields) = take 5 (store_5tuple k' zero_fields) \<longleftrightarrow> k = k'"
  by (rule store_5tuple_inj)

text \<open>An argument that can be accepted, and the record format it selects.\<close>

definition arg_valid :: "string \<times> string \<Rightarrow> bool" where
  "arg_valid arg \<longleftrightarrow> fst arg = ''n_rules'' \<and> (\<exists>v. parser_read_uint32 (snd arg) = Inr v) \<or>
     fst arg = ''pkt_type'' \<and> snd arg \<in> {''ipv4'', ''vlan_ipv4'', ''qinq_ipv4''}"

definition format_of :: "string \<Rightarrow> rte_acl_field_def list" where
  "format_of s = (if s = ''ipv4'' then field_format_ipv4 else if s = ''vlan_ipv4'' then field_format_vlan_ipv4
     else field_format_qinq_ipv4)"

definition args_value :: "(string \<times> string) list \<Rightarrow> fw_args \<Rightarrow> fw_args" where
  "args_value args a = \<lparr>
     fa_n_rules = (case map_of args ''n_rules'' of None \<Rightarrow> fa_n_rules a | Some s \<Rightarrow> unat (projr (parser_read_uint32 s))),
     fa_n_rule_fields = (if map_of args ''pkt_type'' = None then fa_n_rule_fields a else 5),
     fa_field_format = (case map_of args ''pkt_type'' of None \<Rightarrow> fa_field_format a | Some s \<Rightarrow> format_of s)\<rparr>"

lemma args_value_Cons:
  "''n_rules'' \<notin> fst ` set args \<Longrightarrow> parser_read_uint32 s = Inr v \<Longrightarrow>
     args_value ((''n_rules'', s) # args) a = args_value args (a\<lparr>fa_n_rules := unat v\<rparr>)"
  "''pkt_type'' \<notin> fst ` set args \<Longrightarrow>
     args_value ((''pkt_type'', s) # args) a = args_value args (a\<lparr>fa_n_rule_fields := 5, fa_field_format := format_of s\<rparr>)"
  by (simp_all add: args_value_def split: option.split flip: map_of_eq_None_iff)

lemma format_len: "length field_format_ipv4 = 5" "length field_format_vlan_ipv4 = 5" "length field_format_qinq_ipv4 = 5"
  by (simp_all add: field_format_ipv4_def field_format_vlan_ipv4_def field_format_qinq_ipv4_def)

lemma parse_arg_cases:
  "parse_arg (''n_rules'', s) (nr, pt, a) =
     (if nr then None else case parser_read_uint32 s of Inl _ \<Rightarrow> None | Inr v \<Rightarrow> Some (True, pt, a\<lparr>fa_n_rules := unat v\<rparr>))"
  "parse_arg (''pkt_type'', s) (nr, pt, a) =
     (if pt \<or> s \<notin> {''ipv4'', ''vlan_ipv4'', ''qinq_ipv4''} then None
      else Some (nr, True, a\<lparr>fa_n_rule_fields := 5, fa_field_format := format_of s\<rparr>))"
  "n \<noteq> ''n_rules'' \<Longrightarrow> n \<noteq> ''pkt_type'' \<Longrightarrow> parse_arg (n, s) st = None"
  by (simp_all add: parse_arg_def format_len format_of_def case_prod_beta split: sum.split)

lemma parse_args_loop_eq:
  "parse_args_loop args (nr, pt, a) =
     (if distinct (map fst args) \<and> list_all arg_valid args \<and> (nr \<longrightarrow> ''n_rules'' \<notin> fst ` set args) \<and>
         (pt \<longrightarrow> ''pkt_type'' \<notin> fst ` set args)
      then Some (args_value args a) else None)"
proof (induction args arbitrary: nr pt a)
  case Nil
  then show ?case by (simp add: args_value_def)
next
  case (Cons arg args)
  obtain n s where arg: "arg = (n, s)" by (cases arg)
  consider "n = ''n_rules''" | "n = ''pkt_type''" | "n \<noteq> ''n_rules''" "n \<noteq> ''pkt_type''" by blast
  then show ?case
  proof cases
    case 1
    show ?thesis
    proof (cases "parser_read_uint32 s")
      case (Inr v)
      then show ?thesis using args_value_Cons(1) [of args s v a]
        by (simp add: arg 1 Cons.IH parse_arg_cases arg_valid_def cong: conj_cong)
    qed (simp add: arg 1 parse_arg_cases arg_valid_def)
  next
    case 2
    show ?thesis using args_value_Cons(2) [of args s a]
      by (simp add: arg 2 Cons.IH parse_arg_cases arg_valid_def cong: conj_cong)
  next
    case 3
    then show ?thesis by (simp add: arg parse_arg_cases arg_valid_def)
  qed
qed

text \<open>C30. The arguments: \<open>pipeline_firewall_parse_args\<close> accepts exactly the lists in which each name is
  \<open>n_rules\<close> with a number or \<open>pkt_type\<close> with one of its three values, and no name occurs twice, in any
  order; then the number of rules and the format are those given, with 4096 and IPv4 as defaults.\<close>

theorem parse_args_exact:
  "pipeline_firewall_parse_args params =
     (if distinct (map fst (prm_args params)) \<and> list_all arg_valid (prm_args params)
      then Some (args_value (prm_args params) fw_args0) else None)"
  by (simp add: pipeline_firewall_parse_args_def parse_args_loop_eq)

end
