(* ===== verification/Firewall_FE.thy ===== *)
theory Firewall_FE
  imports Firewall_BE
begin

text \<open>
  The front end of the firewall on the host: src/App/ip_pipeline/pipeline/pipeline_firewall.c and the common
  requests of pipeline_common_fe.c. It keeps a list of the rules it believes to be installed, sends requests
  to the enclave and changes its list by the answers. The exchange of a message (\<open>app_msg_send_recv\<close>, theory
  Firewall_Channel) is an argument of the operations here: given a request it delivers the response, or None
  when the time is over.
\<close>

section \<open>State\<close>

text \<open>\<open>entry_ptr\<close> is the address of the entry in the table, here its position.\<close>

record app_pipeline_firewall_rule =
  r_key :: pipeline_firewall_key
  r_priority :: int
  r_port_id :: nat
  r_entry_ptr :: nat

record app_pipeline_firewall =
  fe_n_ports_in :: nat
  fe_n_ports_out :: nat
  fe_rules :: "app_pipeline_firewall_rule list"
  fe_n_rules :: u32
  default_rule_present :: bool
  default_rule_port_id :: nat
  default_rule_entry_ptr :: "rte_pipeline_table_entry option"

type_synonym fw_fe = app_pipeline_firewall

record 'fe app_pipeline_data =
  pd_ptype :: string
  pd_enabled :: bool
  pd_fe :: "'fe option"

text \<open>The search for the pipeline's data by its number is \<open>app_pipeline_data\<close>; None is NULL.\<close>

definition app_pipeline_data_fe :: "'fe app_pipeline_data option \<Rightarrow> string \<Rightarrow> 'fe option" where
  "app_pipeline_data_fe pd name = (case pd of None \<Rightarrow> None
     | Some d \<Rightarrow> if pd_ptype d \<noteq> name then None else if \<not> pd_enabled d then None else pd_fe d)"

text \<open>\<open>memcmp\<close> over the whole key: the callers clear the bytes between its members.\<close>

definition app_pipeline_firewall_rule_find :: "fw_fe \<Rightarrow> pipeline_firewall_key \<Rightarrow> app_pipeline_firewall_rule option" where
  "app_pipeline_firewall_rule_find p key = List.find (\<lambda>r. key = r_key r) (fe_rules p)"

text \<open>Writing to, and unlinking, the rule that was found.\<close>

primrec rule_update :: "app_pipeline_firewall_rule \<Rightarrow> app_pipeline_firewall_rule list \<Rightarrow> app_pipeline_firewall_rule list" where
  "rule_update x [] = []"
| "rule_update x (r # rs) = (if r_key x = r_key r then x # rs else r # rule_update x rs)"

primrec rule_remove :: "pipeline_firewall_key \<Rightarrow> app_pipeline_firewall_rule list \<Rightarrow> app_pipeline_firewall_rule list" where
  "rule_remove key [] = []"
| "rule_remove key (r # rs) = (if key = r_key r then rs else r # rule_remove key rs)"

definition app_pipeline_firewall_init :: "bool \<Rightarrow> (nat \<times> nat) option \<Rightarrow> fw_fe option" where
  "app_pipeline_firewall_init alloc params = (case params of None \<Rightarrow> None
     | Some (n_ports_in, n_ports_out) \<Rightarrow>
         if n_ports_in = 0 \<or> n_ports_out = 0 then None else if \<not> alloc then None
         else Some \<lparr>fe_n_ports_in = n_ports_in, fe_n_ports_out = n_ports_out, fe_rules = [], fe_n_rules = 0,
           default_rule_present = False, default_rule_port_id = 0, default_rule_entry_ptr = None\<rparr>)"

text \<open>\<open>app_pipeline_firewall_free\<close> takes the rules from the head of the list until it is empty: the rules it freed.\<close>

definition app_pipeline_firewall_free :: "fw_fe option \<Rightarrow> int \<times> app_pipeline_firewall_rule list" where
  "app_pipeline_firewall_free p = (case p of None \<Rightarrow> (- 1, []) | Some p \<Rightarrow> (0, fe_rules p))"

section \<open>Listing\<close>

text \<open>\<open>app_pipeline_firewall_ls\<close>: one pass over the rules for each priority from 0 on, until all were printed.
  \<open>priority\<close> is an \<open>int\<close>: its increment after the pass for \<open>INT_MAX\<close> overflows.\<close>

abbreviation (input) INT_MAX :: nat where "INT_MAX \<equiv> 2147483647"

function ls_loop :: "app_pipeline_firewall_rule list \<Rightarrow> nat \<Rightarrow> u32 \<Rightarrow> app_pipeline_firewall_rule list res" where
  "ls_loop rules priority n_rules =
     (if n_rules = 0 then Inr []
      else if priority \<ge> INT_MAX then Inl Overflow
      else let hits = filter (\<lambda>r. r_priority r = int priority) rules
           in rbind (ls_loop rules (priority + 1) (n_rules - of_nat (length hits))) (\<lambda>out. Inr (hits @ out)))"
  by pat_completeness auto
termination
  by (relation "measure (\<lambda>(_, priority, _). INT_MAX - priority)") auto

declare ls_loop.simps [simp del]

definition app_pipeline_firewall_ls ::
  "fw_fe option \<Rightarrow> (int \<times> (app_pipeline_firewall_rule list \<times> (nat \<times> rte_pipeline_table_entry option) option) option) res" where
  "app_pipeline_firewall_ls p = (case p of None \<Rightarrow> Inr (- 1, None)
     | Some p \<Rightarrow> rbind (ls_loop (fe_rules p) 0 (fe_n_rules p)) (\<lambda>out. Inr (0, Some (out,
         if default_rule_present p then Some (default_rule_port_id p, default_rule_entry_ptr p) else None))))"

section \<open>Keys\<close>

definition netmask :: "u32 \<Rightarrow> u32" where
  "netmask depth = (if depth \<noteq> 0 then push_bit (32 - unat depth) (- 1) else 0)"

definition app_pipeline_firewall_key_check_and_normalize :: "pipeline_firewall_key \<Rightarrow> pipeline_firewall_key option" where
  "app_pipeline_firewall_key_check_and_normalize key =
     (if key_type key = PIPELINE_FIREWALL_IPV4_5TUPLE then
        let k = key_ipv4_5tuple key in
        if k_src_ip_mask k > 32 \<or> k_dst_ip_mask k > 32 \<or> k_src_port_from k > k_src_port_to k \<or>
           k_dst_port_from k > k_dst_port_to k then None
        else Some (key\<lparr>key_ipv4_5tuple := k\<lparr>k_src_ip := k_src_ip k AND netmask (k_src_ip_mask k),
               k_dst_ip := k_dst_ip k AND netmask (k_dst_ip_mask k)\<rparr>\<rparr>)
      else None)"

section \<open>Single rules\<close>

text \<open>The requests, as the front end fills them in.\<close>

definition add_request :: "pipeline_firewall_key \<Rightarrow> u32 \<Rightarrow> nat \<Rightarrow> fw_req" where
  "add_request key priority port_id = \<lparr>rq_type = 6, rq_word = 0, rq_body = Add_Body key (sint priority) port_id\<rparr>"

definition del_request :: "pipeline_firewall_key \<Rightarrow> fw_req" where
  "del_request key = \<lparr>rq_type = 6, rq_word = 1, rq_body = Del_Body key\<rparr>"

definition add_default_request :: "nat \<Rightarrow> fw_req" where
  "add_default_request port_id = \<lparr>rq_type = 6, rq_word = 4, rq_body = Add_Default_Body port_id\<rparr>"

definition del_default_request :: fw_req where
  "del_default_request = \<lparr>rq_type = 6, rq_word = 5, rq_body = No_Body\<rparr>"

text \<open>
  An operation takes the exchange, whether its allocations succeed (the rule, the message), the front end's
  data (None for NULL), its arguments and the state on which the exchange works. It returns the status. A
  response of another kind is read past its end; the address of an entry in the table is never NULL. The key
  is normalised in place; the caller drops it.
\<close>

type_synonym 's exchange = "fw_req \<Rightarrow> 's \<Rightarrow> (fw_rsp option \<times> 's) res"

record fe_alloc =
  al_rule :: bool
  al_msg :: bool

definition app_pipeline_firewall_add_rule ::
  "'s exchange \<Rightarrow> fe_alloc \<Rightarrow> fw_fe option \<Rightarrow> pipeline_firewall_key option \<Rightarrow> u32 \<Rightarrow> nat \<Rightarrow> 's \<Rightarrow>
   (int \<times> fw_fe option \<times> 's) res" where
  "app_pipeline_firewall_add_rule send_recv al fe key priority port_id s =
     (case key of None \<Rightarrow> Inr (- 1, fe, s)
      | Some key \<Rightarrow> if key_type key \<noteq> PIPELINE_FIREWALL_IPV4_5TUPLE then Inr (- 1, fe, s)
      else (case fe of None \<Rightarrow> Inr (- 1, fe, s)
      | Some p \<Rightarrow> if port_id \<ge> fe_n_ports_out p then Inr (- 1, fe, s)
      else (case app_pipeline_firewall_key_check_and_normalize key of None \<Rightarrow> Inr (- 1, fe, s)
      | Some key \<Rightarrow>
          let is_new = (app_pipeline_firewall_rule_find p key = None) in
          if is_new \<and> \<not> al_rule al then Inr (- 1, fe, s)
          else if \<not> al_msg al then Inr (- 1, fe, s)
          else rbind (send_recv (add_request key priority port_id) s) (\<lambda>(rsp, s).
            case rsp of None \<Rightarrow> Inr (- 1, fe, s)
            | Some rsp \<Rightarrow> if rs_status rsp \<noteq> 0 then Inr (- 1, fe, s)
            else (case rs_out rsp of Out_Add (Some (key_found, entry_ptr)) \<Rightarrow>
                if \<not> is_new \<and> \<not> key_found \<or> is_new \<and> key_found then Inr (- 1, fe, s)
                else let rule = \<lparr>r_key = key, r_priority = sint priority, r_port_id = port_id, r_entry_ptr = entry_ptr\<rparr>
                  in Inr (0, Some (if is_new then p\<lparr>fe_rules := fe_rules p @ [rule], fe_n_rules := fe_n_rules p + 1\<rparr>
                       else p\<lparr>fe_rules := rule_update rule (fe_rules p)\<rparr>), s)
              | _ \<Rightarrow> Inl OutOfBounds)))))"

definition app_pipeline_firewall_delete_rule ::
  "'s exchange \<Rightarrow> fe_alloc \<Rightarrow> fw_fe option \<Rightarrow> pipeline_firewall_key option \<Rightarrow> 's \<Rightarrow> (int \<times> fw_fe option \<times> 's) res" where
  "app_pipeline_firewall_delete_rule send_recv al fe key s =
     (case key of None \<Rightarrow> Inr (- 1, fe, s)
      | Some key \<Rightarrow> if key_type key \<noteq> PIPELINE_FIREWALL_IPV4_5TUPLE then Inr (- 1, fe, s)
      else (case fe of None \<Rightarrow> Inr (- 1, fe, s)
      | Some p \<Rightarrow> (case app_pipeline_firewall_key_check_and_normalize key of None \<Rightarrow> Inr (- 1, fe, s)
      | Some key \<Rightarrow>
          if app_pipeline_firewall_rule_find p key = None then Inr (0, fe, s)
          else if \<not> al_msg al then Inr (- 1, fe, s)
          else rbind (send_recv (del_request key) s) (\<lambda>(rsp, s).
            case rsp of None \<Rightarrow> Inr (- 1, fe, s)
            | Some rsp \<Rightarrow> if rs_status rsp \<noteq> 0 then Inr (- 1, fe, s)
            else (case rs_out rsp of Out_Del (Some key_found) \<Rightarrow>
                if \<not> key_found then Inr (- 1, fe, s)
                else Inr (0, Some (p\<lparr>fe_rules := rule_remove key (fe_rules p), fe_n_rules := fe_n_rules p - 1\<rparr>), s)
              | _ \<Rightarrow> Inl OutOfBounds)))))"

definition app_pipeline_firewall_add_default_rule ::
  "'s exchange \<Rightarrow> fe_alloc \<Rightarrow> fw_fe option \<Rightarrow> nat \<Rightarrow> 's \<Rightarrow> (int \<times> fw_fe option \<times> 's) res" where
  "app_pipeline_firewall_add_default_rule send_recv al fe port_id s =
     (case fe of None \<Rightarrow> Inr (- 1, fe, s)
      | Some p \<Rightarrow> if port_id \<ge> fe_n_ports_out p then Inr (- 1, fe, s)
      else if \<not> al_msg al then Inr (- 1, fe, s)
      else rbind (send_recv (add_default_request port_id) s) (\<lambda>(rsp, s).
        case rsp of None \<Rightarrow> Inr (- 1, fe, s)
        | Some rsp \<Rightarrow> if rs_status rsp \<noteq> 0 then Inr (- 1, fe, s)
        else (case rs_out rsp of Out_Default entry_ptr \<Rightarrow>
            if entry_ptr = None then Inr (- 1, fe, s)
            else Inr (0, Some (p\<lparr>default_rule_port_id := port_id, default_rule_entry_ptr := entry_ptr,
              default_rule_present := True\<rparr>), s)
          | _ \<Rightarrow> Inl OutOfBounds)))"

definition app_pipeline_firewall_delete_default_rule ::
  "'s exchange \<Rightarrow> fe_alloc \<Rightarrow> fw_fe option \<Rightarrow> 's \<Rightarrow> (int \<times> fw_fe option \<times> 's) res" where
  "app_pipeline_firewall_delete_default_rule send_recv al fe s =
     (case fe of None \<Rightarrow> Inr (- 1, fe, s)
      | Some p \<Rightarrow> if \<not> al_msg al then Inr (- 1, fe, s)
      else rbind (send_recv del_default_request s) (\<lambda>(rsp, s).
        case rsp of None \<Rightarrow> Inr (- 1, fe, s)
        | Some rsp \<Rightarrow> if rs_status rsp \<noteq> 0 then Inr (- 1, fe, s)
        else Inr (0, Some (p\<lparr>default_rule_present := False\<rparr>), s)))"

section \<open>Rules in bulk\<close>

text \<open>
  A bulk operation gets the first \<open>n_keys\<close> elements of its arrays. Its allocations: the two arrays of the
  first loop, each new rule, the arrays \<open>keys_found\<close> (with what the memory holds) and \<open>entries_ptr\<close>, an
  entry for each key (its address, different from every position of the table), the message. The enclave
  writes to \<open>keys_found\<close> and \<open>entries_ptr\<close>; both are as they were when it did not get that far.
\<close>

record fe_bulk_alloc =
  fb_rules :: bool
  fb_new_rules :: bool
  fb_rule :: "nat \<Rightarrow> bool"
  fb_keys_found :: "bool list option"
  fb_entries_ptr :: bool
  fb_entry :: "nat \<Rightarrow> nat option"
  fb_msg :: bool

definition add_bulk_request :: "(pipeline_firewall_key \<times> u32 \<times> nat) list \<Rightarrow> bool list \<Rightarrow> nat option list \<Rightarrow> fw_req" where
  "add_bulk_request xs keys_found entries_ptr = \<lparr>rq_type = 6, rq_word = 2, rq_body = Add_Bulk_Body (map fst xs) (length xs)
     (map (fst \<circ> snd) xs) (map (snd \<circ> snd) xs) keys_found entries_ptr\<rparr>"

definition del_bulk_request :: "pipeline_firewall_key list \<Rightarrow> bool list \<Rightarrow> fw_req" where
  "del_bulk_request keys keys_found = \<lparr>rq_type = 6, rq_word = 3, rq_body = Del_Bulk_Body keys (length keys) keys_found\<rparr>"

text \<open>The first loop of the addition: the normalised keys and \<open>new_rules\<close>, None where it gives up.\<close>

fun bulk_check ::
  "(nat \<Rightarrow> bool) \<Rightarrow> fw_fe \<Rightarrow> nat \<Rightarrow> (pipeline_firewall_key \<times> u32 \<times> nat) list \<Rightarrow>
   ((pipeline_firewall_key \<times> u32 \<times> nat) \<times> bool) list option" where
  "bulk_check alloc p i [] = Some []"
| "bulk_check alloc p i ((key, priority, port_id) # xs) =
     (if port_id \<ge> fe_n_ports_out p then None
      else case app_pipeline_firewall_key_check_and_normalize key of None \<Rightarrow> None
      | Some key \<Rightarrow> let is_new = (app_pipeline_firewall_rule_find p key = None) in
          if is_new \<and> \<not> alloc i then None
          else map_option ((#) ((key, priority, port_id), is_new)) (bulk_check alloc p (i + 1) xs))"

text \<open>Freeing \<open>entries_ptr\<close>: an element that the enclave replaced is not the address of an allocated block.\<close>

definition free_entries :: "nat option list \<Rightarrow> nat option list \<Rightarrow> 'a \<Rightarrow> 'a res" where
  "free_entries allocated entries_ptr x =
     (if list_all (\<lambda>(a, e). e = None \<or> e = a) (zip allocated entries_ptr) then Inr x else Inl BadFree)"

definition bulk_mismatch :: "bool \<Rightarrow> bool \<Rightarrow> nat option \<Rightarrow> bool" where
  "bulk_mismatch is_new key_found entry_ptr \<longleftrightarrow> entry_ptr = None \<or> \<not> is_new \<and> \<not> key_found \<or> is_new \<and> key_found"

primrec bulk_commit :: "(((pipeline_firewall_key \<times> u32 \<times> nat) \<times> bool) \<times> nat) list \<Rightarrow> fw_fe \<Rightarrow> fw_fe" where
  "bulk_commit [] p = p"
| "bulk_commit (x # xs) p = (case x of (((key, priority, port_id), is_new), entry_ptr) \<Rightarrow>
     let rule = \<lparr>r_key = key, r_priority = sint priority, r_port_id = port_id, r_entry_ptr = entry_ptr\<rparr>
     in bulk_commit xs (if is_new then p\<lparr>fe_rules := fe_rules p @ [rule], fe_n_rules := fe_n_rules p + 1\<rparr>
          else p\<lparr>fe_rules := rule_update rule (fe_rules p)\<rparr>))"

definition app_pipeline_firewall_add_bulk ::
  "'s exchange \<Rightarrow> fe_bulk_alloc \<Rightarrow> fw_fe option \<Rightarrow> (pipeline_firewall_key \<times> u32 \<times> nat) list \<Rightarrow> 's \<Rightarrow>
   (int \<times> fw_fe option \<times> 's) res" where
  "app_pipeline_firewall_add_bulk send_recv al fe xs s =
     (case fe of None \<Rightarrow> Inr (- 1, fe, s)
      | Some p \<Rightarrow> if \<not> fb_rules al then Inr (- 1, fe, s)
      else if \<not> fb_new_rules al then Inr (- 1, fe, s)
      else (case bulk_check (fb_rule al) p 0 xs of None \<Rightarrow> Inr (- 1, fe, s)
      | Some ys \<Rightarrow> (case fb_keys_found al of None \<Rightarrow> Inr (- 1, fe, s)
      | Some keys_found \<Rightarrow> if \<not> fb_entries_ptr al then Inr (- 1, fe, s)
      else let entries_ptr = map (fb_entry al) [0 ..< length xs] in
        if None \<in> set entries_ptr then Inr (- 1, fe, s)
        else if \<not> fb_msg al then Inr (- 1, fe, s)
        else rbind (send_recv (add_bulk_request (map fst ys) keys_found entries_ptr) s) (\<lambda>(rsp, s).
          case rsp of None \<Rightarrow> Inr (- 1, fe, s)
          | Some rsp \<Rightarrow> (case (case rs_out rsp of Out_Add_Bulk kf ptrs \<Rightarrow> (kf, ptrs) | _ \<Rightarrow> (keys_found, entries_ptr)) of
              (kf, ptrs) \<Rightarrow>
                if rs_status rsp \<noteq> 0 then free_entries entries_ptr ptrs (- 1, fe, s)
                else if list_ex (\<lambda>(y, k, e). bulk_mismatch (snd y) k e) (zip ys (zip kf ptrs))
                then free_entries entries_ptr ptrs (- 1, fe, s)
                else Inr (0, Some (bulk_commit (zip ys (map the ptrs)) p), s))))))"

text \<open>The last loop of the deletion: a rule that was not found is NULL, and one that was removed is freed.\<close>

primrec bulk_remove :: "(pipeline_firewall_key \<times> bool) list \<Rightarrow> fw_fe \<Rightarrow> fw_fe res" where
  "bulk_remove [] p = Inr p"
| "bulk_remove (x # xs) p = (case x of (key, found) \<Rightarrow>
     if \<not> found then Inl NullDeref
     else if app_pipeline_firewall_rule_find p key = None then Inl BadFree
     else bulk_remove xs (p\<lparr>fe_rules := rule_remove key (fe_rules p), fe_n_rules := fe_n_rules p - 1\<rparr>))"

definition app_pipeline_firewall_delete_bulk ::
  "'s exchange \<Rightarrow> fe_bulk_alloc \<Rightarrow> fw_fe option \<Rightarrow> pipeline_firewall_key list \<Rightarrow> 's \<Rightarrow> (int \<times> fw_fe option \<times> 's) res" where
  "app_pipeline_firewall_delete_bulk send_recv al fe keys s =
     (case fe of None \<Rightarrow> Inr (- 1, fe, s)
      | Some p \<Rightarrow> if \<not> fb_rules al then Inr (- 1, fe, s)
      else let ks = map app_pipeline_firewall_key_check_and_normalize keys in
        if None \<in> set ks then Inr (- 1, fe, s)
        else let rules = map (\<lambda>k. (the k, app_pipeline_firewall_rule_find p (the k) \<noteq> None)) ks in
        (case fb_keys_found al of None \<Rightarrow> Inr (- 1, fe, s)
         | Some keys_found \<Rightarrow> if \<not> fb_msg al then Inr (- 1, fe, s)
         else rbind (send_recv (del_bulk_request (map the ks) keys_found) s) (\<lambda>(rsp, s).
           case rsp of None \<Rightarrow> Inr (- 1, fe, s)
           | Some rsp \<Rightarrow> if rs_status rsp \<noteq> 0 then Inr (- 1, fe, s)
           else if \<not> list_all id (case rs_out rsp of Out_Del_Bulk kf \<Rightarrow> kf | _ \<Rightarrow> keys_found) then Inr (- 1, fe, s)
           else rbind (bulk_remove rules p) (\<lambda>p. Inr (0, Some p, s)))))"

section \<open>Common requests\<close>

text \<open>\<open>pp\<close> are the numbers of input and output queues of the pipeline, None if there is no such pipeline.\<close>

definition fe_status :: "'s exchange \<Rightarrow> bool \<Rightarrow> fw_req \<Rightarrow> 's \<Rightarrow> (int \<times> 's) res" where
  "fe_status send_recv msg req s = (if \<not> msg then Inr (- 1, s)
     else rbind (send_recv req s) (\<lambda>(rsp, s). case rsp of None \<Rightarrow> Inr (- 1, s) | Some rsp \<Rightarrow> Inr (rs_status rsp, s)))"

definition app_pipeline_ping :: "'s exchange \<Rightarrow> bool \<Rightarrow> (nat \<times> nat) option \<Rightarrow> 's \<Rightarrow> (int \<times> 's) res" where
  "app_pipeline_ping send_recv msg pp s = (case pp of None \<Rightarrow> Inr (- 1, s)
     | Some _ \<Rightarrow> fe_status send_recv msg \<lparr>rq_type = 0, rq_word = 0, rq_body = No_Body\<rparr> s)"

definition app_pipeline_port_in_enable :: "'s exchange \<Rightarrow> bool \<Rightarrow> (nat \<times> nat) option \<Rightarrow> nat \<Rightarrow> 's \<Rightarrow> (int \<times> 's) res" where
  "app_pipeline_port_in_enable send_recv msg pp port_id s = (case pp of None \<Rightarrow> Inr (- 1, s)
     | Some (n_in, n_out) \<Rightarrow> if port_id \<ge> n_in then Inr (- 1, s)
       else fe_status send_recv msg \<lparr>rq_type = 4, rq_word = port_id, rq_body = No_Body\<rparr> s)"

definition app_pipeline_port_in_disable :: "'s exchange \<Rightarrow> bool \<Rightarrow> (nat \<times> nat) option \<Rightarrow> nat \<Rightarrow> 's \<Rightarrow> (int \<times> 's) res" where
  "app_pipeline_port_in_disable send_recv msg pp port_id s = (case pp of None \<Rightarrow> Inr (- 1, s)
     | Some (n_in, n_out) \<Rightarrow> if port_id \<ge> n_in then Inr (- 1, s)
       else fe_status send_recv msg \<lparr>rq_type = 5, rq_word = port_id, rq_body = No_Body\<rparr> s)"

text \<open>A request for statistics: they are copied from the response when its status is 0.\<close>

definition fe_stats :: "(fw_out \<Rightarrow> 'a res) \<Rightarrow> 's exchange \<Rightarrow> bool \<Rightarrow> fw_req \<Rightarrow> 's \<Rightarrow> (int \<times> 'a option \<times> 's) res" where
  "fe_stats copy send_recv msg req s = (if \<not> msg then Inr (- 1, None, s)
     else rbind (send_recv req s) (\<lambda>(rsp, s). case rsp of None \<Rightarrow> Inr (- 1, None, s)
       | Some rsp \<Rightarrow> if rs_status rsp = 0 then rbind (copy (rs_out rsp)) (\<lambda>st. Inr (0, Some st, s))
           else Inr (rs_status rsp, None, s)))"

definition port_stats_of :: "fw_out \<Rightarrow> port_stats res" where
  "port_stats_of out = (case out of Out_Port_Stats (Some st) \<Rightarrow> Inr st | _ \<Rightarrow> Inl OutOfBounds)"

definition table_stats_of :: "fw_out \<Rightarrow> table_stats res" where
  "table_stats_of out = (case out of Out_Table_Stats (Some st) \<Rightarrow> Inr st | _ \<Rightarrow> Inl OutOfBounds)"

definition app_pipeline_stats_port_in ::
  "'s exchange \<Rightarrow> bool \<Rightarrow> (nat \<times> nat) option \<Rightarrow> nat \<Rightarrow> 's \<Rightarrow> (int \<times> port_stats option \<times> 's) res" where
  "app_pipeline_stats_port_in send_recv msg pp port_id s = (case pp of None \<Rightarrow> Inr (- 1, None, s)
     | Some (n_in, n_out) \<Rightarrow> if port_id \<ge> n_in then Inr (- 1, None, s)
       else fe_stats port_stats_of send_recv msg \<lparr>rq_type = 1, rq_word = port_id, rq_body = No_Body\<rparr> s)"

definition app_pipeline_stats_port_out ::
  "'s exchange \<Rightarrow> bool \<Rightarrow> nat \<Rightarrow> nat \<Rightarrow> (nat \<times> nat) option \<Rightarrow> nat \<Rightarrow> 's \<Rightarrow> (int \<times> port_stats option \<times> 's) res" where
  "app_pipeline_stats_port_out send_recv msg n_pipelines pipeline_id pp port_id s =
     (if pipeline_id \<ge> n_pipelines then Inr (- 1, None, s)
      else case pp of None \<Rightarrow> Inr (- 1, None, s)
      | Some (n_in, n_out) \<Rightarrow> if port_id \<ge> n_out then Inr (- 1, None, s)
        else fe_stats port_stats_of send_recv msg \<lparr>rq_type = 2, rq_word = port_id, rq_body = No_Body\<rparr> s)"

definition app_pipeline_stats_table ::
  "'s exchange \<Rightarrow> bool \<Rightarrow> (nat \<times> nat) option \<Rightarrow> nat \<Rightarrow> 's \<Rightarrow> (int \<times> table_stats option \<times> 's) res" where
  "app_pipeline_stats_table send_recv msg pp table_id s = (case pp of None \<Rightarrow> Inr (- 1, None, s)
     | Some _ \<Rightarrow> fe_stats table_stats_of send_recv msg \<lparr>rq_type = 3, rq_word = table_id, rq_body = No_Body\<rparr> s)"

definition app_pipeline_track_default :: "(nat \<times> nat) option \<Rightarrow> nat \<Rightarrow> bool \<Rightarrow> int \<times> nat option" where
  "app_pipeline_track_default p port_in port_out = (case p of None \<Rightarrow> (- 1, None)
     | Some (n_in, n_out) \<Rightarrow> if port_in \<ge> n_in \<or> \<not> port_out then (- 1, None)
       else if n_out = 1 then (0, Some 0) else (- 1, None))"

section \<open>Rule files\<close>

text \<open>\<open>fgets\<close> into a buffer of \<open>n\<close> bytes: up to and with the next newline, at most \<open>n - 1\<close> characters.\<close>

definition fgets :: "nat \<Rightarrow> string \<Rightarrow> (string \<times> string) option" where
  "fgets n f = (if f = [] then None
     else let line = takeWhile (\<lambda>c. c \<noteq> CHR 0x0A) f;
              k = min (n - 1) (if length line < length f then length line + 1 else length line)
          in Some (take k f, drop k f))"

text \<open>\<open>rte_be_to_cpu_32\<close> of the address that \<open>parse_ipv4_addr\<close> stored in network order.\<close>

definition ip_of :: "u8 list \<Rightarrow> u32" where
  "ip_of bs = fold (\<lambda>b v. push_bit 8 v OR ucast b) bs 0"

datatype cmd_msg =
    CMD_MSG_OUT_OF_MEMORY
  | CMD_MSG_TOO_MANY_ARGS string
  | CMD_MSG_MISMATCH_ARGS string
  | CMD_MSG_INVALID_ARG string
  | CMD_MSG_ARG_NOT_FOUND string
  | CMD_MSG_FILE_ERR string nat
  | CMD_MSG_FAIL string

definition need :: "'e \<Rightarrow> int + 'a \<Rightarrow> 'e + 'a" where
  "need e r = (case r of Inl _ \<Rightarrow> Inl e | Inr x \<Rightarrow> Inr x)"

definition tbind :: "'e + 'a \<Rightarrow> ('a \<Rightarrow> 'e + 'b) \<Rightarrow> 'e + 'b" where
  "tbind r f = (case r of Inl e \<Rightarrow> Inl e | Inr x \<Rightarrow> f x)"

text \<open>The ten words of a 5-tuple, from position \<open>i\<close> on; the first that does not parse is the one complained about.\<close>

definition read_5tuple :: "string list \<Rightarrow> nat \<Rightarrow> cmd_msg + pipeline_firewall_key" where
  "read_5tuple tokens i =
     tbind (need (CMD_MSG_INVALID_ARG ''sipaddr'') (parse_ipv4_addr (tokens ! i))) (\<lambda>sipaddr.
     tbind (need (CMD_MSG_INVALID_ARG ''sipdepth'') (parser_read_uint32 (tokens ! (i + 1)))) (\<lambda>sipdepth.
     tbind (need (CMD_MSG_INVALID_ARG ''dipaddr'') (parse_ipv4_addr (tokens ! (i + 2)))) (\<lambda>dipaddr.
     tbind (need (CMD_MSG_INVALID_ARG ''dipdepth'') (parser_read_uint32 (tokens ! (i + 3)))) (\<lambda>dipdepth.
     tbind (need (CMD_MSG_INVALID_ARG ''sport0'') (parser_read_uint16 (tokens ! (i + 4)))) (\<lambda>sport0.
     tbind (need (CMD_MSG_INVALID_ARG ''sport1'') (parser_read_uint16 (tokens ! (i + 5)))) (\<lambda>sport1.
     tbind (need (CMD_MSG_INVALID_ARG ''dport0'') (parser_read_uint16 (tokens ! (i + 6)))) (\<lambda>dport0.
     tbind (need (CMD_MSG_INVALID_ARG ''dport1'') (parser_read_uint16 (tokens ! (i + 7)))) (\<lambda>dport1.
     tbind (need (CMD_MSG_INVALID_ARG ''proto'') (parser_read_uint8 (tokens ! (i + 8)))) (\<lambda>proto.
     tbind (need (CMD_MSG_INVALID_ARG ''protomask'') (parser_read_uint8_hex (tokens ! (i + 9)))) (\<lambda>protomask.
     Inr \<lparr>key_type = PIPELINE_FIREWALL_IPV4_5TUPLE, key_ipv4_5tuple = \<lparr>k_src_ip = ip_of sipaddr, k_src_ip_mask = sipdepth,
       k_dst_ip = ip_of dipaddr, k_dst_ip_mask = dipdepth, k_src_port_from = sport0, k_src_port_to = sport1,
       k_dst_port_from = dport0, k_dst_port_to = dport1, k_proto = proto, k_proto_mask = protomask\<rparr>\<rparr>))))))))))"

text \<open>One line of a file, as a C string: None for an empty line or a comment.\<close>

definition load_line :: "string \<Rightarrow> unit + (pipeline_firewall_key \<times> u32 \<times> nat) option" where
  "load_line buf =
     tbind (need () (parse_tokenize_string (Some (takeWhile (\<lambda>c. c \<noteq> CHR 0x00) buf)) 32)) (\<lambda>tokens.
     if tokens = [] \<or> hd (tokens ! 0) = CHR ''#'' then Inr None
     else if length tokens \<noteq> 15 \<or> tokens ! 0 \<noteq> ''priority'' then Inl ()
     else tbind (need () (parser_read_uint32 (tokens ! 1))) (\<lambda>priority.
       if tokens ! 2 \<noteq> ''ipv4'' then Inl ()
       else case read_5tuple tokens 3 of Inl _ \<Rightarrow> Inl ()
       | Inr key \<Rightarrow> if tokens ! 13 \<noteq> ''port'' then Inl ()
         else tbind (need () (parser_read_uint32 (tokens ! 14))) (\<lambda>port_id.
           case app_pipeline_firewall_key_check_and_normalize key of None \<Rightarrow> Inl ()
           | Some key \<Rightarrow> Inr (Some (key, priority, unat port_id)))))"

lemma fgets_shorter [termination_simp]: "fgets 1024 f = Some (buf, f') \<Longrightarrow> length f' < length f"
  by (cases f) (auto simp: fgets_def Let_def split: if_splits)

text \<open>The loop of \<open>app_pipeline_firewall_load_file\<close>: \<open>m\<close> more rules fit, \<open>l\<close> is the number of the next line. Inl is the
  number of the line in error.\<close>

function load_loop :: "nat \<Rightarrow> nat \<Rightarrow> string \<Rightarrow> nat + (pipeline_firewall_key \<times> u32 \<times> nat) list" where
  "load_loop m l f =
     (if m = 0 then Inr []
      else case fgets 1024 f of None \<Rightarrow> Inr []
      | Some (buf, f') \<Rightarrow> (case load_line buf of Inl _ \<Rightarrow> Inl l
        | Inr None \<Rightarrow> load_loop m (l + 1) f'
        | Inr (Some x) \<Rightarrow> tbind (load_loop (m - 1) (l + 1) f') (\<lambda>xs. Inr (x # xs))))"
  by pat_completeness auto
termination
  by (relation "measure (\<lambda>(_, _, f). length f)") (auto dest: fgets_shorter)

declare load_loop.simps [simp del]

definition app_pipeline_firewall_load_file ::
  "(string \<Rightarrow> string option) \<Rightarrow> string \<Rightarrow> nat \<Rightarrow> nat + (pipeline_firewall_key \<times> u32 \<times> nat) list" where
  "app_pipeline_firewall_load_file fopen filename n_keys =
     (if n_keys = 0 then Inl 0
      else case fopen filename of None \<Rightarrow> Inl 0 | Some f \<Rightarrow> load_loop n_keys 1 f)"

section \<open>The command\<close>

text \<open>
  \<open>cmd_firewall_parsed\<close>: what it prints (a complaint, or the list of rules) and what it does. The environment
  holds the files and the outcome of the allocations, those of the three arrays for a rule file too.
\<close>

record fe_env =
  ev_fopen :: "string \<Rightarrow> string option"
  ev_keys :: bool
  ev_priorities :: bool
  ev_port_ids :: bool
  ev_alloc :: fe_alloc
  ev_bulk :: fe_bulk_alloc

datatype cmd_out = Silent | Complain cmd_msg
  | Listing "app_pipeline_firewall_rule list" "(nat \<times> rte_pipeline_table_entry option) option"

abbreviation (input) APP_PIPELINE_FIREWALL_MAX_RULES_IN_FILE :: nat where
  "APP_PIPELINE_FIREWALL_MAX_RULES_IN_FILE \<equiv> 262144"

definition done_cmd :: "string \<Rightarrow> (int \<times> fw_fe option \<times> 's) res \<Rightarrow> (cmd_out \<times> fw_fe option \<times> 's) res" where
  "done_cmd cmd r = rbind r (\<lambda>(status, fe, s). Inr (if status \<noteq> 0 then Complain (CMD_MSG_FAIL cmd) else Silent, fe, s))"

definition with_file ::
  "fe_env \<Rightarrow> string \<Rightarrow> ((pipeline_firewall_key \<times> u32 \<times> nat) list \<Rightarrow> (cmd_out \<times> fw_fe option \<times> 's) res) \<Rightarrow> fw_fe option \<Rightarrow> 's \<Rightarrow>
   (cmd_out \<times> fw_fe option \<times> 's) res" where
  "with_file ev filename f fe s =
     (if \<not> ev_keys ev \<or> \<not> ev_priorities ev \<or> \<not> ev_port_ids ev then Inr (Complain CMD_MSG_OUT_OF_MEMORY, fe, s)
      else case app_pipeline_firewall_load_file (ev_fopen ev) filename APP_PIPELINE_FIREWALL_MAX_RULES_IN_FILE of
        Inl line \<Rightarrow> Inr (Complain (CMD_MSG_FILE_ERR filename line), fe, s)
      | Inr xs \<Rightarrow> f xs)"

definition cmd_firewall_parsed ::
  "'s exchange \<Rightarrow> fe_env \<Rightarrow> string \<Rightarrow> fw_fe option \<Rightarrow> 's \<Rightarrow> (cmd_out \<times> fw_fe option \<times> 's) res" where
  "cmd_firewall_parsed send_recv ev multi_string fe s =
     (let complain = (\<lambda>m. Inr (Complain m, fe, s)) in
      case parse_tokenize_string (Some multi_string) 17 of Inl _ \<Rightarrow> complain (CMD_MSG_TOO_MANY_ARGS ''firewall'')
      | Inr tokens \<Rightarrow>
        let n_tokens = length tokens in
        if n_tokens \<ge> 2 \<and> tokens ! 0 = ''add'' \<and> tokens ! 1 = ''priority'' then
          if n_tokens \<noteq> 16 then complain (CMD_MSG_MISMATCH_ARGS ''firewall add'')
          else (case parser_read_uint32 (tokens ! 2) of Inl _ \<Rightarrow> complain (CMD_MSG_INVALID_ARG ''priority'')
          | Inr priority \<Rightarrow> if tokens ! 3 \<noteq> ''ipv4'' then complain (CMD_MSG_ARG_NOT_FOUND ''ipv4'')
          else (case read_5tuple tokens 4 of Inl m \<Rightarrow> complain m
          | Inr key \<Rightarrow> if tokens ! 14 \<noteq> ''port'' then complain (CMD_MSG_ARG_NOT_FOUND ''port'')
          else (case parser_read_uint32 (tokens ! 15) of Inl _ \<Rightarrow> complain (CMD_MSG_INVALID_ARG ''portid'')
          | Inr port_id \<Rightarrow> done_cmd ''firewall add''
              (app_pipeline_firewall_add_rule send_recv (ev_alloc ev) fe (Some key) priority (unat port_id) s))))
        else if n_tokens \<ge> 2 \<and> tokens ! 0 = ''add'' \<and> tokens ! 1 = ''bulk'' then
          if n_tokens \<noteq> 3 then complain (CMD_MSG_MISMATCH_ARGS ''firewall add bulk'')
          else with_file ev (tokens ! 2) (\<lambda>xs. done_cmd ''firewall add bulk''
                 (app_pipeline_firewall_add_bulk send_recv (ev_bulk ev) fe xs s)) fe s
        else if n_tokens \<ge> 2 \<and> tokens ! 0 = ''add'' \<and> tokens ! 1 = ''default'' then
          if n_tokens \<noteq> 3 then complain (CMD_MSG_MISMATCH_ARGS ''firewall add default'')
          else (case parser_read_uint32 (tokens ! 2) of Inl _ \<Rightarrow> complain (CMD_MSG_INVALID_ARG ''portid'')
          | Inr port_id \<Rightarrow> done_cmd ''firewall add default''
              (app_pipeline_firewall_add_default_rule send_recv (ev_alloc ev) fe (unat port_id) s))
        else if n_tokens \<ge> 2 \<and> tokens ! 0 = ''del'' \<and> tokens ! 1 = ''ipv4'' then
          if n_tokens \<noteq> 12 then complain (CMD_MSG_MISMATCH_ARGS ''firewall del'')
          else (case read_5tuple tokens 2 of Inl m \<Rightarrow> complain m
          | Inr key \<Rightarrow> done_cmd ''firewall del''
              (app_pipeline_firewall_delete_rule send_recv (ev_alloc ev) fe (Some key) s))
        else if n_tokens \<ge> 2 \<and> tokens ! 0 = ''del'' \<and> tokens ! 1 = ''bulk'' then
          if n_tokens \<noteq> 3 then complain (CMD_MSG_MISMATCH_ARGS ''firewall del bulk'')
          else with_file ev (tokens ! 2) (\<lambda>xs. done_cmd ''firewall del bulk''
                 (app_pipeline_firewall_delete_bulk send_recv (ev_bulk ev) fe (map fst xs) s)) fe s
        else if n_tokens \<ge> 2 \<and> tokens ! 0 = ''del'' \<and> tokens ! 1 = ''default'' then
          if n_tokens \<noteq> 2 then complain (CMD_MSG_MISMATCH_ARGS ''firewall del default'')
          else done_cmd ''firewall del default'' (app_pipeline_firewall_delete_default_rule send_recv (ev_alloc ev) fe s)
        else if n_tokens \<ge> 1 \<and> tokens ! 0 = ''ls'' then
          if n_tokens \<noteq> 1 then complain (CMD_MSG_MISMATCH_ARGS ''firewall ls'')
          else rbind (app_pipeline_firewall_ls fe) (\<lambda>(status, out).
            case out of None \<Rightarrow> complain (CMD_MSG_FAIL ''firewall ls'') | Some (rules, dflt) \<Rightarrow> Inr (Listing rules dflt, fe, s))
        else complain (CMD_MSG_MISMATCH_ARGS ''firewall''))"

end
