(* ===== verification/Firewall_Mirror.thy ===== *)
theory Firewall_Mirror
  imports Firewall_FE
begin

text \<open>
  The correctness of the firewall's front end (theory Firewall_FE). Its rule list mirrors the table of the
  enclave: this is proved once, against the interface \<open>rule_service\<close> that says what the enclave promises about
  its answers. Theory Firewall_Channel shows that the enclave behind the message rings keeps these promises.
\<close>

section \<open>The rule list\<close>

lemma find_append: "List.find P (xs @ ys) = (case List.find P xs of None \<Rightarrow> List.find P ys | Some x \<Rightarrow> Some x)"
  by (induction xs) auto

lemma find_update:
  "List.find (\<lambda>r. r_key x = r_key r) rs \<noteq> None \<Longrightarrow>
   List.find (\<lambda>r. key = r_key r) (rule_update x rs) = (if key = r_key x then Some x else List.find (\<lambda>r. key = r_key r) rs)"
  by (induction rs) (auto split: if_splits)

lemma find_remove:
  "distinct (map r_key rs) \<Longrightarrow>
   List.find (\<lambda>r. key = r_key r) (rule_remove k rs) = (if key = k then None else List.find (\<lambda>r. key = r_key r) rs)"
  by (induction rs) (auto simp: find_None_iff)

lemma keys_update [simp]: "map r_key (rule_update x rs) = map r_key rs"
  by (induction rs) auto

lemma keys_remove: "map r_key (rule_remove k rs) = remove1 k (map r_key rs)"
  by (induction rs) auto

lemma find_key: "List.find (\<lambda>r. key = r_key r) rs = None \<longleftrightarrow> key \<notin> set (map r_key rs)"
  by (auto simp: find_None_iff)

section \<open>Keys\<close>

lemma normalize_Some:
  "app_pipeline_firewall_key_check_and_normalize key = Some key' \<Longrightarrow> key_type key = 0 \<and> key_type key' = 0"
  by (auto simp: app_pipeline_firewall_key_check_and_normalize_def Let_def split: if_splits)

lemma key_eta: "key_type key = 0 \<Longrightarrow> \<lparr>key_type = 0, key_ipv4_5tuple = key_ipv4_5tuple key\<rparr> = key"
  by simp

lemma key_is: "key_type key = 0 \<Longrightarrow> \<lparr>key_type = 0, key_ipv4_5tuple = k\<rparr> = key \<longleftrightarrow> k = key_ipv4_5tuple key"
  by (cases key) auto

section \<open>The mirror\<close>

text \<open>Which output port the front end lists for a 5-tuple; and that its list has the 5-tuples of the table with their output
  ports, and the default. The priorities of list and table are not related: they differ once a rule was added
  again with another priority.\<close>

definition fe_port :: "fw_fe \<Rightarrow> pipeline_firewall_key_ipv4_5tuple \<Rightarrow> nat option" where
  "fe_port p k = map_option r_port_id (app_pipeline_firewall_rule_find p \<lparr>key_type = 0, key_ipv4_5tuple = k\<rparr>)"

definition mirror ::
  "('s \<Rightarrow> pipeline_firewall_key_ipv4_5tuple \<Rightarrow> (int \<times> nat) option) \<Rightarrow> ('s \<Rightarrow> rte_pipeline_table_entry) \<Rightarrow> nat \<Rightarrow> fw_fe \<Rightarrow> 's \<Rightarrow> bool" where
  "mirror rule_at dflt n_out p s \<longleftrightarrow> fe_n_ports_out p = n_out \<and> distinct (map r_key (fe_rules p)) \<and>
     (\<forall>r \<in> set (fe_rules p). key_type (r_key r) = 0) \<and> fe_n_rules p = of_nat (length (fe_rules p)) \<and>
     (\<forall>k. map_option snd (rule_at s k) = fe_port p k) \<and>
     (if default_rule_present p then dflt s = port_entry (default_rule_port_id p) else pte_action (dflt s) = ACTION_DROP)"

lemma mirrorD:
  assumes "mirror rule_at dflt n_out p s"
  shows "fe_n_ports_out p = n_out" "distinct (map r_key (fe_rules p))" "\<forall>r \<in> set (fe_rules p). key_type (r_key r) = 0"
    "fe_n_rules p = of_nat (length (fe_rules p))" "map_option snd (rule_at s k) = fe_port p k"
    "if default_rule_present p then dflt s = port_entry (default_rule_port_id p) else pte_action (dflt s) = ACTION_DROP"
  using assms by (simp_all add: mirror_def)

lemma mirror_found:
  assumes "mirror rule_at dflt n_out p s" and "key_type key = 0"
  shows "app_pipeline_firewall_rule_find p key = None \<longleftrightarrow> rule_at s (key_ipv4_5tuple key) = None"
  using mirrorD(5) [OF assms(1), of "key_ipv4_5tuple key"] key_eta [OF assms(2)] by (auto simp: fe_port_def)

lemma mirror_cong: "mirror rule_at dflt n_out p s \<Longrightarrow> rule_at s' = rule_at s \<Longrightarrow> dflt s' = dflt s \<Longrightarrow> mirror rule_at dflt n_out p s'"
  by (simp add: mirror_def)

text \<open>A rule added to both, changed in both, removed from both.\<close>

lemma mirror_add:
  assumes m: "mirror rule_at dflt n_out p s" and new: "app_pipeline_firewall_rule_find p (r_key rule) = None" and t: "key_type (r_key rule) = 0"
    and s': "rule_at s' = (rule_at s)(key_ipv4_5tuple (r_key rule) \<mapsto> (q, r_port_id rule))" "dflt s' = dflt s"
  shows "mirror rule_at dflt n_out (p\<lparr>fe_rules := fe_rules p @ [rule], fe_n_rules := fe_n_rules p + 1\<rparr>) s'"
proof -
  have "r_key rule \<notin> set (map r_key (fe_rules p))" using new by (simp add: app_pipeline_firewall_rule_find_def find_key)
  moreover have f: "app_pipeline_firewall_rule_find (p\<lparr>fe_rules := fe_rules p @ [rule], fe_n_rules := fe_n_rules p + 1\<rparr>) key =
      (if key = r_key rule then Some rule else app_pipeline_firewall_rule_find p key)" for key
    using new by (auto simp: app_pipeline_firewall_rule_find_def find_append split: option.splits)
  have "map_option snd (rule_at s' k) = fe_port (p\<lparr>fe_rules := fe_rules p @ [rule], fe_n_rules := fe_n_rules p + 1\<rparr>) k" for k
    using mirrorD(5) [OF m, of k] s'(1) by (auto simp: fe_port_def f key_is [OF t])
  ultimately show ?thesis using m t s'(2) by (simp add: mirror_def)
qed

lemma mirror_change:
  assumes m: "mirror rule_at dflt n_out p s" and old: "app_pipeline_firewall_rule_find p (r_key rule) \<noteq> None" and t: "key_type (r_key rule) = 0"
    and s': "rule_at s' = (rule_at s)(key_ipv4_5tuple (r_key rule) \<mapsto> (q, r_port_id rule))" "dflt s' = dflt s"
  shows "mirror rule_at dflt n_out (p\<lparr>fe_rules := rule_update rule (fe_rules p)\<rparr>) s'"
proof -
  let ?p = "p\<lparr>fe_rules := rule_update rule (fe_rules p)\<rparr>"
  have f: "app_pipeline_firewall_rule_find ?p key = (if key = r_key rule then Some rule else app_pipeline_firewall_rule_find p key)" for key
    using find_update [of rule "fe_rules p" key] old by (simp add: app_pipeline_firewall_rule_find_def)
  have "map_option snd (rule_at s' k) = fe_port ?p k" for k
    using mirrorD(5) [OF m, of k] s'(1) by (auto simp: fe_port_def f key_is [OF t])
  moreover have "map r_key (fe_rules ?p) = map r_key (fe_rules p)" by simp
  then have "length (fe_rules ?p) = length (fe_rules p)" "r_key ` set (fe_rules ?p) = r_key ` set (fe_rules p)"
    by (metis length_map, metis set_map)
  then have "\<forall>r \<in> set (fe_rules ?p). key_type (r_key r) = 0" using mirrorD(3) [OF m] by (metis (no_types, lifting) imageE imageI)
  ultimately show ?thesis using m s'(2) \<open>length (fe_rules ?p) = length (fe_rules p)\<close> by (simp add: mirror_def)
qed

lemma mirror_remove:
  assumes m: "mirror rule_at dflt n_out p s" and old: "app_pipeline_firewall_rule_find p key \<noteq> None" and t: "key_type key = 0"
    and s': "rule_at s' = (rule_at s)(key_ipv4_5tuple key := None)" "dflt s' = dflt s"
  shows "mirror rule_at dflt n_out (p\<lparr>fe_rules := rule_remove key (fe_rules p), fe_n_rules := fe_n_rules p - 1\<rparr>) s'"
proof -
  let ?p = "p\<lparr>fe_rules := rule_remove key (fe_rules p), fe_n_rules := fe_n_rules p - 1\<rparr>"
  have f: "app_pipeline_firewall_rule_find ?p k = (if k = key then None else app_pipeline_firewall_rule_find p k)" for k
    using find_remove [OF mirrorD(2) [OF m], of k key] by (simp add: app_pipeline_firewall_rule_find_def)
  have "map_option snd (rule_at s' k) = fe_port ?p k" for k
    using mirrorD(5) [OF m, of k] s'(1) by (auto simp: fe_port_def f key_is [OF t])
  moreover have "key \<in> set (map r_key (fe_rules p))" using old by (simp add: app_pipeline_firewall_rule_find_def find_key)
  then have "length (remove1 key (map r_key (fe_rules p))) = length (fe_rules p) - 1" "0 < length (fe_rules p)"
    by (simp add: length_remove1, auto)
  then have "length (fe_rules p) = Suc (length (fe_rules ?p))" by (simp flip: keys_remove)
  moreover have "set (map r_key (fe_rules ?p)) \<subseteq> set (map r_key (fe_rules p))" using keys_remove [of key "fe_rules p"]
      set_remove1_subset [of key "map r_key (fe_rules p)"] by simp
  then have "\<forall>r \<in> set (fe_rules ?p). key_type (r_key r) = 0" using mirrorD(3) [OF m] by fastforce
  moreover have "distinct (map r_key (fe_rules ?p))" using mirrorD(2) [OF m] keys_remove [of key "fe_rules p"] by simp
  ultimately show ?thesis using m s'(2) by (simp add: mirror_def)
qed

section \<open>A session\<close>

text \<open>A list of commands, each with the environment it finds; the printed text is dropped.\<close>

definition fe_session :: "'s exchange \<Rightarrow> (fe_env \<times> string) list \<Rightarrow> fw_fe option \<times> 's \<Rightarrow> (fw_fe option \<times> 's) res" where
  "fe_session send_recv cmds = rfold (\<lambda>(ev, cmd) (fe, s). rbind (cmd_firewall_parsed send_recv ev cmd fe s) (\<lambda>(_, fe, s). Inr (fe, s))) cmds"

text \<open>A command that neither reads a rule file nor lists the rules.\<close>

definition plain_cmd :: "string \<Rightarrow> bool" where
  "plain_cmd cmd = (case parse_tokenize_string (Some cmd) 17 of Inl _ \<Rightarrow> True
     | Inr tokens \<Rightarrow> tokens \<noteq> [''ls''] \<and> (length tokens \<ge> 2 \<longrightarrow> tokens ! 1 \<noteq> ''bulk''))"

section \<open>The service and its client\<close>

text \<open>The additions that are accepted when rules compile.\<close>

definition add_accepted ::
  "('s \<Rightarrow> pipeline_firewall_key_ipv4_5tuple \<Rightarrow> (int \<times> nat) option) \<Rightarrow> ('s \<Rightarrow> bool) \<Rightarrow> nat \<Rightarrow>
   fe_alloc \<Rightarrow> pipeline_firewall_key \<Rightarrow> u32 \<Rightarrow> nat \<Rightarrow> 's \<Rightarrow> bool" where
  "add_accepted rule_at room n_out al key pri port s \<longleftrightarrow> port < n_out \<and> al_msg al \<and> sint pri \<le> RTE_ACL_MAX_PRIORITY \<and>
     (case app_pipeline_firewall_key_check_and_normalize key of None \<Rightarrow> False
      | Some key' \<Rightarrow> rule_at s (key_ipv4_5tuple key') \<noteq> None \<or> al_rule al \<and> 0 \<le> sint pri \<and> room s)"

text \<open>
  What the enclave promises. \<open>rule_at\<close> is its table as a map from 5-tuples to priority and port, \<open>dflt\<close> its
  default entry. Every request is answered. With status 0 the map is updated (an existing rule keeps its
  priority) and the answer tells whether the key was there; with another status nothing changes. When rules
  \<open>compile\<close> (memory is there and the ACL compiler takes them), a deletion succeeds and so does an addition, given a
  priority in range and \<open>room\<close> for a new rule.
\<close>

locale rule_service =
  fixes call :: "'s exchange" and ready :: "'s \<Rightarrow> bool"
    and rule_at :: "'s \<Rightarrow> pipeline_firewall_key_ipv4_5tuple \<Rightarrow> (int \<times> nat) option"
    and dflt :: "'s \<Rightarrow> rte_pipeline_table_entry" and n_out :: nat
    and compiles :: bool and room :: "'s \<Rightarrow> bool"
  assumes add_law: "ready s \<Longrightarrow> key_type key = 0 \<Longrightarrow> port < n_out \<Longrightarrow>
      \<exists>rsp s'. call (add_request key pri port) s = Inr (Some rsp, s') \<and> ready s' \<and> dflt s' = dflt s \<and>
        (if rs_status rsp = 0
         then (\<exists>pos. rs_out rsp = Out_Add (Some (rule_at s (key_ipv4_5tuple key) \<noteq> None, pos))) \<and>
           rule_at s' = (rule_at s)(key_ipv4_5tuple key \<mapsto>
             (case rule_at s (key_ipv4_5tuple key) of None \<Rightarrow> RTE_ACL_MAX_PRIORITY - sint pri | Some (q, _) \<Rightarrow> q, port))
         else rule_at s' = rule_at s) \<and>
        (compiles \<longrightarrow> (rs_status rsp = 0 \<longleftrightarrow> sint pri \<le> RTE_ACL_MAX_PRIORITY \<and>
          (rule_at s (key_ipv4_5tuple key) \<noteq> None \<or> 0 \<le> sint pri \<and> room s)))"
    and del_law: "ready s \<Longrightarrow> key_type key = 0 \<Longrightarrow>
      \<exists>rsp s'. call (del_request key) s = Inr (Some rsp, s') \<and> ready s' \<and> dflt s' = dflt s \<and>
        (if rs_status rsp = 0
         then rs_out rsp = Out_Del (Some (rule_at s (key_ipv4_5tuple key) \<noteq> None)) \<and>
           rule_at s' = (rule_at s)(key_ipv4_5tuple key := None)
         else rule_at s' = rule_at s) \<and> (compiles \<longrightarrow> rs_status rsp = 0)"
    and add_default_law: "ready s \<Longrightarrow> port < n_out \<Longrightarrow>
      \<exists>rsp s'. call (add_default_request port) s = Inr (Some rsp, s') \<and> ready s' \<and> rule_at s' = rule_at s \<and>
        rs_status rsp = 0 \<and> rs_out rsp = Out_Default (Some (port_entry port)) \<and> dflt s' = port_entry port"
    and del_default_law: "ready s \<Longrightarrow>
      \<exists>rsp s'. call del_default_request s = Inr (Some rsp, s') \<and> ready s' \<and> rule_at s' = rule_at s \<and>
        rs_status rsp = 0 \<and> pte_action (dflt s') = ACTION_DROP"
begin

abbreviation mirrors :: "fw_fe \<Rightarrow> 's \<Rightarrow> bool" where
  "mirrors \<equiv> mirror rule_at dflt n_out"

abbreviation accepted :: "fe_alloc \<Rightarrow> pipeline_firewall_key \<Rightarrow> u32 \<Rightarrow> nat \<Rightarrow> 's \<Rightarrow> bool" where
  "accepted \<equiv> add_accepted rule_at room n_out"

lemma add_mirrors:
  assumes r: "ready s" and m: "mirrors p s"
  shows "\<exists>st p' s'. app_pipeline_firewall_add_rule call al (Some p) (Some key) pri port s = Inr (st, Some p', s') \<and> ready s' \<and> mirrors p' s' \<and>
    (if st = 0
     then \<exists>key' pos. app_pipeline_firewall_key_check_and_normalize key = Some key' \<and> port < n_out \<and>
       app_pipeline_firewall_rule_find p' key' = Some \<lparr>r_key = key', r_priority = sint pri, r_port_id = port, r_entry_ptr = pos\<rparr> \<and>
       rule_at s' = (rule_at s)(key_ipv4_5tuple key' \<mapsto>
         (case rule_at s (key_ipv4_5tuple key') of None \<Rightarrow> RTE_ACL_MAX_PRIORITY - sint pri | Some (q, _) \<Rightarrow> q, port))
     else p' = p \<and> rule_at s' = rule_at s) \<and>
    (compiles \<longrightarrow> (st = 0 \<longleftrightarrow> accepted al key pri port s))"
proof -
  have same: "\<exists>st p' s'. Inr (- 1 :: int, Some p, s1) = Inr (st, Some p', s') \<and> ready s' \<and> mirrors p' s' \<and>
      (if st = 0 then X st p' s' else p' = p \<and> rule_at s' = rule_at s) \<and> (compiles \<longrightarrow> (st = 0 \<longleftrightarrow> accepted al key pri port s))"
    if "ready s1" "rule_at s1 = rule_at s" "dflt s1 = dflt s" "compiles \<longrightarrow> \<not> accepted al key pri port s"
    for s1 X using that mirror_cong [OF m] by (intro exI [of _ "- 1"] exI [of _ p] exI [of _ s1]) simp
  note def = app_pipeline_firewall_add_rule_def
  show ?thesis
  proof (cases "app_pipeline_firewall_key_check_and_normalize key = None \<or> port \<ge> n_out \<or> \<not> al_msg al \<or>
      (\<exists>k. app_pipeline_firewall_key_check_and_normalize key = Some k \<and> app_pipeline_firewall_rule_find p k = None \<and> \<not> al_rule al)")
    case True
    then have "app_pipeline_firewall_add_rule call al (Some p) (Some key) pri port s = Inr (- 1, Some p, s)"
      using mirrorD(1) [OF m] by (auto simp: def Let_def split: option.split)
    moreover have "\<not> accepted al key pri port s" using True mirror_found [OF m] normalize_Some by (auto simp: add_accepted_def)
    ultimately show ?thesis using same [OF r refl refl] by simp
  next
    case False
    then obtain k where k: "app_pipeline_firewall_key_check_and_normalize key = Some k" "port < n_out" "al_msg al"
        "app_pipeline_firewall_rule_find p k = None \<longrightarrow> al_rule al" by auto
    have t: "key_type key = 0" "key_type k = 0" using normalize_Some [OF k(1)] by simp_all
    obtain rsp s' where c: "call (add_request k pri port) s = Inr (Some rsp, s')" "ready s'" "dflt s' = dflt s"
        "if rs_status rsp = 0
         then (\<exists>pos. rs_out rsp = Out_Add (Some (rule_at s (key_ipv4_5tuple k) \<noteq> None, pos))) \<and>
           rule_at s' = (rule_at s)(key_ipv4_5tuple k \<mapsto>
             (case rule_at s (key_ipv4_5tuple k) of None \<Rightarrow> RTE_ACL_MAX_PRIORITY - sint pri | Some (q, _) \<Rightarrow> q, port))
         else rule_at s' = rule_at s"
        "compiles \<longrightarrow> (rs_status rsp = 0 \<longleftrightarrow> sint pri \<le> RTE_ACL_MAX_PRIORITY \<and>
          (rule_at s (key_ipv4_5tuple k) \<noteq> None \<or> 0 \<le> sint pri \<and> room s))"
      using add_law [OF r t(2) k(2), of pri] by (elim exE conjE) (rule that)
    have acc: "compiles \<longrightarrow> (rs_status rsp = 0 \<longleftrightarrow> accepted al key pri port s)"
      using c(5) k mirror_found [OF m t(2)] by (cases "rule_at s (key_ipv4_5tuple k)") (simp_all add: add_accepted_def)
    show ?thesis
    proof (cases "rs_status rsp = 0")
      case False
      then have "app_pipeline_firewall_add_rule call al (Some p) (Some key) pri port s = Inr (- 1, Some p, s')"
        using k t c(1) mirrorD(1) [OF m] by (auto simp: def Let_def)
      then show ?thesis using same [OF c(2) _ c(3)] c(4) acc False by simp
    next
      case True
      then obtain pos where pos: "rs_out rsp = Out_Add (Some (rule_at s (key_ipv4_5tuple k) \<noteq> None, pos))"
          "rule_at s' = (rule_at s)(key_ipv4_5tuple k \<mapsto>
             (case rule_at s (key_ipv4_5tuple k) of None \<Rightarrow> RTE_ACL_MAX_PRIORITY - sint pri | Some (q, _) \<Rightarrow> q, port))"
        using c(4) by auto
      let ?rule = "\<lparr>r_key = k, r_priority = sint pri, r_port_id = port, r_entry_ptr = pos\<rparr>"
      let ?p = "if app_pipeline_firewall_rule_find p k = None
        then p\<lparr>fe_rules := fe_rules p @ [?rule], fe_n_rules := fe_n_rules p + 1\<rparr> else p\<lparr>fe_rules := rule_update ?rule (fe_rules p)\<rparr>"
      have run: "app_pipeline_firewall_add_rule call al (Some p) (Some key) pri port s = Inr (0, Some ?p, s')"
        using k t c(1) True pos(1) mirrorD(1) [OF m] mirror_found [OF m t(2)] by (auto simp: def Let_def)
      moreover have "mirrors ?p s'"
        using mirror_add [OF m, of ?rule s'] mirror_change [OF m, of ?rule s'] t(2) pos(2) c(3) by simp
      moreover have "app_pipeline_firewall_rule_find ?p k = Some ?rule"
        using find_update [of ?rule "fe_rules p" k] by (simp add: app_pipeline_firewall_rule_find_def find_append)
      ultimately show ?thesis using c(2) k(1,2) pos(2) acc True by (intro exI [of _ 0] exI [of _ ?p] exI [of _ s']) auto
    qed
  qed
qed

lemma delete_mirrors:
  assumes r: "ready s" and m: "mirrors p s"
  shows "\<exists>st p' s'. app_pipeline_firewall_delete_rule call al (Some p) (Some key) s = Inr (st, Some p', s') \<and> ready s' \<and> mirrors p' s' \<and>
    (if st = 0
     then \<exists>key'. app_pipeline_firewall_key_check_and_normalize key = Some key' \<and> app_pipeline_firewall_rule_find p' key' = None \<and>
       rule_at s' = (rule_at s)(key_ipv4_5tuple key' := None)
     else p' = p \<and> rule_at s' = rule_at s) \<and>
    (compiles \<and> al_msg al \<longrightarrow> (st = 0 \<longleftrightarrow> app_pipeline_firewall_key_check_and_normalize key \<noteq> None))"
proof (cases "app_pipeline_firewall_key_check_and_normalize key")
  case None
  then show ?thesis using r m by (simp add: app_pipeline_firewall_delete_rule_def)
next
  case (Some k)
  have t: "key_type key = 0" "key_type k = 0" using normalize_Some [OF Some] by simp_all
  note def = app_pipeline_firewall_delete_rule_def
  show ?thesis
  proof (cases "app_pipeline_firewall_rule_find p k")
    case None
    then have "rule_at s (key_ipv4_5tuple k) = None" using mirror_found [OF m t(2)] by simp
    then have "(rule_at s)(key_ipv4_5tuple k := None) = rule_at s" by (simp add: fun_upd_idem)
    then show ?thesis using r m None Some t by (simp add: def)
  next
    case found: (Some rule)
    show ?thesis
    proof (cases "al_msg al")
      case False
      then show ?thesis using r m found Some t by (simp add: def)
    next
      case True
      obtain rsp s' where c: "call (del_request k) s = Inr (Some rsp, s')" "ready s'" "dflt s' = dflt s"
          "if rs_status rsp = 0
           then rs_out rsp = Out_Del (Some (rule_at s (key_ipv4_5tuple k) \<noteq> None)) \<and> rule_at s' = (rule_at s)(key_ipv4_5tuple k := None)
           else rule_at s' = rule_at s" "compiles \<longrightarrow> rs_status rsp = 0"
        using del_law [OF r t(2)] by (elim exE conjE) (rule that)
      show ?thesis
      proof (cases "rs_status rsp = 0")
        case False
        then show ?thesis using c r m found Some t True mirror_cong [OF m, of s'] by (simp add: def)
      next
        case ok: True
        let ?p = "p\<lparr>fe_rules := rule_remove k (fe_rules p), fe_n_rules := fe_n_rules p - 1\<rparr>"
        have there: "rule_at s (key_ipv4_5tuple k) \<noteq> None" using mirror_found [OF m t(2)] found by simp
        then have "app_pipeline_firewall_delete_rule call al (Some p) (Some key) s = Inr (0, Some ?p, s')"
          using c ok found Some t True by (simp add: def)
        moreover have "mirrors ?p s'" using mirror_remove [OF m _ t(2), of s'] found c(3,4) ok by simp
        moreover have "app_pipeline_firewall_rule_find ?p k = None"
          using find_remove [OF mirrorD(2) [OF m], of k k] by (simp add: app_pipeline_firewall_rule_find_def)
        ultimately show ?thesis using c(2,4) ok Some by simp
      qed
    qed
  qed
qed

lemma add_default_mirrors:
  assumes r: "ready s" and m: "mirrors p s"
  shows "\<exists>st p' s'. app_pipeline_firewall_add_default_rule call al (Some p) port s = Inr (st, Some p', s') \<and> ready s' \<and> mirrors p' s' \<and>
    rule_at s' = rule_at s \<and> (st = 0 \<longleftrightarrow> port < n_out \<and> al_msg al) \<and> (st = 0 \<longrightarrow> dflt s' = port_entry port)"
proof (cases "port < n_out \<and> al_msg al")
  case True
  obtain rsp s' where c: "call (add_default_request port) s = Inr (Some rsp, s')" "ready s'" "rule_at s' = rule_at s"
      "rs_status rsp = 0" "rs_out rsp = Out_Default (Some (port_entry port))" "dflt s' = port_entry port"
    using add_default_law [OF r] True by blast
  let ?p = "p\<lparr>default_rule_port_id := port, default_rule_entry_ptr := Some (port_entry port), default_rule_present := True\<rparr>"
  have "mirrors ?p s'" using m c(3,6) by (simp add: mirror_def fe_port_def app_pipeline_firewall_rule_find_def)
  then show ?thesis using c True mirrorD(1) [OF m] by (simp add: app_pipeline_firewall_add_default_rule_def)
next
  case False
  then show ?thesis using r m mirrorD(1) [OF m] by (auto simp: app_pipeline_firewall_add_default_rule_def)
qed

lemma delete_default_mirrors:
  assumes r: "ready s" and m: "mirrors p s"
  shows "\<exists>st p' s'. app_pipeline_firewall_delete_default_rule call al (Some p) s = Inr (st, Some p', s') \<and> ready s' \<and> mirrors p' s' \<and>
    rule_at s' = rule_at s \<and> (st = 0 \<longleftrightarrow> al_msg al) \<and> (st = 0 \<longrightarrow> pte_action (dflt s') = ACTION_DROP)"
proof (cases "al_msg al")
  case True
  obtain rsp s' where c: "call del_default_request s = Inr (Some rsp, s')" "ready s'" "rule_at s' = rule_at s"
      "rs_status rsp = 0" "pte_action (dflt s') = ACTION_DROP"
    using del_default_law [OF r] by blast
  have "mirrors (p\<lparr>default_rule_present := False\<rparr>) s'"
    using m c(3,5) by (simp add: mirror_def fe_port_def app_pipeline_firewall_rule_find_def)
  then show ?thesis using c True by (simp add: app_pipeline_firewall_delete_default_rule_def)
next
  case False
  then show ?thesis using r m by (auto simp: app_pipeline_firewall_delete_default_rule_def)
qed

text \<open>Every plain command, whatever its words are.\<close>

lemma done_mirrors:
  assumes "\<exists>st p' s'. r = Inr (st, Some p', s') \<and> ready s' \<and> mirrors p' s'"
  shows "\<exists>out p' s'. done_cmd cmd r = Inr (out, Some p', s') \<and> ready s' \<and> mirrors p' s'"
  using assms by (auto simp: done_cmd_def)

lemma cmd_mirrors:
  assumes r: "ready s" and m: "mirrors p s" and plain: "plain_cmd cmd"
  shows "\<exists>out p' s'. cmd_firewall_parsed call ev cmd (Some p) s = Inr (out, Some p', s') \<and> ready s' \<and> mirrors p' s'"
proof (cases "parse_tokenize_string (Some cmd) 17")
  case (Inl e)
  then show ?thesis using r m by (simp add: cmd_firewall_parsed_def)
next
  case (Inr tokens)
  define G where "G r \<longleftrightarrow> (\<exists>out p' s'. r = Inr (out, Some p', s') \<and> ready s' \<and> mirrors p' s')"
    for r :: "(cmd_out \<times> fw_fe option \<times> 's) res"
  have complain: "G (Inr (Complain msg, Some p, s))" for msg using r m by (simp add: G_def)
  have add: "G (done_cmd cmd (app_pipeline_firewall_add_rule call al (Some p) (Some key) pri port s))" for cmd al key pri port
    unfolding G_def by (rule done_mirrors) (use add_mirrors [OF r m, of al key pri port] in blast)
  have del: "G (done_cmd cmd (app_pipeline_firewall_delete_rule call al (Some p) (Some key) s))" for cmd al key
    unfolding G_def by (rule done_mirrors) (use delete_mirrors [OF r m, of al key] in blast)
  have add_d: "G (done_cmd cmd (app_pipeline_firewall_add_default_rule call al (Some p) port s))" for cmd al port
    unfolding G_def by (rule done_mirrors) (use add_default_mirrors [OF r m, of al port] in blast)
  have del_d: "G (done_cmd cmd (app_pipeline_firewall_delete_default_rule call al (Some p) s))" for cmd al
    unfolding G_def by (rule done_mirrors) (use delete_default_mirrors [OF r m, of al] in blast)
  have if_rule: "(b \<Longrightarrow> G x) \<Longrightarrow> (\<not> b \<Longrightarrow> G y) \<Longrightarrow> G (if b then x else y)" for b x y by simp
  have case_rule: "(\<And>e. G (f e)) \<Longrightarrow> (\<And>v. G (h v)) \<Longrightarrow> G (case t of Inl e \<Rightarrow> f e | Inr v \<Rightarrow> h v)" for f h and t :: "'x + 'y"
    by (cases t) simp_all
  have "\<not> (length tokens = 1 \<and> tokens ! 0 = ''ls'')" "length tokens \<ge> 2 \<longrightarrow> tokens ! 1 \<noteq> ''bulk''"
    using plain Inr by (auto simp: plain_cmd_def length_Suc_conv)
  then have "G (cmd_firewall_parsed call ev cmd (Some p) s)" unfolding cmd_firewall_parsed_def Inr Let_def sum.case
    by (intro if_rule case_rule complain add del add_d del_d) simp_all
  then show ?thesis by (simp add: G_def)
qed

lemma session_mirrors:
  assumes "ready s" and "mirrors p s" and "\<forall>(ev, cmd) \<in> set cmds. plain_cmd cmd"
  shows "\<exists>p' s'. fe_session call cmds (Some p, s) = Inr (Some p', s') \<and> ready s' \<and> mirrors p' s'"
proof -
  let ?I = "\<lambda>(fe, s). \<exists>p. fe = Some p \<and> ready s \<and> mirrors p s"
  have "\<exists>t. fe_session call cmds (Some p, s) = Inr t \<and> ?I t" unfolding fe_session_def
  proof (rule rfold_total)
    show "?I (Some p, s)" using assms by simp
    fix i fs assume i: "i \<in> set cmds" and fs: "?I fs"
    obtain ev cmd fe s0 where e: "i = (ev, cmd)" "fs = (fe, s0)" by (metis prod.exhaust)
    then obtain q where q: "fe = Some q" "ready s0" "mirrors q s0" "plain_cmd cmd" using fs i assms(3) by auto
    from cmd_mirrors [OF q(2-4), of ev] show "\<exists>t. (\<lambda>(ev, cmd) (fe, s). rbind (cmd_firewall_parsed call ev cmd fe s) (\<lambda>(_, fe, s). Inr (fe, s))) i fs = Inr t \<and> ?I t"
      using e q(1) by auto
  qed
  then show ?thesis by auto
qed

end

end
