(* ===== verification/Firewall_Channel.thy ===== *)
theory Firewall_Channel
  imports Firewall_Mirror Firewall_Loop
begin

text \<open>
  The exchange of a message between the front end on the host and the enclave: \<open>app_msg_send_recv\<close> of
  src/App/ip_pipeline/pipeline/pipeline_common_fe.h, with the main loop of the enclave running meanwhile.
  The state is the loop counter of the enclave's thread, its back end, the message rings and the memory.
\<close>

section \<open>Sending and receiving\<close>

type_synonym 'rt system = "u32 \<times> 'rt pipeline_firewall \<times> fw_msgs \<times> 'rt fw_world"

text \<open>
  The loop that sends tries again while the ring is full; \<open>other n\<close> is what the other threads do to the state
  before the next attempt, and the fuel bounds the attempts. The loop that receives polls until the deadline
  is over: the clock allows a number of polls.
\<close>

primrec fe_send :: "nat \<Rightarrow> (nat \<Rightarrow> 'rt system \<Rightarrow> 'rt system) \<Rightarrow> nat \<Rightarrow> fw_req \<Rightarrow> 'rt system \<Rightarrow> 'rt system res" where
  "fe_send 0 other i req s = Inl OutOfFuel"
| "fe_send (Suc n) other i req s = (case s of (c, p, ms, g) \<Rightarrow>
     rbind (arr_at (req_rings ms) i) (\<lambda>r. rbind (rte_ring_sp_enqueue req r) (\<lambda>(status, r).
     let s = (c, p, ms\<lparr>req_rings := (req_rings ms)[i := r]\<rparr>, g)
     in if status = - ENOBUFS then fe_send n other i req (other n s) else Inr s)))"

primrec fe_recv :: "nat \<Rightarrow> (nat \<Rightarrow> 'rt system \<Rightarrow> 'rt system) \<Rightarrow> nat \<Rightarrow> 'rt system \<Rightarrow> (fw_rsp option \<times> 'rt system) res" where
  "fe_recv 0 other k s = Inr (None, s)"
| "fe_recv (Suc n) other k s = (case s of (c, p, ms, g) \<Rightarrow>
     rbind (arr_at (rsp_rings ms) k) (\<lambda>r. rbind (rte_ring_sc_dequeue r) (\<lambda>(status, msg, r).
     let s = (c, p, ms\<lparr>rsp_rings := (rsp_rings ms)[k := r]\<rparr>, g)
     in if status \<noteq> 0 then fe_recv n other k (other n s) else Inr (msg, s))))"

text \<open>The rings are found by the name of the queue; None is NULL.\<close>

definition app_msg_send_recv ::
  "nat \<Rightarrow> (nat \<Rightarrow> 'rt system \<Rightarrow> 'rt system) \<Rightarrow> nat \<Rightarrow> (nat \<Rightarrow> 'rt system \<Rightarrow> 'rt system) \<Rightarrow> nat option \<Rightarrow> nat option \<Rightarrow>
   'rt system exchange" where
  "app_msg_send_recv fuel other polls other' r_req r_rsp req s =
     (case r_req of None \<Rightarrow> Inl NullDeref
      | Some i \<Rightarrow> rbind (fe_send fuel other i req s) (\<lambda>s.
          case r_rsp of None \<Rightarrow> Inl NullDeref | Some k \<Rightarrow> fe_recv polls other' k (other' polls s)))"

definition app_msg_send ::
  "nat \<Rightarrow> (nat \<Rightarrow> 'rt system \<Rightarrow> 'rt system) \<Rightarrow> nat option \<Rightarrow> fw_req \<Rightarrow> 'rt system \<Rightarrow> 'rt system res" where
  "app_msg_send fuel other r_req req s =
     (case r_req of None \<Rightarrow> Inl NullDeref | Some i \<Rightarrow> fe_send fuel other i req s)"

definition app_msg_recv :: "nat option \<Rightarrow> 'rt system \<Rightarrow> (fw_rsp option \<times> 'rt system) res" where
  "app_msg_recv r_rsp s = (case s of (c, p, ms, g) \<Rightarrow> (case r_rsp of None \<Rightarrow> Inl NullDeref
     | Some k \<Rightarrow> rbind (arr_at (rsp_rings ms) k) (\<lambda>r. rbind (rte_ring_sc_dequeue r) (\<lambda>(status, msg, r).
         Inr (if status \<noteq> 0 then None else msg, (c, p, ms\<lparr>rsp_rings := (rsp_rings ms)[k := r]\<rparr>, g))))))"

section \<open>The enclave meanwhile\<close>

text \<open>A number of iterations of the main loop; a thread that faulted does nothing any more.\<close>

primrec enclave_runs :: "(u32 \<Rightarrow> 's \<Rightarrow> 's res) \<Rightarrow> nat \<Rightarrow> u32 \<times> 's \<Rightarrow> u32 \<times> 's" where
  "enclave_runs iter 0 cs = cs"
| "enclave_runs iter (Suc k) cs = (case iter (fst cs) (snd cs) of Inl _ \<Rightarrow> cs
     | Inr s \<Rightarrow> enclave_runs iter k (fst cs + 1, s))"

text \<open>What the front end can observe of the table: the rules with their priorities, and the default entry.\<close>

record fw_shown =
  sh_acl :: "rte_acl_field_def list rte_table_acl"
  sh_default :: rte_pipeline_table_entry

definition fw_view :: "'rt pipeline_firewall \<Rightarrow> 'rt fw_world \<Rightarrow> fw_shown" where
  "fw_view p g = \<lparr>sh_acl = fw_acl p g, sh_default = fw_default p\<rparr>"

lemma run_view:
  assumes inv: "fw_inv S p g" and n: "1 \<le> n"
    and run: "run_pipeline n (world_mbuf_ops (su_outside S) (Suc (su_fuel S)) md) (p, ms, g) = Inr (p', ms', g')"
  shows "fw_view p' g' = fw_view p g"
proof -
  let ?K = "\<lambda>as hp pkt. acl_sized (h_table (tables (be_p p) ! 0)) (su_n_rules S) as \<and> as = acls (rest g)"
  have "filter_inv ?K (su_outside S) (Suc (su_fuel S)) (su_lib S) (su_match S) (su_asserts S) (su_sketch S) (be_p p) g"
    using inv by (simp add: fw_inv_def filter_inv_def mem_ok_def pool_ok_def)
  moreover have "port_chain (be_p p)" "length (tables (be_p p)) \<le> n" using inv n by (simp_all add: fw_inv_def ids_ok_def)
  ultimately obtain r q g1 where r: "rte_pipeline_run n (world_mbuf_ops (su_outside S) (Suc (su_fuel S)) md) (be_p p) g = Inr (r, q, g1)"
      "filter_inv ?K (su_outside S) (Suc (su_fuel S)) (su_lib S) (su_match S) (su_asserts S) (su_sketch S) q g1"
    using filter_run_law [of ?K] by blast
  have "p' = p\<lparr>be_p := q\<rparr>" "g' = g1" using run r(1) by (simp_all add: run_pipeline_def)
  moreover have "acls (rest g1) = acls (rest g)" using r(2) by (simp add: filter_inv_def mem_ok_def pool_ok_def)
  moreover have "tables q = tables (be_p p)" using run_frame [OF r(1)] by (metis rte_pipeline.select_convs(6) rte_pipeline.surjective rte_pipeline.update_convs(8,9))
  ultimately show ?thesis by (simp add: fw_view_def fw_acl_def fw_default_def)
qed

lemma flush_acls:
  assumes "fw_inv S p g" and "set ports \<subseteq> set (ports_out (be_p p))"
    and "rfold (\<lambda>port. opt_call (po_flush (pout_ops port)) (pout_h port)) ports g = Inr g'"
  shows "acls (rest g') = acls (rest g)"
  using assms
proof (induction ports arbitrary: g)
  case (Cons port ports)
  obtain g1 where a: "opt_call (po_flush (pout_ops port)) (pout_h port) g = Inr g1"
      "rfold (\<lambda>port. opt_call (po_flush (pout_ops port)) (pout_h port)) ports g1 = Inr g'"
    using Cons.prems(3) by (auto elim: rbind_eq_InrE)
  have inv1: "fw_inv S p g1" using flush_port [OF Cons.prems(1), of port] Cons.prems(2) a(1) by auto
  have "port_out_ok (su_outside S) (Suc (su_fuel S)) g port" using Cons.prems(1,2) by (simp add: fw_inv_def filter_inv_def)
  then have "acls (rest g1) = acls (rest g)"
  proof (cases rule: port_out_okE)
    case (ring mp q)
    have "mem_ok (pool_ok (su_outside S) (\<lambda>as hp pkt. as = acls (rest g))) g"
      using fw_inv_mem [OF Cons.prems(1)] by (simp add: mem_ok_def pool_ok_def)
    from enclave.writer_flush_law [OF this ring(5,6), of "su_fuel S" mp] show ?thesis
      using a(1) ring(3) by (auto simp: opt_call_def mem_ok_def pool_ok_def)
  next
    case (sink st)
    then show ?thesis using a(1) by (simp add: opt_call_def)
  qed
  then show ?case using Cons.IH [OF inv1] Cons.prems(2) a(2) by simp
qed simp

lemma flush_view:
  assumes "fw_inv S p g" and "rte_pipeline_flush (Some (be_p p)) g = Inr (st, g')"
  shows "fw_view p g' = fw_view p g"
proof -
  have "rfold (\<lambda>port. opt_call (po_flush (pout_ops port)) (pout_h port)) (ports_out (be_p p)) g = Inr g'"
    using assms(2) by (auto simp: rte_pipeline_flush_def elim!: rbind_eq_InrE)
  from flush_acls [OF assms(1) subset_refl this] show ?thesis by (simp add: fw_view_def fw_acl_def)
qed

section \<open>One queue\<close>

text \<open>The state of the queue between the front end and the enclave, and what the table shows.\<close>

definition chan where
  "chan S fuel i k N reqs rsps v = (\<lambda>(p, ms, g). thread_inv S fuel (p, ms, g) \<and> be_n_msgq p = 1 \<and> queue_rings p ms 0 i k \<and>
     contents (req_rings ms ! i) = reqs \<and> contents (rsp_rings ms ! k) = rsps \<and> 0 < capacity (req_rings ms ! i) \<and>
     1 < capacity (rsp_rings ms ! k) \<and> be_n_ports_out p = N \<and> fw_view p g = v)"

text \<open>A request was served: some sound firewall that shows \<open>v\<close> handled it, and shows \<open>v'\<close> then.\<close>

definition served where
  "served S ba N v req rsp v' \<longleftrightarrow> (\<exists>p g p' g'. fw_inv S p g \<and> be_n_ports_out p = N \<and> fw_view p g = v \<and>
     handle_req ba p req g = Inr (rsp, p', g') \<and> fw_view p' g' = v')"

lemma chan_kept:
  assumes "chan S fuel i k N reqs rsps v (p, ms, g)" and "kept S p g p' g'" and "fw_view p' g' = v"
  shows "chan S fuel i k N reqs rsps v (p', ms, g')"
  using assms(1,3) kept_be [OF assms(2)] kept_queues [OF assms(2)] by (simp add: chan_def thread_inv_def)

lemma timer_chan:
  assumes c: "chan S fuel i k N reqs rsps v (p, ms, g)"
  shows "\<exists>s' out v'. pipeline_firewall_timer fuel (Suc sf) env ba (p, ms, g) = Inr s' \<and>
    chan S fuel i k N [] (rsps @ out) v' s' \<and> (reqs = [] \<longrightarrow> out = [] \<and> v' = v) \<and>
    (\<forall>req. reqs = [req] \<longrightarrow> (\<exists>rsp. out = [rsp] \<and> served S ba N v req rsp v'))"
proof -
  have a: "thread_inv S fuel (p, ms, g)" "fw_inv S p g" "queues_ok fuel p ms" "be_n_msgq p = 1" "queue_rings p ms 0 i k"
      "contents (req_rings ms ! i) = reqs" "contents (rsp_rings ms ! k) = rsps" "0 < capacity (req_rings ms ! i)"
      "1 < capacity (rsp_rings ms ! k)" "be_n_ports_out p = N" "fw_view p g = v"
    using c by (simp_all add: chan_def thread_inv_def)
  have zero: "0 < be_n_msgq p" using a(4) by simp
  note b = queue_bounds [OF a(3) zero a(5)]
  have "capacity (rsp_rings ms ! k) < fuel"
    using a(3,5) zero unfolding queues_ok_def queue_ready_def queue_rings_def by force
  then have "length reqs < fuel" "\<forall>req \<in> set reqs. req_ok p req"
      "length (contents (rsp_rings ms ! k)) + length reqs \<le> capacity (rsp_rings ms ! k)"
    using b(1,2) a(6) by (simp_all del: length_contents)
  from msg_loop_answers [OF a(2,5,6) this(2,3,1), of ba sf env]
  obtain out p1 g1 ri ro where h: "handle_all ba reqs p g = Inr (out, p1, g1)" "kept S p g p1 g1"
      "msg_loop fuel (Suc sf) env ba 0 (p, ms, g) =
        Inr (p1, ms\<lparr>req_rings := (req_rings ms)[i := ri], rsp_rings := (rsp_rings ms)[k := ro]\<rparr>, g1)"
      "ring_ok ri" "contents ri = []" "ring_ok ro" "contents ro = contents (rsp_rings ms ! k) @ out"
      "capacity ro = capacity (rsp_rings ms ! k)" "capacity ri = capacity (req_rings ms ! i)" by blast
  let ?ms = "ms\<lparr>req_rings := (req_rings ms)[i := ri], rsp_rings := (rsp_rings ms)[k := ro]\<rparr>"
  obtain g2 where f: "rte_pipeline_flush (Some (be_p p1)) g1 = Inr (0, g2)" "kept S p1 g1 p1 g2"
    using flush_law [OF kept_be(5) [OF h(2)]] by blast
  have t: "pipeline_firewall_timer fuel (Suc sf) env ba (p, ms, g) = Inr (p1, ?ms, g2)"
    using h(3) f(1) a(4) by (simp add: pipeline_firewall_timer_def pipeline_msg_req_handle_def)
  have inv: "thread_inv S fuel (p1, ?ms, g2)"
    using timer_kept [OF a(1), of sf env ba] t iter_keptD(1) by fastforce
  have fv: "fw_view p1 g2 = fw_view p1 g1" by (rule flush_view [OF kept_be(5) [OF h(2)] f(1)])
  have "queue_rings p1 ?ms 0 i k" using a(5) h(4,6) kept_be [OF h(2)] by (simp add: queue_rings_def)
  then have "chan S fuel i k N [] (rsps @ out) (fw_view p1 g1) (p1, ?ms, g2)"
    using inv a(4,5,7-10) h kept_be [OF h(2)] fv by (auto simp: chan_def queue_rings_def)
  moreover have "out = [] \<and> fw_view p1 g1 = v" if "reqs = []" using that h(1) a(11) by simp
  moreover have "\<exists>rsp. out = [rsp] \<and> served S ba N v req rsp (fw_view p1 g1)" if "reqs = [req]" for req
    using that h(1) a(2,10,11) by (fastforce simp: served_def elim!: rbind_eq_InrE)
  ultimately show ?thesis using t by blast
qed

text \<open>One iteration of the main loop: it serves the queue when its counter is a multiple of 16.\<close>

lemma iter_chan:
  assumes c: "chan S fuel i k N reqs rsps v s" and n: "1 \<le> n"
  shows "\<exists>s' out v'. firewall_iter S n md fuel (Suc sf) env ba j s = Inr s' \<and>
    (if j AND 0xF = 0 then chan S fuel i k N [] (rsps @ out) v' s' \<and> (reqs = [] \<longrightarrow> out = [] \<and> v' = v) \<and>
       (\<forall>req. reqs = [req] \<longrightarrow> (\<exists>rsp. out = [rsp] \<and> served S ba N v req rsp v'))
     else chan S fuel i k N reqs rsps v s')"
proof -
  obtain p ms g where s: "s = (p, ms, g)" by (metis prod_cases3)
  have inv: "fw_inv S p g" and v: "fw_view p g = v" using c by (simp_all add: s chan_def thread_inv_def)
  obtain p1 g1 where a: "run_pipeline n (world_mbuf_ops (su_outside S) (Suc (su_fuel S)) md) (p, ms, g) = Inr (p1, ms, g1)"
      "kept S p g p1 g1" using run_kept [OF inv n] by blast
  have c1: "chan S fuel i k N reqs rsps v (p1, ms, g1)"
    by (rule chan_kept [OF c [unfolded s] a(2)]) (use run_view [OF inv n a(1)] v in simp)
  obtain s' out v' where t: "pipeline_firewall_timer fuel (Suc sf) env ba (p1, ms, g1) = Inr s'"
      "chan S fuel i k N [] (rsps @ out) v' s'" "reqs = [] \<longrightarrow> out = [] \<and> v' = v"
      "\<forall>req. reqs = [req] \<longrightarrow> (\<exists>rsp. out = [rsp] \<and> served S ba N v req rsp v')"
    using timer_chan [OF c1, of sf env ba] by (elim exE conjE) (rule that)
  show ?thesis
  proof (cases "j AND 0xF = 0")
    case True
    then show ?thesis using a(1) t
      by (intro exI [of _ s'] exI [of _ out] exI [of _ v']) (simp add: s firewall_iter_def thread_iter_def)
  next
    case False
    then show ?thesis using a(1) c1
      by (intro exI [of _ "(p1, ms, g1)"] exI [of _ "[]"] exI [of _ v]) (simp add: s firewall_iter_def thread_iter_def)
  qed
qed

text \<open>Some iterations: a queue without requests stays as it is; a request waits until a multiple of 16 comes by.\<close>

lemma runs_idle:
  assumes "chan S fuel i k N [] rsps v s" and "1 \<le> n"
  shows "\<exists>s'. enclave_runs (firewall_iter S n md fuel (Suc sf) env ba) m (j, s) = (j + of_nat m, s') \<and>
    chan S fuel i k N [] rsps v s'"
  using assms(1)
proof (induction m arbitrary: j s)
  case (Suc m)
  obtain s1 where a: "firewall_iter S n md fuel (Suc sf) env ba j s = Inr s1" "chan S fuel i k N [] rsps v s1"
    using iter_chan [OF Suc.prems assms(2), of md sf env ba j] by (auto split: if_splits)
  from Suc.IH [OF a(2), of "j + 1"] a(1) show ?case by (auto simp: algebra_simps)
qed simp

lemma runs_pending:
  assumes "chan S fuel i k N [req] [] v s" and "1 \<le> n"
  shows "\<exists>s'. enclave_runs (firewall_iter S n md fuel (Suc sf) env ba) m (j, s) = (j + of_nat m, s') \<and>
    (chan S fuel i k N [req] [] v s' \<and> (\<forall>l < m. (j + of_nat l) AND 0xF \<noteq> 0) \<or>
     (\<exists>rsp v'. chan S fuel i k N [] [rsp] v' s' \<and> served S ba N v req rsp v'))"
  using assms(1)
proof (induction m arbitrary: j s)
  case (Suc m)
  obtain s1 out v' where a: "firewall_iter S n md fuel (Suc sf) env ba j s = Inr s1"
      "if j AND 0xF = 0 then chan S fuel i k N [] ([] @ out) v' s1 \<and> ([req] = [] \<longrightarrow> out = [] \<and> v' = v) \<and>
         (\<forall>req'. [req] = [req'] \<longrightarrow> (\<exists>rsp. out = [rsp] \<and> served S ba N v req' rsp v'))
       else chan S fuel i k N [req] [] v s1"
    using iter_chan [OF Suc.prems assms(2), of md sf env ba j] by (elim exE conjE) (rule that)
  have e: "j + 1 + of_nat m = j + of_nat (Suc m)" by simp
  show ?case
  proof (cases "j AND 0xF = 0")
    case True
    then obtain rsp where r: "chan S fuel i k N [] [rsp] v' s1" "served S ba N v req rsp v'" using a(2) by auto
    from runs_idle [OF r(1) assms(2), of md sf env ba m "j + 1"] obtain s' where
        "enclave_runs (firewall_iter S n md fuel (Suc sf) env ba) m (j + 1, s1) = (j + 1 + of_nat m, s')"
        "chan S fuel i k N [] [rsp] v' s'" by blast
    then show ?thesis using a(1) r(2) unfolding e by auto
  next
    case False
    then have c: "chan S fuel i k N [req] [] v s1" using a(2) by simp
    have all: "(\<forall>l < Suc m. (j + of_nat l) AND 0xF \<noteq> 0) \<longleftrightarrow> (\<forall>l < m. (j + 1 + of_nat l) AND 0xF \<noteq> 0)"
      using False unfolding All_less_Suc2 by (simp add: algebra_simps)
    show ?thesis unfolding all using Suc.IH [OF c, of "j + 1"] a(1) unfolding e by simp
  qed
qed simp

lemma runs_first:
  assumes "chan S fuel i k N reqs (rsp # rsps) v s" and "1 \<le> n"
  shows "\<exists>s' reqs' rsps' v'. enclave_runs (firewall_iter S n md fuel (Suc sf) env ba) m (j, s) = (j + of_nat m, s') \<and>
    chan S fuel i k N reqs' (rsp # rsps') v' s'"
  using assms(1)
proof (induction m arbitrary: j s reqs rsps v)
  case (Suc m)
  obtain s1 reqs1 rsps1 v1 where a: "firewall_iter S n md fuel (Suc sf) env ba j s = Inr s1" "chan S fuel i k N reqs1 (rsp # rsps1) v1 s1"
    using iter_chan [OF Suc.prems assms(2), of md sf env ba j] by (auto split: if_splits)
  from Suc.IH [OF a(2), of "j + 1"] a(1) show ?case by (auto simp: algebra_simps)
qed auto

section \<open>The exchange\<close>

lemma short: "length [] \<le> (1 :: nat)" "length [x] \<le> (1 :: nat)"
  by simp_all

lemma send_chan:
  assumes "chan S fuel i k N [] rsps v s" and "length rsps \<le> 1" and "req_ok (fst s) req"
  shows "\<exists>s'. fe_send (Suc f) other i req (c, s) = Inr (c, s') \<and> chan S fuel i k N [req] rsps v s'"
proof -
  obtain p ms g where s: "s = (p, ms, g)" by (metis prod_cases3)
  have a: "fw_inv S p g" "queues_ok fuel p ms" "be_n_msgq p = 1" "queue_rings p ms 0 i k" "contents (req_rings ms ! i) = []"
      "contents (rsp_rings ms ! k) = rsps" "0 < capacity (req_rings ms ! i)" "1 < capacity (rsp_rings ms ! k)"
      "be_n_ports_out p = N" "fw_view p g = v"
    using assms(1) by (simp_all add: chan_def thread_inv_def s)
  have i: "i < length (req_rings ms)" "ring_ok (req_rings ms ! i)" using a(4) by (simp_all add: queue_rings_def)
  obtain r where r: "rte_ring_sp_enqueue req (req_rings ms ! i) = Inr (0, r)" "ring_ok r"
      "capacity r = capacity (req_rings ms ! i)" "contents r = [req]"
    using single_ring.put_room [OF i(2), of req] a(5,7) by (auto simp del: length_contents)
  have z: "0 < be_n_msgq p" using a(3) by simp
  have "queues_ok fuel p (ms\<lparr>req_rings := (req_rings ms)[i := r]\<rparr>)"
    by (rule request_queues [OF a(2) z a(4) _ _ r(1)]) (use assms(2,3) a(5,6,8) s in \<open>simp_all del: length_contents\<close>)
  then have "chan S fuel i k N [req] rsps v (p, ms\<lparr>req_rings := (req_rings ms)[i := r]\<rparr>, g)"
    using a i r by (simp add: chan_def thread_inv_def queue_rings_def)
  then show ?thesis using r(1) i(1) by (simp add: s arr_at_def)
qed

lemma recv_answer:
  assumes "chan S fuel i k N reqs (rsp # rsps) v s"
  shows "\<exists>s'. fe_recv (Suc m) other k (c, s) = Inr (Some rsp, (c, s')) \<and> chan S fuel i k N reqs rsps v s'"
proof -
  obtain p ms g where s: "s = (p, ms, g)" by (metis prod_cases3)
  have a: "fw_inv S p g" "queues_ok fuel p ms" "be_n_msgq p = 1" "queue_rings p ms 0 i k" "contents (req_rings ms ! i) = reqs"
      "contents (rsp_rings ms ! k) = rsp # rsps" "0 < capacity (req_rings ms ! i)" "1 < capacity (rsp_rings ms ! k)"
      "be_n_ports_out p = N" "fw_view p g = v"
    using assms by (simp_all add: chan_def thread_inv_def s)
  have k: "k < length (rsp_rings ms)" "ring_ok (rsp_rings ms ! k)" using a(4) by (simp_all add: queue_rings_def)
  obtain r where r: "rte_ring_sc_dequeue (rsp_rings ms ! k) = Inr (0, Some rsp, r)" "ring_ok r"
      "capacity r = capacity (rsp_rings ms ! k)" "contents r = rsps"
    using single_ring.get_Cons [OF k(2) a(6)] by blast
  have z: "0 < be_n_msgq p" using a(3) by simp
  have "queues_ok fuel p (ms\<lparr>rsp_rings := (rsp_rings ms)[k := r]\<rparr>)" by (rule collect_queues [OF a(2) z a(4) r(1)])
  then have "chan S fuel i k N reqs rsps v (p, ms\<lparr>rsp_rings := (rsp_rings ms)[k := r]\<rparr>, g)"
    using a k r by (simp add: chan_def thread_inv_def queue_rings_def)
  then show ?thesis using r(1) k(1) by (simp add: s arr_at_def)
qed

lemma recv_nothing:
  assumes "chan S fuel i k N reqs [] v s"
  shows "\<exists>s'. fe_recv (Suc m) other k (c, s) = fe_recv m other k (other m (c, s')) \<and> chan S fuel i k N reqs [] v s'"
proof -
  obtain p ms g where s: "s = (p, ms, g)" by (metis prod_cases3)
  have a: "fw_inv S p g" "queues_ok fuel p ms" "be_n_msgq p = 1" "queue_rings p ms 0 i k" "contents (req_rings ms ! i) = reqs"
      "contents (rsp_rings ms ! k) = []" "0 < capacity (req_rings ms ! i)" "1 < capacity (rsp_rings ms ! k)"
      "be_n_ports_out p = N" "fw_view p g = v"
    using assms by (simp_all add: chan_def thread_inv_def s)
  have k: "k < length (rsp_rings ms)" "ring_ok (rsp_rings ms ! k)" using a(4) by (simp_all add: queue_rings_def)
  obtain r where r: "rte_ring_sc_dequeue (rsp_rings ms ! k) = Inr (- ENOENT, None, r)" "ring_ok r"
      "capacity r = capacity (rsp_rings ms ! k)" "contents r = []"
    using single_ring.get_Nil [OF k(2) a(6)] by blast
  have z: "0 < be_n_msgq p" using a(3) by simp
  note b = queue_bounds [OF a(2) z a(4)]
  have "queues_ok fuel p (ms\<lparr>rsp_rings := (rsp_rings ms)[k := r]\<rparr>)"
    by (rule queue_changed [OF a(2) z a(4), where ri = "req_rings ms ! i" and ro = r]) (use b r a(6) in \<open>simp_all del: length_contents\<close>)
  then have "chan S fuel i k N reqs [] v (p, ms\<lparr>rsp_rings := (rsp_rings ms)[k := r]\<rparr>, g)"
    using a k r by (simp add: chan_def thread_inv_def queue_rings_def)
  then show ?thesis using r(1) k(1) by (auto simp: s arr_at_def)
qed

text \<open>The polls of the front end, with \<open>its\<close> iterations of the enclave before each of them.\<close>

lemma polled:
  assumes "chan S fuel i k N [req] [] v s" and "1 \<le> n" and "\<exists>l < sum its {1..Suc m}. (c + of_nat l) AND 0xF = 0"
    and other: "other = (\<lambda>j. enclave_runs (firewall_iter S n md fuel (Suc sf) env ba) (its j))"
  shows "\<exists>rsp c' s' v'. fe_recv (Suc m) other k (other (Suc m) (c, s)) = Inr (Some rsp, (c', s')) \<and>
    chan S fuel i k N [] [] v' s' \<and> served S ba N v req rsp v'"
  using assms(1,3)
proof (induction m arbitrary: c s)
  case (0 c s)
  obtain s2 where b: "other 1 (c, s) = (c + of_nat (its 1), s2)"
      "chan S fuel i k N [req] [] v s2 \<and> (\<forall>l < its 1. (c + of_nat l) AND 0xF \<noteq> 0) \<or>
       (\<exists>rsp v'. chan S fuel i k N [] [rsp] v' s2 \<and> served S ba N v req rsp v')"
    using runs_pending [OF 0(1) assms(2), of md sf env ba "its 1" c] unfolding other by blast
  then obtain rsp v' where r: "chan S fuel i k N [] [rsp] v' s2" "served S ba N v req rsp v'" using 0(2) by auto
  show ?case using recv_answer [OF r(1), of 0 other] r(2) b(1) by (simp only: One_nat_def) blast
next
  case (Suc m)
  obtain s2 where b: "other (Suc (Suc m)) (c, s) = (c + of_nat (its (Suc (Suc m))), s2)"
      "chan S fuel i k N [req] [] v s2 \<and> (\<forall>l < its (Suc (Suc m)). (c + of_nat l) AND 0xF \<noteq> 0) \<or>
       (\<exists>rsp v'. chan S fuel i k N [] [rsp] v' s2 \<and> served S ba N v req rsp v')"
    using runs_pending [OF Suc.prems(1) assms(2), of md sf env ba "its (Suc (Suc m))" c] unfolding other by blast
  from b(2) show ?case
  proof (elim disjE conjE exE)
    assume c2: "chan S fuel i k N [req] [] v s2" and no: "\<forall>l < its (Suc (Suc m)). (c + of_nat l) AND 0xF \<noteq> 0"
    obtain l where l: "l < sum its {1..Suc (Suc m)}" "(c + of_nat l) AND 0xF = 0" using Suc.prems(2) by blast
    then have "its (Suc (Suc m)) \<le> l" using no by (meson not_le)
    then obtain l' where l': "l = its (Suc (Suc m)) + l'" using le_Suc_ex by blast
    have due: "l' < sum its {1..Suc m}" "(c + of_nat (its (Suc (Suc m))) + of_nat l') AND 0xF = 0"
      using l by (simp_all add: l' add.assoc)
    obtain s3 where a: "fe_recv (Suc (Suc m)) other k (c + of_nat (its (Suc (Suc m))), s2) =
        fe_recv (Suc m) other k (other (Suc m) (c + of_nat (its (Suc (Suc m))), s3))" "chan S fuel i k N [req] [] v s3"
      using recv_nothing [OF c2, of "Suc m" other] by blast
    show ?thesis unfolding b(1) a(1) using Suc.IH [OF a(2)] due by blast
  next
    fix rsp v' assume r: "chan S fuel i k N [] [rsp] v' s2" "served S ba N v req rsp v'"
    show ?thesis unfolding b(1) using recv_answer [OF r(1), of "Suc m" other] r(2) by blast
  qed
qed

text \<open>An exchange is answered in time if the enclave gets through 16 iterations of its loop meanwhile.\<close>

lemma exchange_served:
  assumes c: "chan S fuel i k N [] [] v s" and n: "1 \<le> n" and req: "req_ok (fst s) req" and its: "16 \<le> sum its {1..m}"
  shows "\<exists>rsp c' s' v'. app_msg_send_recv (Suc f) other m (\<lambda>j. enclave_runs (firewall_iter S n md fuel (Suc sf) env ba) (its j))
      (Some i) (Some k) req (c, s) = Inr (Some rsp, (c', s')) \<and> chan S fuel i k N [] [] v' s' \<and> served S ba N v req rsp v'"
proof -
  obtain m' where m: "m = Suc m'" using its by (cases m) auto
  obtain s1 where a: "fe_send (Suc f) other i req (c, s) = Inr (c, s1)" "chan S fuel i k N [req] [] v s1"
    using send_chan [OF c short(1) req] by blast
  obtain l where l: "l < 16" "(c + of_nat l) AND 0xF = 0" using timer_due [of c] by blast
  then have "\<exists>l < sum its {1..Suc m'}. (c + of_nat l) AND 0xF = 0" using its unfolding m by (meson order_less_le_trans)
  from polled [OF a(2) n this refl] show ?thesis unfolding m app_msg_send_recv_def a(1) option.case rbind_Inr .
qed

text \<open>An exchange during which the enclave does nothing ends without an answer; the request stays in the ring.\<close>

lemma recv_timeout:
  assumes "chan S fuel i k N reqs [] v s"
  shows "\<exists>s'. fe_recv m (\<lambda>_ s. s) k (c, s) = Inr (None, (c, s')) \<and> chan S fuel i k N reqs [] v s'"
  using assms
proof (induction m arbitrary: s)
  case (Suc m)
  from recv_nothing [OF Suc.prems, of m "\<lambda>_ s. s" c] Suc.IH show ?case by metis
qed auto

lemma exchange_timeout:
  assumes "chan S fuel i k N [] [] v s" and "req_ok (fst s) req"
  shows "\<exists>s'. app_msg_send_recv (Suc f) other m (\<lambda>_ s. s) (Some i) (Some k) req (c, s) = Inr (None, (c, s')) \<and>
    chan S fuel i k N [req] [] v s'"
proof -
  obtain s1 where a: "fe_send (Suc f) other i req (c, s) = Inr (c, s1)" "chan S fuel i k N [req] [] v s1"
    using send_chan [OF assms(1) short(1) assms(2)] by blast
  from recv_timeout [OF a(2)] show ?thesis unfolding app_msg_send_recv_def a(1) option.case rbind_Inr .
qed

text \<open>Whatever waits in the response ring is taken for the answer.\<close>

lemma exchange_stale:
  assumes c: "chan S fuel i k N [] [late] v s" and "1 \<le> n" and req: "req_ok (fst s) req"
  shows "\<exists>s'. app_msg_send_recv (Suc f) other (Suc m) (\<lambda>j. enclave_runs (firewall_iter S n md fuel (Suc sf) env ba) (its j))
    (Some i) (Some k) req (c, s) = Inr (Some late, s')"
proof -
  obtain s1 where a: "fe_send (Suc f) other i req (c, s) = Inr (c, s1)" "chan S fuel i k N [req] [late] v s1"
    using send_chan [OF c short(2) req] by blast
  obtain s2 reqs rsps v2 where b: "enclave_runs (firewall_iter S n md fuel (Suc sf) env ba) (its (Suc m)) (c, s1) = (c + of_nat (its (Suc m)), s2)"
      "chan S fuel i k N reqs (late # rsps) v2 s2"
    using runs_first [OF a(2) assms(2), of md sf env ba "its (Suc m)" c] by blast
  from recv_answer [OF b(2)] show ?thesis unfolding app_msg_send_recv_def a(1) option.case rbind_Inr b(1) by blast
qed

section \<open>The service\<close>

text \<open>The table as the front end sees it: the priority and the port of a 5-tuple.\<close>

definition shown_rule :: "fw_shown \<Rightarrow> pipeline_firewall_key_ipv4_5tuple \<Rightarrow> (int \<times> nat) option" where
  "shown_rule v k = map_option (\<lambda>(q, e). (q, pte_id e)) (acl_map (sh_acl v) (rule_key (sh_acl v) (store_5tuple k zero_fields)))"

definition shown_room :: "fw_shown \<Rightarrow> bool" where
  "shown_room v \<longleftrightarrow> card (dom (acl_map (sh_acl v))) \<noteq> acl_n_rules (sh_acl v) - 1"

definition compiles :: "'rt fw_setup \<Rightarrow> bool" where
  "compiles S \<longleftrightarrow> (\<forall>g cfg. can_build (su_lib S) (su_ctx S g) cfg)"

abbreviation five_fields :: "fw_shown \<Rightarrow> bool" where
  "five_fields v \<equiv> acl_num_fields (sh_acl v) = 5"

lemma shown_cong: "sh_acl v' = sh_acl v \<Longrightarrow> shown_rule v' = shown_rule v"
  by (rule ext) (simp add: shown_rule_def)

lemma shown_view: "shown_rule (fw_view p g) k = map_option (\<lambda>(q, e). (q, pte_id e)) (fw_map p g (fw_key p g k))"
  by (simp add: shown_rule_def fw_view_def fw_map_def fw_key_def)

lemma room_view: "shown_room (fw_view p g) \<longleftrightarrow> card (dom (fw_map p g)) \<noteq> acl_n_rules (fw_acl p g) - 1"
  by (simp add: shown_room_def fw_view_def fw_map_def)

lemma key_inj: "five_fields (fw_view p g) \<Longrightarrow> fw_key p g k = fw_key p g k' \<longleftrightarrow> k = k'"
  using store_5tuple_inj [of k k'] by (simp add: fw_view_def fw_key_def rule_key_def)

lemma key_same: "five_fields (fw_view p g) \<Longrightarrow> five_fields (fw_view p' g') \<Longrightarrow> fw_key p' g' = fw_key p g"
  by (rule ext) (simp add: fw_view_def fw_key_def rule_key_def)

lemma shown_upd:
  assumes "five_fields (fw_view p g)" and "five_fields (fw_view p' g')" and "fw_map p' g' = (fw_map p g)(fw_key p g k := x)"
  shows "shown_rule (fw_view p' g') = (shown_rule (fw_view p g))(k := map_option (\<lambda>(q, e). (q, pte_id e)) x)"
  by (rule ext) (simp add: shown_view key_same [OF assms(1,2)] assms(3) key_inj [OF assms(1)])

lemmas handler_defs = handle_req_def handlers_def pipeline_firewall_msg_req_custom_handler_def custom_handlers_def

lemma served_add:
  assumes sv: "served S ba N v (add_request key pri port) rsp v'" and five: "five_fields v" and port: "port < N"
  shows "five_fields v' \<and> sh_default v' = sh_default v \<and>
    (if rs_status rsp = 0
     then (\<exists>pos. rs_out rsp = Out_Add (Some (shown_rule v (key_ipv4_5tuple key) \<noteq> None, pos))) \<and>
       shown_rule v' = (shown_rule v)(key_ipv4_5tuple key \<mapsto>
         (case shown_rule v (key_ipv4_5tuple key) of None \<Rightarrow> RTE_ACL_MAX_PRIORITY - sint pri | Some (q, _) \<Rightarrow> q, port))
     else shown_rule v' = shown_rule v) \<and>
    (compiles S \<longrightarrow> key_type key = 0 \<longrightarrow> (rs_status rsp = 0 \<longleftrightarrow> sint pri \<le> RTE_ACL_MAX_PRIORITY \<and>
       (shown_rule v (key_ipv4_5tuple key) \<noteq> None \<or> 0 \<le> sint pri \<and> shown_room v)))"
proof -
  obtain p g p' g' where a: "fw_inv S p g" "be_n_ports_out p = N" "v = fw_view p g"
      "handle_req ba p (add_request key pri port) g = Inr (rsp, p', g')" "v' = fw_view p' g'"
    using sv by (auto simp: served_def)
  have h: "pipeline_firewall_msg_req_add_handler p (add_request key pri port) g = Inr (rsp, p', g')"
    using a(4) by (simp add: handler_defs add_request_def)
  have pt: "port < be_n_ports_out p" using port a(2) by simp
  let ?k = "key_ipv4_5tuple key"
  have b: "rs_status rsp = 0 \<longrightarrow> fw_map p' g' = (fw_map p g)(fw_key p g ?k \<mapsto>
         (case fw_map p g (fw_key p g ?k) of None \<Rightarrow> RTE_ACL_MAX_PRIORITY - sint pri | Some (q, _) \<Rightarrow> q, port_entry port)) \<and>
       (\<exists>pos. rs_out rsp = Out_Add (Some (fw_map p g (fw_key p g ?k) \<noteq> None, pos)))"
      "rs_status rsp \<noteq> 0 \<longrightarrow> fw_map p' g' = fw_map p g"
      "acl_num_fields (fw_acl p' g') = acl_num_fields (fw_acl p g)" "fw_default p' = fw_default p"
      "can_build (su_lib S) (su_ctx S g) (acl_cfg (fw_acl p g)) \<longrightarrow>
        (rs_status rsp = 0 \<longleftrightarrow> key_type key = PIPELINE_FIREWALL_IPV4_5TUPLE \<and> sint pri \<le> RTE_ACL_MAX_PRIORITY \<and>
          (fw_map p g (fw_key p g ?k) \<noteq> None \<or> 0 \<le> sint pri \<and> card (dom (fw_map p g)) \<noteq> acl_n_rules (fw_acl p g) - 1))"
    using add_spec [OF a(1) _ pt, of "add_request key pri port" key "sint pri"] h by (auto simp: add_request_def)
  have acc: "compiles S \<longrightarrow> key_type key = 0 \<longrightarrow> (rs_status rsp = 0 \<longleftrightarrow> sint pri \<le> RTE_ACL_MAX_PRIORITY \<and>
      (shown_rule v ?k \<noteq> None \<or> 0 \<le> sint pri \<and> shown_room v))"
    using b(5) by (simp add: a(3) compiles_def shown_view room_view)
  have f: "five_fields (fw_view p g)" "five_fields (fw_view p' g')" using five a(3) b(3) by (simp_all add: fw_view_def)
  have d: "sh_default v' = sh_default v" using b(4) a(3,5) by (simp add: fw_view_def)
  show ?thesis
  proof (cases "rs_status rsp = 0")
    case True
    then have m: "shown_rule v' = (shown_rule v)(?k \<mapsto>
        (case fw_map p g (fw_key p g ?k) of None \<Rightarrow> RTE_ACL_MAX_PRIORITY - sint pri | Some (q, _) \<Rightarrow> q, port))"
      using shown_upd [OF f] b(1) a(3,5) by (simp add: port_entry_def)
    then show ?thesis using True b(1) f d acc a(3,5) by (auto simp: shown_view split: option.splits)
  next
    case False
    then have "fw_map p' g' = fw_map p g" using b(2) by blast
    then have "shown_rule v' = shown_rule v" using a(3,5) key_same [OF f] by (intro ext) (simp add: shown_view)
    then show ?thesis using False f d acc a(5) by simp
  qed
qed

lemma served_del:
  assumes sv: "served S ba N v (del_request key) rsp v'" and five: "five_fields v"
  shows "five_fields v' \<and> sh_default v' = sh_default v \<and>
    (if rs_status rsp = 0
     then rs_out rsp = Out_Del (Some (shown_rule v (key_ipv4_5tuple key) \<noteq> None)) \<and>
       shown_rule v' = (shown_rule v)(key_ipv4_5tuple key := None)
     else shown_rule v' = shown_rule v) \<and> (compiles S \<longrightarrow> key_type key = 0 \<longrightarrow> rs_status rsp = 0)"
proof -
  obtain p g p' g' where a: "fw_inv S p g" "v = fw_view p g" "handle_req ba p (del_request key) g = Inr (rsp, p', g')" "v' = fw_view p' g'"
    using sv by (auto simp: served_def)
  have h: "pipeline_firewall_msg_req_del_handler p (del_request key) g = Inr (rsp, p', g')"
    using a(3) by (simp add: handler_defs del_request_def)
  let ?k = "key_ipv4_5tuple key"
  have b: "rs_status rsp = 0 \<longrightarrow> fw_map p' g' = (fw_map p g)(fw_key p g ?k := None) \<and>
       rs_out rsp = Out_Del (Some (fw_map p g (fw_key p g ?k) \<noteq> None))" "rs_status rsp \<noteq> 0 \<longrightarrow> fw_map p' g' = fw_map p g"
      "acl_num_fields (fw_acl p' g') = acl_num_fields (fw_acl p g)" "fw_default p' = fw_default p"
      "compiles S \<longrightarrow> key_type key = 0 \<longrightarrow> rs_status rsp = 0" unfolding compiles_def
    using del_spec [OF a(1), of "del_request key" key] h by (auto simp: del_request_def)
  have f: "five_fields (fw_view p g)" "five_fields (fw_view p' g')" using five a(2) b(3) by (simp_all add: fw_view_def)
  have d: "sh_default v' = sh_default v" using b(4) a(2,4) by (simp add: fw_view_def)
  show ?thesis
  proof (cases "rs_status rsp = 0")
    case True
    then show ?thesis using shown_upd [OF f, of ?k None] b(1,5) a(2,4) f d by (simp add: shown_view)
  next
    case False
    then have "fw_map p' g' = fw_map p g" using b(2) by blast
    then have "shown_rule v' = shown_rule v" using a(2,4) key_same [OF f] by (intro ext) (simp add: shown_view)
    then show ?thesis using False f d a(4) b(5) by simp
  qed
qed

lemma kept_fields:
  assumes "fw_inv S p g" and "kept S p g p' g"
  shows "fw_acl p' g = fw_acl p g"
  using core_tableD [OF same_core_table [of "be_p p" "be_p p'" 0]] assms(2) ids_okD(4) [OF assms(1)] by (simp add: kept_def fw_acl_def)

lemma served_add_default:
  assumes sv: "served S ba N v (add_default_request port) rsp v'" and port: "port < N"
  shows "sh_acl v' = sh_acl v \<and> sh_default v' = port_entry port \<and> rsp = \<lparr>rs_status = 0, rs_out = Out_Default (Some (port_entry port))\<rparr>"
proof -
  obtain p g p' g' where a: "fw_inv S p g" "be_n_ports_out p = N" "v = fw_view p g"
      "handle_req ba p (add_default_request port) g = Inr (rsp, p', g')" "v' = fw_view p' g'"
    using sv by (auto simp: served_def)
  have h: "pipeline_firewall_msg_req_add_default_handler p (add_default_request port) g = Inr (rsp, p', g')"
    using a(4) by (simp add: handler_defs add_default_request_def eval_nat_numeral)
  have b: "rsp = \<lparr>rs_status = 0, rs_out = Out_Default (Some (port_entry port))\<rparr>" "g' = g" "kept S p g p' g" "fw_default p' = port_entry port"
    using add_default_spec [OF a(1), of "add_default_request port" port] a(2) port h by (auto simp: add_default_request_def)
  show ?thesis using b a(3,5) kept_fields [OF a(1) b(3)] by (simp add: fw_view_def)
qed

lemma served_del_default:
  assumes sv: "served S ba N v del_default_request rsp v'"
  shows "sh_acl v' = sh_acl v \<and> pte_action (sh_default v') = ACTION_DROP \<and> rs_status rsp = 0"
proof -
  obtain p g p' g' where a: "fw_inv S p g" "v = fw_view p g" "handle_req ba p del_default_request g = Inr (rsp, p', g')" "v' = fw_view p' g'"
    using sv by (auto simp: served_def)
  have h: "pipeline_firewall_msg_req_del_default_handler p del_default_request g = Inr (rsp, p', g')"
    using a(3) by (simp add: handler_defs del_default_request_def eval_nat_numeral)
  have b: "rsp = rsp_status 0" "g' = g" "kept S p g p' g" "pte_action (fw_default p') = ACTION_DROP"
    using del_default_spec [OF a(1), of del_default_request] h by auto
  show ?thesis using b a(2,4) kept_fields [OF a(1) b(3)] by (simp add: fw_view_def rsp_status_def)
qed

text \<open>
  The enclave behind its message rings as the service of the front end. It is ready when nothing is in
  flight, the enclave's state is sound, and during an exchange the enclave gets 16 iterations done.
\<close>

definition host_call where
  "host_call S n md fuel sf env ba f other its m i k =
     app_msg_send_recv (Suc f) other m (\<lambda>j. enclave_runs (firewall_iter S n md fuel (Suc sf) env ba) (its j)) (Some i) (Some k)"

definition host_ready where
  "host_ready S n fuel its m i k N = (\<lambda>(c :: u32, s). 1 \<le> (n :: nat) \<and> 16 \<le> (sum its {1..m :: nat} :: nat) \<and>
     (\<exists>v. chan S fuel i k N [] [] v s \<and> five_fields v))"

definition table_rule :: "'rt system \<Rightarrow> pipeline_firewall_key_ipv4_5tuple \<Rightarrow> (int \<times> nat) option" where
  "table_rule = (\<lambda>(c, p, ms, g). shown_rule (fw_view p g))"

definition table_default :: "'rt system \<Rightarrow> rte_pipeline_table_entry" where
  "table_default = (\<lambda>(c, p, ms, g). fw_default p)"

definition table_room :: "'rt system \<Rightarrow> bool" where
  "table_room = (\<lambda>(c, p, ms, g). shown_room (fw_view p g))"

lemma chan_shown:
  assumes "chan S fuel i k N reqs rsps v s"
  shows "table_rule (c, s) = shown_rule v" "table_default (c, s) = sh_default v" "table_room (c, s) = shown_room v" "be_n_ports_out (fst s) = N"
  using assms by (auto simp: chan_def table_rule_def table_default_def table_room_def fw_view_def)

lemma requests_ok:
  "port < be_n_ports_out p \<Longrightarrow> req_ok p (add_request key pri port)" "req_ok p (del_request key)"
  "port < be_n_ports_out p \<Longrightarrow> req_ok p (add_default_request port)" "req_ok p del_default_request"
  by (simp_all add: req_ok_def add_request_def del_request_def add_default_request_def del_default_request_def)

text \<open>What the table of the system shows.\<close>

definition shown :: "'rt system \<Rightarrow> fw_shown" where
  "shown = (\<lambda>(c, p, ms, g). fw_view p g)"

lemma table_shown: "table_rule s = shown_rule (shown s)" "table_default s = sh_default (shown s)" "table_room s = shown_room (shown s)"
  by (simp_all add: shown_def table_rule_def table_default_def table_room_def fw_view_def split_beta)

lemma host_served:
  assumes r: "host_ready S n fuel its m i k N s" and req: "\<And>p :: 'rt pipeline_firewall. be_n_ports_out p = N \<Longrightarrow> req_ok p req"
  obtains rsp s' where "host_call S n md fuel sf env ba f other its m i k req (s :: 'rt system) = Inr (Some rsp, s')"
    "served S ba N (shown s) req rsp (shown s')" "five_fields (shown s)" "five_fields (shown s') \<longrightarrow> host_ready S n fuel its m i k N s'"
proof -
  obtain c t where s: "s = (c, t)" by (cases s)
  obtain v where v: "1 \<le> n" "16 \<le> sum its {1..m}" "chan S fuel i k N [] [] v t" "five_fields v"
    using r by (auto simp: host_ready_def s)
  have ok: "req_ok (fst t) req" using req chan_shown(4) [OF v(3)] by blast
  obtain rsp c' t' v' where x: "host_call S n md fuel sf env ba f other its m i k req (c, t) = Inr (Some rsp, (c', t'))"
      "chan S fuel i k N [] [] v' t'" "served S ba N v req rsp v'"
    using exchange_served [OF v(3,1) ok v(2), of f other md sf env ba c] unfolding host_call_def by blast
  have w: "shown s = v" "shown (c', t') = v'" using v(3) x(2) by (auto simp: s shown_def chan_def)
  have "five_fields (shown (c', t')) \<longrightarrow> host_ready S n fuel its m i k N (c', t')" using v(1,2) x(2) w(2) by (auto simp: host_ready_def)
  from x(1) [folded s] x(3) [folded w] v(4) [folded w(1)] this show ?thesis by (rule that)
qed

lemma host_exchange:
  assumes r: "host_ready S n fuel its m i k N s" and req: "\<And>p :: 'rt pipeline_firewall. be_n_ports_out p = N \<Longrightarrow> req_ok p req"
  obtains rsp s' v v' where "host_call S n md fuel sf env ba f other its m i k req (s :: 'rt system) = Inr (Some rsp, s')"
    "served S ba N v req rsp v'" "five_fields v" "table_rule s = shown_rule v" "table_default s = sh_default v" "table_room s = shown_room v"
    "table_rule s' = shown_rule v'" "table_default s' = sh_default v'" "five_fields v' \<longrightarrow> host_ready S n fuel its m i k N s'"
proof -
  obtain rsp s' where x: "host_call S n md fuel sf env ba f other its m i k req s = Inr (Some rsp, s')"
      "served S ba N (shown s) req rsp (shown s')" "five_fields (shown s)" "five_fields (shown s') \<longrightarrow> host_ready S n fuel its m i k N s'"
    by (rule host_served [OF r req])
  from x(1-3) table_shown(1-3) [of s] table_shown(1,2) [of s'] x(4) show ?thesis by (rule that)
qed

interpretation host: rule_service "host_call S n md fuel sf env ba f other its m i k" "host_ready S n fuel its m i k N"
  table_rule table_default N "compiles S" table_room
proof
  fix s pri port and key :: pipeline_firewall_key assume r: "host_ready S n fuel its m i k N s" and t: "key_type key = 0" and port: "port < N"
  obtain rsp s' v v' where x: "host_call S n md fuel sf env ba f other its m i k (add_request key pri port) s = Inr (Some rsp, s')"
      "served S ba N v (add_request key pri port) rsp v'" "five_fields v" "table_rule s = shown_rule v" "table_default s = sh_default v"
      "table_room s = shown_room v" "table_rule s' = shown_rule v'" "table_default s' = sh_default v'" "five_fields v' \<longrightarrow> host_ready S n fuel its m i k N s'"
    by (rule host_exchange [OF r requests_ok(1)]) (use port in simp)
  note y = served_add [OF x(2,3) port]
  show "\<exists>rsp s'. host_call S n md fuel sf env ba f other its m i k (add_request key pri port) s = Inr (Some rsp, s') \<and>
      host_ready S n fuel its m i k N s' \<and> table_default s' = table_default s \<and>
      (if rs_status rsp = 0
       then (\<exists>pos. rs_out rsp = Out_Add (Some (table_rule s (key_ipv4_5tuple key) \<noteq> None, pos))) \<and>
         table_rule s' = (table_rule s)(key_ipv4_5tuple key \<mapsto>
           (case table_rule s (key_ipv4_5tuple key) of None \<Rightarrow> RTE_ACL_MAX_PRIORITY - sint pri | Some (q, _) \<Rightarrow> q, port))
       else table_rule s' = table_rule s) \<and>
      (compiles S \<longrightarrow> (rs_status rsp = 0 \<longleftrightarrow> sint pri \<le> RTE_ACL_MAX_PRIORITY \<and>
        (table_rule s (key_ipv4_5tuple key) \<noteq> None \<or> 0 \<le> sint pri \<and> table_room s)))"
    unfolding x(4-6) by (rule exI [of _ rsp], rule exI [of _ s']) (use y t x(9) in \<open>simp only: x(1,7,8) simp_thms; blast\<close>)
next
  fix s and key :: pipeline_firewall_key assume r: "host_ready S n fuel its m i k N s" and t: "key_type key = 0"
  obtain rsp s' v v' where x: "host_call S n md fuel sf env ba f other its m i k (del_request key) s = Inr (Some rsp, s')"
      "served S ba N v (del_request key) rsp v'" "five_fields v" "table_rule s = shown_rule v" "table_default s = sh_default v"
      "table_room s = shown_room v" "table_rule s' = shown_rule v'" "table_default s' = sh_default v'" "five_fields v' \<longrightarrow> host_ready S n fuel its m i k N s'"
    by (rule host_exchange [OF r requests_ok(2)])
  note y = served_del [OF x(2,3)]
  show "\<exists>rsp s'. host_call S n md fuel sf env ba f other its m i k (del_request key) s = Inr (Some rsp, s') \<and>
      host_ready S n fuel its m i k N s' \<and> table_default s' = table_default s \<and>
      (if rs_status rsp = 0
       then rs_out rsp = Out_Del (Some (table_rule s (key_ipv4_5tuple key) \<noteq> None)) \<and>
         table_rule s' = (table_rule s)(key_ipv4_5tuple key := None)
       else table_rule s' = table_rule s) \<and> (compiles S \<longrightarrow> rs_status rsp = 0)"
    unfolding x(4-6) by (rule exI [of _ rsp], rule exI [of _ s']) (use y t x(9) in \<open>simp only: x(1,7,8) simp_thms; blast\<close>)
next
  fix s port assume r: "host_ready S n fuel its m i k N s" and port: "port < N"
  obtain rsp s' v v' where x: "host_call S n md fuel sf env ba f other its m i k (add_default_request port) s = Inr (Some rsp, s')"
      "served S ba N v (add_default_request port) rsp v'" "five_fields v" "table_rule s = shown_rule v" "table_default s = sh_default v"
      "table_room s = shown_room v" "table_rule s' = shown_rule v'" "table_default s' = sh_default v'" "five_fields v' \<longrightarrow> host_ready S n fuel its m i k N s'"
    by (rule host_exchange [OF r requests_ok(3)]) (use port in simp)
  show "\<exists>rsp s'. host_call S n md fuel sf env ba f other its m i k (add_default_request port) s = Inr (Some rsp, s') \<and>
      host_ready S n fuel its m i k N s' \<and> table_rule s' = table_rule s \<and> rs_status rsp = 0 \<and>
      rs_out rsp = Out_Default (Some (port_entry port)) \<and> table_default s' = port_entry port"
    using x served_add_default [OF x(2) port] by (intro exI [of _ rsp] exI [of _ s']) (simp add: shown_cong [of v' v])
next
  fix s assume r: "host_ready S n fuel its m i k N s"
  obtain rsp s' v v' where x: "host_call S n md fuel sf env ba f other its m i k del_default_request s = Inr (Some rsp, s')"
      "served S ba N v del_default_request rsp v'" "five_fields v" "table_rule s = shown_rule v" "table_default s = sh_default v"
      "table_room s = shown_room v" "table_rule s' = shown_rule v'" "table_default s' = sh_default v'" "five_fields v' \<longrightarrow> host_ready S n fuel its m i k N s'"
    by (rule host_exchange [OF r requests_ok(4)])
  show "\<exists>rsp s'. host_call S n md fuel sf env ba f other its m i k del_default_request s = Inr (Some rsp, s') \<and>
      host_ready S n fuel its m i k N s' \<and> table_rule s' = table_rule s \<and> rs_status rsp = 0 \<and>
      pte_action (table_default s') = ACTION_DROP"
    using x served_del_default [OF x(2)] by (intro exI [of _ rsp] exI [of _ s']) (simp add: shown_cong [of v' v])
qed

end
