(* ===== verification/Firewall_Host.thy ===== *)
theory Firewall_Host
  imports Firewall_Props Firewall_Channel
begin

text \<open>
  The properties of the front end on the host, most of them for the system as a whole: the front end, the
  message rings and the enclave's main loop together. The concrete system of the witnesses is the firewall of
  theory Firewall_Props with empty message rings and a fresh front end; its enclave gets sixteen iterations
  done before each poll.
\<close>

section \<open>A concrete system\<close>

definition idle_ring :: "string \<Rightarrow> 'a \<Rightarrow> 'a rte_ring" where
  "idle_ring name x = \<lparr>r_name = name, r_flags = 3, r_size = 4, r_mask = 3,
     r_prod = \<lparr>ht_head = 0, ht_tail = 0, ht_single = True\<rparr>, r_cons = \<lparr>ht_head = 0, ht_tail = 0, ht_single = True\<rparr>,
     r_slots = replicate 4 x\<rparr>"

definition fw_msgs1 :: fw_msgs where
  "fw_msgs1 = \<lparr>req_rings = [idle_ring ''q'' ping_req], rsp_rings = [idle_ring ''s'' (rsp_status 0)]\<rparr>"

definition fe0 :: fw_fe where
  "fe0 = the (app_pipeline_firewall_init True (Some (1, 2)))"

definition all_alloc :: fe_alloc where
  "all_alloc = \<lparr>al_rule = True, al_msg = True\<rparr>"

text \<open>The exchange of the concrete system, and when it is ready.\<close>

abbreviation demo_ba :: bulk_alloc where
  "demo_ba \<equiv> \<lparr>ba_entry = (\<lambda>_. True), ba_param = (\<lambda>_. None)\<rparr>"

abbreviation demo_call :: "demo_rt system exchange" where
  "demo_call \<equiv> host_call fw_setup0 1 (\<lambda>_ _ _. 0) 4 0 (\<lambda>_ r. r) demo_ba 0 (\<lambda>_ s. s) (\<lambda>_. 16) 1 0 0"

abbreviation demo_host :: "demo_rt system \<Rightarrow> bool" where
  "demo_host \<equiv> host_ready fw_setup0 1 4 (\<lambda>_. 16) 1 0 0 2"

abbreviation table_mirror :: "nat \<Rightarrow> fw_fe \<Rightarrow> 'rt system \<Rightarrow> bool" where
  "table_mirror \<equiv> mirror table_rule table_default"

lemma idle_ring [simp]: "ring_ok (idle_ring nm x)" "contents (idle_ring nm x) = []" "capacity (idle_ring nm x) = 3"
  by (auto simp: ring_ok_def idle_ring_def contents_def capacity_def slot_of_def intro!: exI [of _ 2])

lemma demo_compiles: "compiles fw_setup0"
  using demo_can_build by (simp add: compiles_def)

lemma demo_host_ready:
  obtains p g where "fw_init0 = Inr (Some p, g)" "demo_host (0, p, fw_msgs1, g)" "table_mirror 2 fe0 (0, p, fw_msgs1, g)"
    "table_rule (0, p, fw_msgs1, g) = Map.empty" "table_room (0, p, fw_msgs1, g)"
    "chan fw_setup0 4 0 0 2 [] [] (fw_view p g) (p, fw_msgs1, g)"
proof -
  obtain p g where a: "fw_init0 = Inr (Some p, g)" "fw_inv fw_setup0 p g" "fw_map p g = Map.empty" "be_n_ports_out p = 2" "be_n_msgq p = 1"
      "length (be_msgq_in p) > 0" "length (be_msgq_out p) > 0" "be_msgq_in p ! 0 = Some 0" "be_msgq_out p ! 0 = Some 0"
      "acl_num_fields (fw_acl p g) = 5" "pte_action (fw_default p) = ACTION_DROP"
    by (rule demo_init)
  have q: "queue_rings p fw_msgs1 0 0 0" using a(6-9) by (simp add: queue_rings_def fw_msgs1_def)
  have "queue_ready 4 p fw_msgs1 0" unfolding queue_ready_def
    using q by (intro exI [of _ 0]) (auto simp: fw_msgs1_def simp del: length_contents)
  then have "queues_ok 4 p fw_msgs1" using a(5) by (simp add: queues_ok_def queues_apart_def)
  then have c: "chan fw_setup0 4 0 0 2 [] [] (fw_view p g) (p, fw_msgs1, g)"
    using a(2,4,5) q by (simp add: chan_def thread_inv_def fw_msgs1_def)
  have r: "table_rule (0, p, fw_msgs1, g) = Map.empty" using a(3) by (intro ext) (simp add: table_rule_def shown_view)
  have "demo_host (0, p, fw_msgs1, g)" using c a(10) by (auto simp: host_ready_def fw_view_def intro!: exI [of _ "fw_view p g"])
  moreover have "table_mirror 2 fe0 (0, p, fw_msgs1, g)"
    using r a(11) by (simp add: mirror_def fe0_def app_pipeline_firewall_init_def fe_port_def app_pipeline_firewall_rule_find_def table_default_def)
  moreover have "table_room (0, p, fw_msgs1, g)"
    using a(3) fw_aclD(4) [OF a(2)] su_n_rules0 by (simp add: table_room_def room_view)
  ultimately show ?thesis using that a(1) r c by blast
qed

section \<open>Sessions\<close>

text \<open>C11. The list of rules on the host has the 5-tuples and output ports of the table in the enclave. From a state
  in which they agree, whatever commands are typed (all but the listing and those that read rule files), with whatever outcome of parsing,
  of memory allocation and of compiling the rules: every command returns, and afterwards the front end still
  lists exactly the 5-tuples of the enclave's table, each once and with the output port the table has for it, its
  count is right, and it is right about the default. Priorities are not compared: the list records the last one
  typed and the table keeps the first (shown below). The requests travel through the message rings
  to the enclave's main loop, which gets at least sixteen iterations done during an exchange.\<close>

theorem host_session_mirrors_table:
  assumes "host_ready S n fuel its m i k N s" and "table_mirror N p s" and "\<forall>(ev, cmd) \<in> set cmds. plain_cmd cmd"
  shows "\<exists>p' s'. fe_session (host_call S n md fuel sf env ba f other its m i k) cmds (Some p, s) = Inr (Some p', s') \<and>
    host_ready S n fuel its m i k N s' \<and> table_mirror N p' s'"
  using assms by (rule host.session_mirrors)

definition demo_env :: fe_env where
  "demo_env = \<lparr>ev_fopen = (\<lambda>_. None), ev_keys = True, ev_priorities = True, ev_port_ids = True, ev_alloc = all_alloc,
     ev_bulk = \<lparr>fb_rules = True, fb_new_rules = True, fb_rule = (\<lambda>_. True), fb_keys_found = None, fb_entries_ptr = True,
       fb_entry = (\<lambda>_. None), fb_msg = True\<rparr>\<rparr>"

definition demo_cmds :: "(fe_env \<times> string) list" where
  "demo_cmds = [(demo_env, ''add priority 1 ipv4 10.0.0.0 8 0.0.0.0 0 0 65535 80 80 6 0xFF port 1''), (demo_env, ''add default 1'')]"

lemma demo_cmds_plain: "\<forall>(ev, cmd) \<in> set demo_cmds. plain_cmd cmd"
proof -
  have "list_all plain_cmd (map snd demo_cmds)" by code_simp
  then show ?thesis by (auto simp: list_all_iff)
qed

theorem host_session_mirrors_table_witness:
  "\<exists>p g p' s'. fw_init0 = Inr (Some p, g) \<and> fe_session demo_call demo_cmds (Some fe0, (0, p, fw_msgs1, g)) = Inr (Some p', s') \<and>
     table_mirror 2 p' s'"
proof -
  obtain p g where d: "fw_init0 = Inr (Some p, g)" "demo_host (0, p, fw_msgs1, g)" "table_mirror 2 fe0 (0, p, fw_msgs1, g)"
    by (rule demo_host_ready)
  from host_session_mirrors_table [OF d(2,3) demo_cmds_plain, of "\<lambda>_ _ _. 0" 0 "\<lambda>_ r. r" demo_ba 0 "\<lambda>_ s. s"] d(1)
  show ?thesis by blast
qed

section \<open>Single rules\<close>

text \<open>C12. Adding a rule from the host, end to end: the command returns, and the list and the table agree
  again. Status 0: the front end has the rule with its normalised key, its priority and its port; the table
  maps the 5-tuple to the port, with the priority of the request for a new rule and the old one for a rule that
  was there. Another status: neither side changed. When rules compile, the accepted additions are exactly
  those with an existing port, a valid key, a priority in range, memory, and for a new 5-tuple a free place.\<close>

theorem host_add_rule:
  assumes "host_ready S n fuel its m i k N s" and "table_mirror N p s"
  shows "\<exists>st p' s'. app_pipeline_firewall_add_rule (host_call S n md fuel sf env ba f other its m i k) al (Some p) (Some key) pri port s =
      Inr (st, Some p', s') \<and> host_ready S n fuel its m i k N s' \<and> table_mirror N p' s' \<and>
    (if st = 0
     then \<exists>key' pos. app_pipeline_firewall_key_check_and_normalize key = Some key' \<and> port < N \<and>
       app_pipeline_firewall_rule_find p' key' = Some \<lparr>r_key = key', r_priority = sint pri, r_port_id = port, r_entry_ptr = pos\<rparr> \<and>
       table_rule s' = (table_rule s)(key_ipv4_5tuple key' \<mapsto>
         (case table_rule s (key_ipv4_5tuple key') of None \<Rightarrow> RTE_ACL_MAX_PRIORITY - sint pri | Some (q, _) \<Rightarrow> q, port))
     else p' = p \<and> table_rule s' = table_rule s) \<and>
    (compiles S \<longrightarrow> (st = 0 \<longleftrightarrow> add_accepted table_rule table_room N al key pri port s))"
  using assms by (rule host.add_mirrors)

lemma fw_key0_normal: "app_pipeline_firewall_key_check_and_normalize fw_key0 = Some fw_key0"
  by code_simp

lemma demo_add:
  assumes "demo_host s" and "table_mirror 2 p s" and "sint pri \<le> RTE_ACL_MAX_PRIORITY"
    and "table_rule s (key_ipv4_5tuple fw_key0) \<noteq> None \<or> 0 \<le> sint pri \<and> table_room s"
  obtains p' s' pos where "app_pipeline_firewall_add_rule demo_call all_alloc (Some p) (Some fw_key0) pri 1 s = Inr (0, Some p', s')"
    "demo_host s'" "table_mirror 2 p' s'"
    "app_pipeline_firewall_rule_find p' fw_key0 = Some \<lparr>r_key = fw_key0, r_priority = sint pri, r_port_id = 1, r_entry_ptr = pos\<rparr>"
    "table_rule s' = (table_rule s)(key_ipv4_5tuple fw_key0 \<mapsto>
       (case table_rule s (key_ipv4_5tuple fw_key0) of None \<Rightarrow> RTE_ACL_MAX_PRIORITY - sint pri | Some (q, _) \<Rightarrow> q, 1))"
proof -
  have "add_accepted table_rule table_room 2 all_alloc fw_key0 pri 1 s"
    using assms(3,4) by (simp add: add_accepted_def fw_key0_normal all_alloc_def)
  then show ?thesis using host.add_mirrors [OF assms(1,2), of "\<lambda>_ _ _. 0" 0 "\<lambda>_ r. r" demo_ba 0 "\<lambda>_ s. s" all_alloc fw_key0 pri 1]
      demo_compiles fw_key0_normal that by fastforce
qed

theorem host_add_rule_witness:
  "\<exists>p g p' s'. fw_init0 = Inr (Some p, g) \<and>
     app_pipeline_firewall_add_rule demo_call all_alloc (Some fe0) (Some fw_key0) 1 1 (0, p, fw_msgs1, g) = Inr (0, Some p', s') \<and>
     table_rule s' = [key_ipv4_5tuple fw_key0 \<mapsto> (RTE_ACL_MAX_PRIORITY - 1, 1)]"
proof -
  obtain p g where d: "fw_init0 = Inr (Some p, g)" "demo_host (0, p, fw_msgs1, g)" "table_mirror 2 fe0 (0, p, fw_msgs1, g)"
      "table_rule (0, p, fw_msgs1, g) = Map.empty" "table_room (0, p, fw_msgs1, g)" by (rule demo_host_ready)
  have "add_accepted table_rule table_room 2 all_alloc fw_key0 1 1 (0, p, fw_msgs1, g)"
    using d(5) by (simp add: add_accepted_def fw_key0_normal all_alloc_def)
  then show ?thesis using host_add_rule [OF d(2,3), of "\<lambda>_ _ _. 0" 0 "\<lambda>_ r. r" demo_ba 0 "\<lambda>_ s. s" all_alloc fw_key0 1 1]
      demo_compiles fw_key0_normal d(1,4) by fastforce
qed

text \<open>C13. Deleting a rule from the host, end to end: the command returns and list and table agree again. With
  status 0 neither has a rule for the normalised key any more and nothing else changed; with another status
  neither side changed. With memory for the message and rules that compile, exactly the valid keys are
  accepted, whether a rule is there or not.\<close>

theorem host_delete_rule:
  assumes "host_ready S n fuel its m i k N s" and "table_mirror N p s"
  shows "\<exists>st p' s'. app_pipeline_firewall_delete_rule (host_call S n md fuel sf env ba f other its m i k) al (Some p) (Some key) s =
      Inr (st, Some p', s') \<and> host_ready S n fuel its m i k N s' \<and> table_mirror N p' s' \<and>
    (if st = 0
     then \<exists>key'. app_pipeline_firewall_key_check_and_normalize key = Some key' \<and> app_pipeline_firewall_rule_find p' key' = None \<and>
       table_rule s' = (table_rule s)(key_ipv4_5tuple key' := None)
     else p' = p \<and> table_rule s' = table_rule s) \<and>
    (compiles S \<and> al_msg al \<longrightarrow> (st = 0 \<longleftrightarrow> app_pipeline_firewall_key_check_and_normalize key \<noteq> None))"
  using assms by (rule host.delete_mirrors)

theorem host_delete_rule_witness:
  "\<exists>p g fe1 s1 fe2 s2. fw_init0 = Inr (Some p, g) \<and>
     app_pipeline_firewall_add_rule demo_call all_alloc (Some fe0) (Some fw_key0) 1 1 (0, p, fw_msgs1, g) = Inr (0, Some fe1, s1) \<and>
     app_pipeline_firewall_delete_rule demo_call all_alloc (Some fe1) (Some fw_key0) s1 = Inr (0, Some fe2, s2) \<and>
     table_rule s1 (key_ipv4_5tuple fw_key0) \<noteq> None \<and> table_rule s2 = Map.empty"
proof -
  obtain p g where d: "fw_init0 = Inr (Some p, g)" "demo_host (0, p, fw_msgs1, g)" "table_mirror 2 fe0 (0, p, fw_msgs1, g)"
      "table_rule (0, p, fw_msgs1, g) = Map.empty" "table_room (0, p, fw_msgs1, g)" by (rule demo_host_ready)
  obtain fe1 s1 where a: "app_pipeline_firewall_add_rule demo_call all_alloc (Some fe0) (Some fw_key0) 1 1 (0, p, fw_msgs1, g) = Inr (0, Some fe1, s1)"
      "demo_host s1" "table_mirror 2 fe1 s1" "table_rule s1 = [key_ipv4_5tuple fw_key0 \<mapsto> (RTE_ACL_MAX_PRIORITY - 1, 1)]"
    by (rule demo_add [OF d(2,3), of 1]) (use d(4,5) in auto)
  obtain fe2 s2 where b: "app_pipeline_firewall_delete_rule demo_call all_alloc (Some fe1) (Some fw_key0) s1 = Inr (0, Some fe2, s2)"
      "table_rule s2 = (table_rule s1)(key_ipv4_5tuple fw_key0 := None)"
    using host_delete_rule [OF a(2,3), of "\<lambda>_ _ _. 0" 0 "\<lambda>_ r. r" demo_ba 0 "\<lambda>_ s. s" all_alloc fw_key0] demo_compiles fw_key0_normal
    by (fastforce simp: all_alloc_def)
  have "table_rule s2 = Map.empty" using a(4) b(2) by simp
  then show ?thesis using d(1) a(1,4) b(1) by (metis fun_upd_same option.distinct(1))
qed

text \<open>C18. Changing the priority of a rule from the host does not: the addition of a rule that is there is answered
  with status 0 and the front end records the new priority, but the enclave's table, which decides the order in
  which rules apply, keeps the old one. From then on the list shows a priority that is not in force.\<close>

theorem host_update_keeps_old_priority:
  assumes "host_ready S n fuel its m i k N s" and "table_mirror N p s" and "compiles S" and "al_msg al" and "port < N"
    and "app_pipeline_firewall_key_check_and_normalize key = Some key'" and "table_rule s (key_ipv4_5tuple key') = Some (q, old)"
    and "sint pri \<le> RTE_ACL_MAX_PRIORITY"
  shows "\<exists>p' s' pos. app_pipeline_firewall_add_rule (host_call S n md fuel sf env ba f other its m i k) al (Some p) (Some key) pri port s =
      Inr (0, Some p', s') \<and>
    app_pipeline_firewall_rule_find p' key' = Some \<lparr>r_key = key', r_priority = sint pri, r_port_id = port, r_entry_ptr = pos\<rparr> \<and>
    table_rule s' (key_ipv4_5tuple key') = Some (q, port)"
proof -
  have "add_accepted table_rule table_room N al key pri port s" using assms(4-8) by (simp add: add_accepted_def)
  then show ?thesis using host.add_mirrors [OF assms(1,2), of md sf env ba f other al key pri port] assms(3,6,7) by fastforce
qed

theorem host_update_keeps_old_priority_witness:
  "\<exists>p g fe1 s1 fe2 s2 pos. fw_init0 = Inr (Some p, g) \<and>
     app_pipeline_firewall_add_rule demo_call all_alloc (Some fe0) (Some fw_key0) 1 1 (0, p, fw_msgs1, g) = Inr (0, Some fe1, s1) \<and>
     app_pipeline_firewall_add_rule demo_call all_alloc (Some fe1) (Some fw_key0) 9 1 s1 = Inr (0, Some fe2, s2) \<and>
     app_pipeline_firewall_rule_find fe2 fw_key0 = Some \<lparr>r_key = fw_key0, r_priority = 9, r_port_id = 1, r_entry_ptr = pos\<rparr> \<and>
     table_rule s2 (key_ipv4_5tuple fw_key0) = Some (RTE_ACL_MAX_PRIORITY - 1, 1)"
proof -
  obtain p g where d: "fw_init0 = Inr (Some p, g)" "demo_host (0, p, fw_msgs1, g)" "table_mirror 2 fe0 (0, p, fw_msgs1, g)"
      "table_rule (0, p, fw_msgs1, g) = Map.empty" "table_room (0, p, fw_msgs1, g)" by (rule demo_host_ready)
  obtain fe1 s1 where a: "app_pipeline_firewall_add_rule demo_call all_alloc (Some fe0) (Some fw_key0) 1 1 (0, p, fw_msgs1, g) = Inr (0, Some fe1, s1)"
      "demo_host s1" "table_mirror 2 fe1 s1" "table_rule s1 = [key_ipv4_5tuple fw_key0 \<mapsto> (RTE_ACL_MAX_PRIORITY - 1, 1)]"
    by (rule demo_add [OF d(2,3), of 1]) (use d(4,5) in auto)
  have c: "al_msg all_alloc" "(1 :: nat) < 2" "table_rule s1 (key_ipv4_5tuple fw_key0) = Some (RTE_ACL_MAX_PRIORITY - 1, 1)"
      "sint (9 :: u32) = 9" "sint (9 :: u32) \<le> RTE_ACL_MAX_PRIORITY" using a(4) by (simp_all add: all_alloc_def)
  from host_update_keeps_old_priority [OF a(2,3) demo_compiles c(1,2) fw_key0_normal c(3,5), of "\<lambda>_ _ _. 0" 0 "\<lambda>_ r. r" demo_ba 0 "\<lambda>_ s. s"]
  show ?thesis unfolding c(4) using d(1) a(1) by fast
qed

section \<open>Keys\<close>

text \<open>The part of an address that a prefix length keeps.\<close>

definition prefix_of :: "u32 \<Rightarrow> u32 \<Rightarrow> u32" where
  "prefix_of depth ip = of_nat (unat ip div 2 ^ (32 - unat depth) * 2 ^ (32 - unat depth))"

lemma netmask_prefix:
  assumes "depth \<le> 32"
  shows "ip AND netmask depth = prefix_of depth ip"
proof (cases "depth = 0")
  case True
  have "unat ip < 2 ^ 32" using unsigned_less [of ip] by simp
  then show ?thesis using True by (simp add: netmask_def prefix_of_def)
next
  case False
  let ?n = "32 - unat depth"
  have "ip AND netmask depth = push_bit ?n (drop_bit ?n ip)"
    using False by (intro bit_word_eqI) (auto simp: netmask_def bit_and_iff bit_push_bit_iff bit_drop_bit_eq bit_not_iff bit_mask_iff)
  also have "\<dots> = of_nat (unat (drop_bit ?n ip) * 2 ^ ?n)" by (simp add: push_bit_eq_mult)
  also have "unat (drop_bit ?n ip) = unat ip div 2 ^ ?n" unfolding unat_drop_bit_eq by (rule drop_bit_eq_div)
  finally show ?thesis by (simp only: prefix_of_def)
qed

text \<open>C20. Keys are brought into a normal form: exactly the IPv4 5-tuples with prefix lengths up to 32 and ordered
  port ranges are accepted, each address is cut to its prefix (by the C code with masks, here by division), and
  the result is accepted again and does not change any more, so that a rule has one key however it is typed.\<close>

theorem key_normal_form:
  "app_pipeline_firewall_key_check_and_normalize key =
     (let k = key_ipv4_5tuple key in
      if key_type key = PIPELINE_FIREWALL_IPV4_5TUPLE \<and> k_src_ip_mask k \<le> 32 \<and> k_dst_ip_mask k \<le> 32 \<and>
         k_src_port_from k \<le> k_src_port_to k \<and> k_dst_port_from k \<le> k_dst_port_to k
      then Some (key\<lparr>key_ipv4_5tuple := k\<lparr>k_src_ip := prefix_of (k_src_ip_mask k) (k_src_ip k),
        k_dst_ip := prefix_of (k_dst_ip_mask k) (k_dst_ip k)\<rparr>\<rparr>)
      else None) \<and>
   Option.bind (app_pipeline_firewall_key_check_and_normalize key) app_pipeline_firewall_key_check_and_normalize =
     app_pipeline_firewall_key_check_and_normalize key"
proof -
  have twice: "(ip AND netmask d) AND netmask d = ip AND netmask d" for ip d by (simp add: and.assoc)
  show ?thesis
    by (auto simp: app_pipeline_firewall_key_check_and_normalize_def Let_def netmask_prefix [symmetric] twice not_less)
qed

section \<open>Listing\<close>

lemma insort_behind: "\<forall>h \<in> set hs. f h < f x \<Longrightarrow> insort_key f x (hs @ ys) = hs @ insort_key f x ys"
  by (induction hs) auto

lemma sort_key_least:
  fixes f :: "'a \<Rightarrow> 'b :: linorder"
  shows "\<forall>x \<in> set xs. m \<le> f x \<Longrightarrow> sort_key f xs = filter (\<lambda>x. f x = m) xs @ sort_key f (filter (\<lambda>x. f x \<noteq> m) xs)"
proof (induction xs)
  case (Cons x xs)
  have m: "m \<le> f y" if "y \<in> set xs" for y using Cons.prems that by simp
  have IH: "sort_key f xs = filter (\<lambda>x. f x = m) xs @ sort_key f (filter (\<lambda>x. f x \<noteq> m) xs)" using Cons by simp
  show ?case
  proof (cases "f x = m")
    case True
    have "insort_key f x (sort_key f xs) = x # sort_key f xs" by (rule insort_is_Cons) (use True m in auto)
    then show ?thesis using True IH by simp
  next
    case False
    then have "m < f x" using Cons.prems by (simp add: order_less_le)
    then show ?thesis using False insort_behind [of "filter (\<lambda>x. f x = m) xs" f x] by (simp add: IH)
  qed
qed simp

text \<open>The rules that a pass from priority \<open>P\<close> on has not printed yet.\<close>

definition unlisted :: "nat \<Rightarrow> app_pipeline_firewall_rule list \<Rightarrow> app_pipeline_firewall_rule list" where
  "unlisted P rules = filter (\<lambda>r. r_priority r < 0 \<or> int P \<le> r_priority r) rules"

lemma unlisted_step:
  "filter (\<lambda>r. r_priority r = int P) (unlisted P rules) = filter (\<lambda>r. r_priority r = int P) rules"
  "filter (\<lambda>r. r_priority r \<noteq> int P) (unlisted P rules) = unlisted (P + 1) rules"
  by (auto simp: unlisted_def intro!: filter_cong)

lemma ls_loop_sorted:
  assumes "length rules < 2 ^ 32" and "P \<le> INT_MAX"
  shows "ls_loop rules P (of_nat (length (unlisted P rules))) =
    (if \<forall>r \<in> set (unlisted P rules). 0 \<le> r_priority r \<and> r_priority r < int INT_MAX
     then Inr (sort_key r_priority (unlisted P rules)) else Inl Overflow)"
  using assms(2)
proof (induction "INT_MAX - P" arbitrary: P)
  case less: 0
  then have P: "P = INT_MAX" by simp
  show ?case
  proof (cases "unlisted P rules")
    case Nil
    then show ?thesis by (simp add: ls_loop.simps)
  next
    case (Cons r rs)
    have "length (unlisted P rules) \<le> length rules" by (simp add: unlisted_def)
    then have "(of_nat (length (unlisted P rules)) :: u32) \<noteq> 0"
      using assms(1) Cons by (simp add: word_of_nat_eq_0_iff nat_dvd_not_less del: of_nat_Suc)
    moreover have "\<not> (0 \<le> r_priority r \<and> r_priority r < int INT_MAX)"
      using Cons P by (auto simp: unlisted_def filter_eq_Cons_iff)
    ultimately show ?thesis using Cons P by (subst ls_loop.simps) auto
  qed
next
  case (Suc d)
  let ?U = "unlisted P rules" and ?V = "unlisted (P + 1) rules" and ?hits = "filter (\<lambda>r. r_priority r = int P) rules"
  have P: "P < INT_MAX" "d = INT_MAX - (P + 1)" "P + 1 \<le> INT_MAX" using Suc.hyps(2) by simp_all
  have len: "length ?U = length ?hits + length ?V"
    using sum_length_filter_compl [of "\<lambda>r. r_priority r = int P" ?U] by (simp add: unlisted_step)
  have le: "length ?U \<le> length rules" by (simp add: unlisted_def)
  show ?case
  proof (cases "?U = []")
    case True
    then show ?thesis by (simp add: ls_loop.simps)
  next
    case False
    then have "(of_nat (length ?U) :: u32) \<noteq> 0"
      using assms(1) le by (simp add: word_of_nat_eq_0_iff nat_dvd_not_less del: of_nat_Suc)
    then have "ls_loop rules P (of_nat (length ?U)) = rbind (ls_loop rules (P + 1) (of_nat (length ?V))) (\<lambda>out. Inr (?hits @ out))"
      using P(1) by (subst ls_loop.simps) (simp add: len)
    moreover have "(\<forall>r \<in> set ?U. 0 \<le> r_priority r \<and> r_priority r < int INT_MAX) \<longleftrightarrow>
        (\<forall>r \<in> set ?V. 0 \<le> r_priority r \<and> r_priority r < int INT_MAX)"
      using P(1) by (auto simp: unlisted_def)
    moreover have "sort_key r_priority ?U = ?hits @ sort_key r_priority ?V"
      if "\<forall>r \<in> set ?U. 0 \<le> r_priority r \<and> r_priority r < int INT_MAX"
      using sort_key_least [of ?U "int P" r_priority, unfolded unlisted_step] that by (force simp: unlisted_def)
    ultimately show ?thesis using Suc.hyps(1) [OF P(2,3)] by simp
  qed
qed

text \<open>C19. Listing the rules terminates, and prints all of them once, ordered by priority and those of one priority in
  the order of their addition: the passes over the list, one per priority, amount to a stable sort. This needs
  all recorded priorities to be at least 0 and below the largest \<open>int\<close>; with any other recorded priority the
  counter of the passes overflows. (Such a priority gets into the list: see \<open>host_update_keeps_old_priority\<close>,
  which holds for every priority that is negative as an \<open>int\<close>.)\<close>

theorem ls_prints_sorted:
  assumes "fe_n_rules p = of_nat (length (fe_rules p))" and "length (fe_rules p) < 2 ^ 32"
  shows "app_pipeline_firewall_ls (Some p) =
    (if \<forall>r \<in> set (fe_rules p). 0 \<le> r_priority r \<and> r_priority r < int INT_MAX
     then Inr (0, Some (sort_key r_priority (fe_rules p),
       if default_rule_present p then Some (default_rule_port_id p, default_rule_entry_ptr p) else None))
     else Inl Overflow)"
proof -
  have "unlisted 0 (fe_rules p) = fe_rules p" unfolding unlisted_def by (rule filter_True) auto
  then show ?thesis using ls_loop_sorted [OF assms(2), of 0] assms(1) by (simp add: app_pipeline_firewall_ls_def)
qed

definition ls_rule :: "int \<Rightarrow> nat \<Rightarrow> app_pipeline_firewall_rule" where
  "ls_rule pri port = \<lparr>r_key = fw_key0, r_priority = pri, r_port_id = port, r_entry_ptr = 1\<rparr>"

theorem ls_prints_sorted_witness:
  "app_pipeline_firewall_ls (Some (fe0\<lparr>fe_rules := [ls_rule 5 0, ls_rule 2 1, ls_rule 5 1], fe_n_rules := 3\<rparr>)) =
     Inr (0, Some ([ls_rule 2 1, ls_rule 5 0, ls_rule 5 1], None)) \<and>
   app_pipeline_firewall_ls (Some (fe0\<lparr>fe_rules := [ls_rule (- 1) 0], fe_n_rules := 1\<rparr>)) = Inl Overflow"
  using ls_prints_sorted [of "fe0\<lparr>fe_rules := [ls_rule 5 0, ls_rule 2 1, ls_rule 5 1], fe_n_rules := 3\<rparr>"]
    ls_prints_sorted [of "fe0\<lparr>fe_rules := [ls_rule (- 1) 0], fe_n_rules := 1\<rparr>"]
  by (simp add: ls_rule_def fe0_def app_pipeline_firewall_init_def)

section \<open>Late answers\<close>

lemma req_ok_ports: "be_n_ports_out p' = be_n_ports_out p \<Longrightarrow> req_ok p' req = req_ok p req"
  by (simp add: req_ok_def bulk_ports_ok_def)

text \<open>C17. An answer that comes too late is taken for the answer to the next request: when the enclave does not get
  to the queue before the front end stops waiting, the exchange ends without an answer, but the request is
  still in the ring and is carried out; its response then waits in the ring, and the next exchange, whatever
  it asks for, returns that response at once. Nothing in the messages tells which request a response belongs to.\<close>

theorem late_response_answers_next_request:
  assumes "chan S fuel i k N [] [] v s" and "1 \<le> n" and "req_ok (fst s) req1" and "req_ok (fst s) req2"
  shows "\<exists>s1 rsp v1 s3. app_msg_send_recv (Suc f) other m (\<lambda>_ s. s) (Some i) (Some k) req1 (c, s) = Inr (None, s1) \<and>
    served S ba N v req1 rsp v1 \<and>
    app_msg_send_recv (Suc f) other (Suc m') (\<lambda>j. enclave_runs (firewall_iter S n md fuel (Suc sf) env ba) (its j)) (Some i) (Some k) req2
      (enclave_runs (firewall_iter S n md fuel (Suc sf) env ba) 16 s1) = Inr (Some rsp, s3)"
proof -
  obtain s1 where a: "app_msg_send_recv (Suc f) other m (\<lambda>_ s. s) (Some i) (Some k) req1 (c, s) = Inr (None, (c, s1))"
      "chan S fuel i k N [req1] [] v s1" using exchange_timeout [OF assms(1,3)] by blast
  obtain s2 rsp v1 where b: "enclave_runs (firewall_iter S n md fuel (Suc sf) env ba) 16 (c, s1) = (c + of_nat 16, s2)"
      "chan S fuel i k N [] [rsp] v1 s2" "served S ba N v req1 rsp v1"
    using runs_pending [OF a(2) assms(2), of md sf env ba 16 c] timer_due [of c] by blast
  have "req_ok (fst s2) req2" using assms(4) chan_shown(4) [OF assms(1)] chan_shown(4) [OF b(2)] req_ok_ports by metis
  from exchange_stale [OF b(2) assms(2) this, of f other m' md sf env ba its "c + of_nat 16"]
  show ?thesis using a(1) b(1,3) by metis
qed

theorem late_response_answers_next_request_witness:
  "\<exists>p g s1 s3 pos. fw_init0 = Inr (Some p, g) \<and>
     app_msg_send_recv 1 (\<lambda>_ s. s) 1 (\<lambda>_ s. s) (Some 0) (Some 0) (add_request fw_key0 1 1) (0, p, fw_msgs1, g) = Inr (None, s1) \<and>
     app_msg_send_recv 1 (\<lambda>_ s. s) 1 (\<lambda>_. enclave_runs (firewall_iter fw_setup0 1 (\<lambda>_ _ _. 0) 4 1 (\<lambda>_ r. r) demo_ba) 16) (Some 0) (Some 0)
       del_default_request (enclave_runs (firewall_iter fw_setup0 1 (\<lambda>_ _ _. 0) 4 1 (\<lambda>_ r. r) demo_ba) 16 s1) =
       Inr (Some \<lparr>rs_status = 0, rs_out = Out_Add (Some (False, pos))\<rparr>, s3)"
proof -
  obtain p g where d: "fw_init0 = Inr (Some p, g)" "demo_host (0, p, fw_msgs1, g)" "table_rule (0, p, fw_msgs1, g) = Map.empty"
      "table_room (0, p, fw_msgs1, g)" "chan fw_setup0 4 0 0 2 [] [] (fw_view p g) (p, fw_msgs1, g)" by (rule demo_host_ready)
  have r: "req_ok (fst (p, fw_msgs1, g)) (add_request fw_key0 1 1)" "req_ok (fst (p, fw_msgs1, g)) del_default_request"
    using requests_ok(1) [of 1 p] requests_ok(4) [of p] chan_shown(4) [OF d(5)] by simp_all
  obtain s1 rsp v1 s3 where a: "app_msg_send_recv 1 (\<lambda>_ s. s) 1 (\<lambda>_ s. s) (Some 0) (Some 0) (add_request fw_key0 1 1) (0, p, fw_msgs1, g) = Inr (None, s1)"
      "served fw_setup0 demo_ba 2 (fw_view p g) (add_request fw_key0 1 1) rsp v1"
      "app_msg_send_recv 1 (\<lambda>_ s. s) 1 (\<lambda>_. enclave_runs (firewall_iter fw_setup0 1 (\<lambda>_ _ _. 0) 4 1 (\<lambda>_ r. r) demo_ba) 16) (Some 0) (Some 0)
       del_default_request (enclave_runs (firewall_iter fw_setup0 1 (\<lambda>_ _ _. 0) 4 1 (\<lambda>_ r. r) demo_ba) 16 s1) = Inr (Some rsp, s3)"
    using late_response_answers_next_request [OF d(5) le_refl r, where f = 0 and sf = 0 and m' = 0 and m = 1 and other = "\<lambda>_ s. s" and
        md = "\<lambda>_ _ _. 0" and env = "\<lambda>_ r. r" and ba = demo_ba and its = "\<lambda>_. 16" and c = 0] by (simp only: One_nat_def) blast
  have five: "five_fields (fw_view p g)" using d(2) by (auto simp: host_ready_def chan_def)
  have "shown_rule (fw_view p g) = Map.empty" "shown_room (fw_view p g)" using d(3,4) by (simp_all add: table_rule_def table_room_def)
  then have "rs_status rsp = 0" "\<exists>pos. rs_out rsp = Out_Add (Some (False, pos))"
    using served_add [OF a(2) five] demo_compiles by (simp_all add: fw_key0_def split: if_splits)
  then show ?thesis using d(1) a(1,3) by (metis fw_rsp.surjective unit.exhaust)
qed

section \<open>Rule files\<close>

abbreviation newline :: string where
  "newline \<equiv> [CHR 0x0A]"

lemma fgets_line:
  assumes "CHR 0x0A \<notin> set x" and "length x < 1023"
  shows "fgets 1024 ((x @ newline) @ f) = Some (x @ newline, f)"
proof -
  have "takeWhile (\<lambda>c. c \<noteq> CHR 0x0A) ((x @ newline) @ f) = x" unfolding append_assoc
    by (subst takeWhile_append2) (use assms(1) in auto)
  then show ?thesis using assms(2) by (simp add: fgets_def Let_def)
qed

text \<open>What a file of lines means: all rules in order, or the number of the first line that is not one.\<close>

definition file_rules :: "nat \<Rightarrow> string list \<Rightarrow> nat + (pipeline_firewall_key \<times> u32 \<times> nat) list" where
  "file_rules l xs = (if \<forall>x \<in> set xs. isl (load_line (x @ newline)) = False
     then Inr (List.map_filter (\<lambda>x. projr (load_line (x @ newline))) xs)
     else Inl (l + length (takeWhile (\<lambda>x. \<not> isl (load_line (x @ newline))) xs)))"

lemma file_rules_simps:
  "file_rules l [] = Inr []"
  "file_rules l (x # xs) = (case load_line (x @ newline) of Inl _ \<Rightarrow> Inl l
     | Inr None \<Rightarrow> file_rules (l + 1) xs
     | Inr (Some y) \<Rightarrow> tbind (file_rules (l + 1) xs) (\<lambda>ys. Inr (y # ys)))"
  by (auto simp: file_rules_def List.map_filter_simps tbind_def split: sum.split option.split)

lemma load_loop_lines:
  "\<forall>x \<in> set xs. CHR 0x0A \<notin> set x \<and> length x < 1023 \<Longrightarrow> length xs \<le> m \<Longrightarrow>
   load_loop m l (concat (map (\<lambda>x. x @ newline) xs)) = file_rules l xs"
proof (induction xs arbitrary: m l)
  case Nil
  then show ?case by (simp add: load_loop.simps file_rules_simps fgets_def)
next
  case (Cons x xs)
  have "fgets 1024 ((x @ newline) @ concat (map (\<lambda>x. x @ newline) xs)) = Some (x @ newline, concat (map (\<lambda>x. x @ newline) xs))"
    by (rule fgets_line) (use Cons.prems in auto)
  moreover have "load_loop m (l + 1) (concat (map (\<lambda>x. x @ newline) xs)) = file_rules (l + 1) xs"
      "load_loop (m - 1) (l + 1) (concat (map (\<lambda>x. x @ newline) xs)) = file_rules (l + 1) xs"
    by (rule Cons.IH, use Cons.prems in auto)+
  ultimately show ?case using Cons.prems(2)
    by (subst load_loop.simps) (auto simp: file_rules_simps split: sum.split option.split)
qed

text \<open>C22. Reading a rule file: for a file of lines shorter than the buffer and not more of them than rules are
  asked for, the loop with its buffer and its counters returns the rules of all lines in order, comments and empty lines
  left out, or fails with the number of the first line that is not a rule, counted from 1.\<close>

theorem load_file_reads_lines:
  assumes "fopen filename = Some (concat (map (\<lambda>x. x @ newline) xs))" and "xs \<noteq> []" and "length xs \<le> n_keys"
    and "\<forall>x \<in> set xs. CHR 0x0A \<notin> set x \<and> length x < 1023"
  shows "app_pipeline_firewall_load_file fopen filename n_keys = file_rules 1 xs"
  using assms load_loop_lines [OF assms(4,3), of 1] by (auto simp: app_pipeline_firewall_load_file_def)

definition demo_lines :: "string list" where
  "demo_lines = [''# rules'', ''priority 1 ipv4 10.1.2.3 8 0.0.0.0 0 0 65535 80 80 6 0xFF port 1'', ''priority 1 ipv6'']"

lemmas read_defs = parser_read_uint32_def parser_read_uint16_def parser_read_uint8_def parser_read_uint8_hex_def narrow_def
  parser_read_uint64_def parser_read_uint64_hex_def skip_white_spaces_def isspace_def isdigit_def strtoul_def scan_sign_def
  skip_0x_def is_digit_in_def digit_val_def digits_value_def apply_unit_def

lemma demo_lines_read:
  "load_line (demo_lines ! 0 @ newline) = Inr None" "load_line (demo_lines ! 1 @ newline) = Inr (Some (fw_key0, 1, 1))"
  "load_line (demo_lines ! 2 @ newline) = Inl ()"
proof -
  show "load_line (demo_lines ! 0 @ newline) = Inr None" "load_line (demo_lines ! 2 @ newline) = Inl ()" by code_simp+
  have t: "parse_tokenize_string (Some (takeWhile (\<lambda>c. c \<noteq> CHR 0x00) (demo_lines ! 1 @ newline))) 32 =
      Inr [''priority'', ''1'', ''ipv4'', ''10.1.2.3'', ''8'', ''0.0.0.0'', ''0'', ''0'', ''65535'', ''80'', ''80'', ''6'', ''0xFF'', ''port'', ''1'']"
    by code_simp
  have a: "parse_ipv4_addr ''10.1.2.3'' = Inr [10, 1, 2, 3]" "parse_ipv4_addr ''0.0.0.0'' = Inr [0, 0, 0, 0]" by code_simp+
  have n: "parser_read_uint32 ''1'' = Inr 1" "parser_read_uint32 ''8'' = Inr 8" "parser_read_uint32 ''0'' = Inr 0"
      "parser_read_uint16 ''0'' = Inr 0" "parser_read_uint16 ''65535'' = Inr 65535" "parser_read_uint16 ''80'' = Inr 80"
      "parser_read_uint8 ''6'' = Inr 6" "parser_read_uint8_hex ''0xFF'' = Inr 255" by (simp_all add: read_defs)
  have m: "netmask 8 = 0xFF000000" "netmask 0 = 0" by code_simp+
  show "load_line (demo_lines ! 1 @ newline) = Inr (Some (fw_key0, 1, 1))"
    unfolding load_line_def t by (simp add: read_5tuple_def need_def tbind_def a n ip_of_def
        app_pipeline_firewall_key_check_and_normalize_def m fw_key0_def)
qed

theorem load_file_reads_lines_witness:
  "app_pipeline_firewall_load_file (\<lambda>_. Some (concat (map (\<lambda>x. x @ newline) (take 2 demo_lines)))) ''f'' 262144 = Inr [(fw_key0, 1, 1)] \<and>
   app_pipeline_firewall_load_file (\<lambda>_. Some (concat (map (\<lambda>x. x @ newline) demo_lines))) ''f'' 262144 = Inl 3"
proof -
  have d: "take 2 demo_lines = [demo_lines ! 0, demo_lines ! 1]" "[demo_lines ! 0, demo_lines ! 1, demo_lines ! 2] = demo_lines"
    by (simp_all add: demo_lines_def)
  have "file_rules 1 [demo_lines ! 0, demo_lines ! 1] = Inr [(fw_key0, 1, 1)]"
      "file_rules 1 [demo_lines ! 0, demo_lines ! 1, demo_lines ! 2] = Inl 3"
    by (simp_all add: file_rules_simps demo_lines_read [simplified] tbind_def)
  then have v: "file_rules 1 (take 2 demo_lines) = Inr [(fw_key0, 1, 1)]" "file_rules 1 demo_lines = Inl 3"
    unfolding d by simp_all
  have ok: "\<forall>x \<in> set demo_lines. CHR 0x0A \<notin> set x \<and> length x < 1023" by (simp add: demo_lines_def)
  have ok2: "\<forall>x \<in> set (take 2 demo_lines). CHR 0x0A \<notin> set x \<and> length x < 1023" using ok set_take_subset by fastforce
  have l: "take 2 demo_lines \<noteq> []" "length (take 2 demo_lines) \<le> 262144" "demo_lines \<noteq> []" "length demo_lines \<le> 262144"
    by (simp_all add: demo_lines_def)
  show ?thesis unfolding v [symmetric]
    using load_file_reads_lines [of "\<lambda>_. Some (concat (map (\<lambda>x. x @ newline) (take 2 demo_lines)))" "''f''", OF refl l(1,2) ok2]
      load_file_reads_lines [of "\<lambda>_. Some (concat (map (\<lambda>x. x @ newline) demo_lines))" "''f''", OF refl l(3,4) ok] by blast
qed

end
