(* ===== verification/Firewall_Mirror_Bulk.thy ===== *)
theory Firewall_Mirror_Bulk
  imports Firewall_Mirror
begin

text \<open>
  The bulk operations of the front end, against the interface \<open>bulk_service\<close> that extends the one for single
  rules by what the enclave promises about requests with several keys.
\<close>

section \<open>Checking and committing\<close>

abbreviation normal_key :: "pipeline_firewall_key \<Rightarrow> pipeline_firewall_key option" where
  "normal_key \<equiv> app_pipeline_firewall_key_check_and_normalize"

definition normal_rule :: "pipeline_firewall_key \<times> u32 \<times> nat \<Rightarrow> pipeline_firewall_key \<times> u32 \<times> nat" where
  "normal_rule = (\<lambda>(key, pri, port). (the (normal_key key), pri, port))"

lemma normal_rule_sel [simp]: "fst (normal_rule x) = the (normal_key (fst x))" "snd (normal_rule x) = snd x"
  by (simp_all add: normal_rule_def split_beta)

text \<open>The rules that the first loop accepts.\<close>

definition rule_valid :: "nat \<Rightarrow> pipeline_firewall_key \<times> u32 \<times> nat \<Rightarrow> bool" where
  "rule_valid n x \<longleftrightarrow> normal_key (fst x) \<noteq> None \<and> snd (snd x) < n"

lemma bulk_check_Some:
  "bulk_check alloc p i xs = Some ys \<Longrightarrow>
   ys = map (\<lambda>x. (normal_rule x, app_pipeline_firewall_rule_find p (fst (normal_rule x)) = None)) xs \<and>
   (\<forall>x \<in> set xs. rule_valid (fe_n_ports_out p) x)"
proof (induction xs arbitrary: i ys)
  case (Cons x xs)
  obtain key pri port where x: "x = (key, pri, port)" by (cases x)
  from Cons.prems obtain key' zs where "normal_key key = Some key'" "port < fe_n_ports_out p" "bulk_check alloc p (i + 1) xs = Some zs"
      "ys = ((key', pri, port), app_pipeline_firewall_rule_find p key' = None) # zs"
    by (auto simp: x Let_def not_le split: if_splits option.splits)
  then show ?case using Cons.IH by (auto simp: x normal_rule_def rule_valid_def)
qed simp

lemma bulk_check_None:
  "\<forall>i. alloc i \<Longrightarrow> \<forall>x \<in> set xs. rule_valid (fe_n_ports_out p) x \<Longrightarrow> bulk_check alloc p i xs \<noteq> None"
  by (induction alloc p i xs rule: bulk_check.induct) (auto simp: rule_valid_def Let_def not_le)

text \<open>What new rules do to the table, and what deleting keys does.\<close>

definition added ::
  "(pipeline_firewall_key \<times> u32 \<times> nat) list \<Rightarrow> (pipeline_firewall_key_ipv4_5tuple \<Rightarrow> (int \<times> nat) option) \<Rightarrow>
   (pipeline_firewall_key_ipv4_5tuple \<Rightarrow> (int \<times> nat) option)" where
  "added = fold (\<lambda>(key, pri, port) m. m(key_ipv4_5tuple key \<mapsto> (RTE_ACL_MAX_PRIORITY - sint pri, port)))"

lemma added_simps [simp]:
  "added [] m = m" "added ((key, pri, port) # xs) m = added xs (m(key_ipv4_5tuple key \<mapsto> (RTE_ACL_MAX_PRIORITY - sint pri, port)))"
  by (simp_all add: added_def)

text \<open>The mirror depends on the table and the default only, so it can be followed rule by rule.\<close>

lemma mirror_pair: "mirror rule_at dflt n p s \<longleftrightarrow> mirror fst snd n p (rule_at s, dflt s)"
  by (simp add: mirror_def)

abbreviation tuple_of :: "pipeline_firewall_key \<times> u32 \<times> nat \<Rightarrow> pipeline_firewall_key_ipv4_5tuple" where
  "tuple_of x \<equiv> key_ipv4_5tuple (fst x)"

lemma bulk_commit_mirrors:
  assumes "mirror fst snd n p (m, d)" and "\<forall>x \<in> set xs. key_type (fst x) = 0 \<and> m (tuple_of x) = None"
    and "distinct (map tuple_of xs)" and "length es = length xs"
  shows "mirror fst snd n (bulk_commit (zip (map (\<lambda>x. (x, True)) xs) es) p) (added xs m, d)"
  using assms
proof (induction xs arbitrary: p m es)
  case (Cons x xs)
  obtain key pri port where x: "x = (key, pri, port)" by (cases x)
  obtain e es' where es: "es = e # es'" "length es' = length xs" using Cons.prems(4) by (cases es) auto
  let ?rule = "\<lparr>r_key = key, r_priority = sint pri, r_port_id = port, r_entry_ptr = e\<rparr>"
  have k: "key_type key = 0" "m (key_ipv4_5tuple key) = None" using Cons.prems(2) x by simp_all
  have "app_pipeline_firewall_rule_find p key = None" using mirror_found [OF Cons.prems(1) k(1)] k(2) by simp
  then have m': "mirror fst snd n (p\<lparr>fe_rules := fe_rules p @ [?rule], fe_n_rules := fe_n_rules p + 1\<rparr>)
      (m(key_ipv4_5tuple key \<mapsto> (RTE_ACL_MAX_PRIORITY - sint pri, port)), d)"
    using k by (intro mirror_add [OF Cons.prems(1)]) (simp_all del: fun_upd_apply)
  have "\<forall>y \<in> set xs. key_type (fst y) = 0 \<and> (m(key_ipv4_5tuple key \<mapsto> (RTE_ACL_MAX_PRIORITY - sint pri, port))) (tuple_of y) = None"
    using Cons.prems(2,3) x by force
  from Cons.IH [OF m' this _ es(2)] show ?case using Cons.prems(3) by (simp add: x es del: fun_upd_apply)
qed simp

lemma bulk_remove_mirrors:
  assumes "mirror fst snd n p (m, d)" and "\<forall>key \<in> set keys. key_type key = 0 \<and> m (key_ipv4_5tuple key) \<noteq> None"
    and "distinct (map key_ipv4_5tuple keys)"
  shows "\<exists>p'. bulk_remove (map (\<lambda>k. (k, True)) keys) p = Inr p' \<and> mirror fst snd n p' (m |` (- key_ipv4_5tuple ` set keys), d)"
  using assms
proof (induction keys arbitrary: p m)
  case (Cons key keys)
  have k: "key_type key = 0" "m (key_ipv4_5tuple key) \<noteq> None" using Cons.prems(2) by simp_all
  have f: "app_pipeline_firewall_rule_find p key \<noteq> None" using mirror_found [OF Cons.prems(1) k(1)] k(2) by simp
  then have m': "mirror fst snd n (p\<lparr>fe_rules := rule_remove key (fe_rules p), fe_n_rules := fe_n_rules p - 1\<rparr>) (m(key_ipv4_5tuple key := None), d)"
    using k f by (intro mirror_remove [OF Cons.prems(1)]) (simp_all del: fun_upd_apply)
  have "\<forall>y \<in> set keys. key_type y = 0 \<and> (m(key_ipv4_5tuple key := None)) (key_ipv4_5tuple y) \<noteq> None"
    using Cons.prems(2,3) by auto (metis imageI)
  from Cons.IH [OF m' this] obtain p' where "bulk_remove (map (\<lambda>k. (k, True)) keys) (p\<lparr>fe_rules := rule_remove key (fe_rules p), fe_n_rules := fe_n_rules p - 1\<rparr>) = Inr p'"
      "mirror fst snd n p' (m(key_ipv4_5tuple key := None) |` (- key_ipv4_5tuple ` set keys), d)"
    using Cons.prems(3) unfolding list.map distinct.simps by blast
  moreover have "m(key_ipv4_5tuple key := None) |` (- key_ipv4_5tuple ` set keys) = m |` (- key_ipv4_5tuple ` set (key # keys))"
    by (auto simp: restrict_map_def fun_eq_iff)
  ultimately show ?case using f by auto
qed (simp add: restrict_map_def)

section \<open>The service and its client\<close>

text \<open>
  Several new rules with distinct keys are all added or none is; the answer to an addition that succeeds has
  \<open>keys_found\<close> 0 and an entry for each, and a failure leaves the pointers of the request. Deleting distinct keys
  deletes those that are there and tells which, or nothing. \<open>space\<close> is the number of free places of the table, and
  \<open>memory n\<close> says that the enclave can allocate what it needs for a request with \<open>n\<close> keys.
\<close>

locale bulk_service = rule_service call ready rule_at dflt n_out compiles room
  for call :: "'s exchange" and ready rule_at dflt n_out compiles room +
  fixes space :: "'s \<Rightarrow> nat" and memory :: "nat \<Rightarrow> bool"
  assumes add_bulk_law: "ready s \<Longrightarrow> \<forall>x \<in> set xs. key_type (fst x) = 0 \<and> snd (snd x) < n_out \<Longrightarrow>
      distinct (map tuple_of xs) \<Longrightarrow> \<forall>x \<in> set xs. rule_at s (tuple_of x) = None \<Longrightarrow> length ptrs = length xs \<Longrightarrow>
      \<exists>rsp s'. call (add_bulk_request xs kf ptrs) s = Inr (Some rsp, s') \<and> ready s' \<and> dflt s' = dflt s \<and>
        (if rs_status rsp = 0
         then rule_at s' = added xs (rule_at s) \<and>
           (\<exists>ptrs'. rs_out rsp = Out_Add_Bulk (replicate (length xs) False) ptrs' \<and> length ptrs' = length xs \<and> None \<notin> set ptrs')
         else rule_at s' = rule_at s \<and> (rs_out rsp = Out_None \<or> (\<exists>kf'. rs_out rsp = Out_Add_Bulk kf' ptrs))) \<and>
        (compiles \<and> memory (length xs) \<and> xs \<noteq> [] \<and> None \<notin> set ptrs \<and> length xs \<le> space s \<and>
         (\<forall>x \<in> set xs. 0 \<le> sint (fst (snd x)) \<and> sint (fst (snd x)) \<le> RTE_ACL_MAX_PRIORITY) \<longrightarrow> rs_status rsp = 0)"
    and del_bulk_law: "ready s \<Longrightarrow> \<forall>key \<in> set keys. key_type key = 0 \<Longrightarrow> distinct (map key_ipv4_5tuple keys) \<Longrightarrow> length kf = length keys \<Longrightarrow>
      \<exists>rsp s'. call (del_bulk_request keys kf) s = Inr (Some rsp, s') \<and> ready s' \<and> dflt s' = dflt s \<and>
        (if rs_status rsp = 0
         then rule_at s' = rule_at s |` (- key_ipv4_5tuple ` set keys) \<and>
           rs_out rsp = Out_Del_Bulk (map (\<lambda>key. rule_at s (key_ipv4_5tuple key) \<noteq> None) keys)
         else rule_at s' = rule_at s) \<and> (compiles \<and> keys \<noteq> [] \<longrightarrow> rs_status rsp = 0)"
begin

lemma add_bulk_mirrors:
  assumes r: "ready s" and m: "mirror rule_at dflt n_out p s"
    and dist: "distinct (map (\<lambda>x. normal_key (fst x)) xs)"
    and new: "\<forall>x \<in> set xs. \<forall>key. normal_key (fst x) = Some key \<longrightarrow> rule_at s (key_ipv4_5tuple key) = None"
  shows "\<exists>st p' s'. app_pipeline_firewall_add_bulk call al (Some p) xs s = Inr (st, Some p', s') \<and> ready s' \<and> mirror rule_at dflt n_out p' s' \<and>
    (if st = 0 then rule_at s' = added (map normal_rule xs) (rule_at s) else p' = p \<and> rule_at s' = rule_at s) \<and>
    (compiles \<and> memory (length xs) \<and> xs \<noteq> [] \<and> length xs \<le> space s \<and> (\<forall>x \<in> set xs. rule_valid n_out x \<and>
       0 \<le> sint (fst (snd x)) \<and> sint (fst (snd x)) \<le> RTE_ACL_MAX_PRIORITY) \<and>
     fb_rules al \<and> fb_new_rules al \<and> (\<forall>i. fb_rule al i) \<and> fb_keys_found al \<noteq> None \<and> fb_entries_ptr al \<and> (\<forall>i. fb_entry al i \<noteq> None) \<and> fb_msg al
     \<longrightarrow> st = 0)"
proof -
  let ?c = "bulk_check (fb_rule al) p 0 xs" and ?ptrs = "map (fb_entry al) [0 ..< length xs]" and ?xs = "map normal_rule xs"
  have out: "fe_n_ports_out p = n_out" by (rule mirrorD(1) [OF m])
  show ?thesis
  proof (cases "fb_rules al \<and> fb_new_rules al \<and> ?c \<noteq> None \<and> fb_keys_found al \<noteq> None \<and> fb_entries_ptr al \<and> None \<notin> set ?ptrs \<and> fb_msg al")
    case False
    then have "app_pipeline_firewall_add_bulk call al (Some p) xs s = Inr (- 1, Some p, s)"
      by (auto simp: app_pipeline_firewall_add_bulk_def Let_def split: option.split)
    moreover have "None \<notin> set ?ptrs" if "\<forall>i. fb_entry al i \<noteq> None" using that by (metis (no_types, lifting) ex_map_conv)
    ultimately show ?thesis using False r m bulk_check_None [of "fb_rule al" xs p 0] out
      by (intro exI [of _ "- 1"] exI [of _ p] exI [of _ s]) auto
  next
    case True
    then obtain ys kf where c: "?c = Some ys" "fb_keys_found al = Some kf" by auto
    note ys = conjunct1 [OF bulk_check_Some [OF c(1)]] conjunct2 [OF bulk_check_Some [OF c(1)], unfolded out]
    have valid: "normal_key (fst x) = Some (fst (normal_rule x))" "key_type (fst (normal_rule x)) = 0" if "x \<in> set xs" for x
      using ys(2) that normalize_Some [of "fst x"] by (auto simp: rule_valid_def)
    have absent: "rule_at s (tuple_of (normal_rule x)) = None" "app_pipeline_firewall_rule_find p (fst (normal_rule x)) = None" if "x \<in> set xs" for x
      using new that valid [OF that] mirror_found [OF m valid(2) [OF that]] by simp_all
    have ys': "ys = map (\<lambda>x. (x, True)) ?xs" using absent(2) by (simp add: ys(1))
    have d: "distinct (map tuple_of ?xs)"
    proof -
      have "inj_on (tuple_of \<circ> normal_rule) (set xs)"
      proof (rule inj_onI)
        fix x y assume xy: "x \<in> set xs" "y \<in> set xs" "(tuple_of \<circ> normal_rule) x = (tuple_of \<circ> normal_rule) y"
        then have "normal_key (fst x) = normal_key (fst y)" using valid(1,2) by (metis comp_apply key_eta)
        then show "x = y" using dist xy(1,2) by (simp add: distinct_map inj_on_def)
      qed
      then show ?thesis using dist by (simp add: distinct_map)
    qed
    have k: "\<forall>x \<in> set ?xs. key_type (fst x) = 0 \<and> snd (snd x) < n_out" "\<forall>x \<in> set ?xs. rule_at s (tuple_of x) = None"
      using valid(2) ys(2) absent(1) by (auto simp: rule_valid_def simp del: normal_rule_sel(1))
    obtain rsp s' where a: "call (add_bulk_request ?xs kf ?ptrs) s = Inr (Some rsp, s')" "ready s'" "dflt s' = dflt s"
        "rs_status rsp = 0 \<longrightarrow> rule_at s' = added ?xs (rule_at s) \<and>
           (\<exists>ptrs'. rs_out rsp = Out_Add_Bulk (replicate (length ?xs) False) ptrs' \<and> length ptrs' = length ?xs \<and> None \<notin> set ptrs')"
        "rs_status rsp \<noteq> 0 \<longrightarrow> rule_at s' = rule_at s \<and> (rs_out rsp = Out_None \<or> (\<exists>kf'. rs_out rsp = Out_Add_Bulk kf' ?ptrs))"
        "compiles \<and> memory (length ?xs) \<and> ?xs \<noteq> [] \<and> None \<notin> set ?ptrs \<and> length ?xs \<le> space s \<and>
         (\<forall>x \<in> set ?xs. 0 \<le> sint (fst (snd x)) \<and> sint (fst (snd x)) \<le> RTE_ACL_MAX_PRIORITY) \<longrightarrow> rs_status rsp = 0"
      using add_bulk_law [OF r k(1) d k(2), of ?ptrs kf] by (auto split: if_splits)
    have "map fst ys = ?xs" by (simp add: ys' comp_def)
    then have run: "app_pipeline_firewall_add_bulk call al (Some p) xs s =
        (case (case rs_out rsp of Out_Add_Bulk kf ptrs \<Rightarrow> (kf, ptrs) | _ \<Rightarrow> (kf, ?ptrs)) of (kf, ptrs) \<Rightarrow>
           if rs_status rsp \<noteq> 0 then free_entries ?ptrs ptrs (- 1, Some p, s')
           else if list_ex (\<lambda>(y, k, e). bulk_mismatch (snd y) k e) (zip ys (zip kf ptrs)) then free_entries ?ptrs ptrs (- 1, Some p, s')
           else Inr (0, Some (bulk_commit (zip ys (map the ptrs)) p), s'))"
      using True c a(1) by (simp add: app_pipeline_firewall_add_bulk_def Let_def)
    show ?thesis
    proof (cases "rs_status rsp = 0")
      case ok: True
      obtain ptrs' where p: "rule_at s' = added ?xs (rule_at s)" "rs_out rsp = Out_Add_Bulk (replicate (length ?xs) False) ptrs'"
          "length ptrs' = length ?xs" "None \<notin> set ptrs'" using a(4) ok by blast
      have "\<not> list_ex (\<lambda>(y, k, e). bulk_mismatch (snd y) k e) (zip ys (zip (replicate (length ?xs) False) ptrs'))"
        using p(3,4) by (auto simp: list_ex_iff bulk_mismatch_def ys' in_set_zip) (metis nth_mem)
      then have "app_pipeline_firewall_add_bulk call al (Some p) xs s = Inr (0, Some (bulk_commit (zip ys (map the ptrs')) p), s')"
        unfolding run p(2) using ok by simp
      moreover have "mirror rule_at dflt n_out (bulk_commit (zip ys (map the ptrs')) p) s'"
        using bulk_commit_mirrors [OF m [unfolded mirror_pair [of rule_at]] _ d, of "map the ptrs'"] k p(1,3) a(3)
        unfolding mirror_pair [of rule_at] ys' by simp
      ultimately show ?thesis using a(2) p(1) by (intro exI [of _ 0] exI [of _ "bulk_commit (zip ys (map the ptrs')) p"] exI [of _ s']) simp
    next
      case bad: False
      have "free_entries ?ptrs ?ptrs (- 1, Some p, s') = Inr (- 1, Some p, s')"
        by (auto simp: free_entries_def list_all_iff set_zip)
      then have "app_pipeline_firewall_add_bulk call al (Some p) xs s = Inr (- 1, Some p, s')"
        unfolding run using bad a(5) by auto
      moreover have "\<not> (compiles \<and> memory (length xs) \<and> xs \<noteq> [] \<and> length xs \<le> space s \<and> (\<forall>x \<in> set xs. rule_valid n_out x \<and>
          0 \<le> sint (fst (snd x)) \<and> sint (fst (snd x)) \<le> RTE_ACL_MAX_PRIORITY))" using a(6) bad True by auto
      ultimately show ?thesis using a(2,3,5) bad mirror_cong [OF m, of s'] by (intro exI [of _ "- 1"] exI [of _ p] exI [of _ s']) auto
    qed
  qed
qed

lemma delete_bulk_mirrors:
  assumes r: "ready s" and m: "mirror rule_at dflt n_out p s"
    and dist: "distinct (map normal_key keys)" and kf: "\<forall>kf. fb_keys_found al = Some kf \<longrightarrow> length kf = length keys"
  shows "\<exists>st p' s'. app_pipeline_firewall_delete_bulk call al (Some p) keys s = Inr (st, Some p', s') \<and> ready s' \<and>
    (if st = 0
     then mirror rule_at dflt n_out p' s' \<and> rule_at s' = rule_at s |` (- (key_ipv4_5tuple \<circ> the \<circ> normal_key) ` set keys)
     else p' = p \<and> (rule_at s' = rule_at s \<and> mirror rule_at dflt n_out p s' \<or>
       rule_at s' = rule_at s |` (- (key_ipv4_5tuple \<circ> the \<circ> normal_key) ` set keys) \<and>
       (\<exists>key \<in> set keys. rule_at s (key_ipv4_5tuple (the (normal_key key))) = None))) \<and>
    (compiles \<and> keys \<noteq> [] \<and> None \<notin> normal_key ` set keys \<and> fb_rules al \<and> fb_keys_found al \<noteq> None \<and> fb_msg al \<longrightarrow>
      rule_at s' = rule_at s |` (- (key_ipv4_5tuple \<circ> the \<circ> normal_key) ` set keys) \<and>
      (st = 0 \<longleftrightarrow> (\<forall>key \<in> set keys. rule_at s (key_ipv4_5tuple (the (normal_key key))) \<noteq> None)))"
proof -
  let ?ks = "map (the \<circ> normal_key) keys"
  show ?thesis
  proof (cases "fb_rules al \<and> None \<notin> normal_key ` set keys \<and> fb_keys_found al \<noteq> None \<and> fb_msg al")
    case False
    then have "app_pipeline_firewall_delete_bulk call al (Some p) keys s = Inr (- 1, Some p, s)"
      by (auto simp: app_pipeline_firewall_delete_bulk_def Let_def split: option.split)
    then show ?thesis using False r m by (intro exI [of _ "- 1"] exI [of _ p] exI [of _ s]) auto
  next
    case True
    then obtain kf where kfs: "fb_keys_found al = Some kf" by blast
    have valid: "normal_key key = Some (the (normal_key key))" "key_type (the (normal_key key)) = 0" if "key \<in> set keys" for key
    proof -
      have "normal_key key \<noteq> None" using True that by (metis imageI)
      then show "normal_key key = Some (the (normal_key key))" by simp
      from normalize_Some [OF this] show "key_type (the (normal_key key)) = 0" by simp
    qed
    have d: "distinct (map key_ipv4_5tuple ?ks)"
    proof -
      have "inj_on (key_ipv4_5tuple \<circ> (the \<circ> normal_key)) (set keys)"
      proof (rule inj_onI)
        fix x y assume xy: "x \<in> set keys" "y \<in> set keys" "(key_ipv4_5tuple \<circ> (the \<circ> normal_key)) x = (key_ipv4_5tuple \<circ> (the \<circ> normal_key)) y"
        then have "normal_key x = normal_key y" using valid by (metis comp_apply key_eta)
        then show "x = y" using dist xy(1,2) by (simp add: distinct_map inj_on_def)
      qed
      then show ?thesis using dist by (simp add: distinct_map)
    qed
    have k: "\<forall>key \<in> set ?ks. key_type key = 0" using valid(2) by simp
    have img: "key_ipv4_5tuple ` set ?ks = (key_ipv4_5tuple \<circ> the \<circ> normal_key) ` set keys" by (auto simp: image_iff)
    obtain rsp s' where a: "call (del_bulk_request ?ks kf) s = Inr (Some rsp, s')" "ready s'" "dflt s' = dflt s"
        "rs_status rsp = 0 \<longrightarrow> rule_at s' = rule_at s |` (- key_ipv4_5tuple ` set ?ks) \<and>
           rs_out rsp = Out_Del_Bulk (map (\<lambda>key. rule_at s (key_ipv4_5tuple key) \<noteq> None) ?ks)"
        "rs_status rsp \<noteq> 0 \<longrightarrow> rule_at s' = rule_at s" "compiles \<and> keys \<noteq> [] \<longrightarrow> rs_status rsp = 0"
      using del_bulk_law [OF r k d, of kf] kf kfs by (auto split: if_splits)
    have found: "map (\<lambda>k. (the k, app_pipeline_firewall_rule_find p (the k) \<noteq> None)) (map normal_key keys) =
        map (\<lambda>k. (k, rule_at s (key_ipv4_5tuple k) \<noteq> None)) ?ks"
      using mirror_found [OF m valid(2)] by (simp del: not_None_eq)
    have run: "app_pipeline_firewall_delete_bulk call al (Some p) keys s =
        (if rs_status rsp \<noteq> 0 then Inr (- 1, Some p, s')
         else if \<not> list_all id (case rs_out rsp of Out_Del_Bulk kf \<Rightarrow> kf | _ \<Rightarrow> kf) then Inr (- 1, Some p, s')
         else rbind (bulk_remove (map (\<lambda>k. (k, rule_at s (key_ipv4_5tuple k) \<noteq> None)) ?ks) p) (\<lambda>p. Inr (0, Some p, s')))"
      unfolding app_pipeline_firewall_delete_bulk_def option.case Let_def found using True kfs a(1) by simp
    show ?thesis
    proof (cases "rs_status rsp = 0 \<and> (\<forall>key \<in> set ?ks. rule_at s (key_ipv4_5tuple key) \<noteq> None)")
      case all: True
      then have l: "list_all id (case rs_out rsp of Out_Del_Bulk kf \<Rightarrow> kf | _ \<Rightarrow> kf)"
          "map (\<lambda>k. (k, rule_at s (key_ipv4_5tuple k) \<noteq> None)) ?ks = map (\<lambda>k. (k, True)) ?ks"
        using a(4) by (simp_all add: list_all_iff)
      obtain p' where p': "bulk_remove (map (\<lambda>k. (k, True)) ?ks) p = Inr p'"
          "mirror fst snd n_out p' (rule_at s |` (- key_ipv4_5tuple ` set ?ks), dflt s)"
        using bulk_remove_mirrors [OF m [unfolded mirror_pair [of rule_at]] _ d] k all by blast
      then have "app_pipeline_firewall_delete_bulk call al (Some p) keys s = Inr (0, Some p', s')" unfolding run l(2) using all l(1) by simp
      moreover have "mirror rule_at dflt n_out p' s'" unfolding mirror_pair [of rule_at] using p'(2) a(3,4) all by simp
      ultimately show ?thesis using a(2,4) all img
        by (intro exI [of _ 0] exI [of _ p'] exI [of _ s']) (simp del: not_None_eq)
    next
      case some: False
      then have "app_pipeline_firewall_delete_bulk call al (Some p) keys s = Inr (- 1, Some p, s')" unfolding run
        using a(4) by (auto simp: list_all_iff)
      moreover have "rule_at s' = rule_at s \<and> mirror rule_at dflt n_out p s' \<or> rule_at s' = rule_at s |` (- key_ipv4_5tuple ` set ?ks) \<and>
          (\<exists>key \<in> set keys. rule_at s (key_ipv4_5tuple (the (normal_key key))) = None)"
      proof (cases "rs_status rsp = 0")
        case True
        then show ?thesis using some a(4) by (simp del: not_None_eq)
      next
        case False
        then show ?thesis using a(3,5) mirror_cong [OF m, of s'] by blast
      qed
      moreover have "compiles \<and> keys \<noteq> [] \<longrightarrow> rule_at s' = rule_at s |` (- key_ipv4_5tuple ` set ?ks) \<and>
          \<not> (\<forall>key \<in> set keys. rule_at s (key_ipv4_5tuple (the (normal_key key))) \<noteq> None)"
        using some a(4,6) by (simp del: not_None_eq)
      ultimately show ?thesis using a(2) unfolding img
        by (intro exI [of _ "- 1"] exI [of _ p] exI [of _ s']) (simp del: not_None_eq)
    qed
  qed
qed

end

end
