(* ===== verification/Rule_Text.thy ===== *)
theory Rule_Text
  imports Firewall_FE
begin

text \<open>
  The text of rules: every rule can be written as a line of a rule file and as a command of the front end, and
  is read back as it is. The texts are those that the parsers of theory Parser read; numbers are written in
  decimal, addresses in dotted decimal and the mask of the protocol with two hexadecimal digits.
\<close>

section \<open>Words\<close>

fun unwords :: "string list \<Rightarrow> string" where
  "unwords [] = []"
| "unwords [w] = w"
| "unwords (w # ws) = w @ CHR '' '' # unwords ws"

definition clean :: "string \<Rightarrow> bool" where
  "clean w \<longleftrightarrow> w \<noteq> [] \<and> (\<forall>c \<in> set w. \<not> isspace c \<and> c \<noteq> CHR 0x00)"

lemma clean_split: "clean w \<Longrightarrow> takeWhile (\<lambda>c. \<not> isspace c) (w @ r) = w @ takeWhile (\<lambda>c. \<not> isspace c) r"
  "clean w \<Longrightarrow> dropWhile (\<lambda>c. \<not> isspace c) (w @ r) = dropWhile (\<lambda>c. \<not> isspace c) r"
  "clean w \<Longrightarrow> dropWhile isspace (w @ r) = w @ r" 
  by (auto simp: clean_def takeWhile_append dropWhile_append neq_Nil_conv)

lemma space_space: "isspace (CHR '' '')" "isspace (CHR 0x0A)" "isspace (CHR 0x00) = False"
  by (simp_all add: isspace_def)

lemma words_clean:
  assumes "clean w" and "r = [] \<or> isspace (hd r)"
  shows "words_of (w @ r) = w # words_of (drop 1 r)"
proof -
  have "w @ r \<noteq> []" using assms(1) by (simp add: clean_def)
  moreover have "takeWhile (\<lambda>c. \<not> isspace c) r = []" "dropWhile (\<lambda>c. \<not> isspace c) r = r" using assms(2) by (cases r; simp)+
  ultimately have "next_token (w @ r) = Some (w, drop 1 r)" by (simp add: next_token_def Let_def clean_split [OF assms(1)])
  then show ?thesis by (subst words_of.simps) simp
qed

lemma words_white: "list_all isspace r \<Longrightarrow> words_of r = []"
  by (subst words_of.simps) (auto simp: next_token_def Let_def list_all_iff)

lemma words_unwords: "list_all clean ws \<Longrightarrow> list_all isspace r \<Longrightarrow> words_of (unwords ws @ r) = ws"
proof (induction ws rule: unwords.induct)
  case (2 w)
  have "r = [] \<or> isspace (hd r)" "list_all isspace (drop 1 r)" using 2 by (cases r; simp)+
  then show ?case using words_clean [of w r] words_white [of "drop 1 r"] 2 by simp
next
  case (3 w v ws)
  then show ?case using words_clean [of w "CHR '' '' # unwords (v # ws) @ r"] by (simp add: space_space)
qed (simp add: words_white)

lemma unwords_no_null: "list_all clean ws \<Longrightarrow> CHR 0x00 \<notin> set (unwords ws)"
  by (induction ws rule: unwords.induct) (auto simp: clean_def)

section \<open>Numbers\<close>

lemma unat_less: "unat (w :: 'w::len word) < 2 ^ LENGTH('w)"
  by (rule unsigned_less)

lemma dec_clean: "clean (dec n)"
  using dec_digits [of n] digit_not_space by (auto simp: clean_def isdigit_def)

lemma read_dec: "n < 2 ^ 64 \<Longrightarrow> parser_read_uint64 (dec n) = Inr (of_nat n)"
  using parser_read_uint64_digits [of "[]" "dec n" "[]"] dec_digits [of n] by (simp add: apply_unit_def skip_white_spaces_def)

lemma narrow_unat:
  fixes w :: "'w::len word"
  assumes "LENGTH('w) \<le> 64" and "unat m = 2 ^ LENGTH('w) - 1"
  shows "narrow m (Inr (of_nat (unat w))) = Inr w"
proof -
  have "unat (ucast w :: u64) \<le> unat w" by (simp add: unsigned_ucast_eq)
  also have "\<dots> \<le> unat m" using assms(2) unat_less [of w] by linarith
  finally have "\<not> m < ucast w" by (simp add: word_less_nat_alt)
  moreover have "ucast (ucast w :: u64) = w" using assms(1) by (intro bit_word_eqI) (auto simp: bit_simps)
  ultimately show ?thesis by (simp add: narrow_def)
qed

lemma read_numbers:
  "parser_read_uint32 (dec (unat (w :: u32))) = Inr w" "parser_read_uint16 (dec (unat (v :: u16))) = Inr v"
  "parser_read_uint8 (dec (unat (u :: u8))) = Inr u"
proof -
  have lt: "unat w < 2 ^ 64" "unat v < 2 ^ 64" "unat u < 2 ^ 64"
    using unat_less [of w] unat_less [of v] unat_less [of u] by simp_all
  show "parser_read_uint32 (dec (unat w)) = Inr w" "parser_read_uint16 (dec (unat v)) = Inr v" "parser_read_uint8 (dec (unat u)) = Inr u"
    unfolding parser_read_uint32_def parser_read_uint16_def parser_read_uint8_def read_dec [OF lt(1)] read_dec [OF lt(2)] read_dec [OF lt(3)]
    by (rule narrow_unat; simp)+
qed

text \<open>Two hexadecimal digits.\<close>

definition hex_char :: "nat \<Rightarrow> char" where
  "hex_char d = char_of (if d < 10 then 48 + d else 55 + d)"

definition hex2 :: "u8 \<Rightarrow> string" where
  "hex2 b = [hex_char (unat b div 16), hex_char (unat b mod 16)]"

lemma hex_char:
  assumes "d < 16"
  shows "digit_val (hex_char d) = d" "\<not> isspace (hex_char d)" "hex_char d \<notin> {CHR ''-'', CHR ''+'', CHR 0x00}"
proof -
  have n: "(of_char (hex_char d) :: nat) = (if d < 10 then 48 + d else 55 + d)" using assms by (simp add: hex_char_def)
  show "digit_val (hex_char d) = d" "\<not> isspace (hex_char d)" using assms by (auto simp: digit_val_def isspace_def n)
  have "hex_char d \<noteq> c" if "(of_char c :: nat) \<notin> {48 .. 57} \<union> {65 .. 70}" for c using that n assms by (auto split: if_splits)
  then show "hex_char d \<notin> {CHR ''-'', CHR ''+'', CHR 0x00}" by auto
qed

lemma read_hex2: "parser_read_uint8_hex (hex2 b) = Inr b"
proof -
  let ?h = "unat b div 16" and ?l = "unat b mod 16"
  have b: "?h < 16" "?l < 16" using unat_less [of b] by simp_all
  note h = hex_char [OF b(1)] hex_char [OF b(2)]
  have s: "skip_white_spaces (hex2 b) = hex2 b" "skip_0x 16 (hex2 b) = hex2 b" "scan_sign (hex2 b) = (False, hex2 b)"
      "takeWhile (is_digit_in 16) (hex2 b) = hex2 b" "hex2 b \<noteq> []" "digits_value 16 (hex2 b) = unat b" "skip_white_spaces [] = []"
    using h b by (simp_all add: hex2_def skip_white_spaces_def skip_0x_def scan_sign_def is_digit_in_def digits_value_def)
  have "unat b < 2 ^ 64" using unat_less [of b] by simp
  then have "parser_read_uint64_hex (hex2 b) = Inr (of_nat (unat b))"
    by (simp add: parser_read_uint64_hex_def strtoul_def Let_def s s(5) [symmetric])
  then show ?thesis unfolding parser_read_uint8_hex_def using narrow_unat [of 255 b] by simp
qed

lemma hex2_clean: "clean (hex2 b)"
proof -
  have "unat b div 16 < 16" "unat b mod 16 < 16" using unat_less [of b] by simp_all
  from hex_char [OF this(1)] hex_char [OF this(2)] show ?thesis by (simp add: clean_def hex2_def)
qed

section \<open>Addresses\<close>

definition ip_byte :: "nat \<Rightarrow> u32 \<Rightarrow> u8" where
  "ip_byte i ip = ucast (drop_bit (8 * i) ip)"

definition show_ip :: "u32 \<Rightarrow> string" where
  "show_ip ip = quad (dec (unat (ip_byte 3 ip))) (dec (unat (ip_byte 2 ip))) (dec (unat (ip_byte 1 ip))) (dec (unat (ip_byte 0 ip)))"

lemma dec_octet: "octet (dec (unat (b :: u8)))"
  using dec_digits [of "unat b"] unat_less [of b] by (simp add: octet_def list_all_iff)

lemma dec_short: "length (dec (unat (b :: u8))) \<le> 3"
proof -
  have "length (dec n) \<le> 3" if "n < 256" for n using that
    by (subst dec.simps, subst dec.simps, subst dec.simps) auto
  then show ?thesis using unat_less [of b] by simp
qed

lemma ip_of_bytes: "ip_of [ip_byte 3 ip, ip_byte 2 ip, ip_byte 1 ip, ip_byte 0 ip] = ip"
proof (rule bit_word_eqI)
  fix n assume n: "n < LENGTH(32)"
  consider "n < 8" | "8 \<le> n" "n < 16" | "16 \<le> n" "n < 24" | "24 \<le> n" by linarith
  then show "bit (ip_of [ip_byte 3 ip, ip_byte 2 ip, ip_byte 1 ip, ip_byte 0 ip]) n = bit ip n"
    using n by cases (auto simp: ip_of_def ip_byte_def bit_simps)
qed

lemma read_ip: "parse_ipv4_addr (show_ip ip) = Inr [ip_byte 3 ip, ip_byte 2 ip, ip_byte 1 ip, ip_byte 0 ip]"
proof -
  have "inet_pton4 (show_ip ip) = Some [ip_byte 3 ip, ip_byte 2 ip, ip_byte 1 ip, ip_byte 0 ip]"
    unfolding inet_pton4_language show_ip_def
    by (intro exI conjI) (rule dec_octet refl | simp)+
  moreover have "length (show_ip ip) < 16"
    using dec_short [of "ip_byte 3 ip"] dec_short [of "ip_byte 2 ip"] dec_short [of "ip_byte 1 ip"] dec_short [of "ip_byte 0 ip"]
    by (simp add: show_ip_def quad_def)
  ultimately show ?thesis by (simp add: parse_ipv4_addr_def)
qed

lemma show_ip_clean: "clean (show_ip ip)"
  using dec_clean by (auto simp: clean_def show_ip_def quad_def isspace_def)

section \<open>Rules\<close>

definition tuple_words :: "pipeline_firewall_key_ipv4_5tuple \<Rightarrow> string list" where
  "tuple_words k = [show_ip (k_src_ip k), dec (unat (k_src_ip_mask k)), show_ip (k_dst_ip k), dec (unat (k_dst_ip_mask k)),
     dec (unat (k_src_port_from k)), dec (unat (k_src_port_to k)), dec (unat (k_dst_port_from k)), dec (unat (k_dst_port_to k)),
     dec (unat (k_proto k)), hex2 (k_proto_mask k)]"

definition rule_words :: "pipeline_firewall_key_ipv4_5tuple \<Rightarrow> u32 \<Rightarrow> u32 \<Rightarrow> string list" where
  "rule_words k pri port = [''priority'', dec (unat pri), ''ipv4''] @ tuple_words k @ [''port'', dec (unat port)]"

definition tuple_key :: "pipeline_firewall_key_ipv4_5tuple \<Rightarrow> pipeline_firewall_key" where
  "tuple_key k = \<lparr>key_type = PIPELINE_FIREWALL_IPV4_5TUPLE, key_ipv4_5tuple = k\<rparr>"

lemma keyword_clean: "clean ''priority''" "clean ''ipv4''" "clean ''port''" "clean ''add''" "clean ''del''"
  by (simp_all add: clean_def isspace_def)

lemma tuple_clean: "list_all clean (tuple_words k)"
  by (simp add: tuple_words_def dec_clean show_ip_clean hex2_clean)

lemma rule_clean: "list_all clean (rule_words k pri port)"
  using tuple_clean [of k] by (simp add: rule_words_def dec_clean keyword_clean)

lemma tokens_unwords:
  assumes "list_all clean ws" and "list_all isspace r" and "length ws \<le> n" and "0 < n"
  shows "parse_tokenize_string (Some (unwords ws @ r)) n = Inr ws"
  using parse_tokenize_string_words [OF assms(4), of "unwords ws @ r"] words_unwords [OF assms(1,2)] assms(3) by simp

lemma read_tuple:
  "read_5tuple (pre @ tuple_words k @ post) (length pre) = Inr \<lparr>key_type = PIPELINE_FIREWALL_IPV4_5TUPLE, key_ipv4_5tuple = k\<rparr>"
  by (simp add: read_5tuple_def need_def tbind_def nth_append tuple_words_def read_ip read_numbers read_hex2 ip_of_bytes [simplified])

lemma line_tokens:
  "parse_tokenize_string (Some (takeWhile (\<lambda>c. c \<noteq> CHR 0x00) (unwords (rule_words k pri port) @ [CHR 0x0A]))) 32 =
     Inr (rule_words k pri port)"
proof -
  have "takeWhile (\<lambda>c. c \<noteq> CHR 0x00) (unwords (rule_words k pri port) @ [CHR 0x0A]) = unwords (rule_words k pri port) @ [CHR 0x0A]"
    unfolding takeWhile_eq_all_conv using unwords_no_null [OF rule_clean, of k pri port] by auto
  moreover have "length (rule_words k pri port) \<le> 32" by (simp add: rule_words_def tuple_words_def)
  ultimately show ?thesis using tokens_unwords [OF rule_clean, of "[CHR 0x0A]" k pri port 32] space_space by simp
qed

text \<open>C21. Every rule can be written and is read back: the line of a rule file for a 5-tuple, a priority and a port
  is loaded as the normalised key with that priority and port, or refused where normalisation refuses the key; and
  the commands that add and delete the rule call the operations of the front end with exactly that key, priority and port.\<close>

theorem rule_text_roundtrip:
  "load_line (unwords (rule_words k pri port) @ [CHR 0x0A]) =
      (case app_pipeline_firewall_key_check_and_normalize (tuple_key k) of None \<Rightarrow> Inl () | Some key' \<Rightarrow> Inr (Some (key', pri, unat port))) \<and>
    cmd_firewall_parsed send_recv ev (unwords (''add'' # rule_words k pri port)) fe s =
      done_cmd ''firewall add'' (app_pipeline_firewall_add_rule send_recv (ev_alloc ev) fe (Some (tuple_key k)) pri (unat port) s) \<and>
    cmd_firewall_parsed send_recv ev (unwords (''del'' # ''ipv4'' # tuple_words k)) fe s =
      done_cmd ''firewall del'' (app_pipeline_firewall_delete_rule send_recv (ev_alloc ev) fe (Some (tuple_key k)) s)"
proof (intro conjI)
  have len: "length (tuple_words k) = 10" by (simp add: tuple_words_def)
  have at: "(tuple_words k @ [''port'', dec (unat port)]) ! 10 = ''port''" "(tuple_words k @ [''port'', dec (unat port)]) ! 11 = dec (unat port)"
    by (simp_all add: nth_append len)
  have r: "read_5tuple (rule_words k pri port) 3 = Inr (tuple_key k)" "read_5tuple (''add'' # rule_words k pri port) 4 = Inr (tuple_key k)"
      "read_5tuple (''del'' # ''ipv4'' # tuple_words k) 2 = Inr (tuple_key k)"
    using read_tuple [of "[''priority'', dec (unat pri), ''ipv4'']" k "[''port'', dec (unat port)]"]
      read_tuple [of "[''add'', ''priority'', dec (unat pri), ''ipv4'']" k "[''port'', dec (unat port)]"]
      read_tuple [of "[''del'', ''ipv4'']" k "[]"]
    by (simp_all add: rule_words_def tuple_key_def numeral_2_eq_2 numeral_3_eq_3 eval_nat_numeral)
  show "load_line (unwords (rule_words k pri port) @ [CHR 0x0A]) =
      (case app_pipeline_firewall_key_check_and_normalize (tuple_key k) of None \<Rightarrow> Inl () | Some key' \<Rightarrow> Inr (Some (key', pri, unat port)))"
    unfolding load_line_def line_tokens using r(1) at
    by (simp add: need_def tbind_def rule_words_def len read_numbers)
  have "list_all clean (''add'' # rule_words k pri port)" "length (''add'' # rule_words k pri port) = 16"
    using rule_clean [of k pri port] keyword_clean by (simp_all add: rule_words_def len)
  then have t: "parse_tokenize_string (Some (unwords (''add'' # rule_words k pri port))) 17 = Inr (''add'' # rule_words k pri port)"
    using tokens_unwords [of "''add'' # rule_words k pri port" "[]" 17] by simp
  show "cmd_firewall_parsed send_recv ev (unwords (''add'' # rule_words k pri port)) fe s =
      done_cmd ''firewall add'' (app_pipeline_firewall_add_rule send_recv (ev_alloc ev) fe (Some (tuple_key k)) pri (unat port) s)"
    unfolding cmd_firewall_parsed_def t using r(2) at by (simp add: Let_def rule_words_def len read_numbers)
  have "list_all clean (''del'' # ''ipv4'' # tuple_words k)" using tuple_clean [of k] keyword_clean by simp
  then have t: "parse_tokenize_string (Some (unwords (''del'' # ''ipv4'' # tuple_words k))) 17 = Inr (''del'' # ''ipv4'' # tuple_words k)"
    using tokens_unwords [of "''del'' # ''ipv4'' # tuple_words k" "[]" 17] by (simp add: len)
  show "cmd_firewall_parsed send_recv ev (unwords (''del'' # ''ipv4'' # tuple_words k)) fe s =
      done_cmd ''firewall del'' (app_pipeline_firewall_delete_rule send_recv (ev_alloc ev) fe (Some (tuple_key k)) s)"
    unfolding cmd_firewall_parsed_def t using r(3) by (simp add: Let_def len)
qed

end
