(* ===== verification/Firewall_Bulk.thy ===== *)
theory Firewall_Bulk
  imports Firewall_Host Firewall_Mirror_Bulk Rule_Text
begin

text \<open>
  Rules in bulk, from the rule file on the host to the table of the enclave, and what goes wrong when the memory
  in which the enclave builds the rules is not cleared.
\<close>

section \<open>Requests\<close>

lemma store_low_clear: "store_low 8 v w = store_low 8 v 0 \<Longrightarrow> drop_bit 8 w = 0"
proof (rule bit_word_eqI)
  fix n assume eq: "store_low 8 v w = store_low 8 v 0" and n: "n < LENGTH(64)"
  have "bit (store_low 8 v w) (8 + n) = bit (store_low 8 v 0) (8 + n)" using eq by simp
  then show "bit (drop_bit 8 w) n = bit (0 :: u64) n"
    using bit_imp_le_length [of w "8 + n"] by (auto simp: store_low_def bit_simps)
qed

lemma dirty_key:
  assumes "5 \<le> length fv" and "drop_bit 8 (af_value (fv ! 0)) \<noteq> 0" and five: "acl_num_fields (fw_acl p g) = 5"
  shows "rule_key (fw_acl p g) (store_5tuple k fv) \<noteq> fw_key p g k"
proof
  assume "rule_key (fw_acl p g) (store_5tuple k fv) = fw_key p g k"
  then have "take 5 (store_5tuple k fv) ! 0 = take 5 (store_5tuple k zero_fields) ! 0" by (simp add: fw_key_def rule_key_def five)
  then have "store_low 8 (ucast (k_proto k)) (af_value (fv ! 0)) = store_low 8 (ucast (k_proto k)) 0"
    using assms(1) by (cases fv) (simp_all add: store_5tuple_def store_field_def zero_fields_def)
  from store_low_clear [OF this] show False using assms(2) by simp
qed

lemma bulk_handlers:
  "handle_req ba p \<lparr>rq_type = 6, rq_word = 2, rq_body = b\<rparr> g =
     pipeline_firewall_msg_req_add_bulk_handler ba p \<lparr>rq_type = 6, rq_word = 2, rq_body = b\<rparr> g"
  "handle_req ba p \<lparr>rq_type = 6, rq_word = 3, rq_body = b\<rparr> g =
     pipeline_firewall_msg_req_del_bulk_handler ba p \<lparr>rq_type = 6, rq_word = 3, rq_body = b\<rparr> g"
  "handle_req ba p \<lparr>rq_type = 6, rq_word = 1, rq_body = b\<rparr> g =
     pipeline_firewall_msg_req_del_handler p \<lparr>rq_type = 6, rq_word = 1, rq_body = b\<rparr> g"
  by (simp_all add: handler_defs eval_nat_numeral)

lemma Inr_triple: "(\<exists>a b c. Inr (x, y, z) = Inr (a, b, c) \<and> P a b c) \<longleftrightarrow> P x y z"
  by simp

section \<open>Cleared memory\<close>

text \<open>The memory for the parameters is there and cleared, as the handlers expect it of \<open>rte_zmalloc\<close>.\<close>

definition clear_params :: "bulk_alloc \<Rightarrow> bool" where
  "clear_params ba \<longleftrightarrow> (\<forall>i. ba_param ba i = Some zero_fields)"

text \<open>The number of rules that the table can still take.\<close>

definition shown_space :: "fw_shown \<Rightarrow> nat" where
  "shown_space v = acl_n_rules (sh_acl v) - 1 - card (dom (acl_map (sh_acl v)))"

abbreviation table_space :: "'rt system \<Rightarrow> nat" where
  "table_space s \<equiv> shown_space (shown s)"

lemma clear_add_params:
  assumes "clear_params ba"
  shows "bulk_add_params ba (map fst xs) (map (fst \<circ> snd) xs) (map (snd \<circ> snd) xs) [0 ..< length xs] =
    map (\<lambda>x. (\<lparr>rap_priority = sint (fst (snd x)), rap_field_value = store_5tuple (tuple_of x) zero_fields\<rparr>, port_entry (snd (snd x)))) xs"
  using assms by (intro nth_equalityI) (simp_all add: bulk_add_params_def clear_params_def)

lemma clear_del_params:
  assumes "clear_params ba"
  shows "bulk_del_params ba keys [0 ..< length keys] = map (\<lambda>key. store_5tuple (key_ipv4_5tuple key) zero_fields) keys"
  using assms by (intro nth_equalityI) (simp_all add: bulk_del_params_def clear_params_def)

lemma shown_added:
  assumes five: "five_fields (fw_view p g)" and "distinct (map tuple_of xs)" and "\<forall>x \<in> set xs. m (fw_key p g (tuple_of x)) = None"
  shows "map_option (\<lambda>(q, e). (q, pte_id e)) (fold add_one
      (map (\<lambda>x. (fw_key p g (tuple_of x), RTE_ACL_MAX_PRIORITY - sint (fst (snd x)), port_entry (snd (snd x)))) xs) m (fw_key p g k)) =
    added xs (\<lambda>k. map_option (\<lambda>(q, e). (q, pte_id e)) (m (fw_key p g k))) k"
  using assms(2,3)
proof (induction xs arbitrary: m)
  case (Cons x xs)
  obtain key pri port where x: "x = (key, pri, port)" by (cases x)
  let ?m = "m(fw_key p g (key_ipv4_5tuple key) \<mapsto> (RTE_ACL_MAX_PRIORITY - sint pri, port_entry port))"
  have "(\<lambda>k. map_option (\<lambda>(q, e). (q, pte_id e)) (?m (fw_key p g k))) =
      (\<lambda>k. map_option (\<lambda>(q, e). (q, pte_id e)) (m (fw_key p g k)))(key_ipv4_5tuple key \<mapsto> (RTE_ACL_MAX_PRIORITY - sint pri, port))"
    by (rule ext) (simp add: key_inj [OF five] port_entry_def)
  moreover have "\<forall>y \<in> set xs. ?m (fw_key p g (tuple_of y)) = None"
    using Cons.prems x by (auto simp: key_inj [OF five] rev_image_eqI)
  moreover have "add_one (fw_key p g (tuple_of x), RTE_ACL_MAX_PRIORITY - sint (fst (snd x)), port_entry (snd (snd x))) m = ?m"
    using Cons.prems(2) x by (simp add: add_one_def del: fun_upd_apply)
  ultimately show ?case using Cons.IH [of ?m] Cons.prems(1) by (simp add: x del: fun_upd_apply)
qed simp

text \<open>A bulk addition of new rules that the enclave served.\<close>

lemma served_add_bulk:
  assumes sv: "served S ba N v (add_bulk_request xs kf ptrs) rsp v'" and five: "five_fields v" and clear: "clear_params ba"
    and ok: "\<forall>x \<in> set xs. key_type (fst x) = 0 \<and> snd (snd x) < N" and dist: "distinct (map tuple_of xs)"
    and new: "\<forall>x \<in> set xs. shown_rule v (tuple_of x) = None" and len: "length ptrs = length xs"
  shows "five_fields v' \<and> sh_default v' = sh_default v \<and>
    (if rs_status rsp = 0
     then shown_rule v' = added xs (shown_rule v) \<and>
       (\<exists>ptrs'. rs_out rsp = Out_Add_Bulk (replicate (length xs) False) ptrs' \<and> length ptrs' = length xs \<and> None \<notin> set ptrs')
     else shown_rule v' = shown_rule v \<and> (rs_out rsp = Out_None \<or> (\<exists>kf'. rs_out rsp = Out_Add_Bulk kf' ptrs))) \<and>
    (compiles S \<and> (\<forall>i < length xs. ba_entry ba i) \<and> xs \<noteq> [] \<and> None \<notin> set ptrs \<and> length xs \<le> shown_space v \<and>
     (\<forall>x \<in> set xs. 0 \<le> sint (fst (snd x)) \<and> sint (fst (snd x)) \<le> RTE_ACL_MAX_PRIORITY) \<longrightarrow> rs_status rsp = 0)"
proof -
  obtain p g p' g' where a: "fw_inv S p g" "be_n_ports_out p = N" "v = fw_view p g"
      "handle_req ba p (add_bulk_request xs kf ptrs) g = Inr (rsp, p', g')" "v' = fw_view p' g'"
    using sv by (auto simp: served_def)
  have h: "pipeline_firewall_msg_req_add_bulk_handler ba p (add_bulk_request xs kf ptrs) g = Inr (rsp, p', g')"
    using a(4) by (simp add: add_bulk_request_def bulk_handlers)
  let ?ps = "map (\<lambda>x. (\<lparr>rap_priority = sint (fst (snd x)), rap_field_value = store_5tuple (tuple_of x) zero_fields\<rparr>, port_entry (snd (snd x)))) xs"
  have fv: "five_fields (fw_view p g)" using five a(3) by simp
  have keys: "map (param_key (fw_acl p g)) ?ps = map (fw_key p g) (map tuple_of xs)" by (simp add: fw_key_def)
  have inj: "inj (fw_key p g)" using key_inj [OF fv] by (simp add: inj_def)
  have d: "distinct (map (param_key (fw_acl p g)) ?ps)"
    unfolding keys using dist inj by (simp only: distinct_map inj_on_subset [OF inj subset_UNIV])
  have absent: "\<forall>x \<in> set xs. fw_map p g (fw_key p g (tuple_of x)) = None" using new by (simp add: a(3) shown_view)
  then have absent': "\<forall>x \<in> set ?ps. fw_map p g (param_key (fw_acl p g) x) = None" by (simp add: fw_key_def)
  have body: "rq_body (add_bulk_request xs kf ptrs) = Add_Bulk_Body (map fst xs) (length xs) (map (fst \<circ> snd) xs) (map (snd \<circ> snd) xs) kf ptrs"
    by (simp add: add_bulk_request_def)
  have ko: "bulk_keys_ok (map fst xs) (length xs)" "bulk_ports_ok p (map (fst \<circ> snd) xs) (map (snd \<circ> snd) xs) (length xs)"
    using ok a(2) by (simp_all add: bulk_keys_ok_def bulk_ports_ok_def)
  note spec = add_bulk_spec [OF a(1) body ko len clear_add_params [OF clear, symmetric], unfolded h Inr_triple]
  have m: "fw_map p' g' = fold add_one (map (\<lambda>x. (fw_key p g (tuple_of x), RTE_ACL_MAX_PRIORITY - sint (fst (snd x)), port_entry (snd (snd x)))) xs)
      (fw_map p g)" if "rs_status rsp = 0"
  proof -
    have r: "bulk_request (fw_acl p g) ?ps =
        map (\<lambda>x. (fw_key p g (tuple_of x), RTE_ACL_MAX_PRIORITY - sint (fst (snd x)), port_entry (snd (snd x)))) xs"
      by (simp add: bulk_request_def fw_key_def comp_def)
    have "distinct (map fst (bulk_request (fw_acl p g) ?ps))" using d by (simp add: r fw_key_def comp_def)
    from bulk_map_distinct [OF this, of "{}"] show ?thesis using spec that by (simp add: r)
  qed
  have fail: "fw_map p' g' = fw_map p g \<and> (rs_out rsp = Out_None \<or> (\<exists>kf'. rs_out rsp = Out_Add_Bulk kf' ptrs))" if "rs_status rsp \<noteq> 0"
    using spec d absent' that by blast
  have none: "map (\<lambda>x. fw_map p g (param_key (fw_acl p g) x) \<noteq> None) ?ps = replicate (length xs) False"
    using absent' by (intro replicate_eqI) auto
  have found: "\<exists>ptrs'. rs_out rsp = Out_Add_Bulk (replicate (length xs) False) ptrs' \<and> length ptrs' = length xs \<and> None \<notin> set ptrs'"
    if "rs_status rsp = 0" using spec d that unfolding none by blast
  have f: "five_fields (fw_view p' g')" using fv spec by (simp add: fw_view_def)
  have c: "card (dom (fw_map p g) \<union> param_key (fw_acl p g) ` set ?ps) < su_n_rules S" if "xs \<noteq> []" "length xs \<le> shown_space v"
  proof -
    have "card (param_key (fw_acl p g) ` set ?ps) \<le> length ?ps"
      using card_length [of "map (param_key (fw_acl p g)) ?ps"] by (simp only: set_map length_map)
    then show ?thesis using that card_Un_le [of "dom (fw_map p g)" "param_key (fw_acl p g) ` set ?ps"] fw_aclD(4) [OF a(1)]
      by (cases xs) (simp_all add: shown_space_def a(3) fw_view_def fw_map_def)
  qed
  have succ: "compiles S \<and> (\<forall>i < length xs. ba_entry ba i) \<and> xs \<noteq> [] \<and> None \<notin> set ptrs \<and> length xs \<le> shown_space v \<and>
     (\<forall>x \<in> set xs. 0 \<le> sint (fst (snd x)) \<and> sint (fst (snd x)) \<le> RTE_ACL_MAX_PRIORITY) \<longrightarrow> rs_status rsp = 0"
    using spec c clear by (auto simp: compiles_def clear_params_def)
  have same: "shown_rule v' = shown_rule v" if "fw_map p' g' = fw_map p g"
    using that a(3,5) key_same [OF fv f] by (intro ext) (simp add: shown_view)
  have upd: "shown_rule v' = added xs (shown_rule v)" if "rs_status rsp = 0"
    using shown_added [OF fv dist absent] m [OF that] unfolding a(3,5) by (intro ext) (simp add: shown_view [abs_def] key_same [OF fv f])
  have "sh_default v' = sh_default v" using spec a(3,5) by (simp add: fw_view_def)
  then show ?thesis using f found fail same upd succ a(5) by auto
qed

lemma served_del_bulk:
  assumes sv: "served S ba N v (del_bulk_request keys kf) rsp v'" and five: "five_fields v" and clear: "clear_params ba"
    and ok: "\<forall>key \<in> set keys. key_type key = 0" and dist: "distinct (map key_ipv4_5tuple keys)" and len: "length kf = length keys"
  shows "five_fields v' \<and> sh_default v' = sh_default v \<and>
    (if rs_status rsp = 0
     then shown_rule v' = shown_rule v |` (- key_ipv4_5tuple ` set keys) \<and>
       rs_out rsp = Out_Del_Bulk (map (\<lambda>key. shown_rule v (key_ipv4_5tuple key) \<noteq> None) keys)
     else shown_rule v' = shown_rule v) \<and> (compiles S \<and> keys \<noteq> [] \<longrightarrow> rs_status rsp = 0)"
proof -
  obtain p g p' g' where a: "fw_inv S p g" "v = fw_view p g"
      "handle_req ba p (del_bulk_request keys kf) g = Inr (rsp, p', g')" "v' = fw_view p' g'"
    using sv by (auto simp: served_def)
  have h: "pipeline_firewall_msg_req_del_bulk_handler ba p (del_bulk_request keys kf) g = Inr (rsp, p', g')"
    using a(3) by (simp add: del_bulk_request_def bulk_handlers)
  let ?ps = "map (\<lambda>key. store_5tuple (key_ipv4_5tuple key) zero_fields) keys"
  have fv: "five_fields (fw_view p g)" using five a(2) by simp
  have inj: "inj (fw_key p g)" using key_inj [OF fv] by (simp add: inj_def)
  have keys: "map (rule_key (fw_acl p g)) ?ps = map (fw_key p g) (map key_ipv4_5tuple keys)" by (simp add: fw_key_def)
  have d: "distinct (map (rule_key (fw_acl p g)) ?ps)"
    unfolding keys using dist inj by (simp only: distinct_map inj_on_subset [OF inj subset_UNIV])
  have body: "rq_body (del_bulk_request keys kf) = Del_Bulk_Body keys (length keys) kf" by (simp add: del_bulk_request_def)
  have ko: "bulk_keys_ok keys (length keys)" using ok by (simp add: bulk_keys_ok_def)
  note spec = del_bulk_spec [OF a(1) body ko clear_del_params [OF clear, symmetric], unfolded h Inr_triple]
  have f: "five_fields (fw_view p' g')" using fv spec by (simp add: fw_view_def)
  have img: "rule_key (fw_acl p g) ` set ?ps = fw_key p g ` key_ipv4_5tuple ` set keys" by (auto simp: fw_key_def)
  have del: "shown_rule v' = shown_rule v |` (- key_ipv4_5tuple ` set keys)" if "rs_status rsp = 0"
  proof (rule ext)
    fix k
    have "fw_map p' g' = fw_map p g |` (- (fw_key p g ` key_ipv4_5tuple ` set keys))" using spec that img by simp
    then show "shown_rule v' k = (shown_rule v |` (- key_ipv4_5tuple ` set keys)) k"
      by (simp add: a(2,4) shown_view key_same [OF fv f] restrict_map_def inj_image_mem_iff [OF inj])
  qed
  have found: "rs_out rsp = Out_Del_Bulk (map (\<lambda>key. shown_rule v (key_ipv4_5tuple key) \<noteq> None) keys)" if "rs_status rsp = 0"
  proof -
    have e: "map (\<lambda>k. fw_map p g (rule_key (fw_acl p g) k) \<noteq> None) ?ps = map (\<lambda>key. shown_rule v (key_ipv4_5tuple key) \<noteq> None) keys"
      by (simp add: a(2) shown_view fw_key_def)
    show ?thesis using spec that d len unfolding e by blast
  qed
  have same: "shown_rule v' = shown_rule v" if "rs_status rsp \<noteq> 0"
    using spec that a(2,4) key_same [OF fv f] by (intro ext) (simp add: shown_view)
  have succ: "compiles S \<and> keys \<noteq> [] \<longrightarrow> rs_status rsp = 0" using spec clear by (auto simp: compiles_def clear_params_def)
  have "sh_default v' = sh_default v" using spec a(2,4) by (simp add: fw_view_def)
  then show ?thesis using f del found same succ a(4) by simp
qed

section \<open>The enclave as the service for bulk requests\<close>

definition bulk_ready where
  "bulk_ready S n fuel its m i k N ba s \<longleftrightarrow> clear_params ba \<and> host_ready S n fuel its m i k N s"

lemma bulk_readyD:
  assumes "bulk_ready S n fuel its m i k N ba s"
  shows "clear_params ba" "host_ready S n fuel its m i k N s" "bulk_ready S n fuel its m i k N ba = host_ready S n fuel its m i k N"
  using assms by (auto simp: bulk_ready_def fun_eq_iff)

lemma bulk_requests_ok:
  "\<forall>x \<in> set xs. key_type (fst x) = 0 \<and> snd (snd x) < be_n_ports_out p \<Longrightarrow> length ptrs = length xs \<Longrightarrow> req_ok p (add_bulk_request xs kf ptrs)"
  "\<forall>key \<in> set keys. key_type key = 0 \<Longrightarrow> req_ok p (del_bulk_request keys kf)"
  by (simp_all add: req_ok_def add_bulk_request_def del_bulk_request_def bulk_keys_ok_def bulk_ports_ok_def)

interpretation host_bulk: bulk_service "host_call S n md fuel sf env ba f other its m i k" "bulk_ready S n fuel its m i k N ba"
  table_rule table_default N "compiles S" table_room table_space "\<lambda>n. \<forall>i < n. ba_entry ba i"
proof (unfold_locales, goal_cases)
  case 1
  from bulk_readyD [OF 1(1)] show ?case using 1 host.add_law by metis
next
  case 2
  from bulk_readyD [OF 2(1)] show ?case using 2 host.del_law by metis
next
  case 3
  from bulk_readyD [OF 3(1)] show ?case using 3 host.add_default_law by metis
next
  case 4
  from bulk_readyD [OF 4] show ?case using 4 host.del_default_law by metis
next
  case (5 s xs ptrs kf)
  note b = bulk_readyD [OF 5(1)]
  obtain rsp s' where x: "host_call S n md fuel sf env ba f other its m i k (add_bulk_request xs kf ptrs) s = Inr (Some rsp, s')"
      "served S ba N (shown s) (add_bulk_request xs kf ptrs) rsp (shown s')" "five_fields (shown s)"
      "five_fields (shown s') \<longrightarrow> host_ready S n fuel its m i k N s'"
    by (rule host_served [OF b(2) bulk_requests_ok(1)]) (use 5 in simp_all)
  from served_add_bulk [OF x(2,3) b(1) 5(2,3) 5(4) [unfolded table_shown] 5(5)] x(1,4) show ?case
    unfolding b(3) table_shown by (intro exI [of _ rsp] exI [of _ s']) simp
next
  case (6 s keys kf)
  note b = bulk_readyD [OF 6(1)]
  obtain rsp s' where x: "host_call S n md fuel sf env ba f other its m i k (del_bulk_request keys kf) s = Inr (Some rsp, s')"
      "served S ba N (shown s) (del_bulk_request keys kf) rsp (shown s')" "five_fields (shown s)"
      "five_fields (shown s') \<longrightarrow> host_ready S n fuel its m i k N s'"
    by (rule host_served [OF b(2) bulk_requests_ok(2)]) (use 6 in simp_all)
  from served_del_bulk [OF x(2,3) b(1) 6(2-4)] x(1,4) show ?case
    unfolding b(3) table_shown by (intro exI [of _ rsp] exI [of _ s']) simp
qed

text \<open>C14. Adding rules in bulk from the host, end to end, when the memory of the enclave's parameters is cleared:
  for distinct keys that have no rule yet the operation returns, and list and table agree again. Status 0: the
  table has each of the rules, with its normalised key, its port and its priority, beside what it had. Another
  status: neither side changed, and the front end freed only what it had allocated. With memory on both sides,
  rules that compile, valid rules, priorities in range and enough free places the status is 0.\<close>

theorem host_add_bulk:
  assumes "host_ready S n fuel its m i k N s" and "table_mirror N p s" and "clear_params ba"
    and "distinct (map (\<lambda>x. normal_key (fst x)) xs)"
    and "\<forall>x \<in> set xs. \<forall>key. normal_key (fst x) = Some key \<longrightarrow> table_rule s (key_ipv4_5tuple key) = None"
  shows "\<exists>st p' s'. app_pipeline_firewall_add_bulk (host_call S n md fuel sf env ba f other its m i k) al (Some p) xs s = Inr (st, Some p', s') \<and>
    host_ready S n fuel its m i k N s' \<and> table_mirror N p' s' \<and>
    (if st = 0 then table_rule s' = added (map normal_rule xs) (table_rule s) else p' = p \<and> table_rule s' = table_rule s) \<and>
    (compiles S \<and> (\<forall>i < length xs. ba_entry ba i) \<and> xs \<noteq> [] \<and> length xs \<le> table_space s \<and> (\<forall>x \<in> set xs. rule_valid N x \<and>
       0 \<le> sint (fst (snd x)) \<and> sint (fst (snd x)) \<le> RTE_ACL_MAX_PRIORITY) \<and>
     fb_rules al \<and> fb_new_rules al \<and> (\<forall>i. fb_rule al i) \<and> fb_keys_found al \<noteq> None \<and> fb_entries_ptr al \<and> (\<forall>i. fb_entry al i \<noteq> None) \<and> fb_msg al
     \<longrightarrow> st = 0)"
proof -
  have r: "bulk_ready S n fuel its m i k N ba s" using assms(1,3) by (simp add: bulk_ready_def)
  show ?thesis using host_bulk.add_bulk_mirrors [OF r assms(2,4,5), of md sf env f other al] unfolding bulk_readyD(3) [OF r] .
qed

definition clear_ba :: bulk_alloc where
  "clear_ba = \<lparr>ba_entry = (\<lambda>_. True), ba_param = (\<lambda>_. Some zero_fields)\<rparr>"

definition bulk_all :: "nat \<Rightarrow> fe_bulk_alloc" where
  "bulk_all n = \<lparr>fb_rules = True, fb_new_rules = True, fb_rule = (\<lambda>_. True), fb_keys_found = Some (replicate n True), fb_entries_ptr = True,
     fb_entry = Some, fb_msg = True\<rparr>"

definition fw_key1 :: pipeline_firewall_key where
  "fw_key1 = fw_key0\<lparr>key_ipv4_5tuple := (key_ipv4_5tuple fw_key0)\<lparr>k_proto := 17\<rparr>\<rparr>"

abbreviation clear_call :: "demo_rt system exchange" where
  "clear_call \<equiv> host_call fw_setup0 1 (\<lambda>_ _ _. 0) 4 0 (\<lambda>_ r. r) clear_ba 0 (\<lambda>_ s. s) (\<lambda>_. 16) 1 0 0"

lemma fw_key1_normal: "normal_key fw_key1 = Some fw_key1" and fw_keys_differ: "key_ipv4_5tuple fw_key1 \<noteq> key_ipv4_5tuple fw_key0"
  by code_simp+

lemma demo_space:
  assumes "fw_inv fw_setup0 p g" and "fw_map p g = Map.empty"
  shows "table_space (0, p, fw_msgs1, g) = 4095"
  using assms fw_aclD(4) [OF assms(1)] su_n_rules0 by (simp add: shown_space_def shown_def fw_view_def fw_map_def)

theorem host_add_bulk_witness:
  "\<exists>p g p' s'. fw_init0 = Inr (Some p, g) \<and>
     app_pipeline_firewall_add_bulk clear_call (bulk_all 2) (Some fe0) [(fw_key0, 1, 1), (fw_key1, 2, 0)] (0, p, fw_msgs1, g) = Inr (0, Some p', s') \<and>
     table_mirror 2 p' s' \<and>
     table_rule s' = [key_ipv4_5tuple fw_key0 \<mapsto> (RTE_ACL_MAX_PRIORITY - 1, 1), key_ipv4_5tuple fw_key1 \<mapsto> (RTE_ACL_MAX_PRIORITY - 2, 0)]"
proof -
  let ?xs = "[(fw_key0, 1, 1), (fw_key1, 2, 0)] :: (pipeline_firewall_key \<times> u32 \<times> nat) list"
  obtain p g where d: "fw_init0 = Inr (Some p, g)" "demo_host (0, p, fw_msgs1, g)" "table_mirror 2 fe0 (0, p, fw_msgs1, g)"
      "table_rule (0, p, fw_msgs1, g) = Map.empty" by (rule demo_host_ready)
  obtain p0 g0 where z: "fw_init0 = Inr (Some p0, g0)" "fw_inv fw_setup0 p0 g0" "fw_map p0 g0 = Map.empty" by (rule demo_init)
  have sp: "table_space (0, p, fw_msgs1, g) = 4095" using demo_space [OF z(2,3)] trans [OF z(1) [symmetric] d(1)] by simp
  have c: "clear_params clear_ba" "distinct (map (\<lambda>x. normal_key (fst x)) ?xs)"
      "\<forall>x \<in> set ?xs. \<forall>key. normal_key (fst x) = Some key \<longrightarrow> table_rule (0, p, fw_msgs1, g) (key_ipv4_5tuple key) = None"
    using d(4) fw_keys_differ by (auto simp: clear_params_def clear_ba_def fw_key0_normal fw_key1_normal)
  have n: "map normal_rule ?xs = ?xs" by (simp add: normal_rule_def fw_key0_normal fw_key1_normal)
  from host_add_bulk [OF d(2,3) c, of "\<lambda>_ _ _. 0" 0 "\<lambda>_ r. r" 0 "\<lambda>_ s. s" "bulk_all 2"] obtain st p' s' where
      a: "app_pipeline_firewall_add_bulk clear_call (bulk_all 2) (Some fe0) ?xs (0, p, fw_msgs1, g) = Inr (st, Some p', s')" "table_mirror 2 p' s'"
      "st = 0 \<longrightarrow> table_rule s' = added ?xs (table_rule (0, p, fw_msgs1, g))" "st = 0"
    unfolding n using demo_compiles sp
    by (auto simp: bulk_all_def clear_ba_def rule_valid_def fw_key0_normal fw_key1_normal)
  have "table_rule s' = [key_ipv4_5tuple fw_key0 \<mapsto> (RTE_ACL_MAX_PRIORITY - 1, 1), key_ipv4_5tuple fw_key1 \<mapsto> (RTE_ACL_MAX_PRIORITY - 2, 0)]"
    using a(3,4) d(4) by simp
  then show ?thesis using d(1) a(2) a(1) [unfolded a(4)] by blast
qed

text \<open>C15. Deleting rules in bulk from the host, end to end, with cleared memory and distinct keys: the operation
  returns. Status 0: the rules are gone from list and table, which agree again. Another status: the list is as
  it was, and so is the table unless one of the keys had no rule. In that case the enclave has deleted the
  others while the front end keeps them: with memory, rules that compile and valid keys the keys
  always leave the table, but they leave the list only if all of them were there.\<close>

theorem host_delete_bulk:
  assumes "host_ready S n fuel its m i k N s" and "table_mirror N p s" and "clear_params ba"
    and "distinct (map normal_key keys)" and "\<forall>kf. fb_keys_found al = Some kf \<longrightarrow> length kf = length keys"
  shows "\<exists>st p' s'. app_pipeline_firewall_delete_bulk (host_call S n md fuel sf env ba f other its m i k) al (Some p) keys s = Inr (st, Some p', s') \<and>
    host_ready S n fuel its m i k N s' \<and>
    (if st = 0
     then table_mirror N p' s' \<and> table_rule s' = table_rule s |` (- (key_ipv4_5tuple \<circ> the \<circ> normal_key) ` set keys)
     else p' = p \<and> (table_rule s' = table_rule s \<and> table_mirror N p s' \<or>
       table_rule s' = table_rule s |` (- (key_ipv4_5tuple \<circ> the \<circ> normal_key) ` set keys) \<and>
       (\<exists>key \<in> set keys. table_rule s (key_ipv4_5tuple (the (normal_key key))) = None))) \<and>
    (compiles S \<and> keys \<noteq> [] \<and> None \<notin> normal_key ` set keys \<and> fb_rules al \<and> fb_keys_found al \<noteq> None \<and> fb_msg al \<longrightarrow>
      table_rule s' = table_rule s |` (- (key_ipv4_5tuple \<circ> the \<circ> normal_key) ` set keys) \<and>
      (st = 0 \<longleftrightarrow> (\<forall>key \<in> set keys. table_rule s (key_ipv4_5tuple (the (normal_key key))) \<noteq> None)))"
proof -
  have r: "bulk_ready S n fuel its m i k N ba s" using assms(1,3) by (simp add: bulk_ready_def)
  show ?thesis using host_bulk.delete_bulk_mirrors [OF r assms(2,4,5), of md sf env f other] unfolding bulk_readyD(3) [OF r] .
qed

text \<open>One rule is there and one is not: the bulk deletion of both fails, the rule is gone from the table and the
  front end still lists it.\<close>

theorem host_delete_bulk_witness:
  "\<exists>p g fe1 s1 st s2. fw_init0 = Inr (Some p, g) \<and>
     app_pipeline_firewall_add_rule demo_call all_alloc (Some fe0) (Some fw_key0) 1 1 (0, p, fw_msgs1, g) = Inr (0, Some fe1, s1) \<and>
     app_pipeline_firewall_delete_bulk clear_call (bulk_all 2) (Some fe1) [fw_key0, fw_key1] s1 = Inr (st, Some fe1, s2) \<and> st \<noteq> 0 \<and>
     app_pipeline_firewall_rule_find fe1 fw_key0 \<noteq> None \<and> table_rule s2 = Map.empty"
proof -
  obtain p g where d: "fw_init0 = Inr (Some p, g)" "demo_host (0, p, fw_msgs1, g)" "table_mirror 2 fe0 (0, p, fw_msgs1, g)"
      "table_rule (0, p, fw_msgs1, g) = Map.empty" "table_room (0, p, fw_msgs1, g)" by (rule demo_host_ready)
  obtain fe1 s1 pos where a: "app_pipeline_firewall_add_rule demo_call all_alloc (Some fe0) (Some fw_key0) 1 1 (0, p, fw_msgs1, g) = Inr (0, Some fe1, s1)"
      "demo_host s1" "table_mirror 2 fe1 s1" "table_rule s1 = [key_ipv4_5tuple fw_key0 \<mapsto> (RTE_ACL_MAX_PRIORITY - 1, 1)]"
      "app_pipeline_firewall_rule_find fe1 fw_key0 = Some \<lparr>r_key = fw_key0, r_priority = 1, r_port_id = 1, r_entry_ptr = pos\<rparr>"
    by (rule demo_add [OF d(2,3), of 1]) (use d(4,5) in auto)
  have c: "clear_params clear_ba" "distinct (map normal_key [fw_key0, fw_key1])" "\<forall>kf. fb_keys_found (bulk_all 2) = Some kf \<longrightarrow> length kf = length [fw_key0, fw_key1]"
    using fw_keys_differ by (auto simp: clear_params_def clear_ba_def bulk_all_def fw_key0_normal fw_key1_normal)
  from host_delete_bulk [OF a(2,3) c, of "\<lambda>_ _ _. 0" 0 "\<lambda>_ r. r" 0 "\<lambda>_ s. s"] obtain st p' s2 where
      b: "app_pipeline_firewall_delete_bulk clear_call (bulk_all 2) (Some fe1) [fw_key0, fw_key1] s1 = Inr (st, Some p', s2)"
      "st \<noteq> 0 \<longrightarrow> p' = fe1" "st \<noteq> 0" "table_rule s2 = table_rule s1 |` (- {key_ipv4_5tuple fw_key0, key_ipv4_5tuple fw_key1})"
    using demo_compiles a(4) fw_keys_differ by (auto simp: bulk_all_def fw_key0_normal fw_key1_normal)
  have "table_rule s2 = Map.empty" unfolding b(4) a(4) by (auto simp: restrict_map_def fun_eq_iff)
  moreover have "app_pipeline_firewall_rule_find fe1 fw_key0 \<noteq> None" "p' = fe1" using a(5) b(2,3) by simp_all
  ultimately show ?thesis using d(1) a(1) b(1,3) by metis
qed

section \<open>Memory that is not cleared\<close>

text \<open>C16. A rule that was added in bulk may not be deleted any more. The bulk handlers take their parameters from
  \<open>rte_zmalloc\<close>, which does not clear memory in the enclave, and store only the low bytes of the fields; when the block
  holds other bytes, the rule is installed under a key with these bytes in it. The request to delete its
  5-tuple is then answered with status 0 and \<open>key_found\<close> 0, and the rule stays in the table.\<close>

theorem bulk_rule_lost_in_dirty_memory:
  assumes "fw_inv S p g" and "acl_num_fields (fw_acl p g) = 5" and "compiles S"
    and "port < be_n_ports_out p" and "0 \<le> sint pri" "sint pri \<le> RTE_ACL_MAX_PRIORITY"
    and "ba_entry ba 0" "ba_param ba 0 = Some fv" "5 \<le> length fv" and dirty: "drop_bit 8 (af_value (fv ! 0)) \<noteq> 0"
    and new: "fw_map p g (fw_key p g k) = None" and room: "card (dom (fw_map p g)) + 1 < su_n_rules S"
  shows "\<exists>rsp p' g' rsp' p'' g''.
    handle_req ba p \<lparr>rq_type = 6, rq_word = 2, rq_body = Add_Bulk_Body [tuple_key k] 1 [pri] [port] [False] [Some a]\<rparr> g = Inr (rsp, p', g') \<and>
    rs_status rsp = 0 \<and>
    handle_req ba p' \<lparr>rq_type = 6, rq_word = 1, rq_body = Del_Body (tuple_key k)\<rparr> g' = Inr (rsp', p'', g'') \<and>
    rsp' = \<lparr>rs_status = 0, rs_out = Out_Del (Some False)\<rparr> \<and>
    fw_map p'' g'' (rule_key (fw_acl p g) (store_5tuple k fv)) \<noteq> None"
proof -
  let ?req = "\<lparr>rq_type = 6, rq_word = 2, rq_body = Add_Bulk_Body [tuple_key k] 1 [pri] [port] [False] [Some a]\<rparr>"
  let ?del = "\<lparr>rq_type = 6, rq_word = 1, rq_body = Del_Body (tuple_key k)\<rparr>"
  let ?ps = "bulk_add_params ba [tuple_key k] [pri] [port] [0 ..< 1]" and ?bk = "rule_key (fw_acl p g) (store_5tuple k fv)"
  have ps: "?ps = [(\<lparr>rap_priority = sint pri, rap_field_value = store_5tuple k fv\<rparr>, port_entry port)]"
    using assms(8) by (simp add: bulk_add_params_def tuple_key_def)
  have ok: "bulk_keys_ok [tuple_key k] 1" "bulk_ports_ok p [pri] [port] 1" "length [Some a] = 1" "0 < (1 :: nat)" "None \<notin> set [Some a]"
      "\<forall>i < 1. ba_entry ba i \<and> ba_param ba i \<noteq> None \<and> 0 \<le> sint ([pri] ! i) \<and> sint ([pri] ! i) \<le> RTE_ACL_MAX_PRIORITY"
    using assms(4-8) by (simp_all add: bulk_keys_ok_def bulk_ports_ok_def tuple_key_def)
  have cb: "can_build (su_lib S) (su_ctx S g) (acl_cfg (fw_acl p g))" for g p using assms(3) by (simp add: compiles_def)
  have "card (dom (fw_map p g) \<union> param_key (fw_acl p g) ` set ?ps) \<le> card (dom (fw_map p g)) + 1"
    unfolding ps using card_Un_le [of "dom (fw_map p g)" "{?bk}"] by simp
  then have cd: "card (dom (fw_map p g) \<union> param_key (fw_acl p g) ` set ?ps) < su_n_rules S" using room by simp
  obtain rsp p' g' where a: "handle_req ba p ?req g = Inr (rsp, p', g')" "kept S p g p' g'" "rs_status rsp = 0"
      "fw_map p' g' = bulk_map (fw_map p g) {} (bulk_request (fw_acl p g) ?ps)" "acl_num_fields (fw_acl p' g') = acl_num_fields (fw_acl p g)"
    using add_bulk_spec [OF assms(1) fw_req.select_convs(3) ok(1-3) refl, of ba 6 2 "[False]"] cb ok(4-6) cd unfolding bulk_handlers by metis
  have key: "fw_key p' g' k = fw_key p g k" "?bk \<noteq> fw_key p g k"
    using a(5) dirty_key [OF assms(9) dirty assms(2)] by (simp_all add: fw_key_def rule_key_def)
  have m: "fw_map p' g' ?bk \<noteq> None" "fw_map p' g' (fw_key p' g' k) = None"
    using a(4) [unfolded ps] new key by (auto simp: bulk_request_def split: option.splits)
  have inv': "fw_inv S p' g'" using kept_be(5) [OF a(2)] .
  obtain rsp' p'' g'' where d: "handle_req ba p' ?del g' = Inr (rsp', p'', g'')" "rs_status rsp' = 0"
      "fw_map p'' g'' = (fw_map p' g')(fw_key p' g' k := None)" "rs_out rsp' = Out_Del (Some (fw_map p' g' (fw_key p' g' k) \<noteq> None))"
    using del_spec [OF inv', of ?del "tuple_key k"] cb unfolding bulk_handlers by (auto simp: tuple_key_def)
  have "fw_map p'' g'' ?bk \<noteq> None" using d(3) m(1) key by simp
  moreover have "rsp' = \<lparr>rs_status = 0, rs_out = Out_Del (Some False)\<rparr>" using d(2,4) m(2) by (cases rsp') simp
  ultimately show ?thesis using a(1,3) d(1) by blast
qed

definition dirty_fields :: "rte_acl_field list" where
  "dirty_fields = replicate RTE_ACL_MAX_FIELDS \<lparr>af_value = 0xABABABABABABABAB, af_mask_range = 0\<rparr>"

theorem bulk_rule_lost_in_dirty_memory_witness:
  "\<exists>p g rsp p' g' rsp' p'' g''. fw_init0 = Inr (Some p, g) \<and>
     handle_req \<lparr>ba_entry = (\<lambda>_. True), ba_param = (\<lambda>_. Some dirty_fields)\<rparr> p
       \<lparr>rq_type = 6, rq_word = 2, rq_body = Add_Bulk_Body [tuple_key (key_ipv4_5tuple fw_key0)] 1 [1] [1] [False] [Some 9]\<rparr> g = Inr (rsp, p', g') \<and>
     rs_status rsp = 0 \<and>
     handle_req \<lparr>ba_entry = (\<lambda>_. True), ba_param = (\<lambda>_. Some dirty_fields)\<rparr> p'
       \<lparr>rq_type = 6, rq_word = 1, rq_body = Del_Body (tuple_key (key_ipv4_5tuple fw_key0))\<rparr> g' = Inr (rsp', p'', g'') \<and>
     rsp' = \<lparr>rs_status = 0, rs_out = Out_Del (Some False)\<rparr>"
proof -
  obtain p g where d: "fw_init0 = Inr (Some p, g)" "fw_inv fw_setup0 p g" "fw_map p g = Map.empty" "be_n_ports_out p = 2"
      "acl_num_fields (fw_acl p g) = 5" by (rule demo_init)
  have c: "1 < be_n_ports_out p" "0 \<le> sint (1 :: u32)" "sint (1 :: u32) \<le> RTE_ACL_MAX_PRIORITY" "5 \<le> length dirty_fields"
      "drop_bit 8 (af_value (dirty_fields ! 0)) \<noteq> 0" "fw_map p g (fw_key p g (key_ipv4_5tuple fw_key0)) = None"
      "card (dom (fw_map p g)) + 1 < su_n_rules fw_setup0"
    using d(3,4) su_n_rules0 by (simp_all add: dirty_fields_def)
  have b: "ba_entry \<lparr>ba_entry = (\<lambda>_. True), ba_param = (\<lambda>_. Some dirty_fields)\<rparr> 0"
      "ba_param \<lparr>ba_entry = (\<lambda>_. True), ba_param = (\<lambda>_. Some dirty_fields)\<rparr> 0 = Some dirty_fields" by simp_all
  from bulk_rule_lost_in_dirty_memory [OF d(2,5) demo_compiles c(1-3) b c(4-7), of 9] d(1)
  show ?thesis by blast
qed

end
