(* ===== verification/Spec2Isabelle.thy ===== *)
theory Spec2Isabelle
  imports Malloc Full_Copy Firewall_Bulk
begin

text \<open>
  \<^bold>\<open>A verified model of the enclave packet filter of SGX-DPDK.\<close>

  The program runs the firewall pipeline of DPDK's ip_pipeline application inside an SGX enclave. The
  untrusted host (src/App) receives packets, passes them through rings, and sends rule requests through
  message rings; the enclave (src/Enclave) takes packets from its input rings, copies or parses their
  headers, accounts the traffic in a count-min sketch, looks every packet up in an ACL table, and sends
  it to an output ring or drops it. The code that decides what happens to a packet is the subject here:
  the vendored DPDK libraries as changed for the enclave, and the enclave's own pipeline.

  \<^bold>\<open>Parts and theories.\<close> Stateful code is written as functions on explicit records; every function that can
  go wrong returns \<open>'a res = fault + 'a\<close> (theory Prelude), where a fault is what C leaves undefined
  (\<open>NullDeref\<close>, \<open>OutOfBounds\<close>, \<open>BadFree\<close>, \<open>Overflow\<close> of a signed integer), an abort (\<open>Panic\<close>), or the end of the fuel of a loop that may
  not end (\<open>OutOfFuel\<close>). Error codes are results. Names follow the C names.

  \<^item> Prelude: faults, C loops (\<open>rfold\<close>), arrays, 64-bit masks and their bits.
  \<^item> Ring: src/Enclave/include/dpdk/rte_ring.h and librte_ring/rte_ring.c. Head and tail are 32-bit words.
    Locale \<open>bounded_queue\<close> states the FIFO contract of bursts and \<open>object_queue\<close> that of single objects; both are
    interpreted on the ring's functions.
  \<^item> Pipeline: librte_pipeline/rte_pipeline.c, all functions; Pipeline_Run (what a run does to a burst),
    Port_Chain (the cycle of enabled input ports), Packet_Conservation (locale \<open>pipeline_world\<close>, the contract that
    ports and tables owe the pipeline, and the conservation of packets by a run).
  \<^item> Port_Ring, Port_Sink: librte_port/rte_port_ring.c and rte_port_source_sink.c; the locale \<open>mbuf_pool\<close> is what
    they need of the release of packets.
  \<^item> Mbuf: release of packets in rte_mbuf.h, with the OCALL for packets outside the enclave; it interprets
    \<open>mbuf_pool\<close>.
  \<^item> Acl, Table_Acl, Table_Acl_Correct, Table_Acl_Bulk: contexts of librte_acl/rte_acl.c, and
    librte_table/rte_table_acl.c as an implementation of a finite map from keys to priority and entry.
  \<^item> Sketch: count_min_sketch.c, header_copy.h and the CRC hash. Full_Copy: full_copy.c and \<open>rte_pktmbuf_copy\<close>.
  \<^item> Malloc: librte_eal/rte_malloc.c. Parser: src/App/ip_pipeline/parser.c.
  \<^item> Filter_World: the machine state of the enclave (ports, pool, tables, header cache, sketch), on which the
    contract of Packet_Conservation is interpreted (\<open>filter\<close>).
  \<^item> Firewall_BE: the handlers and the message queues of pipeline_firewall_be.c and pipeline_common_be.c.
    Firewall_Init: \<open>pipeline_firewall_parse_args\<close>, \<open>ecall_pipeline_firewall_init\<close>, the port selection of
    src/App/ip_pipeline/pipeline_be.h, and \<open>ecall_firewall_thread\<close> of firewall_thread.c.
  \<^item> Firewall_Correct, Firewall_Thread, Firewall_Loop, Firewall_Boot, Firewall_Props: the invariant \<open>fw_inv\<close> of the
    firewall; every request keeps it and changes the rule map as specified; queues are answered in order;
    the loop among the host's actions (the step relation \<open>fw_step\<close>) is safe; initialisation establishes the
    invariant.

  \<^item> Table_Acl_Found: what the bulk operations of the ACL table report in \<open>keys_found\<close> and \<open>entries_ptr\<close>.
  \<^item> Firewall_FE: the front end of the host, src/App/ip_pipeline/pipeline/pipeline_firewall.c (rule list, single, bulk
    and default operations, listing, rule files, the command) and the requests of pipeline_common_fe.c, over an
    arbitrary message exchange. Rule_Text: rules as text and their reading.
  \<^item> Firewall_Mirror, Firewall_Mirror_Bulk: the locale \<open>rule_service\<close>, what the enclave promises about its answers, and
    its extension \<open>bulk_service\<close> for requests with several keys; inside them, that the rule list of the host mirrors
    the table. Firewall_Channel: \<open>app_msg_send_recv\<close> with the enclave's main loop running meanwhile; it interprets
    \<open>rule_service\<close> (\<open>host\<close>).
  \<^item> Firewall_Host, Firewall_Bulk: the properties of the host and the enclave together; Firewall_Bulk interprets
    \<open>bulk_service\<close> (\<open>host_bulk\<close>), for an enclave that gets cleared memory.

  \<^bold>\<open>What is shown.\<close> From the bottom up: a ring is a bounded FIFO across wrap-around of its indices; ring and
  sink ports lose no packet and stay within their buffers; the ACL table refines a map, and a lookup
  returns the entry of a matching rule of highest priority; a pipeline run terminates, decides every packet
  as the tables say and accounts for each of them; enabling and disabling ports keeps their cycle and every
  enabled port is served. On top of these: initialisation succeeds for sound parameters and yields a state
  that satisfies the invariant; every well-formed request is answered and keeps it; add, delete and default
  requests refine updates of the rule map; each queue is answered in order and within sixteen iterations, one
  response per request; and the main loop never faults, never hangs and conserves the packets among a host that
  moves packets and responses as it likes and sends well-formed requests, no more than the response ring can answer
  (and IPv4 packets if assertions are compiled in). These conditions are needed: a request with a port number that does not exist reads past an
  array, and a full response ring blocks the loop. For host and enclave together: a session of commands keeps the rule list
  of the host in step with the table of the enclave, in its 5-tuples, output ports, count and default, though not in the
  priorities; rules are added and deleted on both sides or on neither, one by one and in bulk;
  a rule written as text is read back exactly; rule files are read line by line; the listing is sorted. Where
  the code does not do what it means to, the theorem says what it does: the
  enclave's \<open>rte_zmalloc\<close> does not clear memory, so that a rule added in bulk may never be found again; a bulk
  deletion with an unknown key leaves list and table different; a new priority for an existing rule is recorded
  but not in force; a response that comes too late answers the next request; the topology check of the pipeline accepts loops, a ring
  of size 0 is accepted, the sketch is updated under one key and read under another, handlers index arrays
  with unchecked numbers, the full-copy build leaks the copy of every packet that \<open>rte_pipeline_run\<close> drops, so that its pool of 64 is used up
  and the enclave aborts, and others.

  \<^bold>\<open>Output ports.\<close> All writers of rte_port_ring.c are modelled in Port_Ring, the dropless (\<open>nodrop\<close>) ones with their retries
  as fuel. A dropless writer with no limit of retries waits for a reader: it is shown to block when there is none. The
  theorems on runs, initialisation and main loop are for writers that may drop and for sinks (\<open>port_out_ok\<close>, \<open>out_param_ok\<close>);
  src/App/ip_pipeline/init.c makes the writers dropless for queues that the configuration marks so, as config/sgx_firewall.cfg
  does, and for that configuration the absence of hangs depends on the host and is not claimed.

  \<^bold>\<open>Fuel.\<close> The loops that may not end take fuel. A run of the pipeline visits tables in increasing order under
  the invariant, so as many steps as there are tables are enough, and the theorems say so; the retry loops
  of \<open>nodrop\<close> writers and of \<open>pipeline_msg_send\<close> depend on a reader and are shown to block without one; the
  message loop needs one step more than the queue holds; the front end polls for a response as often as its
  clock allows, and sixteen iterations of the enclave during the polls are enough for an answer; the release of an mbuf needs one step per segment.

  \<^bold>\<open>Parameters.\<close> The ACL compiler and the vectorised classifiers are the record \<open>acl_lib\<close> with the documented
  contract \<open>acl_contract\<close>, which is satisfiable for every matching relation (\<open>best_contract\<close>); where a theorem says that
  an operation succeeds, it asks that memory is delivered and every non-empty rule list compiles (\<open>can_build\<close>).
  The priority of a rule is an unbounded integer in \<open>new_rule\<close>: in C the difference overflows for priorities below -1610612736, which
  are refused in both. What memory
  allocation delivers, random numbers, and what other threads do to shared rings are arguments.

  \<^bold>\<open>Not modelled.\<close> The ACL trie compiler and the SIMD classifiers, which are a parameter with their documented
  contract; interleavings inside one ring operation (multi-producer operations are modelled as one thread sees
  them alone); EAL start-up, logging, timers and OCALL glue, which only do input and output; of the host the
  configuration parser, start-up, threads, the commands for links and the pipelines other than the firewall,
  on whose results the enclave does not rely: initialisation is modelled for arbitrary parameters and the main loop
  among the actions of the host; capture files of source and sink ports, which this build does not
  compile. Statistics counters of ports are compiled out and only change when cleared. The blocks that the
  front end leaks are not tracked.

  \<^bold>\<open>Where it could grow.\<close> The configuration checker and the core map of the host, and the scalar ACL classifier
  against \<open>acl_contract\<close>.
\<close>

end
